(* ===== verification/Prelude.thy ===== *)
theory Prelude
  imports Main "HOL-Library.Word"
begin

text \<open>
  Shared vocabulary of the development: machine types, the collections that the component
  theories fill, C's view of a NUL-terminated character array, the character classes of
  \<^verbatim>\<open>include/safe-ctype.h\<close> and \<^verbatim>\<open>libiberty/hex.c\<close>, and the generic lemmas on bits, words, numbers
  and lists that the component proofs rewrite with.
\<close>

unbundle bit_operations_syntax

section \<open>Collections\<close>

named_theorems num_simps "rewriting an operation on cpp_num to its effect on the value read off it"
named_theorems flag_simps "membership of single flag bits in the flag words of the code"
named_theorems char_simps "evaluation of the character classes"

section \<open>Machine types\<close>

type_synonym uchar = char
type_synonym byte = "8 word"
type_synonym uint = "32 word"
type_synonym cppchar_t = "32 word"

text \<open>C's conversion of a truth value to an integer.\<close>

definition of_bool_word :: "bool \<Rightarrow> 'a::len word" where
  "of_bool_word b = (if b then 1 else 0)"

lemma of_bool_word_simps [simp]:
  "of_bool_word True = 1" "of_bool_word False = 0"
  "of_bool_word b = 0 \<longleftrightarrow> \<not> b"
  by (simp_all add: of_bool_word_def)

lemma unat_of_bool_word [simp]: "unat (of_bool_word b :: 'a::len word) = (if b then 1 else 0)"
  by (simp add: of_bool_word_def)

text \<open>\<^verbatim>\<open>a[i]\<close>, with nothing outside the array.\<close>

definition elem :: "'a list \<Rightarrow> nat \<Rightarrow> 'a option" where
  "elem a i = (if i < length a then Some (a ! i) else None)"

lemma elem_nth [simp]: "i < length a \<Longrightarrow> elem a i = Some (a ! i)"
  by (simp add: elem_def)

lemma elem_Some: "elem a i = Some x \<longleftrightarrow> i < length a \<and> a ! i = x"
  by (simp add: elem_def)

section \<open>NUL-terminated text\<close>

text \<open>
  The code reads the spelling of a token through a pointer and relies on the NUL that the
  lexer stores behind it. A pointer into the text is the list of the characters from there
  on; \<open>at s i\<close> is \<^verbatim>\<open>s[i]\<close>, the NUL where the text has ended.
\<close>

definition NUL :: uchar where
  "NUL = char_of (0::nat)"

lemma NUL_char: "NUL = CHR 0x00"
  by (simp add: NUL_def char_of_eq_iff)

definition at :: "uchar list \<Rightarrow> nat \<Rightarrow> uchar" where
  "at s i = (if i < length s then s ! i else NUL)"

lemma at_simps [simp]:
  "at [] i = NUL" "at (c # s) 0 = c" "at (c # s) (Suc i) = at s i"
  by (simp_all add: at_def)

lemma at_numeral [simp]: "at (c # s) (numeral k) = at s (pred_numeral k)"
  by (simp add: numeral_eq_Suc)

lemma at_one [simp]: "at (c # s) 1 = at s 0"
  by (simp add: One_nat_def)

section \<open>Character classes\<close>

definition ISDIGIT :: "uchar \<Rightarrow> bool" where
  "ISDIGIT c = (48 \<le> (of_char c :: nat) \<and> (of_char c :: nat) \<le> 57)"

definition ISXDIGIT :: "uchar \<Rightarrow> bool" where
  "ISXDIGIT c =
     (ISDIGIT c
      \<or> (65 \<le> (of_char c :: nat) \<and> (of_char c :: nat) \<le> 70)
      \<or> (97 \<le> (of_char c :: nat) \<and> (of_char c :: nat) \<le> 102))"

text \<open>The table \<^verbatim>\<open>_hex_value\<close>; \<^verbatim>\<open>_hex_bad\<close> is 99.\<close>

definition hex_value :: "uchar \<Rightarrow> nat" where
  "hex_value c =
     (let n = (of_char c :: nat) in
      if 48 \<le> n \<and> n \<le> 57 then n - 48
      else if 65 \<le> n \<and> n \<le> 70 then n - 55
      else if 97 \<le> n \<and> n \<le> 102 then n - 87
      else 99)"

lemma ISDIGIT_ISXDIGIT: "ISDIGIT c \<Longrightarrow> ISXDIGIT c"
  by (simp add: ISXDIGIT_def)

lemma hex_value_digit: "ISDIGIT c \<Longrightarrow> hex_value c < 10"
  by (auto simp: ISDIGIT_def hex_value_def Let_def)

lemma hex_value_xdigit: "ISXDIGIT c \<Longrightarrow> hex_value c < 16"
  by (auto simp: ISDIGIT_def ISXDIGIT_def hex_value_def Let_def)

lemma NUL_not_digit [simp]: "\<not> ISDIGIT NUL" "\<not> ISXDIGIT NUL"
  by (simp_all add: ISDIGIT_def ISXDIGIT_def NUL_def)

lemmas char_class_defs [char_simps] = ISDIGIT_def ISXDIGIT_def hex_value_def Let_def

section \<open>Numbers and bits\<close>

lemma unat_less_64: "unat (w :: 64 word) < 2 ^ 64"
  using unsigned_less[of w, where ?'a = nat] by simp

lemma unat_less_64_num: "unat (w :: 64 word) < 18446744073709551616"
  using unat_less_64[of w] by simp

lemma less_exp_mono: "(x :: nat) < 2 ^ k \<Longrightarrow> k \<le> l \<Longrightarrow> x < 2 ^ l"
  by (erule order.strict_trans2) (simp add: power_increasing)

lemma nat_bit_ext: "(\<And>i. bit (m::nat) i \<longleftrightarrow> bit n i) \<Longrightarrow> m = n"
  by (rule bit_eqI) simp

lemma nat_take_bit_mod: "(n::nat) mod 2 ^ k = take_bit k n"
  by (simp add: take_bit_eq_mod)

lemma bit_less_exp: "bit (n::nat) i \<Longrightarrow> n < 2 ^ k \<Longrightarrow> i < k"
  by (metis bit_take_bit_iff take_bit_nat_eq_self)

lemma less_exp_iff_bits: "(n::nat) < 2 ^ k \<longleftrightarrow> (\<forall>i\<ge>k. \<not> bit n i)"
proof
  assume "n < 2 ^ k"
  then show "\<forall>i\<ge>k. \<not> bit n i"
    using bit_less_exp not_le by blast
next
  assume h: "\<forall>i\<ge>k. \<not> bit n i"
  have "take_bit k n = n"
    using h by (intro bit_eqI) (auto simp: bit_take_bit_iff not_le[symmetric])
  then show "n < 2 ^ k"
    by (metis take_bit_nat_less_exp)
qed

lemma top_bit_iff:
  assumes "(n::nat) < 2 ^ Suc k" shows "bit n k \<longleftrightarrow> 2 ^ k \<le> n"
proof -
  have "n div 2 ^ k < 2"
    using assms by (simp add: less_mult_imp_div_less)
  then have "odd (n div 2 ^ k) \<longleftrightarrow> n div 2 ^ k \<noteq> 0"
    by (cases "n div 2 ^ k") auto
  then show ?thesis
    by (simp add: bit_iff_odd div_eq_0_iff not_less)
qed

text \<open>Masks, shifts and powers of two in 32 bits.\<close>

lemma unat_less_32: "unat (w :: uint) < 2 ^ 32"
  using unsigned_less[of w, where ?'a = nat] by simp

lemma unat_exp: "k < 32 \<Longrightarrow> unat (2 ^ k :: uint) = 2 ^ k"
  using unat_of_nat[of "2 ^ k", where 'a = 32] power_strict_increasing[of k 32 "2::nat"] by simp

lemma unat_and_size: "k < 32 \<Longrightarrow> unat (w AND (2 ^ k - 1 :: uint)) = unat w mod 2 ^ k"
  by (simp flip: mask_eq_exp_minus_1 take_bit_eq_mask) (simp add: unsigned_take_bit_eq take_bit_eq_mod[of k "unat w"])

lemma unat_and_not_size:
  assumes "k < 32" shows "unat (w AND NOT (2 ^ k - 1 :: uint)) = unat w - unat w mod 2 ^ k"
proof -
  let ?m = "2 ^ k - 1 :: uint"
  have "w AND NOT ?m = w - (w AND ?m)"
    by (subst disjunctive_diff) (auto intro!: bit_eqI simp: bit_simps)
  moreover have "w AND ?m \<le> w"
    using assms by (simp only: word_le_nat_alt unat_and_size) simp
  ultimately show ?thesis
    using assms by (simp only: unat_sub unat_and_size)
qed

lemma unat_drop_bit: "unat (drop_bit k (w :: uint)) = unat w div 2 ^ k"
proof -
  have "take_bit 32 (unat w) = unat w"
    using unat_less_32[of w] by (simp add: take_bit_nat_eq_self)
  then show ?thesis
    by (simp add: unsigned_drop_bit_eq drop_bit_eq_div[of k "unat w"])
qed

end
