(* ===== verification/Cpp_Reader.thy ===== *)
theory Cpp_Reader
  imports Prelude
begin

text \<open>
  The data model shared by the preprocessor components: token types and tokens, the language
  kinds and options, hash nodes, diagnostics and the \<open>cpp_reader\<close> state, from
  \<^verbatim>\<open>libcpp/include/cpplib.h\<close>, \<^verbatim>\<open>libcpp/internal.h\<close> and \<^verbatim>\<open>libcpp/init.c\<close>. Only the fields that
  the modelled functions read or write are present. Bit-fields and flag characters of the
  source are \<open>bool\<close>; counters keep their width.
\<close>

section \<open>Token types\<close>

text \<open>\<^verbatim>\<open>enum cpp_ttype\<close>, in the order of \<^verbatim>\<open>TTYPE_TABLE\<close>.\<close>

datatype (plugins only: ) cpp_ttype =
     CPP_EQ | CPP_NOT | CPP_GREATER | CPP_LESS | CPP_PLUS | CPP_MINUS | CPP_MULT | CPP_DIV
   | CPP_MOD | CPP_AND | CPP_OR | CPP_XOR | CPP_RSHIFT | CPP_LSHIFT | CPP_COMPL | CPP_AND_AND
   | CPP_OR_OR | CPP_QUERY | CPP_COLON | CPP_COMMA | CPP_OPEN_PAREN | CPP_CLOSE_PAREN | CPP_EOF
   | CPP_EQ_EQ | CPP_NOT_EQ | CPP_GREATER_EQ | CPP_LESS_EQ | CPP_PLUS_EQ | CPP_MINUS_EQ
   | CPP_MULT_EQ | CPP_DIV_EQ | CPP_MOD_EQ | CPP_AND_EQ | CPP_OR_EQ | CPP_XOR_EQ
   | CPP_RSHIFT_EQ | CPP_LSHIFT_EQ | CPP_HASH | CPP_PASTE | CPP_OPEN_SQUARE | CPP_CLOSE_SQUARE
   | CPP_OPEN_BRACE | CPP_CLOSE_BRACE | CPP_SEMICOLON | CPP_ELLIPSIS | CPP_PLUS_PLUS
   | CPP_MINUS_MINUS | CPP_DEREF | CPP_DOT | CPP_SCOPE | CPP_DEREF_STAR | CPP_DOT_STAR
   | CPP_ATSIGN | CPP_NAME | CPP_AT_NAME | CPP_NUMBER | CPP_CHAR | CPP_WCHAR | CPP_CHAR16
   | CPP_CHAR32 | CPP_UTF8CHAR | CPP_OTHER | CPP_STRING | CPP_WSTRING | CPP_STRING16
   | CPP_STRING32 | CPP_UTF8STRING | CPP_OBJC_STRING | CPP_HEADER_NAME | CPP_CHAR_USERDEF
   | CPP_WCHAR_USERDEF | CPP_CHAR16_USERDEF | CPP_CHAR32_USERDEF | CPP_UTF8CHAR_USERDEF
   | CPP_STRING_USERDEF | CPP_WSTRING_USERDEF | CPP_STRING16_USERDEF | CPP_STRING32_USERDEF
   | CPP_UTF8STRING_USERDEF | CPP_COMMENT | CPP_MACRO_ARG | CPP_PRAGMA | CPP_PRAGMA_EOL
   | CPP_PADDING

text \<open>The numbering that the enumeration gives to its members, and the table it indexes.\<close>

primrec ttype_ord :: "cpp_ttype \<Rightarrow> nat" where
  "ttype_ord CPP_EQ = 0"
| "ttype_ord CPP_NOT = 1"
| "ttype_ord CPP_GREATER = 2"
| "ttype_ord CPP_LESS = 3"
| "ttype_ord CPP_PLUS = 4"
| "ttype_ord CPP_MINUS = 5"
| "ttype_ord CPP_MULT = 6"
| "ttype_ord CPP_DIV = 7"
| "ttype_ord CPP_MOD = 8"
| "ttype_ord CPP_AND = 9"
| "ttype_ord CPP_OR = 10"
| "ttype_ord CPP_XOR = 11"
| "ttype_ord CPP_RSHIFT = 12"
| "ttype_ord CPP_LSHIFT = 13"
| "ttype_ord CPP_COMPL = 14"
| "ttype_ord CPP_AND_AND = 15"
| "ttype_ord CPP_OR_OR = 16"
| "ttype_ord CPP_QUERY = 17"
| "ttype_ord CPP_COLON = 18"
| "ttype_ord CPP_COMMA = 19"
| "ttype_ord CPP_OPEN_PAREN = 20"
| "ttype_ord CPP_CLOSE_PAREN = 21"
| "ttype_ord CPP_EOF = 22"
| "ttype_ord CPP_EQ_EQ = 23"
| "ttype_ord CPP_NOT_EQ = 24"
| "ttype_ord CPP_GREATER_EQ = 25"
| "ttype_ord CPP_LESS_EQ = 26"
| "ttype_ord CPP_PLUS_EQ = 27"
| "ttype_ord CPP_MINUS_EQ = 28"
| "ttype_ord CPP_MULT_EQ = 29"
| "ttype_ord CPP_DIV_EQ = 30"
| "ttype_ord CPP_MOD_EQ = 31"
| "ttype_ord CPP_AND_EQ = 32"
| "ttype_ord CPP_OR_EQ = 33"
| "ttype_ord CPP_XOR_EQ = 34"
| "ttype_ord CPP_RSHIFT_EQ = 35"
| "ttype_ord CPP_LSHIFT_EQ = 36"
| "ttype_ord CPP_HASH = 37"
| "ttype_ord CPP_PASTE = 38"
| "ttype_ord CPP_OPEN_SQUARE = 39"
| "ttype_ord CPP_CLOSE_SQUARE = 40"
| "ttype_ord CPP_OPEN_BRACE = 41"
| "ttype_ord CPP_CLOSE_BRACE = 42"
| "ttype_ord CPP_SEMICOLON = 43"
| "ttype_ord CPP_ELLIPSIS = 44"
| "ttype_ord CPP_PLUS_PLUS = 45"
| "ttype_ord CPP_MINUS_MINUS = 46"
| "ttype_ord CPP_DEREF = 47"
| "ttype_ord CPP_DOT = 48"
| "ttype_ord CPP_SCOPE = 49"
| "ttype_ord CPP_DEREF_STAR = 50"
| "ttype_ord CPP_DOT_STAR = 51"
| "ttype_ord CPP_ATSIGN = 52"
| "ttype_ord CPP_NAME = 53"
| "ttype_ord CPP_AT_NAME = 54"
| "ttype_ord CPP_NUMBER = 55"
| "ttype_ord CPP_CHAR = 56"
| "ttype_ord CPP_WCHAR = 57"
| "ttype_ord CPP_CHAR16 = 58"
| "ttype_ord CPP_CHAR32 = 59"
| "ttype_ord CPP_UTF8CHAR = 60"
| "ttype_ord CPP_OTHER = 61"
| "ttype_ord CPP_STRING = 62"
| "ttype_ord CPP_WSTRING = 63"
| "ttype_ord CPP_STRING16 = 64"
| "ttype_ord CPP_STRING32 = 65"
| "ttype_ord CPP_UTF8STRING = 66"
| "ttype_ord CPP_OBJC_STRING = 67"
| "ttype_ord CPP_HEADER_NAME = 68"
| "ttype_ord CPP_CHAR_USERDEF = 69"
| "ttype_ord CPP_WCHAR_USERDEF = 70"
| "ttype_ord CPP_CHAR16_USERDEF = 71"
| "ttype_ord CPP_CHAR32_USERDEF = 72"
| "ttype_ord CPP_UTF8CHAR_USERDEF = 73"
| "ttype_ord CPP_STRING_USERDEF = 74"
| "ttype_ord CPP_WSTRING_USERDEF = 75"
| "ttype_ord CPP_STRING16_USERDEF = 76"
| "ttype_ord CPP_STRING32_USERDEF = 77"
| "ttype_ord CPP_UTF8STRING_USERDEF = 78"
| "ttype_ord CPP_COMMENT = 79"
| "ttype_ord CPP_MACRO_ARG = 80"
| "ttype_ord CPP_PRAGMA = 81"
| "ttype_ord CPP_PRAGMA_EOL = 82"
| "ttype_ord CPP_PADDING = 83"

definition ttype_table :: "cpp_ttype list" where
  "ttype_table =
    [CPP_EQ, CPP_NOT, CPP_GREATER, CPP_LESS, CPP_PLUS,
     CPP_MINUS, CPP_MULT, CPP_DIV, CPP_MOD, CPP_AND,
     CPP_OR, CPP_XOR, CPP_RSHIFT, CPP_LSHIFT, CPP_COMPL,
     CPP_AND_AND, CPP_OR_OR, CPP_QUERY, CPP_COLON, CPP_COMMA,
     CPP_OPEN_PAREN, CPP_CLOSE_PAREN, CPP_EOF, CPP_EQ_EQ, CPP_NOT_EQ,
     CPP_GREATER_EQ, CPP_LESS_EQ, CPP_PLUS_EQ, CPP_MINUS_EQ, CPP_MULT_EQ,
     CPP_DIV_EQ, CPP_MOD_EQ, CPP_AND_EQ, CPP_OR_EQ, CPP_XOR_EQ,
     CPP_RSHIFT_EQ, CPP_LSHIFT_EQ, CPP_HASH, CPP_PASTE, CPP_OPEN_SQUARE,
     CPP_CLOSE_SQUARE, CPP_OPEN_BRACE, CPP_CLOSE_BRACE, CPP_SEMICOLON, CPP_ELLIPSIS,
     CPP_PLUS_PLUS, CPP_MINUS_MINUS, CPP_DEREF, CPP_DOT, CPP_SCOPE,
     CPP_DEREF_STAR, CPP_DOT_STAR, CPP_ATSIGN, CPP_NAME, CPP_AT_NAME,
     CPP_NUMBER, CPP_CHAR, CPP_WCHAR, CPP_CHAR16, CPP_CHAR32,
     CPP_UTF8CHAR, CPP_OTHER, CPP_STRING, CPP_WSTRING, CPP_STRING16,
     CPP_STRING32, CPP_UTF8STRING, CPP_OBJC_STRING, CPP_HEADER_NAME, CPP_CHAR_USERDEF,
     CPP_WCHAR_USERDEF, CPP_CHAR16_USERDEF, CPP_CHAR32_USERDEF, CPP_UTF8CHAR_USERDEF, CPP_STRING_USERDEF,
     CPP_WSTRING_USERDEF, CPP_STRING16_USERDEF, CPP_STRING32_USERDEF, CPP_UTF8STRING_USERDEF, CPP_COMMENT,
     CPP_MACRO_ARG, CPP_PRAGMA, CPP_PRAGMA_EOL, CPP_PADDING]"

lemma ttype_table_ord: "ttype_table ! ttype_ord t = t"
  by (cases t) (simp_all add: ttype_table_def)

lemma ttype_ord_inj: "ttype_ord s = ttype_ord t \<longleftrightarrow> s = t"
  by (metis ttype_table_ord)

text \<open>C compares token types as integers.\<close>

instantiation cpp_ttype :: linorder
begin

definition less_eq_cpp_ttype :: "cpp_ttype \<Rightarrow> cpp_ttype \<Rightarrow> bool" where
  "less_eq_cpp_ttype s t \<longleftrightarrow> ttype_ord s \<le> ttype_ord t"

definition less_cpp_ttype :: "cpp_ttype \<Rightarrow> cpp_ttype \<Rightarrow> bool" where
  "less_cpp_ttype s t \<longleftrightarrow> ttype_ord s < ttype_ord t"

instance
  by standard (auto simp: less_eq_cpp_ttype_def less_cpp_ttype_def ttype_ord_inj)

end

instantiation cpp_ttype :: equal
begin

definition equal_cpp_ttype :: "cpp_ttype \<Rightarrow> cpp_ttype \<Rightarrow> bool" where
  "equal_cpp_ttype s t \<longleftrightarrow> ttype_ord s = ttype_ord t"

instance
  by standard (simp add: equal_cpp_ttype_def ttype_ord_inj)

end

text \<open>
  \<^verbatim>\<open>CPP_LAST_CPP_OP\<close> is \<^verbatim>\<open>CPP_LESS_EQ\<close>; the two types behind it stand for unary plus and
  minus in expressions.
\<close>

abbreviation CPP_LAST_CPP_OP :: cpp_ttype where "CPP_LAST_CPP_OP \<equiv> CPP_LESS_EQ"
abbreviation CPP_UPLUS :: cpp_ttype where "CPP_UPLUS \<equiv> CPP_PLUS_EQ"
abbreviation CPP_UMINUS :: cpp_ttype where "CPP_UMINUS \<equiv> CPP_MINUS_EQ"

section \<open>Languages and options\<close>

text \<open>\<^verbatim>\<open>enum c_lang\<close>; the code compares its members as integers.\<close>

datatype c_lang =
  CLK_GNUC89 | CLK_GNUC99 | CLK_GNUC11 | CLK_GNUC17 | CLK_GNUC2X | CLK_STDC89 | CLK_STDC94 |
  CLK_STDC99 | CLK_STDC11 | CLK_STDC17 | CLK_STDC2X | CLK_GNUCXX | CLK_CXX98 | CLK_GNUCXX11
  | CLK_CXX11 | CLK_GNUCXX14 | CLK_CXX14 | CLK_GNUCXX17 | CLK_CXX17 | CLK_GNUCXX2A |
  CLK_CXX2A | CLK_ASM

primrec lang_ord :: "c_lang \<Rightarrow> nat" where
  "lang_ord CLK_GNUC89 = 0"
| "lang_ord CLK_GNUC99 = 1"
| "lang_ord CLK_GNUC11 = 2"
| "lang_ord CLK_GNUC17 = 3"
| "lang_ord CLK_GNUC2X = 4"
| "lang_ord CLK_STDC89 = 5"
| "lang_ord CLK_STDC94 = 6"
| "lang_ord CLK_STDC99 = 7"
| "lang_ord CLK_STDC11 = 8"
| "lang_ord CLK_STDC17 = 9"
| "lang_ord CLK_STDC2X = 10"
| "lang_ord CLK_GNUCXX = 11"
| "lang_ord CLK_CXX98 = 12"
| "lang_ord CLK_GNUCXX11 = 13"
| "lang_ord CLK_CXX11 = 14"
| "lang_ord CLK_GNUCXX14 = 15"
| "lang_ord CLK_CXX14 = 16"
| "lang_ord CLK_GNUCXX17 = 17"
| "lang_ord CLK_CXX17 = 18"
| "lang_ord CLK_GNUCXX2A = 19"
| "lang_ord CLK_CXX2A = 20"
| "lang_ord CLK_ASM = 21"

text \<open>\<^verbatim>\<open>struct lang_flags\<close> and the rows of \<^verbatim>\<open>lang_defaults\<close>.\<close>

record lang_flags =
  lf_c99 :: bool
  lf_cplusplus :: bool
  lf_extended_numbers :: bool
  lf_extended_identifiers :: bool
  lf_c11_identifiers :: bool
  lf_std :: bool
  lf_digraphs :: bool
  lf_uliterals :: bool
  lf_rliterals :: bool
  lf_user_literals :: bool
  lf_binary_constants :: bool
  lf_digit_separators :: bool
  lf_trigraphs :: bool
  lf_utf8_char_literals :: bool
  lf_va_opt :: bool

definition flags_of :: "nat list \<Rightarrow> lang_flags" where
  "flags_of r =
     \<lparr>lf_c99 = r ! 0 = 1, lf_cplusplus = r ! 1 = 1, lf_extended_numbers = r ! 2 = 1,
      lf_extended_identifiers = r ! 3 = 1, lf_c11_identifiers = r ! 4 = 1, lf_std = r ! 5 = 1,
      lf_digraphs = r ! 6 = 1, lf_uliterals = r ! 7 = 1, lf_rliterals = r ! 8 = 1,
      lf_user_literals = r ! 9 = 1, lf_binary_constants = r ! 10 = 1, lf_digit_separators = r
      ! 11 = 1, lf_trigraphs = r ! 12 = 1, lf_utf8_char_literals = r ! 13 = 1, lf_va_opt = r !
      14 = 1\<rparr>"

primrec lang_defaults :: "c_lang \<Rightarrow> lang_flags" where
  "lang_defaults CLK_GNUC89 = flags_of [0, 0, 1, 0, 0, 0, 1, 0, 0, 0, 0, 0, 0, 0, 1]"
| "lang_defaults CLK_GNUC99 = flags_of [1, 0, 1, 1, 0, 0, 1, 1, 1, 0, 0, 0, 0, 0, 1]"
| "lang_defaults CLK_GNUC11 = flags_of [1, 0, 1, 1, 1, 0, 1, 1, 1, 0, 0, 0, 0, 0, 1]"
| "lang_defaults CLK_GNUC17 = flags_of [1, 0, 1, 1, 1, 0, 1, 1, 1, 0, 0, 0, 0, 0, 1]"
| "lang_defaults CLK_GNUC2X = flags_of [1, 0, 1, 1, 1, 0, 1, 1, 1, 0, 0, 0, 0, 0, 1]"
| "lang_defaults CLK_STDC89 = flags_of [0, 0, 0, 0, 0, 1, 0, 0, 0, 0, 0, 0, 1, 0, 0]"
| "lang_defaults CLK_STDC94 = flags_of [0, 0, 0, 0, 0, 1, 1, 0, 0, 0, 0, 0, 1, 0, 0]"
| "lang_defaults CLK_STDC99 = flags_of [1, 0, 1, 1, 0, 1, 1, 0, 0, 0, 0, 0, 1, 0, 0]"
| "lang_defaults CLK_STDC11 = flags_of [1, 0, 1, 1, 1, 1, 1, 1, 0, 0, 0, 0, 1, 0, 0]"
| "lang_defaults CLK_STDC17 = flags_of [1, 0, 1, 1, 1, 1, 1, 1, 0, 0, 0, 0, 1, 0, 0]"
| "lang_defaults CLK_STDC2X = flags_of [1, 0, 1, 1, 1, 1, 1, 1, 0, 0, 0, 0, 1, 0, 0]"
| "lang_defaults CLK_GNUCXX = flags_of [0, 1, 1, 1, 0, 0, 1, 0, 0, 0, 0, 0, 0, 0, 1]"
| "lang_defaults CLK_CXX98 = flags_of [0, 1, 0, 1, 0, 1, 1, 0, 0, 0, 0, 0, 1, 0, 0]"
| "lang_defaults CLK_GNUCXX11 = flags_of [1, 1, 1, 1, 1, 0, 1, 1, 1, 1, 0, 0, 0, 0, 1]"
| "lang_defaults CLK_CXX11 = flags_of [1, 1, 0, 1, 1, 1, 1, 1, 1, 1, 0, 0, 1, 0, 0]"
| "lang_defaults CLK_GNUCXX14 = flags_of [1, 1, 1, 1, 1, 0, 1, 1, 1, 1, 1, 1, 0, 0, 1]"
| "lang_defaults CLK_CXX14 = flags_of [1, 1, 0, 1, 1, 1, 1, 1, 1, 1, 1, 1, 1, 0, 0]"
| "lang_defaults CLK_GNUCXX17 = flags_of [1, 1, 1, 1, 1, 0, 1, 1, 1, 1, 1, 1, 0, 1, 1]"
| "lang_defaults CLK_CXX17 = flags_of [1, 1, 1, 1, 1, 1, 1, 1, 1, 1, 1, 1, 0, 1, 0]"
| "lang_defaults CLK_GNUCXX2A = flags_of [1, 1, 1, 1, 1, 0, 1, 1, 1, 1, 1, 1, 0, 1, 1]"
| "lang_defaults CLK_CXX2A = flags_of [1, 1, 1, 1, 1, 1, 1, 1, 1, 1, 1, 1, 0, 1, 1]"
| "lang_defaults CLK_ASM = flags_of [0, 0, 1, 0, 0, 0, 0, 0, 0, 0, 0, 0, 0, 0, 0]"

text \<open>The members of \<^verbatim>\<open>struct cpp_options\<close> that the modelled code uses.\<close>

record cpp_options =
  lang :: c_lang
  c99 :: bool
  cplusplus :: bool
  extended_numbers :: bool
  extended_identifiers :: bool
  c11_identifiers :: bool
  std :: bool
  digraphs :: bool
  uliterals :: bool
  rliterals :: bool
  user_literals :: bool
  binary_constants :: bool
  digit_separators :: bool
  trigraphs :: bool
  utf8_char_literals :: bool
  va_opt :: bool
  warn_multichar :: bool
  cpp_warn_deprecated :: bool
  cpp_warn_traditional :: bool
  cpp_warn_long_long :: bool
  warn_endif_labels :: bool
  warn_num_sign_change :: bool
  warn_undef :: bool
  warn_expansion_to_defined :: bool
  cpp_pedantic :: bool
  traditional :: bool
  ext_numeric_literals :: bool
  precision :: nat
  char_precision :: nat
  int_precision :: nat
  wchar_precision :: nat
  unsigned_char :: bool
  unsigned_wchar :: bool
  bytes_big_endian :: bool
  preprocessed :: bool
  directives_only :: bool
  objc :: bool
  discard_comments :: bool
  cpp_warn_c90_c99_compat :: bool  \<comment> \<open>whether it is positive\<close>
  dollars_in_ident :: bool
  warn_dollars :: bool
  narrow_charset :: "string option"
  wide_charset :: "string option"

text \<open>
  What the build fixes about the host: the widths of \<^verbatim>\<open>size_t\<close> and \<^verbatim>\<open>long\<close>. OS/2 is a
  32-bit host.
\<close>

record host_info =
  size_t_bits :: nat
  long_bits :: nat

definition host_os2 :: host_info where
  "host_os2 = \<lparr>size_t_bits = 32, long_bits = 32\<rparr>"

definition host_lp64 :: host_info where
  "host_lp64 = \<lparr>size_t_bits = 64, long_bits = 64\<rparr>"

section \<open>Diagnostics\<close>

datatype cpp_diagnostic_level =
  CPP_DL_WARNING | CPP_DL_WARNING_SYSHDR | CPP_DL_PEDWARN | CPP_DL_ERROR | CPP_DL_ICE
  | CPP_DL_NOTE | CPP_DL_FATAL

text \<open>The members of \<^verbatim>\<open>enum cpp_warning_reason\<close> that the modelled code passes.\<close>

datatype cpp_warning_reason =
  CPP_W_NONE | CPP_W_DEPRECATED | CPP_W_MULTICHAR | CPP_W_TRADITIONAL | CPP_W_LONG_LONG
  | CPP_W_ENDIF_LABELS | CPP_W_UNDEF | CPP_W_PEDANTIC | CPP_W_EXPANSION_TO_DEFINED

type_synonym location_t = "32 word"

text \<open>
  A diagnostic call: its level, its reason code, the explicit location if the call has one,
  and the message id. The arguments formatted into the message are left out.
\<close>

datatype cpp_diag =
  Diag (diag_level: cpp_diagnostic_level) (diag_reason: cpp_warning_reason)
       (diag_loc: "location_t option") (diag_msg: string)

section \<open>Tokens and hash nodes\<close>

text \<open>
  A hash node is unique for its spelling, so a pointer to a node is modelled by the
  identifier's name and what the node holds is found in \<open>nodes\<close> below.
\<close>

type_synonym node_ref = string

text \<open>
  The union \<^verbatim>\<open>cpp_token_u\<close>: a spelling, a node with the spelling it was written in, or the number
  of a paste operator.
\<close>

datatype token_val = Val_none | Val_str "uchar list" | Val_node node_ref node_ref | Val_token_no uint

record cpp_token =
  src_loc :: location_t
  type :: cpp_ttype
  flags :: "16 word"
  val :: token_val

definition PREV_WHITE :: "16 word" where "PREV_WHITE = 1"
definition NAMED_OP :: "16 word" where "NAMED_OP = 16"

text \<open>The union members \<^verbatim>\<open>val.str.text\<close> and \<^verbatim>\<open>val.node.node\<close>.\<close>

primrec val_text :: "token_val \<Rightarrow> uchar list" where
  "val_text Val_none = []"
| "val_text (Val_str s) = s"
| "val_text (Val_node n m) = []"
| "val_text (Val_token_no k) = []"

primrec val_node :: "token_val \<Rightarrow> node_ref option" where
  "val_node Val_none = None"
| "val_node (Val_str s) = None"
| "val_node (Val_node n m) = Some n"
| "val_node (Val_token_no k) = None"

text \<open>The enumeration that \<^verbatim>\<open>DIRECTIVE_TABLE\<close> gives.\<close>

datatype directive_type =
  T_DEFINE | T_INCLUDE | T_ENDIF | T_IFDEF | T_IF | T_ELSE | T_IFNDEF | T_UNDEF | T_LINE | T_ELIF
| T_ERROR | T_PRAGMA | T_WARNING | T_INCLUDE_NEXT | T_IDENT | T_IMPORT | T_ASSERT | T_UNASSERT | T_SCCS

text \<open>The first column of the table, \<^verbatim>\<open>directive_names\<close>.\<close>

definition directive_names :: "(string \<times> directive_type) list" where
  "directive_names =
     [(''define'', T_DEFINE), (''include'', T_INCLUDE), (''endif'', T_ENDIF), (''ifdef'', T_IFDEF), (''if'', T_IF),
      (''else'', T_ELSE), (''ifndef'', T_IFNDEF), (''undef'', T_UNDEF), (''line'', T_LINE), (''elif'', T_ELIF),
      (''error'', T_ERROR), (''pragma'', T_PRAGMA), (''warning'', T_WARNING), (''include_next'', T_INCLUDE_NEXT),
      (''ident'', T_IDENT), (''import'', T_IMPORT), (''assert'', T_ASSERT), (''unassert'', T_UNASSERT),
      (''sccs'', T_SCCS)]"

datatype node_type = NT_VOID | NT_MACRO_ARG | NT_USER_MACRO | NT_BUILTIN_MACRO

text \<open>An answer of \<^verbatim>\<open>#assert\<close> is the list of its tokens.\<close>

record cpp_hashnode =
  node_kind :: node_type
  node_used :: bool  \<comment> \<open>\<^verbatim>\<open>NODE_USED\<close>\<close>
  node_conditional :: bool  \<comment> \<open>\<^verbatim>\<open>NODE_CONDITIONAL\<close>\<close>
  node_poisoned :: bool  \<comment> \<open>\<^verbatim>\<open>NODE_POISONED\<close>\<close>
  directive_index :: "directive_type option"  \<comment> \<open>with \<^verbatim>\<open>is_directive\<close>\<close>
  macro_used :: bool  \<comment> \<open>\<^verbatim>\<open>value.macro->used\<close>\<close>
  answers :: "cpp_token list list"

text \<open>\<^verbatim>\<open>node->type & NT_MACRO_MASK\<close>: the mask has the value of \<^verbatim>\<open>NT_USER_MACRO\<close>, bit 1.\<close>

definition cpp_macro_p :: "cpp_hashnode \<Rightarrow> bool" where
  "cpp_macro_p node = (node_kind node = NT_USER_MACRO \<or> node_kind node = NT_BUILTIN_MACRO)"

definition cpp_user_macro_p :: "cpp_hashnode \<Rightarrow> bool" where
  "cpp_user_macro_p node = (node_kind node = NT_USER_MACRO)"

section \<open>The reader\<close>

text \<open>\<^verbatim>\<open>struct if_stack\<close>; the \<^verbatim>\<open>next\<close> chain is the list that holds the entries.\<close>

record if_entry =
  ifs_line :: location_t
  ifs_mi_cmacro :: "node_ref option"
  skip_elses :: bool
  was_skipping :: bool
  ifs_type :: directive_type

datatype include_type = IT_INCLUDE | IT_INCLUDE_NEXT | IT_IMPORT | IT_CMDLINE | IT_DEFAULT

text \<open>
  What one call of \<^verbatim>\<open>cpp_get_token_with_location\<close> delivers: the token, its virtual location
  and the macro context the reader is left in (0 is \<^verbatim>\<open>base_context\<close>). Lexing and macro
  expansion are not modelled, so the rest of the current line is the sequence of these.
\<close>

record pp_item =
  item_token :: cpp_token
  item_loc :: location_t
  item_context :: nat

text \<open>
  \<^verbatim>\<open>struct lexer_state\<close>, less the members that the expression evaluator uses, which are members of
  the reader here, and with the line the line table has come to.
\<close>

record lexer_state =
  parsing_args :: "8 word"
  discarding_output :: bool
  in_deferred_pragma :: bool
  in_expression :: bool
  save_comments :: bool
  angled_headers :: bool
  directive_wants_padding :: bool
  highest_line :: location_t

record cpp_reader =
  opts :: cpp_options
  host :: host_info
  in_directive :: bool
  skipping :: bool
  prevent_expansion :: "8 word"
  in_has_include :: "8 word"  \<comment> \<open>\<^verbatim>\<open>in__has_include__\<close>\<close>
  state :: lexer_state  \<comment> \<open>the other members of \<^verbatim>\<open>state\<close>\<close>
  skip_eval :: uint
  cpp_context :: nat
  directive_line :: location_t
  mi_cmacro :: "node_ref option"
  mi_ind_cmacro :: "node_ref option"
  mi_valid :: bool
  if_stack :: "if_entry list"
  nodes :: "node_ref \<Rightarrow> cpp_hashnode"
  sys_macro_p :: bool  \<comment> \<open>the answer of \<^verbatim>\<open>cpp_sys_macro_p\<close>\<close>
  has_header :: "string \<Rightarrow> bool \<Rightarrow> include_type \<Rightarrow> bool"  \<comment> \<open>\<^verbatim>\<open>_cpp_has_header\<close>: the file system\<close>
  spell_token :: "cpp_token \<Rightarrow> string"  \<comment> \<open>\<^verbatim>\<open>cpp_spell_token\<close>\<close>
  charconst :: "cpp_token \<Rightarrow> cppchar_t \<times> bool"  \<comment> \<open>\<^verbatim>\<open>cpp_interpret_charconst\<close>: value and \<^verbatim>\<open>unsignedp\<close>\<close>
  tokens :: "pp_item list"  \<comment> \<open>what the lexer will deliver\<close>
  token_run :: "pp_item list"  \<comment> \<open>what it has delivered, newest first\<close>
  aborted :: bool  \<comment> \<open>\<^verbatim>\<open>abort ()\<close> was called\<close>
  diags :: "cpp_diag list"  \<comment> \<open>newest first\<close>

definition cpp_diagnostic ::
    "cpp_reader \<Rightarrow> cpp_diagnostic_level \<Rightarrow> cpp_warning_reason \<Rightarrow> location_t option \<Rightarrow> string \<Rightarrow> cpp_reader"
where
  "cpp_diagnostic pfile level reason loc msg =
     pfile\<lparr>diags := Diag level reason loc msg # diags pfile\<rparr>"

abbreviation cpp_error :: "cpp_reader \<Rightarrow> cpp_diagnostic_level \<Rightarrow> string \<Rightarrow> cpp_reader" where
  "cpp_error pfile level msg \<equiv> cpp_diagnostic pfile level CPP_W_NONE None msg"

abbreviation cpp_error_with_line ::
    "cpp_reader \<Rightarrow> cpp_diagnostic_level \<Rightarrow> location_t \<Rightarrow> string \<Rightarrow> cpp_reader" where
  "cpp_error_with_line pfile level loc msg \<equiv> cpp_diagnostic pfile level CPP_W_NONE (Some loc) msg"

abbreviation cpp_warning :: "cpp_reader \<Rightarrow> cpp_warning_reason \<Rightarrow> string \<Rightarrow> cpp_reader" where
  "cpp_warning pfile reason msg \<equiv> cpp_diagnostic pfile CPP_DL_WARNING reason None msg"

abbreviation cpp_pedwarning :: "cpp_reader \<Rightarrow> cpp_warning_reason \<Rightarrow> string \<Rightarrow> cpp_reader" where
  "cpp_pedwarning pfile reason msg \<equiv> cpp_diagnostic pfile CPP_DL_PEDWARN reason None msg"

abbreviation cpp_warning_with_line ::
    "cpp_reader \<Rightarrow> cpp_warning_reason \<Rightarrow> location_t \<Rightarrow> string \<Rightarrow> cpp_reader" where
  "cpp_warning_with_line pfile reason loc msg \<equiv> cpp_diagnostic pfile CPP_DL_WARNING reason (Some loc) msg"

abbreviation cpp_pedwarning_with_line ::
    "cpp_reader \<Rightarrow> cpp_warning_reason \<Rightarrow> location_t \<Rightarrow> string \<Rightarrow> cpp_reader" where
  "cpp_pedwarning_with_line pfile reason loc msg \<equiv> cpp_diagnostic pfile CPP_DL_PEDWARN reason (Some loc) msg"

definition abort_reader :: "cpp_reader \<Rightarrow> cpp_reader" where
  "abort_reader pfile = pfile\<lparr>aborted := True\<rparr>"

text \<open>A conditional diagnostic, \<^verbatim>\<open>if (c) cpp_error (...)\<close>.\<close>

definition diag_if :: "bool \<Rightarrow> (cpp_reader \<Rightarrow> cpp_reader) \<Rightarrow> cpp_reader \<Rightarrow> cpp_reader" where
  "diag_if c f pfile = (if c then f pfile else pfile)"

lemma diag_if_simps [simp]: "diag_if True f r = f r" "diag_if False f r = r"
  by (simp_all add: diag_if_def)

text \<open>At the end of the line the lexer returns \<^verbatim>\<open>CPP_EOF\<close>, and goes on doing so.\<close>

definition eof_item :: pp_item where
  "eof_item =
     \<lparr>item_token = \<lparr>src_loc = 0, type = CPP_EOF, flags = 0, val = Val_none\<rparr>, item_loc = 0,
      item_context = 0\<rparr>"

definition cpp_get_token_with_location :: "cpp_reader \<Rightarrow> pp_item \<times> cpp_reader" where
  "cpp_get_token_with_location pfile =
     (case tokens pfile of
        [] \<Rightarrow> (eof_item, pfile\<lparr>cpp_context := 0, token_run := eof_item # token_run pfile\<rparr>)
      | t # ts \<Rightarrow> (t, pfile\<lparr>tokens := ts, cpp_context := item_context t, token_run := t # token_run pfile\<rparr>))"

definition cpp_get_token :: "cpp_reader \<Rightarrow> cpp_token \<times> cpp_reader" where
  "cpp_get_token pfile =
     (case cpp_get_token_with_location pfile of (t, pfile') \<Rightarrow> (item_token t, pfile'))"

text \<open>\<^verbatim>\<open>SEEN_EOL\<close>: the token lexed last, \<^verbatim>\<open>cur_token[-1]\<close>, is the end of the line.\<close>

definition SEEN_EOL :: "cpp_reader \<Rightarrow> bool" where
  "SEEN_EOL pfile = (token_run pfile \<noteq> [] \<and> type (item_token (hd (token_run pfile))) = CPP_EOF)"

text \<open>\<^verbatim>\<open>_cpp_backup_tokens (pfile, 1)\<close>.\<close>

definition cpp_backup_token :: "cpp_reader \<Rightarrow> cpp_reader" where
  "cpp_backup_token pfile =
     (case token_run pfile of
        [] \<Rightarrow> abort_reader pfile
      | t # ts \<Rightarrow> pfile\<lparr>tokens := t # tokens pfile, token_run := ts\<rparr>)"

lemma get_token_length [simp]:
  "length (tokens (snd (cpp_get_token_with_location pfile))) = length (tokens pfile) - 1"
  "length (tokens (snd (cpp_get_token pfile))) = length (tokens pfile) - 1"
  by (auto simp: cpp_get_token_def cpp_get_token_with_location_def split: list.splits prod.splits)

lemma get_token_shorter:
  "cpp_get_token pfile = (t, pfile') \<Longrightarrow> type t \<noteq> CPP_EOF \<Longrightarrow> length (tokens pfile') < length (tokens pfile)"
  "cpp_get_token_with_location pfile = (i, pfile') \<Longrightarrow> type (item_token i) \<noteq> CPP_EOF \<Longrightarrow>
     length (tokens pfile') < length (tokens pfile)"
  by (auto simp: cpp_get_token_def cpp_get_token_with_location_def eof_item_def split: list.splits)

lemma get_token_not_longer:
  "cpp_get_token pfile = (t, pfile') \<Longrightarrow> length (tokens pfile') \<le> length (tokens pfile)"
  "cpp_get_token_with_location pfile = (i, pfile') \<Longrightarrow> length (tokens pfile') \<le> length (tokens pfile)"
  by (auto simp: cpp_get_token_def cpp_get_token_with_location_def split: list.splits)

text \<open>\<^verbatim>\<open>_cpp_mark_macro_used\<close>, and \<^verbatim>\<open>_cpp_maybe_notify_macro_use\<close> with no callbacks installed.\<close>

definition mark_macro_used :: "node_ref \<Rightarrow> cpp_reader \<Rightarrow> cpp_reader" where
  "mark_macro_used node pfile =
     (let n = nodes pfile node in
      if cpp_user_macro_p n then pfile\<lparr>nodes := (nodes pfile)(node := n\<lparr>macro_used := True\<rparr>)\<rparr> else pfile)"

definition maybe_notify_macro_use :: "node_ref \<Rightarrow> cpp_reader \<Rightarrow> cpp_reader" where
  "maybe_notify_macro_use node pfile =
     (let n = nodes pfile node in
      if \<not> node_used n then
        (let pfile = pfile\<lparr>nodes := (nodes pfile)(node := n\<lparr>node_used := True\<rparr>)\<rparr>
         in if node_kind n = NT_MACRO_ARG then abort_reader pfile else pfile)
      else pfile)"

text \<open>\<^verbatim>\<open>check_eol_1\<close>: the rest of the line should be empty.\<close>

definition check_eol_1 :: "cpp_reader \<Rightarrow> cpp_warning_reason \<Rightarrow> cpp_reader" where
  "check_eol_1 pfile reason =
     (if \<not> SEEN_EOL pfile then
        (let (t, pfile) = cpp_get_token pfile
         in diag_if (type t \<noteq> CPP_EOF)
              (\<lambda>r. cpp_pedwarning r reason ''extra tokens at end of directive'') pfile)
      else pfile)"

definition check_eol_endif_labels :: "cpp_reader \<Rightarrow> cpp_reader" where
  "check_eol_endif_labels pfile = check_eol_1 pfile CPP_W_ENDIF_LABELS"

definition check_eol :: "cpp_reader \<Rightarrow> cpp_reader" where
  "check_eol pfile = check_eol_1 pfile CPP_W_NONE"

text \<open>\<^verbatim>\<open>skip_rest_of_line\<close>: back to the base context, and every token up to the end of the line.\<close>

function skip_tokens :: "cpp_reader \<Rightarrow> cpp_reader" where
  "skip_tokens pfile =
     (case cpp_get_token pfile of (t, pfile') \<Rightarrow> if type t = CPP_EOF then pfile' else skip_tokens pfile')"
  by pat_completeness auto
termination
  by (relation "measure (\<lambda>pfile. length (tokens pfile))") (auto dest: get_token_shorter(1)[OF sym])

declare skip_tokens.simps [simp del]

definition skip_rest_of_line :: "cpp_reader \<Rightarrow> cpp_reader" where
  "skip_rest_of_line pfile =
     (let pfile = pfile\<lparr>cpp_context := 0\<rparr> in if \<not> SEEN_EOL pfile then skip_tokens pfile else pfile)"

section \<open>Initialisation\<close>

definition cpp_set_lang :: "cpp_options \<Rightarrow> c_lang \<Rightarrow> cpp_options" where
  "cpp_set_lang options language =
     (let l = lang_defaults language in
      options\<lparr>
      lang := language,
      c99 := lf_c99 l,
      cplusplus := lf_cplusplus l,
      extended_numbers := lf_extended_numbers l,
      extended_identifiers := lf_extended_identifiers l,
      c11_identifiers := lf_c11_identifiers l,
      std := lf_std l,
      digraphs := lf_digraphs l,
      uliterals := lf_uliterals l,
      rliterals := lf_rliterals l,
      user_literals := lf_user_literals l,
      binary_constants := lf_binary_constants l,
      digit_separators := lf_digit_separators l,
      trigraphs := lf_trigraphs l,
      utf8_char_literals := lf_utf8_char_literals l,
      va_opt := lf_va_opt l\<rparr>)"

text \<open>
  The options that \<^verbatim>\<open>cpp_create_reader\<close> sets up, of those modelled; the others are zero
  because the reader is allocated cleared.
\<close>

definition create_options :: "host_info \<Rightarrow> c_lang \<Rightarrow> cpp_options" where
  "create_options h language =
     cpp_set_lang
       \<lparr>lang = language,
        c99 = False, cplusplus = False, extended_numbers = False, extended_identifiers = False,
        c11_identifiers = False, std = False, digraphs = False, uliterals = False, rliterals =
        False, user_literals = False, binary_constants = False, digit_separators = False,
        trigraphs = False, utf8_char_literals = False, va_opt = False,
        warn_multichar = True, cpp_warn_deprecated = True, cpp_warn_traditional = False,
        cpp_warn_long_long = False, warn_endif_labels = True, warn_num_sign_change = False,
        warn_undef = False, warn_expansion_to_defined = False, cpp_pedantic = False,
        traditional = False, ext_numeric_literals = True,
        precision = long_bits h, char_precision = 8, int_precision = 32, wchar_precision = 32,
        unsigned_char = False, unsigned_wchar = True, bytes_big_endian = True,
        preprocessed = False, directives_only = False, objc = False, discard_comments = True,
        cpp_warn_c90_c99_compat = False, dollars_in_ident = True, warn_dollars = True,
        narrow_charset = Some ''UTF-8'', wide_charset = None\<rparr> language"

definition create_reader :: "host_info \<Rightarrow> c_lang \<Rightarrow> cpp_reader" where
  "create_reader h language =
     \<lparr>opts = create_options h language, host = h, in_directive = False, skipping = False,
      prevent_expansion = 0, in_has_include = 0, 
      state = \<lparr>parsing_args = 0, discarding_output = False, in_deferred_pragma = False, in_expression = False,
               save_comments = False, angled_headers = False, directive_wants_padding = False, highest_line = 0\<rparr>,
      skip_eval = 0, cpp_context = 0, directive_line = 0,
      mi_cmacro = None, mi_ind_cmacro = None, mi_valid = False, if_stack = [],
      nodes = (\<lambda>n. \<lparr>node_kind = NT_VOID, node_used = False, node_conditional = False,
                      node_poisoned = False, directive_index = map_of directive_names n, macro_used = False, answers = []\<rparr>),
      sys_macro_p = False, has_header = (\<lambda>_ _ _. False), spell_token = (\<lambda>_. []), charconst = (\<lambda>_. (0, False)),
      tokens = [], token_run = [], aborted = False, diags = []\<rparr>"

text \<open>\<^verbatim>\<open>sanity_checks\<close>; the two tests on the host's types cannot fail for a 32-bit \<^verbatim>\<open>cppchar_t\<close>
  and a 64-bit \<^verbatim>\<open>cpp_num_part\<close>.\<close>

definition sanity_checks :: "cpp_reader \<Rightarrow> cpp_reader" where
  "sanity_checks pfile =
     (let o' = opts pfile; max_precision = 2 * 8 * 8;
          pfile = diag_if (precision o' > max_precision)
            (\<lambda>r. cpp_error r CPP_DL_ICE
              ''preprocessor arithmetic has maximum precision of %lu bits; target requires %lu bits'') pfile;
          pfile = diag_if (precision o' < int_precision o')
            (\<lambda>r. cpp_error r CPP_DL_ICE
              ''CPP arithmetic must be at least as precise as a target int'') pfile;
          pfile = diag_if (char_precision o' < 8)
            (\<lambda>r. cpp_error r CPP_DL_ICE ''target char is less than 8 bits wide'') pfile;
          pfile = diag_if (wchar_precision o' < char_precision o')
            (\<lambda>r. cpp_error r CPP_DL_ICE ''target wchar_t is narrower than target char'') pfile;
          pfile = diag_if (int_precision o' < char_precision o')
            (\<lambda>r. cpp_error r CPP_DL_ICE ''target int is narrower than target char'') pfile
      in diag_if (wchar_precision o' > 32)
           (\<lambda>r. cpp_error r CPP_DL_ICE
              ''CPP on this host cannot handle wide character constants over %lu bits, but the target requires %lu bits'') pfile)"

text \<open>The configurations that pass \<^verbatim>\<open>sanity_checks\<close>: what the arithmetic may rely on.\<close>

definition sane_options :: "cpp_options \<Rightarrow> bool" where
  "sane_options o' \<longleftrightarrow>
     precision o' \<le> 128 \<and> int_precision o' \<le> precision o' \<and> 8 \<le> char_precision o' \<and>
     char_precision o' \<le> wchar_precision o' \<and> char_precision o' \<le> int_precision o' \<and>
     wchar_precision o' \<le> 32"

lemma sanity_checks_silent: "diags (sanity_checks pfile) = diags pfile \<longleftrightarrow> sane_options (opts pfile)"
  by (simp add: sanity_checks_def sane_options_def diag_if_def cpp_diagnostic_def Let_def)

lemma sane_precision: "sane_options o' \<Longrightarrow> 8 \<le> precision o' \<and> precision o' \<le> 128"
  by (simp add: sane_options_def)

lemma create_options_sane: "long_bits h = 32 \<or> long_bits h = 64 \<Longrightarrow> sane_options (create_options h l)"
  by (auto simp: create_options_def cpp_set_lang_def sane_options_def Let_def)

end
