(* ===== verification/Cpp_Num.thy ===== *)
theory Cpp_Num
  imports Cpp_Reader
begin

text \<open>
  The two-word integer arithmetic of the preprocessor's expression evaluator, from the end of
  \<^verbatim>\<open>libcpp/expr.c\<close>. A number is a pair of 64-bit parts; its low \<open>precision\<close> bits are
  significant and the others are zero. The specification reads such a pair as a natural number
  (\<open>num_val\<close>) and, with the sign flag, as an integer (\<open>num_ival\<close>).
\<close>

section \<open>Definitions\<close>

type_synonym cpp_num_part = "64 word"

abbreviation PART_PRECISION :: nat where "PART_PRECISION \<equiv> 64"

record cpp_num =
  high :: cpp_num_part
  low :: cpp_num_part
  unsignedp :: bool
  overflow :: bool

definition HALF_MASK :: cpp_num_part where
  "HALF_MASK = drop_bit (PART_PRECISION div 2) (NOT 0)"

definition LOW_PART :: "cpp_num_part \<Rightarrow> cpp_num_part" where
  "LOW_PART num_part = num_part AND HALF_MASK"

definition HIGH_PART :: "cpp_num_part \<Rightarrow> cpp_num_part" where
  "HIGH_PART num_part = drop_bit (PART_PRECISION div 2) num_part"

definition num_zerop :: "cpp_num \<Rightarrow> bool" where
  "num_zerop num \<longleftrightarrow> low num OR high num = 0"

definition num_eq :: "cpp_num \<Rightarrow> cpp_num \<Rightarrow> bool" where
  "num_eq num1 num2 \<longleftrightarrow> low num1 = low num2 \<and> high num1 = high num2"

text \<open>Clears the unused high order bits.\<close>

definition num_trim :: "cpp_num \<Rightarrow> nat \<Rightarrow> cpp_num" where
  "num_trim num prec =
     (if prec > PART_PRECISION then
        (let prec = prec - PART_PRECISION in
         if prec < PART_PRECISION
         then num\<lparr>high := high num AND (push_bit prec 1 - 1)\<rparr> else num)
      else
        (let num = (if prec < PART_PRECISION
                    then num\<lparr>low := low num AND (push_bit prec 1 - 1)\<rparr> else num)
         in num\<lparr>high := 0\<rparr>))"

text \<open>True iff the number, presumed signed, is not negative.\<close>

definition num_positive :: "cpp_num \<Rightarrow> nat \<Rightarrow> bool" where
  "num_positive num prec =
     (if prec > PART_PRECISION
      then high num AND push_bit (prec - PART_PRECISION - 1) 1 = 0
      else low num AND push_bit (prec - 1) 1 = 0)"

definition cpp_num_sign_extend :: "cpp_num \<Rightarrow> nat \<Rightarrow> cpp_num" where
  "cpp_num_sign_extend num prec =
     (if \<not> unsignedp num then
        if prec > PART_PRECISION then
          (let prec = prec - PART_PRECISION in
           if prec < PART_PRECISION \<and> high num AND push_bit (prec - 1) 1 \<noteq> 0
           then num\<lparr>high := high num OR NOT (drop_bit (PART_PRECISION - prec) (NOT 0))\<rparr>
           else num)
        else if low num AND push_bit (prec - 1) 1 \<noteq> 0 then
          (let num = (if prec < PART_PRECISION
                      then num\<lparr>low := low num OR NOT (drop_bit (PART_PRECISION - prec) (NOT 0))\<rparr>
                      else num)
           in num\<lparr>high := NOT 0\<rparr>)
        else num
      else num)"

text \<open>\<^verbatim>\<open>if (++num.low == 0) num.high++\<close>\<close>

definition num_incr :: "cpp_num \<Rightarrow> cpp_num" where
  "num_incr num =
     (let num = num\<lparr>low := low num + 1\<rparr>
      in if low num = 0 then num\<lparr>high := high num + 1\<rparr> else num)"

definition num_negate :: "cpp_num \<Rightarrow> nat \<Rightarrow> cpp_num" where
  "num_negate num prec =
     (let copy = num;
          num = num\<lparr>high := NOT (high num), low := NOT (low num)\<rparr>;
          num = num_incr num;
          num = num_trim num prec
      in num\<lparr>overflow := \<not> unsignedp num \<and> num_eq num copy \<and> \<not> num_zerop num\<rparr>)"

definition num_greater_eq :: "cpp_num \<Rightarrow> cpp_num \<Rightarrow> nat \<Rightarrow> bool" where
  "num_greater_eq pa pb prec =
     (let u = unsignedp pa \<or> unsignedp pb;
          cmp = (high pa > high pb \<or> (high pa = high pb \<and> low pa \<ge> low pb))
      in if \<not> u then
           (let pos = num_positive pa prec in
            if pos \<noteq> num_positive pb prec then pos else cmp)
         else cmp)"

definition num_bitwise_op :: "cpp_num \<Rightarrow> cpp_num \<Rightarrow> cpp_ttype \<Rightarrow> cpp_num" where
  "num_bitwise_op lhs rhs op =
     (let lhs = lhs\<lparr>overflow := False, unsignedp := unsignedp lhs \<or> unsignedp rhs\<rparr> in
      if op = CPP_AND then lhs\<lparr>low := low lhs AND low rhs, high := high lhs AND high rhs\<rparr>
      else if op = CPP_OR then lhs\<lparr>low := low lhs OR low rhs, high := high lhs OR high rhs\<rparr>
      else lhs\<lparr>low := low lhs XOR low rhs, high := high lhs XOR high rhs\<rparr>)"

definition num_inequality_op :: "cpp_reader \<Rightarrow> cpp_num \<Rightarrow> cpp_num \<Rightarrow> cpp_ttype \<Rightarrow> cpp_num" where
  "num_inequality_op pfile lhs rhs op =
     (let gte = num_greater_eq lhs rhs (precision (opts pfile));
          l = (if op = CPP_GREATER_EQ then gte
               else if op = CPP_LESS then \<not> gte
               else if op = CPP_GREATER then gte \<and> \<not> num_eq lhs rhs
               else \<not> gte \<or> num_eq lhs rhs)
      in lhs\<lparr>low := of_bool_word l, high := 0, overflow := False, unsignedp := False\<rparr>)"

definition num_equality_op :: "cpp_num \<Rightarrow> cpp_num \<Rightarrow> cpp_ttype \<Rightarrow> cpp_num" where
  "num_equality_op lhs rhs op =
     (let eq = num_eq lhs rhs;
          eq = (if op = CPP_NOT_EQ then \<not> eq else eq)
      in lhs\<lparr>low := of_bool_word eq, high := 0, overflow := False, unsignedp := False\<rparr>)"

text \<open>
  Shift right by \<open>n\<close> bits, replicating the sign of a signed number: first the bits above the
  precision are filled with the sign, then both parts move down.
\<close>

definition num_sign_fill :: "cpp_num \<Rightarrow> nat \<Rightarrow> cpp_num_part \<Rightarrow> cpp_num" where
  "num_sign_fill num prec sign_mask =
     (if prec < PART_PRECISION
      then num\<lparr>high := sign_mask, low := low num OR push_bit prec sign_mask\<rparr>
      else if prec < 2 * PART_PRECISION
      then num\<lparr>high := high num OR push_bit (prec - PART_PRECISION) sign_mask\<rparr>
      else num)"

definition num_move_down :: "cpp_num \<Rightarrow> nat \<Rightarrow> cpp_num_part \<Rightarrow> cpp_num" where
  "num_move_down num n sign_mask =
     (let (n, num) = (if n \<ge> PART_PRECISION
                      then (n - PART_PRECISION, num\<lparr>low := high num, high := sign_mask\<rparr>)
                      else (n, num))
      in if n \<noteq> 0
         then num\<lparr>low := drop_bit n (low num) OR push_bit (PART_PRECISION - n) (high num),
                  high := drop_bit n (high num) OR push_bit (PART_PRECISION - n) sign_mask\<rparr>
         else num)"

definition num_rshift :: "cpp_num \<Rightarrow> nat \<Rightarrow> nat \<Rightarrow> cpp_num" where
  "num_rshift num prec n =
     (let sign_mask = (if unsignedp num \<or> num_positive num prec then 0 else NOT 0 :: cpp_num_part);
          num = (if n \<ge> prec then num\<lparr>high := sign_mask, low := sign_mask\<rparr>
                 else num_move_down (num_sign_fill num prec sign_mask) n sign_mask)
      in (num_trim num prec)\<lparr>overflow := False\<rparr>)"

text \<open>Shift left by \<open>n\<close> bits; a signed shift overflows when shifting back does not restore it.\<close>

definition num_move_up :: "cpp_num \<Rightarrow> nat \<Rightarrow> cpp_num" where
  "num_move_up num n =
     (let (m, num) = (if n \<ge> PART_PRECISION
                      then (n - PART_PRECISION, num\<lparr>high := low num, low := 0\<rparr>)
                      else (n, num))
      in if m \<noteq> 0
         then num\<lparr>high := push_bit m (high num) OR drop_bit (PART_PRECISION - m) (low num),
                  low := push_bit m (low num)\<rparr>
         else num)"

definition num_lshift :: "cpp_num \<Rightarrow> nat \<Rightarrow> nat \<Rightarrow> cpp_num" where
  "num_lshift num prec n =
     (if n \<ge> prec
      then num\<lparr>overflow := \<not> unsignedp num \<and> \<not> num_zerop num, high := 0, low := 0\<rparr>
      else
        let orig = num;
            num = num_move_up num n;
            num = num_trim num prec
        in if unsignedp num then num\<lparr>overflow := False\<rparr>
           else (let maybe_orig = num_rshift num prec n
                 in num\<lparr>overflow := \<not> num_eq orig maybe_orig\<rparr>))"

definition num_unary_op :: "cpp_reader \<Rightarrow> cpp_num \<Rightarrow> cpp_ttype \<Rightarrow> cpp_num \<times> cpp_reader" where
  "num_unary_op pfile num op =
     (if op = CPP_UPLUS then
        (num\<lparr>overflow := False\<rparr>,
         diag_if (cpp_warn_traditional (opts pfile) \<and> skip_eval pfile = 0)
           (\<lambda>r. cpp_warning r CPP_W_TRADITIONAL ''traditional C rejects the unary plus operator'') pfile)
      else if op = CPP_UMINUS then
        (num_negate num (precision (opts pfile)), pfile)
      else if op = CPP_COMPL then
        (let num = num\<lparr>high := NOT (high num), low := NOT (low num)\<rparr>;
             num = num_trim num (precision (opts pfile))
         in (num\<lparr>overflow := False\<rparr>, pfile))
      else
        (num\<lparr>low := of_bool_word (num_zerop num), high := 0, overflow := False, unsignedp := False\<rparr>,
         pfile))"

text \<open>
  The shift count is converted to the host's \<^verbatim>\<open>size_t\<close>: \<^verbatim>\<open>~0\<close> is its maximum and an
  assignment from a 64-bit part keeps the low bits.
\<close>

definition size_t_of :: "host_info \<Rightarrow> cpp_num_part \<Rightarrow> nat" where
  "size_t_of h w = unat w mod 2 ^ size_t_bits h"

definition num_shift_op :: "cpp_reader \<Rightarrow> cpp_num \<Rightarrow> cpp_num \<Rightarrow> cpp_ttype \<Rightarrow> cpp_num" where
  "num_shift_op pfile lhs rhs op =
     (let prec = precision (opts pfile);
          (op, rhs) = (if \<not> unsignedp rhs \<and> \<not> num_positive rhs prec
                       then (if op = CPP_LSHIFT then CPP_RSHIFT else CPP_LSHIFT, num_negate rhs prec)
                       else (op, rhs));
          n = (if high rhs \<noteq> 0 then 2 ^ size_t_bits (host pfile) - 1 else size_t_of (host pfile) (low rhs))
      in if op = CPP_LSHIFT then num_lshift lhs prec n else num_rshift lhs prec n)"

definition num_minus :: "cpp_num \<Rightarrow> cpp_num \<Rightarrow> nat \<Rightarrow> cpp_num" where
  "num_minus lhs rhs prec =
     (let l = low lhs - low rhs;
          h = high lhs - high rhs;
          h = (if l > low lhs then h - 1 else h);
          result = num_trim \<lparr>high = h, low = l, unsignedp = unsignedp lhs \<or> unsignedp rhs, overflow = False\<rparr> prec
      in if \<not> unsignedp result then
           (let lhsp = num_positive lhs prec in
            result\<lparr>overflow := lhsp \<noteq> num_positive rhs prec \<and> lhsp \<noteq> num_positive result prec\<rparr>)
         else result)"

definition num_plus :: "cpp_num \<Rightarrow> cpp_num \<Rightarrow> nat \<Rightarrow> cpp_num" where
  "num_plus lhs rhs prec =
     (let l = low lhs + low rhs;
          h = high lhs + high rhs;
          h = (if l < low lhs then h + 1 else h);
          result = num_trim \<lparr>high = h, low = l, unsignedp = unsignedp lhs \<or> unsignedp rhs, overflow = False\<rparr> prec
      in if \<not> unsignedp result then
           (let lhsp = num_positive lhs prec in
            result\<lparr>overflow := lhsp = num_positive rhs prec \<and> lhsp \<noteq> num_positive result prec\<rparr>)
         else result)"

definition num_binary_op ::
    "cpp_reader \<Rightarrow> cpp_num \<Rightarrow> cpp_num \<Rightarrow> cpp_ttype \<Rightarrow> cpp_num \<times> cpp_reader" where
  "num_binary_op pfile lhs rhs op =
     (if op = CPP_LSHIFT \<or> op = CPP_RSHIFT then (num_shift_op pfile lhs rhs op, pfile)
      else if op = CPP_MINUS then (num_minus lhs rhs (precision (opts pfile)), pfile)
      else if op = CPP_PLUS then (num_plus lhs rhs (precision (opts pfile)), pfile)
      else (rhs,
        diag_if (cpp_pedantic (opts pfile) \<and> (\<not> c99 (opts pfile) \<or> skip_eval pfile = 0))
          (\<lambda>r. cpp_pedwarning r CPP_W_PEDANTIC ''comma operator in operand of #if'') pfile))"

text \<open>The product of two parts as a double-part number.\<close>

definition num_part_mul :: "cpp_num_part \<Rightarrow> cpp_num_part \<Rightarrow> cpp_num" where
  "num_part_mul lhs rhs =
     (let l = LOW_PART lhs * LOW_PART rhs;
          h = HIGH_PART lhs * HIGH_PART rhs;
          middle0 = LOW_PART lhs * HIGH_PART rhs;
          middle1 = HIGH_PART lhs * LOW_PART rhs;
          temp = l;
          l = l + push_bit (PART_PRECISION div 2) (LOW_PART middle0);
          h = (if l < temp then h + 1 else h);
          temp = l;
          l = l + push_bit (PART_PRECISION div 2) (LOW_PART middle1);
          h = (if l < temp then h + 1 else h);
          h = h + HIGH_PART middle0;
          h = h + HIGH_PART middle1
      in \<lparr>high = h, low = l, unsignedp = True, overflow = False\<rparr>)"

text \<open>
  The unsigned product of two double-part numbers, trimmed, and whether the code notices that
  it does not fit.
\<close>

definition num_mul_unsigned :: "cpp_num \<Rightarrow> cpp_num \<Rightarrow> nat \<Rightarrow> cpp_num \<times> bool" where
  "num_mul_unsigned lhs rhs prec =
     (let ovf = (high lhs \<noteq> 0 \<and> high rhs \<noteq> 0);
          result = num_part_mul (low lhs) (low rhs);
          temp = num_part_mul (high lhs) (low rhs);
          result = result\<lparr>high := high result + low temp\<rparr>;
          ovf = (high temp \<noteq> 0 \<or> ovf);
          temp = num_part_mul (low lhs) (high rhs);
          result = result\<lparr>high := high result + low temp\<rparr>;
          ovf = (high temp \<noteq> 0 \<or> ovf);
          temp = temp\<lparr>low := low result, high := high result\<rparr>;
          result = num_trim result prec
      in (result, \<not> num_eq result temp \<or> ovf))"

text \<open>Makes a negative signed operand positive; the flag tells whether it was negative.\<close>

definition num_abs :: "bool \<Rightarrow> cpp_num \<Rightarrow> nat \<Rightarrow> bool \<times> cpp_num" where
  "num_abs u num prec =
     (if \<not> u \<and> \<not> num_positive num prec then (True, num_negate num prec) else (False, num))"

definition num_mul :: "cpp_reader \<Rightarrow> cpp_num \<Rightarrow> cpp_num \<Rightarrow> cpp_num" where
  "num_mul pfile lhs rhs =
     (let u = unsignedp lhs \<or> unsignedp rhs;
          prec = precision (opts pfile);
          (lneg, lhs) = num_abs u lhs prec;
          (rneg, rhs) = num_abs u rhs prec;
          negate = (lneg \<noteq> rneg);
          (result, ovf) = num_mul_unsigned lhs rhs prec;
          result = (if negate then num_negate result prec else result);
          result = (if u then result\<lparr>overflow := False\<rparr>
                    else result\<lparr>overflow := ovf \<or> ((num_positive result prec \<noteq> (\<not> negate))
                                                  \<and> \<not> num_zerop result)\<rparr>)
      in result\<lparr>unsignedp := u\<rparr>)"

text \<open>
  Division. Looking for the high bit of the divisor is a loop with no exit test of its own
  beyond finding a bit: \<open>None\<close> says that it runs forever. (Once the mask has been shifted out
  nothing can be found any more, and the counter wraps around below zero.)
\<close>

partial_function (option) find_high_bit :: "cpp_num_part \<Rightarrow> int \<Rightarrow> cpp_num_part \<Rightarrow> int option" where
  "find_high_bit w i msk =
     (if w AND msk \<noteq> 0 then Some i else find_high_bit w (i - 1) (drop_bit 1 msk))"

text \<open>The subtract-and-shift loop; \<open>i\<close> counts the shifts that are left.\<close>

fun div_loop :: "cpp_reader \<Rightarrow> nat \<Rightarrow> nat \<Rightarrow> cpp_num \<Rightarrow> cpp_num \<Rightarrow> cpp_num \<Rightarrow> cpp_num \<times> cpp_num" where
  "div_loop pfile prec i lhs sub result =
     (let (lhs, result) =
            (if num_greater_eq lhs sub prec then
               (fst (num_binary_op pfile lhs sub CPP_MINUS),
                if i \<ge> PART_PRECISION
                then result\<lparr>high := high result OR push_bit (i - PART_PRECISION) 1\<rparr>
                else result\<lparr>low := low result OR push_bit i 1\<rparr>)
             else (lhs, result))
      in if i = 0 then (lhs, result)
         else div_loop pfile prec (i - 1) lhs
                (sub\<lparr>low := drop_bit 1 (low sub) OR push_bit (PART_PRECISION - 1) (high sub),
                     high := drop_bit 1 (high sub)\<rparr>)
                result)"

declare div_loop.simps [simp del]

definition num_div_op ::
    "cpp_reader \<Rightarrow> cpp_num \<Rightarrow> cpp_num \<Rightarrow> cpp_ttype \<Rightarrow> location_t \<Rightarrow> (cpp_num \<times> cpp_reader) option" where
  "num_div_op pfile lhs rhs op loc =
     (let u = unsignedp lhs \<or> unsignedp rhs;
          prec = precision (opts pfile);
          (lhs_neg, lhs) = num_abs u lhs prec;
          (rhs_neg, rhs) = num_abs u rhs prec;
          negate = (lhs_neg \<noteq> rhs_neg)
      in if high rhs = 0 \<and> low rhs = 0 then
           Some (lhs, diag_if (skip_eval pfile = 0)
                        (\<lambda>r. cpp_error_with_line r CPP_DL_ERROR loc ''division by zero in #if'') pfile)
         else
           (case (if high rhs \<noteq> 0
                  then find_high_bit (high rhs) (int prec - 1) (push_bit (prec - 1 - PART_PRECISION) 1)
                  else let i = (if prec > PART_PRECISION then prec - PART_PRECISION - 1 else prec - 1)
                       in find_high_bit (low rhs) (int i) (push_bit i 1)) of
              None \<Rightarrow> None
            | Some i \<Rightarrow>
                (let rhs = rhs\<lparr>unsignedp := True\<rparr>;
                     lhs = lhs\<lparr>unsignedp := True\<rparr>;
                     i = nat (int prec - i - 1);
                     sub = num_lshift rhs prec i;
                     (lhs, result) = div_loop pfile prec i lhs sub
                       \<lparr>high = 0, low = 0, unsignedp = False, overflow = False\<rparr>
                 in if op = CPP_DIV then
                      (let result = result\<lparr>unsignedp := u, overflow := False\<rparr>;
                           result = (if \<not> u then
                                       (let result = (if negate then num_negate result prec else result)
                                        in result\<lparr>overflow := (num_positive result prec \<noteq> (\<not> negate))
                                                               \<and> \<not> num_zerop result\<rparr>)
                                     else result)
                       in Some (result, pfile))
                    else
                      (let lhs = lhs\<lparr>unsignedp := u, overflow := False\<rparr>;
                           lhs = (if lhs_neg then num_negate lhs prec else lhs)
                       in Some (lhs, pfile)))))"

section \<open>The value of a number\<close>

definition num_val :: "cpp_num \<Rightarrow> nat" where
  "num_val n = unat (high n) * 2 ^ 64 + unat (low n)"

text \<open>The significant bits are the low \<open>p\<close> ones.\<close>

definition num_wf :: "nat \<Rightarrow> cpp_num \<Rightarrow> bool" where
  "num_wf p n \<longleftrightarrow> num_val n < 2 ^ p"

text \<open>The integer that a number of precision \<open>p\<close> denotes: two's complement unless unsigned.\<close>

definition num_ival :: "nat \<Rightarrow> cpp_num \<Rightarrow> int" where
  "num_ival p n =
     (if unsignedp n \<or> num_val n < 2 ^ (p - 1) then int (num_val n) else int (num_val n) - 2 ^ p)"

text \<open>What an operator converts both operands to, and the residue it computes.\<close>

definition signed_range :: "nat \<Rightarrow> int \<Rightarrow> bool" where
  "signed_range p z \<longleftrightarrow> - (2 ^ (p - 1)) \<le> z \<and> z < 2 ^ (p - 1)"

definition residue :: "nat \<Rightarrow> int \<Rightarrow> nat" where
  "residue p z = nat (z mod 2 ^ p)"

lemma bit_num_val:
  "bit (num_val n) i \<longleftrightarrow> (if i < 64 then bit (low n) i else bit (high n) (i - 64))"
proof -
  have d: "\<not> bit (push_bit 64 (unat (high n))) j \<or> \<not> bit (unat (low n)) j" for j
    by (auto simp: bit_simps dest: bit_imp_le_length)
  have "num_val n = push_bit 64 (unat (high n)) + unat (low n)"
    by (simp add: num_val_def push_bit_eq_mult)
  then show ?thesis
    by (simp only: bit_disjunctive_add_iff[OF d]) (auto simp: bit_simps dest: bit_imp_le_length)
qed

lemma num_val_make [num_simps]: "num_val \<lparr>high = h, low = l, unsignedp = u, overflow = v\<rparr> = unat h * 2 ^ 64 + unat l"
  by (simp add: num_val_def)

lemma num_val_flags [simp]:
  "num_val (n\<lparr>overflow := b\<rparr>) = num_val n" "num_val (n\<lparr>unsignedp := b\<rparr>) = num_val n"
  by (simp_all add: num_val_def)

lemma num_wf_flags [simp]:
  "num_wf p (n\<lparr>overflow := b\<rparr>) = num_wf p n" "num_wf p (n\<lparr>unsignedp := b\<rparr>) = num_wf p n"
  by (simp_all add: num_wf_def)

lemma num_val_less: "num_val n < 2 ^ 128"
proof -
  have "unat (high n) < 2 ^ 64" "unat (low n) < 2 ^ 64"
    by (rule unat_less_64)+
  then show ?thesis
    by (simp add: num_val_def)
qed

lemma num_wf_128 [simp]: "num_wf 128 n"
  using num_val_less[of n] by (simp add: num_wf_def)

lemma num_val_trim [num_simps]: "num_val (num_trim n p) = num_val n mod 2 ^ p"
proof -
  have "num_val (num_trim n p) = take_bit p (num_val n)"
    by (rule bit_eqI)
       (auto simp: num_trim_def Let_def bit_num_val bit_simps mask_eq_exp_minus_1[symmetric]
             dest: bit_imp_le_length)
  then show ?thesis by (simp add: take_bit_eq_mod)
qed

lemma num_trim_wf [simp]: "num_wf p (num_trim n p)"
  by (simp add: num_wf_def num_val_trim)

lemma num_trim_flags [simp]:
  "unsignedp (num_trim n p) = unsignedp n" "overflow (num_trim n p) = overflow n"
  by (simp_all add: num_trim_def Let_def)

lemma num_trim_overflow_upd [simp]: "num_val ((num_trim n p)\<lparr>overflow := b\<rparr>) = num_val n mod 2 ^ p"
  by (simp add: num_val_trim)

lemma num_val_inj: "num_val a = num_val b \<longleftrightarrow> low a = low b \<and> high a = high b"
proof
  assume h: "num_val a = num_val b"
  have "bit (low a) i \<longleftrightarrow> bit (low b) i" if "i < 64" for i
    using h that bit_num_val[of a i] bit_num_val[of b i] by simp
  then have "low a = low b"
    by (intro bit_word_eqI) simp
  moreover have "bit (high a) i \<longleftrightarrow> bit (high b) i" for i
    using h bit_num_val[of a "i + 64"] bit_num_val[of b "i + 64"] by simp
  then have "high a = high b"
    by (intro bit_word_eqI) simp
  ultimately show "low a = low b \<and> high a = high b" ..
qed (simp add: num_val_def)

lemma num_eq_val [num_simps]: "num_eq a b \<longleftrightarrow> num_val a = num_val b"
  by (simp add: num_eq_def num_val_inj)

lemma num_zerop_val [num_simps]: "num_zerop n \<longleftrightarrow> num_val n = 0"
  by (auto simp: num_zerop_def num_val_def or_eq_0_iff unat_eq_zero)

lemma num_positive_val [num_simps]:
  assumes "1 \<le> p" "p \<le> 128" "num_wf p n"
  shows "num_positive n p \<longleftrightarrow> num_val n < 2 ^ (p - 1)"
proof -
  have single: "w AND push_bit k 1 = 0 \<longleftrightarrow> \<not> bit w k" for w :: "64 word" and k
    by (simp only: bit_iff_and_push_bit_not_eq_0 not_not)
  have "num_positive n p \<longleftrightarrow> \<not> bit (num_val n) (p - 1)"
  proof (cases "64 < p")
    case True
    then have "\<not> p - 1 < 64" "p - 64 - 1 = p - 1 - 64" by simp_all
    with True show ?thesis by (simp only: num_positive_def single bit_num_val if_True if_False)
  next
    case False
    with assms(1) have "p - 1 < 64" by simp
    with False show ?thesis by (simp only: num_positive_def single bit_num_val if_True if_False)
  qed
  also have "\<dots> \<longleftrightarrow> num_val n < 2 ^ (p - 1)"
    using assms top_bit_iff[of "num_val n" "p - 1"] by (simp add: num_wf_def not_le)
  finally show ?thesis .
qed

section \<open>Negation, addition, subtraction and comparison\<close>

lemma unat_max_part: "unat (- 1 :: 64 word) = 2 ^ 64 - 1"
  by (simp add: unsigned_minus_1_eq_mask mask_eq_exp_minus_1)

lemma unat_not: "unat (NOT w :: 64 word) = 2 ^ 64 - 1 - unat w"
proof -
  have "NOT w = - 1 - w"
    by (simp add: not_eq_complement)
  then show ?thesis
    by (simp only: unat_sub[OF word_order.extremum]) (simp add: unat_max_part)
qed

lemma num_val_complement:
  "num_val (n\<lparr>high := NOT (high n), low := NOT (low n)\<rparr>) = 2 ^ 128 - 1 - num_val n"
proof -
  have "unat (high n) < 2 ^ 64" "unat (low n) < 2 ^ 64"
    by (rule unat_less_64)+
  then show ?thesis
    by (simp add: num_val_def unat_not)
qed

lemma mod_128_high: "(a mod 2 ^ 64) * 2 ^ 64 = (a * 2 ^ 64) mod (2 ^ 128 :: nat)"
  using mod_mult_mult2[of a "2 ^ 64" "2 ^ 64 :: nat"] by simp

lemma num_val_incr:
  "num_val (num_incr n) = (num_val n + 1) mod 2 ^ 128"
proof (cases "low n + 1 = 0")
  case True
  then have l: "unat (low n) = 2 ^ 64 - 1"
    by (metis eq_neg_iff_add_eq_0 unat_max_part)
  have "num_val n + 1 = (unat (high n) + 1) * 2 ^ 64"
    using l by (simp add: num_val_def)
  moreover have "unat (high n + 1) * 2 ^ 64 = ((unat (high n) + 1) * 2 ^ 64) mod 2 ^ 128"
    by (simp only: mod_128_high[symmetric]) (simp add: unat_word_ariths)
  ultimately show ?thesis
    using True by (simp add: num_val_def num_incr_def)
next
  case False
  then have "unat (low n + 1) = unat (low n) + 1"
    by (simp add: unat_eq_zero unatSuc add.commute)
  moreover have "unat (low n) + 1 < 2 ^ 64"
    using calculation unat_less_64[of "low n + 1"] by simp
  moreover have "unat (high n) < 2 ^ 64"
    by (rule unat_less_64)
  ultimately show ?thesis
    using False by (simp add: num_val_def num_incr_def)
qed

lemma num_val_negate:
  assumes "p \<le> 128"
  shows "num_val (num_negate n p) = (2 ^ 128 - num_val n) mod 2 ^ p"
proof -
  let ?m = "num_incr (n\<lparr>high := NOT (high n), low := NOT (low n)\<rparr>)"
  have "num_val ?m = (2 ^ 128 - num_val n) mod 2 ^ 128"
    using num_val_less[of n] by (simp only: num_val_incr num_val_complement) (simp add: Suc_diff_le[symmetric])
  moreover have "(x mod 2 ^ 128) mod 2 ^ p = x mod 2 ^ p" for x :: nat
    using assms by (intro mod_mod_cancel le_imp_power_dvd)
  ultimately show ?thesis
    by (simp add: num_negate_def Let_def num_val_trim)
qed

lemma mod_mod_exp: "k \<le> l \<Longrightarrow> (x mod 2 ^ l) mod 2 ^ k = (x::nat) mod 2 ^ k"
  by (intro mod_mod_cancel le_imp_power_dvd)

lemma sub_exp_mod:
  assumes "p \<le> q" "v \<le> (2 :: nat) ^ p"
  shows "(2 ^ q - v) mod 2 ^ p = (2 ^ p - v) mod 2 ^ p"
proof -
  have "(2 :: nat) ^ q = 2 ^ p * 2 ^ (q - p)"
    using assms(1) by (simp flip: power_add)
  then obtain k where "(2 :: nat) ^ q = 2 ^ p + 2 ^ p * k"
    by (metis One_nat_def add.commute mult.commute mult_Suc_right not0_implies_Suc power_not_zero zero_neq_numeral)
  then have "2 ^ q - v = 2 ^ p - v + 2 ^ p * k"
    using assms(2) by simp
  then show ?thesis by simp
qed

lemma num_negate_val [num_simps]:
  assumes "p \<le> 128" "num_wf p n"
  shows "num_val (num_negate n p) = (if num_val n = 0 then 0 else 2 ^ p - num_val n)"
  using assms num_val_negate[of p n] sub_exp_mod[of p 128 "num_val n"]
  by (simp add: num_wf_def)

lemma num_negate_flags [simp]:
  "unsignedp (num_negate n p) = unsignedp n" "num_wf p (num_negate n p)"
  by (simp_all add: num_negate_def num_incr_def Let_def)

lemma num_negate_overflow [num_simps]:
  assumes "1 \<le> p" "p \<le> 128" "num_wf p n"
  shows "overflow (num_negate n p) \<longleftrightarrow> \<not> unsignedp n \<and> num_val n = 2 ^ (p - 1)"
proof -
  have "overflow (num_negate n p) \<longleftrightarrow>
          \<not> unsignedp n \<and> num_val (num_negate n p) = num_val n \<and> num_val (num_negate n p) \<noteq> 0"
    by (simp add: num_negate_def num_eq_val num_zerop_val num_incr_def Let_def)
  moreover have "(2::nat) ^ p = 2 * 2 ^ (p - 1)"
    using assms(1) by (cases p) simp_all
  ultimately show ?thesis
    using assms num_negate_val[OF assms(2,3)] by (auto simp: num_wf_def)
qed

lemma pair_mod_128:
  assumes "l < 2 ^ 64"
  shows "(h mod 2 ^ 64) * 2 ^ 64 + l = (h * 2 ^ 64 + l) mod (2 ^ 128 :: nat)"
proof -
  have "(h * 2 ^ 64 + l) mod (2 ^ 64 * 2 ^ 64) = 2 ^ 64 * (h mod 2 ^ 64) + l"
    using assms by (subst mod_mult2_eq) simp
  then show ?thesis by simp
qed

lemma add_parts:
  fixes a b :: "64 word"
  shows "unat a + unat b = (if a + b < a then 2 ^ 64 else 0) + unat (a + b)"
proof (cases "unat a + unat b < 2 ^ 64")
  case True
  then show ?thesis by (simp add: unat_word_ariths word_less_nat_alt)
next
  case False
  then have "unat (a + b) = unat a + unat b - 2 ^ 64"
    using unat_less_64[of a] unat_less_64[of b] by (simp add: unat_word_ariths mod_if)
  with False show ?thesis
    using unat_less_64[of b] by (simp add: word_less_nat_alt)
qed

lemma sub_parts:
  fixes a b :: "64 word"
  shows "unat (a - b) + unat b = (if a - b > a then 2 ^ 64 else 0) + unat a"
proof -
  have "a < a - b \<longleftrightarrow> (a - b) + b < a - b" by simp
  then show ?thesis
    using add_parts[of "a - b" b] by simp
qed

lemma num_plus_val [num_simps]:
  assumes "p \<le> 128"
  shows "num_val (num_plus a b p) = (num_val a + num_val b) mod 2 ^ p"
proof -
  let ?l = "low a + low b" and ?h = "high a + high b"
  define h' where "h' = (if ?l < low a then ?h + 1 else ?h)"
  define c :: nat where "c = (if ?l < low a then 1 else 0)"
  have h': "unat h' = (unat (high a) + unat (high b) + c) mod 2 ^ 64"
    by (simp add: h'_def c_def unat_word_ariths mod_Suc_eq)
  have "num_val a + num_val b = (unat (high a) + unat (high b) + c) * 2 ^ 64 + unat ?l"
    using add_parts[of "low a" "low b"] by (simp add: num_val_def c_def split: if_splits)
  then have "unat h' * 2 ^ 64 + unat ?l = (num_val a + num_val b) mod 2 ^ 128"
    unfolding h' by (simp only: pair_mod_128[OF unat_less_64])
  then show ?thesis
    using mod_mod_exp[OF assms] by (simp add: num_plus_def Let_def num_val_trim num_val_make h'_def)
qed

lemma add_exp_mod:
  assumes "p \<le> q" shows "(2 ^ q + x) mod 2 ^ p = (x :: nat) mod 2 ^ p"
proof -
  obtain k where "(2 :: nat) ^ q = 2 ^ p * k"
    using le_imp_power_dvd[OF assms, of "2 :: nat"] by (elim dvdE)
  then show ?thesis by simp
qed

lemma mod_add_sub_swap:
  fixes r b :: nat
  assumes "(r + b) mod m = a mod m" "b < m"
  shows "r mod m = (a + (m - b)) mod m"
proof -
  have "(r + b + (m - b)) mod m = (a + (m - b)) mod m"
    using assms(1) by (metis mod_add_left_eq)
  then show ?thesis using assms(2) by simp
qed

lemma num_minus_val [num_simps]:
  assumes "p \<le> 128" "num_wf p a" "num_wf p b"
  shows "num_val (num_minus a b p) = (num_val a + (2 ^ p - num_val b)) mod 2 ^ p"
proof -
  let ?l = "low a - low b" and ?h = "high a - high b"
  define h' where "h' = (if ?l > low a then ?h - 1 else ?h)"
  define c :: nat where "c = (if ?l > low a then 1 else 0)"
  define r where "r = unat h' * 2 ^ 64 + unat ?l"
  have "unat h' + unat (high b) + c = unat (high a) \<or> unat h' + unat (high b) + c = 2 ^ 64 + unat (high a)"
  proof -
    have "h' + (high b + of_nat c) = high a"
      by (simp add: h'_def c_def)
    then have "unat (h' + (high b + of_nat c)) = unat (high a)"
      by (rule arg_cong)
    then have "(unat h' + unat (high b) + c) mod 2 ^ 64 = unat (high a)"
      by (simp add: c_def unat_word_ariths mod_simps add.assoc split: if_splits)
    moreover have "unat h' + unat (high b) + c < 2 ^ 64 + 2 ^ 64"
      using unat_less_64[of h'] unat_less_64[of "high b"] by (simp add: c_def)
    ultimately show ?thesis
      by (auto simp: mod_if split: if_splits)
  qed
  then have "r + num_val b = num_val a \<or> r + num_val b = 2 ^ 128 + num_val a"
    using sub_parts[of "low a" "low b"] by (auto simp: r_def num_val_def c_def split: if_splits)
  then have "(r + num_val b) mod 2 ^ p = num_val a mod 2 ^ p"
    using add_exp_mod[OF assms(1)] by (elim disjE) simp_all
  then have "r mod 2 ^ p = (num_val a + (2 ^ p - num_val b)) mod 2 ^ p"
    using assms(3) by (intro mod_add_sub_swap) (simp_all add: num_wf_def)
  then show ?thesis
    by (simp add: num_minus_def Let_def num_val_trim num_val_make r_def h'_def)
qed

text \<open>
  Signed overflow of a sum and a difference of residues, over the half range \<open>H\<close>. A number
  below \<open>H\<close> reads as itself, another one as \<open>2 * H\<close> less.
\<close>

lemma signed_add_overflow:
  fixes a b H :: nat
  assumes "a < 2 * H" "b < 2 * H"
  defines "s \<equiv> (\<lambda>v. if v < H then int v else int v - 2 * int H)"
  defines "r \<equiv> (a + b) mod (2 * H)"
  shows "(a < H) = (b < H) \<and> (a < H) \<noteq> (r < H) \<longleftrightarrow> \<not> (- int H \<le> s a + s b \<and> s a + s b < int H)"
    and "- int H \<le> s a + s b \<and> s a + s b < int H \<Longrightarrow> s r = s a + s b"
proof -
  have "r = (if a + b < 2 * H then a + b else a + b - 2 * H)"
    using assms(1,2) by (simp add: r_def mod_if)
  then show "(a < H) = (b < H) \<and> (a < H) \<noteq> (r < H) \<longleftrightarrow> \<not> (- int H \<le> s a + s b \<and> s a + s b < int H)"
    and "- int H \<le> s a + s b \<and> s a + s b < int H \<Longrightarrow> s r = s a + s b"
    using assms(1,2) by (auto simp: s_def)
qed

lemma signed_sub_overflow:
  fixes a b H :: nat
  assumes "a < 2 * H" "b < 2 * H"
  defines "s \<equiv> (\<lambda>v. if v < H then int v else int v - 2 * int H)"
  defines "r \<equiv> (a + (2 * H - b)) mod (2 * H)"
  shows "(a < H) \<noteq> (b < H) \<and> (a < H) \<noteq> (r < H) \<longleftrightarrow> \<not> (- int H \<le> s a - s b \<and> s a - s b < int H)"
    and "- int H \<le> s a - s b \<and> s a - s b < int H \<Longrightarrow> s r = s a - s b"
proof -
  have "r = (if a < b then a + (2 * H - b) else a - b)"
    using assms(1,2) by (auto simp: r_def mod_if)
  then show "(a < H) \<noteq> (b < H) \<and> (a < H) \<noteq> (r < H) \<longleftrightarrow> \<not> (- int H \<le> s a - s b \<and> s a - s b < int H)"
    and "- int H \<le> s a - s b \<and> s a - s b < int H \<Longrightarrow> s r = s a - s b"
    using assms(1,2) by (auto simp: s_def)
qed

lemma num_ival_mod: "num_ival p n mod 2 ^ p = int (num_val n) mod 2 ^ p"
  by (simp add: num_ival_def)

lemma residue_int: "int (residue p z) = z mod 2 ^ p"
  by (simp add: residue_def)

lemma residue_cong: "x mod 2 ^ p = y mod 2 ^ p \<Longrightarrow> residue p x = residue p y"
  by (simp add: residue_def)

lemma residue_of_nat: "residue p (int v) = v mod 2 ^ p"
  by (simp add: residue_def nat_mod_distrib nat_power_eq)

lemma residue_ival: "num_wf p n \<Longrightarrow> residue p (num_ival p n) = num_val n"
  using residue_cong[OF num_ival_mod] by (simp add: residue_of_nat num_wf_def)

lemma num_ival_zero: "num_wf p n \<Longrightarrow> num_ival p n = 0 \<longleftrightarrow> num_val n = 0"
  using residue_ival[of p n] by (auto simp: residue_def num_ival_def)

lemma residue_less: "residue p z < 2 ^ p"
  by (simp add: residue_def nat_less_iff)

lemma exp_half: "1 \<le> p \<Longrightarrow> (2 :: 'a::semiring_1) ^ p = 2 * 2 ^ (p - 1)"
  by (cases p) simp_all

lemma num_ival_signed:
  assumes "\<not> unsignedp n" "1 \<le> p"
  shows "num_ival p n = (if num_val n < 2 ^ (p - 1) then int (num_val n) else int (num_val n) - 2 * int (2 ^ (p - 1)))"
  using assms by (simp add: num_ival_def exp_half)

lemma signed_range_half: "signed_range p z \<longleftrightarrow> - int (2 ^ (p - 1)) \<le> z \<and> z < int (2 ^ (p - 1))"
  by (simp add: signed_range_def)

text \<open>A signed number is the one value in the signed range with its residue.\<close>

lemma num_wf_int: "num_wf p n \<Longrightarrow> int (num_val n) < 2 ^ p"
  unfolding num_wf_def by (metis of_nat_less_iff of_nat_numeral of_nat_power)

lemma num_ival_range:
  assumes "1 \<le> p" "num_wf p n" "\<not> unsignedp n" shows "signed_range p (num_ival p n)"
proof -
  have "int (num_val n) < 2 * 2 ^ (p - 1)"
    using num_wf_int[OF assms(2)] exp_half[OF assms(1), where 'a = int] by simp
  moreover have "(0 :: int) < 2 ^ (p - 1)" by simp
  ultimately show ?thesis
    using assms by (auto simp: num_ival_signed signed_range_def)
qed

lemma num_ival_of_residue:
  assumes "1 \<le> p" "num_val n = residue p z" "\<not> unsignedp n" "signed_range p z"
  shows "num_ival p n = z"
proof (cases "0 \<le> z")
  case True
  with assms have "num_val n = nat z"
    by (simp add: residue_def signed_range_def exp_half)
  moreover have "nat z < 2 ^ (p - 1)"
    using True assms(4) by (simp add: signed_range_def nat_less_iff)
  ultimately show ?thesis
    using True by (simp add: num_ival_def)
next
  case False
  have "z mod 2 ^ p = (z + 2 ^ p) mod 2 ^ p" by simp
  also have "\<dots> = z + 2 ^ p"
    using False assms by (intro mod_pos_pos_trivial) (auto simp: signed_range_def exp_half)
  finally have "int (num_val n) = z + 2 ^ p"
    using assms(2) by (simp add: residue_int)
  moreover have "\<not> num_val n < 2 ^ (p - 1)"
  proof
    assume "num_val n < 2 ^ (p - 1)"
    then have "int (num_val n) < 2 ^ (p - 1)"
      by (metis of_nat_less_iff of_nat_numeral of_nat_power)
    with calculation assms show False
      by (simp add: signed_range_def exp_half)
  qed
  ultimately show ?thesis
    using assms(3) by (simp add: num_ival_def)
qed

lemma num_plus_flags [simp]:
  "unsignedp (num_plus a b p) \<longleftrightarrow> unsignedp a \<or> unsignedp b" "num_wf p (num_plus a b p)"
  by (simp_all add: num_plus_def Let_def)

lemma num_minus_flags [simp]:
  "unsignedp (num_minus a b p) \<longleftrightarrow> unsignedp a \<or> unsignedp b" "num_wf p (num_minus a b p)"
  by (simp_all add: num_minus_def Let_def)

lemma num_plus_residue:
  "p \<le> 128 \<Longrightarrow> num_val (num_plus a b p) = residue p (num_ival p a + num_ival p b)"
  by (simp add: num_plus_val residue_of_nat[symmetric] mod_add_cong[OF num_ival_mod num_ival_mod]
      cong: residue_cong)

lemma num_minus_residue:
  assumes "p \<le> 128" "num_wf p a" "num_wf p b"
  shows "num_val (num_minus a b p) = residue p (num_ival p a - num_ival p b)"
proof -
  have "(int (num_val a) + (2 ^ p - int (num_val b))) mod 2 ^ p = (num_ival p a - num_ival p b) mod 2 ^ p"
    using mod_diff_cong[OF num_ival_mod[of p a] num_ival_mod[of p b]]
    by (metis add_diff_eq diff_add_eq mod_add_self2)
  moreover have "int (num_val a + (2 ^ p - num_val b)) = int (num_val a) + (2 ^ p - int (num_val b))"
    using assms(3) by (simp add: num_wf_def of_nat_diff)
  ultimately show ?thesis
    using assms by (metis num_minus_val residue_cong residue_of_nat)
qed

lemma num_plus_overflow:
  assumes "1 \<le> p" "p \<le> 128" "num_wf p a" "num_wf p b" "\<not> unsignedp a" "\<not> unsignedp b"
  shows "overflow (num_plus a b p) \<longleftrightarrow> \<not> signed_range p (num_ival p a + num_ival p b)"
proof -
  have "overflow (num_plus a b p) \<longleftrightarrow>
          num_positive a p = num_positive b p \<and> num_positive a p \<noteq> num_positive (num_plus a b p) p"
    using assms(5,6) by (simp add: num_plus_def num_positive_def Let_def)
  also have "\<dots> \<longleftrightarrow> \<not> signed_range p (num_ival p a + num_ival p b)"
    using assms signed_add_overflow(1)[of "num_val a" "2 ^ (p - 1)" "num_val b"]
    by (simp add: num_positive_val num_plus_val num_ival_signed signed_range_half num_wf_def exp_half)
  finally show ?thesis .
qed

lemma num_minus_overflow:
  assumes "1 \<le> p" "p \<le> 128" "num_wf p a" "num_wf p b" "\<not> unsignedp a" "\<not> unsignedp b"
  shows "overflow (num_minus a b p) \<longleftrightarrow> \<not> signed_range p (num_ival p a - num_ival p b)"
proof -
  have "overflow (num_minus a b p) \<longleftrightarrow>
          num_positive a p \<noteq> num_positive b p \<and> num_positive a p \<noteq> num_positive (num_minus a b p) p"
    using assms(5,6) by (simp add: num_minus_def num_positive_def Let_def)
  also have "\<dots> \<longleftrightarrow> \<not> signed_range p (num_ival p a - num_ival p b)"
    using assms signed_sub_overflow(1)[of "num_val a" "2 ^ (p - 1)" "num_val b"]
    by (simp add: num_positive_val num_minus_val num_ival_signed signed_range_half num_wf_def exp_half)
  finally show ?thesis .
qed

lemma num_sum_overflow_unsigned [simp]:
  "unsignedp a \<or> unsignedp b \<Longrightarrow> \<not> overflow (num_plus a b p)"
  "unsignedp a \<or> unsignedp b \<Longrightarrow> \<not> overflow (num_minus a b p)"
  by (auto simp: num_plus_def num_minus_def Let_def)

lemma num_negate_residue:
  assumes "p \<le> 128" "num_wf p n"
  shows "num_val (num_negate n p) = residue p (- num_ival p n)"
proof -
  have "(- num_ival p n) mod 2 ^ p = (- int (num_val n)) mod 2 ^ p"
    by (metis mod_minus_eq num_ival_mod)
  also have "\<dots> = int (if num_val n = 0 then 0 else 2 ^ p - num_val n)"
  proof (cases "num_val n = 0")
    case False
    have "(- int (num_val n)) mod 2 ^ p = (2 ^ p - int (num_val n)) mod 2 ^ p"
      using minus_mod_self1[of "2 ^ p" "int (num_val n)"] by simp
    also have "\<dots> = 2 ^ p - int (num_val n)"
      using False num_wf_int[OF assms(2)] by (intro mod_pos_pos_trivial) simp_all
    finally show ?thesis
      using False assms(2) by (simp add: num_wf_def of_nat_diff)
  qed simp
  finally have "int (residue p (- num_ival p n)) = int (num_val (num_negate n p))"
    by (simp only: residue_int num_negate_val[OF assms])
  then show ?thesis by simp
qed

text \<open>
  Comparison: after the usual arithmetic conversions, which make both operands unsigned if
  one is.
\<close>

definition num_conv :: "nat \<Rightarrow> bool \<Rightarrow> cpp_num \<Rightarrow> int" where
  "num_conv p u n = (if u then int (num_val n) else num_ival p n)"

lemma num_greater_eq_val:
  assumes "1 \<le> p" "p \<le> 128" "num_wf p a" "num_wf p b"
  shows "num_greater_eq a b p \<longleftrightarrow>
           num_conv p (unsignedp a \<or> unsignedp b) a \<ge> num_conv p (unsignedp a \<or> unsignedp b) b"
proof -
  have cmp: "high a > high b \<or> (high a = high b \<and> low a \<ge> low b) \<longleftrightarrow> num_val b \<le> num_val a"
  proof -
    have "num_val b \<le> num_val a \<longleftrightarrow>
            unat (high b) < unat (high a) \<or> (unat (high a) = unat (high b) \<and> unat (low b) \<le> unat (low a))"
      using unat_less_64[of "low a"] unat_less_64[of "low b"] by (auto simp: num_val_def)
    then show ?thesis
      by (simp add: word_less_nat_alt word_le_nat_alt word_unat_eq_iff)
  qed
  define P where "P = (2 :: int) ^ p"
  have "int (num_val a) < P" "int (num_val b) < P"
    using num_wf_int assms(3,4) by (simp_all add: P_def)
  then show ?thesis
    using assms
    by (auto simp: num_greater_eq_def cmp Let_def num_conv_def num_positive_val num_ival_def P_def[symmetric])
qed

section \<open>Bitwise operators and shifts\<close>

text \<open>The bits of the integer a number denotes: above the precision they repeat the sign.\<close>

lemma num_ival_take_bit:
  assumes "1 \<le> p" "num_wf p n"
  shows "num_ival p n = (if unsignedp n then int (num_val n) else signed_take_bit (p - 1) (int (num_val n)))"
proof (cases "unsignedp n")
  case True
  then show ?thesis by (simp add: num_ival_def)
next
  case False
  define H where "H = (2 :: int) ^ (p - 1)"
  define v where "v = int (num_val n)"
  have p: "2 ^ p = 2 * H" "Suc (p - 1) = p"
    using exp_half[OF assms(1), where 'a = int] assms(1) by (simp_all add: H_def)
  have v: "0 \<le> v" "v < 2 * H"
    using num_wf_int[OF assms(2)] by (simp_all add: v_def p)
  have "signed_take_bit (p - 1) v = (v + H) mod (2 * H) - H"
    using p by (simp only: signed_take_bit_eq_take_bit_shift take_bit_eq_mod H_def[symmetric])
  also have "(v + H) mod (2 * H) = (if v < H then v + H else v - H)"
  proof (cases "v < H")
    case False
    have "(v + H) mod (2 * H) = (v + H - 2 * H) mod (2 * H)" by (rule minus_mod_self2[symmetric])
    also have "\<dots> = v - H"
      using False v by (subst mod_pos_pos_trivial) simp_all
    finally show ?thesis using False by simp
  qed (use v in \<open>simp add: mod_pos_pos_trivial\<close>)
  finally have "signed_take_bit (p - 1) v = (if v < H then v else v - 2 * H)"
    by simp
  moreover have "num_val n < 2 ^ (p - 1) \<longleftrightarrow> v < H"
    unfolding v_def H_def by (metis of_nat_less_iff of_nat_numeral of_nat_power)
  ultimately show ?thesis
    using False p by (simp add: num_ival_def v_def)
qed

lemma bit_num_ival:
  assumes "1 \<le> p" "num_wf p n"
  shows "bit (num_ival p n) i \<longleftrightarrow>
           (if i < p then bit (num_val n) i else \<not> unsignedp n \<and> bit (num_val n) (p - 1))"
proof -
  have z: "\<not> bit (num_val n) i" if "p \<le> i"
    using assms(2) that by (simp add: num_wf_def less_exp_iff_bits)
  have "min (p - 1) i = (if i < p then i else p - 1)"
    using assms(1) by auto
  then show ?thesis
    using assms z by (simp add: num_ival_take_bit bit_signed_take_bit_iff bit_of_nat_iff not_less)
qed

lemma bit_residue: "bit (residue p z) i \<longleftrightarrow> i < p \<and> bit z i"
proof -
  have "int (residue p z) = take_bit p z"
    by (simp add: residue_int take_bit_eq_mod)
  then show ?thesis
    by (metis bit_of_nat_iff_bit bit_take_bit_iff)
qed

lemma sign_mask_bit:
  assumes "1 \<le> p" "p \<le> 128" "num_wf p n"
  shows "unsignedp n \<or> num_positive n p \<longleftrightarrow> \<not> (\<not> unsignedp n \<and> bit (num_val n) (p - 1))"
  using assms top_bit_iff[of "num_val n" "p - 1"] by (auto simp: num_positive_val num_wf_def)

lemma num_move_flags [simp]:
  "unsignedp (num_move_down n k m) = unsignedp n" "unsignedp (num_sign_fill n p m) = unsignedp n"
  "unsignedp (num_move_up n k) = unsignedp n"
  by (simp_all add: num_move_down_def num_sign_fill_def num_move_up_def)

lemma bit_move_down:
  assumes "k < 128" "\<And>j. bit m j \<longleftrightarrow> s \<and> j < 64" "i < 128"
  shows "bit (num_val (num_move_down n k m)) i \<longleftrightarrow> (if i + k < 128 then bit (num_val n) (i + k) else s)"
proof -
  consider (small) "k = 0" | (low) "0 < k" "k < 64" | (eq) "k = 64" | (high) "64 < k" by linarith
  then show ?thesis
  proof cases
    case small
    then show ?thesis using assms(3) by (simp add: num_move_down_def)
  next
    case low
    then show ?thesis
      using assms(3)
      by (auto simp: num_move_down_def bit_num_val bit_simps assms(2) algebra_simps dest: bit_imp_le_length)
  next
    case eq
    then show ?thesis
      using assms(3) by (auto simp: num_move_down_def bit_num_val assms(2))
  next
    case high
    then show ?thesis
      using assms(1,3)
      by (auto simp: num_move_down_def bit_num_val bit_simps assms(2) algebra_simps dest: bit_imp_le_length)
  qed
qed

lemma bit_sign_fill:
  assumes "p \<le> 128" "num_wf p n" "\<And>j. bit m j \<longleftrightarrow> s \<and> j < 64" "i < 128"
  shows "bit (num_val (num_sign_fill n p m)) i \<longleftrightarrow> (if i < p then bit (num_val n) i else s)"
proof -
  have z: "\<not> bit (num_val n) j" if "p \<le> j" for j
    using assms(2) that by (simp add: num_wf_def less_exp_iff_bits)
  have hi: "\<not> bit (low n) j" if "p \<le> j" "j < 64" for j
    using z[OF that(1)] that bit_num_val[of n j] by simp
  have hi': "\<not> bit (high n) (j - 64)" if "p \<le> j" "64 \<le> j" for j
    using z[OF that(1)] that bit_num_val[of n j] by simp
  show ?thesis
    using assms(1,4) hi hi' by (auto simp: num_sign_fill_def bit_num_val bit_simps assms(3) not_less)
qed

lemma bit_move_up:
  assumes "k < 128" "i < 128"
  shows "bit (num_val (num_move_up n k)) i \<longleftrightarrow> k \<le> i \<and> bit (num_val n) (i - k)"
proof -
  consider (small) "k = 0" | (low) "0 < k" "k < 64" | (eq) "k = 64" | (high) "64 < k" by linarith
  then show ?thesis
  proof cases
    case small
    then show ?thesis by (simp add: num_move_up_def)
  next
    case low
    then show ?thesis
      using assms by (auto simp: num_move_up_def bit_num_val bit_simps algebra_simps dest: bit_imp_le_length)
  next
    case eq
    then show ?thesis
      using assms by (auto simp: num_move_up_def bit_num_val)
  next
    case high
    then show ?thesis
      using assms by (auto simp: num_move_up_def bit_num_val bit_simps algebra_simps dest: bit_imp_le_length)
  qed
qed

lemma num_rshift_flags [simp]:
  "unsignedp (num_rshift n p k) = unsignedp n" "\<not> overflow (num_rshift n p k)" "num_wf p (num_rshift n p k)"
  by (simp_all add: num_rshift_def Let_def)

lemma num_rshift_val [num_simps]:
  assumes "1 \<le> p" "p \<le> 128" "num_wf p n"
  shows "num_val (num_rshift n p k) = residue p (num_ival p n div 2 ^ k)"
proof -
  define s where "s \<longleftrightarrow> \<not> unsignedp n \<and> bit (num_val n) (p - 1)"
  define m where "m = (if s then NOT 0 else 0 :: 64 word)"
  have m: "(if unsignedp n \<or> num_positive n p then 0 else NOT 0 :: 64 word) = m"
    using sign_mask_bit[OF assms] by (simp add: m_def s_def)
  have bm: "bit m j \<longleftrightarrow> s \<and> j < 64" for j
    by (simp add: m_def bit_simps)
  have "bit (num_val (num_rshift n p k)) i \<longleftrightarrow> bit (residue p (drop_bit k (num_ival p n))) i" for i
  proof (cases "i < p")
    case True
    with assms(2) have i: "i < 128" by simp
    have "bit (num_val (num_rshift n p k)) i \<longleftrightarrow>
            bit (num_val (if k \<ge> p then n\<lparr>high := m, low := m\<rparr> else num_move_down (num_sign_fill n p m) k m)) i"
      using True by (simp add: num_rshift_def m Let_def num_val_trim nat_take_bit_mod bit_take_bit_iff)
    also have "\<dots> \<longleftrightarrow> (if i + k < p then bit (num_val n) (i + k) else s)"
      using assms i True by (auto simp: bit_num_val[of "n\<lparr>high := m, low := m\<rparr>"] bm
          bit_move_down[OF _ bm] bit_sign_fill[OF assms(2,3) bm])
    finally show ?thesis
      using True by (simp add: bit_residue bit_drop_bit_eq bit_num_ival[OF assms(1,3)] s_def add.commute)
  next
    case False
    then show ?thesis
      by (simp add: num_rshift_def Let_def num_val_trim nat_take_bit_mod bit_take_bit_iff bit_residue)
  qed
  then show ?thesis
    by (simp add: drop_bit_eq_div nat_bit_ext)
qed

lemma num_lshift_flags [simp]: "unsignedp (num_lshift n p k) = unsignedp n"
  by (simp add: num_lshift_def Let_def)

lemma num_move_up_trim:
  assumes "p \<le> 128" "k < p"
  shows "num_val (num_trim (num_move_up n k) p) = (num_val n * 2 ^ k) mod 2 ^ p"
proof -
  have "take_bit p (num_val (num_move_up n k)) = take_bit p (push_bit k (num_val n))"
    using assms by (intro nat_bit_ext) (auto simp: bit_take_bit_iff bit_push_bit_iff bit_move_up)
  then show ?thesis
    by (simp add: num_val_trim nat_take_bit_mod push_bit_eq_mult)
qed

lemma num_lshift_val [num_simps]:
  assumes "p \<le> 128"
  shows "num_val (num_lshift n p k) = (num_val n * 2 ^ k) mod 2 ^ p"
proof (cases "k < p")
  case True
  then show ?thesis
    using num_move_up_trim[OF assms True] by (simp add: num_lshift_def Let_def not_le)
next
  case False
  then have "(2 :: nat) ^ p dvd num_val n * 2 ^ k"
    by (simp add: le_imp_power_dvd)
  with False show ?thesis
    by (simp add: num_lshift_def num_val_def mod_eq_0_iff_dvd)
qed

lemma num_lshift_wf [simp]: "p \<le> 128 \<Longrightarrow> num_wf p (num_lshift n p k)"
  by (simp add: num_wf_def num_lshift_val)

lemma num_lshift_residue:
  "p \<le> 128 \<Longrightarrow> num_val (num_lshift n p k) = residue p (num_ival p n * 2 ^ k)"
  using residue_cong[OF mod_mult_cong[OF num_ival_mod refl], of p n "2 ^ k"] residue_of_nat[of p "num_val n * 2 ^ k"]
  by (simp add: num_lshift_val)

lemma signed_range_div:
  assumes "signed_range p z" shows "signed_range p (z div 2 ^ k)"
proof (cases "0 \<le> z")
  case True
  then have "0 \<le> z div 2 ^ k" "z div 2 ^ k \<le> z"
    using zdiv_mono2[of z 1 "2 ^ k"] by (simp_all add: pos_imp_zdiv_nonneg_iff)
  moreover have "- (2 ^ (p - 1)) \<le> (0 :: int)" by simp
  ultimately show ?thesis
    using assms True unfolding signed_range_def by linarith
next
  case False
  have "z = z * 2 ^ k div 2 ^ k" by simp
  also have "\<dots> \<le> z div 2 ^ k"
    using False by (intro zdiv_mono1) (simp_all add: mult_le_cancel_left1)
  finally have "z \<le> z div 2 ^ k" .
  moreover have "z div 2 ^ k < 0"
    using False by (intro div_neg_pos_less0) simp_all
  moreover have "(0 :: int) < 2 ^ (p - 1)" by simp
  ultimately show ?thesis
    using assms unfolding signed_range_def by linarith
qed

lemma signed_range_inj:
  assumes "1 \<le> p" "signed_range p x" "signed_range p y" "residue p x = residue p y"
  shows "x = y"
proof (rule ccontr)
  assume ne: "x \<noteq> y"
  have "x mod 2 ^ p = y mod 2 ^ p"
    using assms(4) by (metis residue_int)
  then have "2 ^ p dvd x - y"
    by (simp add: mod_eq_dvd_iff)
  then have "2 ^ p \<le> \<bar>x - y\<bar>"
    using ne dvd_imp_le_int[of "x - y" "2 ^ p"] by simp
  with assms show False
    by (simp add: signed_range_def exp_half abs_if split: if_splits)
qed

lemma signed_range_shift_big:
  assumes "1 \<le> p" "p \<le> k" shows "signed_range p (z * 2 ^ k) \<longleftrightarrow> z = 0"
proof
  assume "signed_range p (z * 2 ^ k)"
  moreover have "signed_range p 0"
    by (simp add: signed_range_def)
  moreover have "residue p (z * 2 ^ k) = residue p 0"
    using le_imp_power_dvd[OF assms(2), of "2 :: int"] by (simp add: residue_def mod_eq_0_iff_dvd)
  ultimately have "z * 2 ^ k = 0"
    using signed_range_inj[OF assms(1)] by blast
  then show "z = 0" by simp
qed (simp add: signed_range_def)

lemma num_lshift_overflow:
  assumes "1 \<le> p" "p \<le> 128" "num_wf p n"
  shows "overflow (num_lshift n p k) \<longleftrightarrow> \<not> unsignedp n \<and> \<not> signed_range p (num_ival p n * 2 ^ k)"
proof (cases "unsignedp n")
  case True
  then show ?thesis by (simp add: num_lshift_def Let_def)
next
  case signed: False
  show ?thesis
  proof (cases "k < p")
    case True
    define r where "r = num_trim (num_move_up n k) p"
    have r: "num_val r = residue p (num_ival p n * 2 ^ k)" "num_wf p r" "\<not> unsignedp r"
      using num_lshift_residue[OF assms(2), of n k] num_lshift_val[OF assms(2), of n k]
        num_move_up_trim[OF assms(2) True, of n] signed by (simp_all add: r_def)
    have o: "overflow (num_lshift n p k) \<longleftrightarrow> num_val n \<noteq> residue p (num_ival p r div 2 ^ k)"
      using True signed r num_rshift_val[OF assms(1,2) r(2), of k]
      by (simp add: num_lshift_def Let_def num_eq_val r_def)
    show ?thesis
    proof (cases "signed_range p (num_ival p n * 2 ^ k)")
      case True
      then have "num_ival p r = num_ival p n * 2 ^ k"
        using num_ival_of_residue[OF assms(1) r(1,3)] by simp
      with True o show ?thesis
        using residue_ival[OF assms(3)] by simp
    next
      case False
      have "num_val n \<noteq> residue p (num_ival p r div 2 ^ k)"
      proof
        assume "num_val n = residue p (num_ival p r div 2 ^ k)"
        then have q: "num_ival p n = num_ival p r div 2 ^ k"
          using signed_range_inj[OF assms(1)] num_ival_range[OF assms(1,3) signed]
            signed_range_div[OF num_ival_range[OF assms(1) r(2,3)]] residue_ival[OF assms(3)] by metis
        have "num_ival p r mod 2 ^ p = num_ival p n * 2 ^ k mod 2 ^ p"
          using residue_ival[OF r(2)] r(1) by (metis residue_int)
        then have "num_ival p r mod 2 ^ k = num_ival p n * 2 ^ k mod 2 ^ k"
          using True by (metis le_imp_power_dvd less_imp_le mod_mod_cancel)
        then have "num_ival p r = num_ival p n * 2 ^ k"
          using q div_mult_mod_eq[of "num_ival p r" "2 ^ k"] by simp
        then show False
          using False num_ival_range[OF assms(1) r(2,3)] by simp
      qed
      with False signed o show ?thesis by simp
    qed
  next
    case False
    then show ?thesis
      using signed num_ival_zero[OF assms(3)] signed_range_shift_big[OF assms(1), of k "num_ival p n"] by (simp add: num_lshift_def num_zerop_val)
  qed
qed

lemma num_bitwise_val [num_simps]:
  "num_val (num_bitwise_op a b CPP_AND) = num_val a AND num_val b"
  "num_val (num_bitwise_op a b CPP_OR) = num_val a OR num_val b"
  "num_val (num_bitwise_op a b CPP_XOR) = num_val a XOR num_val b"
  by (intro nat_bit_ext; simp add: num_bitwise_op_def Let_def bit_num_val bit_simps)+

lemma num_bitwise_flags [simp]:
  "unsignedp (num_bitwise_op a b op) \<longleftrightarrow> unsignedp a \<or> unsignedp b" "\<not> overflow (num_bitwise_op a b op)"
  by (simp_all add: num_bitwise_op_def Let_def)

lemma num_bitwise_wf [simp]:
  assumes "num_wf p a" "num_wf p b" shows "num_wf p (num_bitwise_op a b op)"
proof -
  have "num_val (num_bitwise_op a b op) \<in>
          {num_val a AND num_val b, num_val a OR num_val b, num_val a XOR num_val b}"
    using num_bitwise_val[of a b]
    by (cases "op = CPP_AND"; cases "op = CPP_OR") (auto simp: num_bitwise_op_def Let_def)
  then show ?thesis
    using assms by (auto simp: num_wf_def less_exp_iff_bits bit_simps)
qed

section \<open>Multiplication\<close>

lemma unat_LOW_PART: "unat (LOW_PART w) = unat w mod 2 ^ 32"
proof -
  have "HALF_MASK = mask 32"
    by (rule bit_word_eqI) (auto simp: HALF_MASK_def bit_simps)
  then have "LOW_PART w = take_bit 32 w"
    by (simp only: LOW_PART_def take_bit_eq_mask)
  then show ?thesis
    by (simp only: unsigned_take_bit_eq) (simp add: take_bit_eq_mod)
qed

lemma unat_HIGH_PART: "unat (HIGH_PART w) = unat w div 2 ^ 32"
  by (simp only: HIGH_PART_def unat_drop_bit_eq) (simp add: drop_bit_eq_div)

lemma half_product:
  assumes "unat a < 2 ^ 32" "unat b < 2 ^ 32"
  shows "unat (a * b :: 64 word) = unat a * unat b"
proof -
  have "unat a * unat b < 2 ^ 32 * 2 ^ 32"
    using assms by (intro mult_strict_mono) simp_all
  then show ?thesis
    by (simp add: unat_word_ariths)
qed

lemma half_shift:
  assumes "unat a < 2 ^ 32" shows "unat (push_bit 32 a :: 64 word) = unat a * 2 ^ 32"
proof -
  have "unat a * 2 ^ 32 < 2 ^ 32 * 2 ^ 32"
    using assms by (intro mult_strict_right_mono) simp_all
  then show ?thesis
    by (simp add: push_bit_eq_mult unat_word_ariths)
qed

text \<open>The schoolbook product of two parts over half parts, with its two carries.\<close>

lemma half_products:
  fixes a0 a1 b0 b1 c0 c1 l1 l2 :: nat
  assumes "a0 * b0 + (a0 * b1) mod 2 ^ 32 * 2 ^ 32 = c0 * 2 ^ 64 + l1"
    "l1 + (a1 * b0) mod 2 ^ 32 * 2 ^ 32 = c1 * 2 ^ 64 + l2"
  shows "(a1 * 2 ^ 32 + a0) * (b1 * 2 ^ 32 + b0) =
           (a1 * b1 + c0 + c1 + (a0 * b1) div 2 ^ 32 + (a1 * b0) div 2 ^ 32) * 2 ^ 64 + l2"
proof -
  have expand: "(a1 * 2 ^ 32 + a0) * (b1 * 2 ^ 32 + b0) = a1 * b1 * 2 ^ 64 + (a0 * b1 + a1 * b0) * 2 ^ 32 + a0 * b0"
    by (simp add: algebra_simps)
  have alg: "a1 * b1 * 2 ^ 64 + (P + Q) * 2 ^ 32 + a0 * b0 = (a1 * b1 + c0 + c1 + d + e) * 2 ^ 64 + l2"
    if "P = d * 2 ^ 32 + r" "Q = e * 2 ^ 32 + t"
      "a0 * b0 + r * 2 ^ 32 = c0 * 2 ^ 64 + l1" "l1 + t * 2 ^ 32 = c1 * 2 ^ 64 + l2"
    for P Q d e r t :: nat
    using that by simp
  show ?thesis
    by (rule trans[OF expand alg[OF div_mult_mod_eq[symmetric] div_mult_mod_eq[symmetric] assms]])
qed

lemma num_part_mul_val [num_simps]: "num_val (num_part_mul a b) = unat a * unat b"
proof -
  define a0 where "a0 = unat (LOW_PART a)"
  define a1 where "a1 = unat (HIGH_PART a)"
  define b0 where "b0 = unat (LOW_PART b)"
  define b1 where "b1 = unat (HIGH_PART b)"
  note defs = a0_def a1_def b0_def b1_def unat_LOW_PART unat_HIGH_PART
  have lt: "a0 < 2 ^ 32" "a1 < 2 ^ 32" "b0 < 2 ^ 32" "b1 < 2 ^ 32"
    using unat_less_64[of a] unat_less_64[of b] by (auto simp: defs less_mult_imp_div_less)
  have ab: "unat a = a1 * 2 ^ 32 + a0" "unat b = b1 * 2 ^ 32 + b0"
    by (simp_all add: defs)
  define m0 where "m0 = LOW_PART a * HIGH_PART b"
  define m1 where "m1 = HIGH_PART a * LOW_PART b"
  define l0 where "l0 = LOW_PART a * LOW_PART b"
  define h0 where "h0 = HIGH_PART a * HIGH_PART b"
  have p: "unat m0 = a0 * b1" "unat m1 = a1 * b0" "unat l0 = a0 * b0" "unat h0 = a1 * b1"
    using lt by (simp_all add: m0_def m1_def l0_def h0_def half_product a0_def a1_def b0_def b1_def)
  define l1 where "l1 = l0 + push_bit (PART_PRECISION div 2) (LOW_PART m0)"
  define l2 where "l2 = l1 + push_bit (PART_PRECISION div 2) (LOW_PART m1)"
  define c0 where "c0 = (if l1 < l0 then 1 else 0 :: nat)"
  define c1 where "c1 = (if l2 < l1 then 1 else 0 :: nat)"
  define X where "X = a1 * b1 + c0 + c1 + (a0 * b1) div 2 ^ 32 + (a1 * b0) div 2 ^ 32"
  have prod: "unat a * unat b = X * 2 ^ 64 + unat l2"
    unfolding ab X_def
    using add_parts[of l0 "push_bit 32 (LOW_PART m0)"] add_parts[of l1 "push_bit 32 (LOW_PART m1)"]
    by (intro half_products[where ?l1.0 = "unat l1"])
       (simp_all add: l1_def l2_def c0_def c1_def half_shift unat_LOW_PART p)
  define h where "h = (if l2 < l1 then (if l1 < l0 then h0 + 1 else h0) + 1
                       else (if l1 < l0 then h0 + 1 else h0)) + HIGH_PART m0 + HIGH_PART m1"
  have "X * 2 ^ 64 < 2 ^ 64 * 2 ^ 64"
    using prod mult_strict_mono[OF unat_less_64[of a] unat_less_64[of b]] by simp
  then have "X < 2 ^ 64" by simp
  moreover have "h = of_nat (unat h0 + c0 + c1 + unat (HIGH_PART m0) + unat (HIGH_PART m1))"
    by (simp add: h_def c0_def c1_def)
  then have "h = of_nat X"
    by (simp only: X_def unat_HIGH_PART p)
  then have "unat h = X mod 2 ^ 64"
    by (simp add: unat_of_nat)
  moreover have "num_part_mul a b = \<lparr>high = h, low = l2, unsignedp = True, overflow = False\<rparr>"
    unfolding num_part_mul_def Let_def h_def l2_def l1_def l0_def h0_def m0_def m1_def by (rule refl)
  ultimately show ?thesis
    using prod by (simp add: num_val_make)
qed

lemma num_mul_unsigned_exact:
  fixes a b :: cpp_num
  defines "t1 \<equiv> num_part_mul (high a) (low b)" and "t2 \<equiv> num_part_mul (low a) (high b)"
    and "r0 \<equiv> num_part_mul (low a) (low b)"
  defines "S \<equiv> unat (high r0) + unat (low t1) + unat (low t2)"
  shows "num_val a * num_val b =
           S * 2 ^ 64 + unat (low r0)
           + 2 ^ 128 * (unat (high a) * unat (high b) + unat (high t1) + unat (high t2))"
proof -
  have "num_val a * num_val b = 2 ^ 128 * (unat (high a) * unat (high b))
          + 2 ^ 64 * (unat (high a) * unat (low b) + unat (low a) * unat (high b)) + unat (low a) * unat (low b)"
    by (simp add: num_val_def algebra_simps)
  moreover have "unat (high a) * unat (low b) = unat (high t1) * 2 ^ 64 + unat (low t1)"
    "unat (low a) * unat (high b) = unat (high t2) * 2 ^ 64 + unat (low t2)"
    "unat (low a) * unat (low b) = unat (high r0) * 2 ^ 64 + unat (low r0)"
    unfolding t1_def t2_def r0_def by (simp_all flip: num_part_mul_val add: num_val_def)
  ultimately show ?thesis
    by (simp add: S_def algebra_simps)
qed

lemma num_mul_unsigned_val:
  assumes "p \<le> 128"
  shows "num_val (fst (num_mul_unsigned a b p)) = (num_val a * num_val b) mod 2 ^ p"
proof -
  define t1 where "t1 = num_part_mul (high a) (low b)"
  define t2 where "t2 = num_part_mul (low a) (high b)"
  define r0 where "r0 = num_part_mul (low a) (low b)"
  define S where "S = unat (high r0) + unat (low t1) + unat (low t2)"
  have u: "unat (high r0 + low t1 + low t2) = S mod 2 ^ 64"
    by (simp add: S_def unat_word_ariths mod_simps)
  have v: "num_val (r0\<lparr>high := high r0 + low t1 + low t2\<rparr>) = (S * 2 ^ 64 + unat (low r0)) mod 2 ^ 128"
    using u pair_mod_128[OF unat_less_64, of S "low r0"] by (simp add: num_val_def)
  have "fst (num_mul_unsigned a b p) = num_trim (r0\<lparr>high := high r0 + low t1 + low t2\<rparr>) p"
    by (simp add: num_mul_unsigned_def Let_def r0_def t1_def t2_def)
  then have "num_val (fst (num_mul_unsigned a b p)) = (S * 2 ^ 64 + unat (low r0)) mod 2 ^ 128 mod 2 ^ p"
    by (simp only: num_val_trim v)
  also have "(S * 2 ^ 64 + unat (low r0)) mod 2 ^ 128 = (num_val a * num_val b) mod 2 ^ 128"
    using num_mul_unsigned_exact[of a b] unfolding S_def t1_def t2_def r0_def
    by (metis mod_mult_self2)
  finally show ?thesis
    using mod_mod_exp[OF assms] by simp
qed

lemma num_mul_unsigned_flags [simp]:
  "num_wf p (fst (num_mul_unsigned a b p))" "unsignedp (fst (num_mul_unsigned a b p))"
  by (simp_all add: num_mul_unsigned_def num_part_mul_def Let_def)

lemma num_part_mul_high: "high (num_part_mul a b) \<noteq> 0 \<longleftrightarrow> 2 ^ 64 \<le> unat a * unat b"
proof -
  have "unat a * unat b = unat (high (num_part_mul a b)) * 2 ^ 64 + unat (low (num_part_mul a b))"
    by (simp flip: num_part_mul_val add: num_val_def)
  then show ?thesis
    using unat_less_64[of "low (num_part_mul a b)"]
    by (cases "unat (high (num_part_mul a b))") (auto simp: unat_eq_zero)
qed

lemma num_mul_unsigned_snd:
  assumes "p \<le> 128"
  shows "snd (num_mul_unsigned a b p) \<longleftrightarrow>
           (num_val a * num_val b) mod 2 ^ p \<noteq> (num_val a * num_val b) mod 2 ^ 128
           \<or> high (num_part_mul (high a) (low b)) \<noteq> 0 \<or> high (num_part_mul (low a) (high b)) \<noteq> 0
           \<or> (high a \<noteq> 0 \<and> high b \<noteq> 0)"
proof -
  have t: "num_trim x 128 = x" for x :: cpp_num
    by (simp add: num_trim_def)
  have "snd (num_mul_unsigned a b p) \<longleftrightarrow>
          \<not> num_eq (fst (num_mul_unsigned a b p)) (fst (num_mul_unsigned a b 128))
           \<or> high (num_part_mul (high a) (low b)) \<noteq> 0 \<or> high (num_part_mul (low a) (high b)) \<noteq> 0
           \<or> (high a \<noteq> 0 \<and> high b \<noteq> 0)"
    by (auto simp: num_mul_unsigned_def Let_def num_eq_def t)
  then show ?thesis
    using assms by (simp only: num_eq_val num_mul_unsigned_val order_refl)
qed

text \<open>The overflow the code notices is real; it notices all of it when no operand has a high part.\<close>

lemma num_mul_unsigned_sound:
  assumes "p \<le> 128" "snd (num_mul_unsigned a b p)"
  shows "2 ^ p \<le> num_val a * num_val b"
proof (rule ccontr)
  assume "\<not> 2 ^ p \<le> num_val a * num_val b"
  then have lt: "num_val a * num_val b < 2 ^ p" by simp
  then have lt128: "num_val a * num_val b < 2 ^ 128"
    using assms(1) by (rule less_exp_mono)
  have zero: "K = 0" if "N = M + 2 ^ 128 * K" "N < 2 ^ 128" for K M N :: nat
    using that by (cases K) simp_all
  have "unat (high a) * unat (high b) + unat (high (num_part_mul (high a) (low b)))
          + unat (high (num_part_mul (low a) (high b))) = 0"
    by (rule zero[OF num_mul_unsigned_exact lt128])
  with lt lt128 assms show False
    by (simp add: num_mul_unsigned_snd unat_eq_zero)
qed

lemma num_wf_small_high: "p \<le> 64 \<Longrightarrow> num_wf p a \<Longrightarrow> high a = 0"
proof -
  assume "p \<le> 64" "num_wf p a"
  then have "num_val a < 2 ^ 64"
    using less_exp_mono unfolding num_wf_def by blast
  then show ?thesis
    by (cases "unat (high a)") (auto simp: num_val_def unat_eq_zero)
qed

lemma num_mul_unsigned_complete:
  assumes "p \<le> 64" "num_wf p a" "num_wf p b"
  shows "snd (num_mul_unsigned a b p) \<longleftrightarrow> 2 ^ p \<le> num_val a * num_val b"
proof
  assume le: "2 ^ p \<le> num_val a * num_val b"
  have h: "high a = 0" "high b = 0"
    using assms num_wf_small_high by auto
  have "num_val a * num_val b < 2 ^ 64 * 2 ^ 64"
    using h by (intro mult_strict_mono) (simp_all add: num_val_def unat_less_64_num)
  moreover have "(num_val a * num_val b) mod 2 ^ p < 2 ^ p"
    by (rule mod_less_divisor) simp
  with le have "(num_val a * num_val b) mod 2 ^ p \<noteq> num_val a * num_val b"
    by linarith
  ultimately show "snd (num_mul_unsigned a b p)"
    using assms(1) by (simp add: num_mul_unsigned_snd)
qed (rule num_mul_unsigned_sound, use assms in auto)

lemma num_abs_val:
  assumes "1 \<le> p" "p \<le> 128" "num_wf p n" "u \<or> \<not> unsignedp n"
  shows "fst (num_abs u n p) \<longleftrightarrow> num_conv p u n < 0"
    and "int (num_val (snd (num_abs u n p))) = \<bar>num_conv p u n\<bar>"
    and "num_wf p (snd (num_abs u n p))"
proof -
  define P where "P = (2 :: nat) ^ p"
  have P: "num_val n < P" "int P = 2 ^ p"
    using assms(3) by (simp_all add: P_def num_wf_def)
  have c: "num_conv p u n = (if u \<or> num_val n < 2 ^ (p - 1) then int (num_val n) else int (num_val n) - int P)"
    using assms(4) by (auto simp: num_conv_def num_ival_def P(2))
  have neg: "num_val (num_negate n p) = (if num_val n = 0 then 0 else P - num_val n)"
    using num_negate_val[OF assms(2,3)] by (simp only: P_def)
  have pos: "num_positive n p \<longleftrightarrow> num_val n < 2 ^ (p - 1)"
    by (rule num_positive_val[OF assms(1-3)])
  show "fst (num_abs u n p) \<longleftrightarrow> num_conv p u n < 0"
    using P(1) by (simp add: num_abs_def c pos)
  show "int (num_val (snd (num_abs u n p))) = \<bar>num_conv p u n\<bar>"
    using P(1) by (auto simp: num_abs_def c pos neg of_nat_diff)
  show "num_wf p (snd (num_abs u n p))"
    using assms(3) by (simp add: num_abs_def)
qed

end
