(* ===== verification/Cpp_Arith.thy ===== *)
theory Cpp_Arith
  imports Cpp_Num
begin

text \<open>
  Signed multiplication, division, shifts by a computed count, and the operators of \<^verbatim>\<open>#if\<close> as a
  whole: every operation computes the mathematical result modulo \<open>2 ^ precision\<close>, keeps the
  numbers well formed, and sets \<open>overflow\<close> exactly when the signed result does not fit (where
  the code is able to notice).
\<close>

section \<open>Signed multiplication\<close>

lemma residue_minus:
  assumes "num_wf p n" "p \<le> 128" "num_val n = residue p z"
  shows "num_val (num_negate n p) = residue p (- z)"
proof -
  have "(- num_ival p n) mod 2 ^ p = (- z) mod 2 ^ p"
    using mod_minus_eq[of "num_ival p n" "2 ^ p"] mod_minus_eq[of z "2 ^ p"]
    by (simp only: residue_int[symmetric] residue_ival[OF assms(1)] assms(3))
  then show ?thesis
    using num_negate_residue[OF assms(2,1)] by (metis residue_cong)
qed

lemma num_mul_split:
  assumes "precision (opts pfile) = p" "u = (unsignedp a \<or> unsignedp b)"
    "r = fst (num_mul_unsigned (snd (num_abs u a p)) (snd (num_abs u b p)) p)"
    "ovf = snd (num_mul_unsigned (snd (num_abs u a p)) (snd (num_abs u b p)) p)"
    "neg = (fst (num_abs u a p) \<noteq> fst (num_abs u b p))"
    "s = (if neg then num_negate r p else r)"
  shows "num_mul pfile a b =
           s\<lparr>overflow := \<not> u \<and> (ovf \<or> (num_positive s p \<noteq> (\<not> neg) \<and> \<not> num_zerop s)), unsignedp := u\<rparr>"
  unfolding num_mul_def Let_def assms(1) assms(2)[symmetric] assms(3-6)
  by (simp add: split_beta num_positive_def)

lemma num_mul_flags [simp]:
  "unsignedp (num_mul pfile a b) \<longleftrightarrow> unsignedp a \<or> unsignedp b"
  "num_wf (precision (opts pfile)) (num_mul pfile a b)"
  by (simp_all add: num_mul_split[OF refl refl refl refl refl refl])

lemma abs_product_sign:
  fixes x y :: int
  shows "x * y = (if (x < 0) \<noteq> (y < 0) then - (\<bar>x\<bar> * \<bar>y\<bar>) else \<bar>x\<bar> * \<bar>y\<bar>)"
  by (auto simp: abs_if)

lemma num_mul_residue:
  assumes "1 \<le> p" "p \<le> 128" "num_wf p a" "num_wf p b" "precision (opts pfile) = p"
    "u = (unsignedp a \<or> unsignedp b)"
  shows "num_val (num_mul pfile a b) = residue p (num_conv p u a * num_conv p u b)"
proof -
  define x where "x = snd (num_abs u a p)"
  define y where "y = snd (num_abs u b p)"
  have x: "int (num_val x) = \<bar>num_conv p u a\<bar>" "fst (num_abs u a p) \<longleftrightarrow> num_conv p u a < 0"
    using num_abs_val[OF assms(1,2,3), of u] assms(6) by (auto simp: x_def)
  have y: "int (num_val y) = \<bar>num_conv p u b\<bar>" "fst (num_abs u b p) \<longleftrightarrow> num_conv p u b < 0"
    using num_abs_val[OF assms(1,2,4), of u] assms(6) by (auto simp: y_def)
  define r where "r = fst (num_mul_unsigned x y p)"
  have r: "num_wf p r" "num_val r = residue p (\<bar>num_conv p u a\<bar> * \<bar>num_conv p u b\<bar>)"
    using num_mul_unsigned_val[OF assms(2), of x y]
    by (simp_all add: r_def flip: x(1) y(1) residue_of_nat)
  then show ?thesis
    using residue_minus[OF r(1) assms(2) r(2)] x(2) y(2)
    by (simp add: num_mul_split[OF assms(5,6) r_def[unfolded x_def y_def] refl refl refl]
        abs_product_sign[of "num_conv p u a"])
qed

text \<open>The overflow test on the sign of the result, given the product \<open>N\<close> of the magnitudes.\<close>

lemma mul_sign_test:
  fixes N H :: nat
  assumes "0 < H" "v = (if neg \<and> N \<noteq> 0 then 2 * H - N else N)" "N < 2 * H"
  shows "(v < H) \<noteq> (\<not> neg) \<and> v \<noteq> 0 \<longleftrightarrow>
           \<not> (- int H \<le> (if neg then - int N else int N) \<and> (if neg then - int N else int N) < int H)"
  using assms by auto

lemma num_abs_signed:
  assumes "1 \<le> p" "p \<le> 128" "num_wf p n" "\<not> unsignedp n"
  shows "fst (num_abs False n p) \<longleftrightarrow> num_ival p n < 0"
    and "int (num_val (snd (num_abs False n p))) = \<bar>num_ival p n\<bar>"
    and "num_wf p (snd (num_abs False n p))"
  using num_abs_val[OF assms(1-3), of False] assms(4) by (simp_all add: num_conv_def)

lemma num_mul_overflow_fits:
  assumes "1 \<le> p" "p \<le> 128" "num_wf p a" "num_wf p b" "precision (opts pfile) = p"
    "\<not> unsignedp a" "\<not> unsignedp b" "\<bar>num_ival p a\<bar> * \<bar>num_ival p b\<bar> < 2 ^ p"
  shows "overflow (num_mul pfile a b) \<longleftrightarrow> \<not> signed_range p (num_ival p a * num_ival p b)"
proof -
  define x where "x = snd (num_abs False a p)"
  define y where "y = snd (num_abs False b p)"
  define neg where "neg = (fst (num_abs False a p) \<noteq> fst (num_abs False b p))"
  define r where "r = fst (num_mul_unsigned x y p)"
  define s where "s = (if neg then num_negate r p else r)"
  define N where "N = num_val x * num_val y"
  define H where "H = (2 :: nat) ^ (p - 1)"
  have H: "(2 :: nat) ^ p = 2 * H" "0 < H"
    using assms(1) by (simp_all add: H_def exp_half)
  have xy: "int N = \<bar>num_ival p a\<bar> * \<bar>num_ival p b\<bar>" "neg \<longleftrightarrow> (num_ival p a < 0) \<noteq> (num_ival p b < 0)"
    using num_abs_signed[OF assms(1,2,3,6)] num_abs_signed[OF assms(1,2,4,7)]
    by (simp_all add: x_def y_def N_def neg_def)
  have "int N < int (2 ^ p)"
    using assms(8) xy(1) by simp
  then have N: "N < 2 ^ p" by (simp only: of_nat_less_iff)
  have r: "num_wf p r" "num_val r = N"
    using num_mul_unsigned_val[OF assms(2), of x y] N by (simp_all add: r_def N_def)
  have s: "num_wf p s" "num_val s = (if neg \<and> N \<noteq> 0 then 2 * H - N else N)"
    using r num_negate_val[OF assms(2) r(1)] by (simp_all add: s_def H(1))
  have "\<not> snd (num_mul_unsigned x y p)"
    using num_mul_unsigned_sound[OF assms(2), of x y] N by (auto simp: N_def)
  then have "overflow (num_mul pfile a b) \<longleftrightarrow> (num_val s < H) \<noteq> (\<not> neg) \<and> num_val s \<noteq> 0"
    using assms(6,7) num_positive_val[OF assms(1,2) s(1)]
      num_mul_split[OF assms(5) _ r_def[unfolded x_def y_def] refl neg_def s_def]
    by (simp add: num_zerop_val H_def x_def y_def)
  also have "\<dots> \<longleftrightarrow> \<not> signed_range p (if neg then - int N else int N)"
    using mul_sign_test[OF H(2) s(2)] N by (simp only: H(1) signed_range_half H_def)
  finally show ?thesis
    by (simp only: abs_product_sign[of "num_ival p a"] xy)
qed

lemma signed_range_abs: "1 \<le> p \<Longrightarrow> signed_range p z \<Longrightarrow> \<bar>z\<bar> < 2 ^ p"
proof -
  assume "1 \<le> p" "signed_range p z"
  moreover from this have "(2 :: int) ^ p = 2 * 2 ^ (p - 1)" "(0 :: int) < 2 ^ (p - 1)"
    by (simp_all only: exp_half) simp
  ultimately show ?thesis
    unfolding signed_range_def by linarith
qed

lemma num_mul_overflow_sound:
  assumes "1 \<le> p" "p \<le> 128" "num_wf p a" "num_wf p b" "precision (opts pfile) = p"
    "\<not> unsignedp a" "\<not> unsignedp b" "overflow (num_mul pfile a b)"
  shows "\<not> signed_range p (num_ival p a * num_ival p b)"
  using num_mul_overflow_fits[OF assms(1-7)] assms(8) signed_range_abs[OF assms(1), of "num_ival p a * num_ival p b"]
  by (auto simp: abs_mult)

text \<open>With at most one part of precision all of it is noticed.\<close>

lemma num_mul_overflow:
  assumes "1 \<le> p" "p \<le> 64" "num_wf p a" "num_wf p b" "precision (opts pfile) = p"
    "\<not> unsignedp a" "\<not> unsignedp b"
  shows "overflow (num_mul pfile a b) \<longleftrightarrow> \<not> signed_range p (num_ival p a * num_ival p b)"
proof (cases "\<bar>num_ival p a\<bar> * \<bar>num_ival p b\<bar> < 2 ^ p")
  case True
  with assms show ?thesis by (intro num_mul_overflow_fits) simp_all
next
  case False
  have p: "p \<le> 128" using assms(2) by simp
  note a = num_abs_signed[OF assms(1) p assms(3,6)] and b = num_abs_signed[OF assms(1) p assms(4,7)]
  have "int (2 ^ p) \<le> int (num_val (snd (num_abs False a p)) * num_val (snd (num_abs False b p)))"
    using False a(2) b(2) by simp
  then have "snd (num_mul_unsigned (snd (num_abs False a p)) (snd (num_abs False b p)) p)"
    by (simp only: num_mul_unsigned_complete[OF assms(2) a(3) b(3)] of_nat_le_iff)
  then have "overflow (num_mul pfile a b)"
    using assms(6,7) by (simp add: num_mul_split[OF assms(5) refl refl refl refl refl])
  with num_mul_overflow_sound[OF assms(1) p assms(3-7)] show ?thesis by simp
qed

lemma num_mul_overflow_unsigned [simp]:
  "unsignedp a \<or> unsignedp b \<Longrightarrow> \<not> overflow (num_mul pfile a b)"
  by (auto simp: num_mul_split[OF refl refl refl refl refl refl])

section \<open>Shifts by a number\<close>

lemma num_shift_saturates:
  "p \<le> m \<Longrightarrow> p \<le> n \<Longrightarrow> num_lshift a p m = num_lshift a p n"
  "p \<le> m \<Longrightarrow> p \<le> n \<Longrightarrow> num_rshift a p m = num_rshift a p n"
  by (simp_all add: num_lshift_def num_rshift_def)

text \<open>
  The count, a non-negative number, as the host's \<^verbatim>\<open>size_t\<close>: exact, or at least as large as the
  precision when it has a high part.
\<close>

definition shift_count :: "host_info \<Rightarrow> cpp_num \<Rightarrow> nat" where
  "shift_count h n = (if high n \<noteq> 0 then 2 ^ size_t_bits h - 1 else size_t_of h (low n))"

definition count_fits :: "host_info \<Rightarrow> nat \<Rightarrow> bool" where
  "count_fits h k \<longleftrightarrow> 8 \<le> size_t_bits h \<and> (64 \<le> size_t_bits h \<or> k < 2 ^ size_t_bits h)"

lemma shift_count_exact:
  assumes "p \<le> 128" "count_fits h (num_val n)"
  shows "shift_count h n = num_val n \<or> (p \<le> shift_count h n \<and> p \<le> num_val n)"
proof (cases "high n = 0")
  case True
  have "unat (low n) < 2 ^ size_t_bits h"
    using assms(2) True less_exp_mono[OF unat_less_64] by (auto simp: count_fits_def num_val_def)
  then show ?thesis
    using True by (simp add: shift_count_def size_t_of_def num_val_def)
next
  case False
  then have "1 \<le> unat (high n)"
    by (metis One_nat_def Suc_leI neq0_conv unat_eq_zero)
  then have "1 * 2 ^ 64 \<le> unat (high n) * 2 ^ 64"
    by (rule mult_right_mono) simp
  then have "2 ^ 64 \<le> num_val n"
    by (simp add: num_val_def)
  moreover have "(2 :: nat) ^ 8 \<le> 2 ^ size_t_bits h"
    using assms(2) by (intro power_increasing) (simp_all add: count_fits_def)
  then have "128 \<le> (2 :: nat) ^ size_t_bits h - 1"
    by simp
  ultimately show ?thesis
    using False assms(1) unfolding shift_count_def by simp
qed

lemma num_shift_op_eq:
  assumes "1 \<le> p" "p \<le> 128" "precision (opts pfile) = p" "num_wf p b"
    "count_fits (host pfile) (nat \<bar>num_ival p b\<bar>)"
  shows "num_shift_op pfile a b op =
           (if (op = CPP_LSHIFT) = (0 \<le> num_ival p b) then num_lshift a p (nat \<bar>num_ival p b\<bar>)
            else num_rshift a p (nat \<bar>num_ival p b\<bar>))"
proof -
  define c where "c = (if \<not> unsignedp b \<and> \<not> num_positive b p then num_negate b p else b)"
  have abs: "num_abs (unsignedp b) b p = (\<not> unsignedp b \<and> \<not> num_positive b p, c)"
    by (simp add: num_abs_def c_def)
  have conv: "num_conv p (unsignedp b) b = num_ival p b"
    by (simp add: num_conv_def num_ival_def)
  have "int (num_val c) = \<bar>num_ival p b\<bar>" and neg: "\<not> unsignedp b \<and> \<not> num_positive b p \<longleftrightarrow> num_ival p b < 0"
    using num_abs_val[OF assms(1,2,4), of "unsignedp b"] by (simp_all add: abs conv)
  then have c: "nat \<bar>num_ival p b\<bar> = num_val c"
    by simp
  have "shift_count (host pfile) c = num_val c \<or> (p \<le> shift_count (host pfile) c \<and> p \<le> num_val c)"
    using shift_count_exact[OF assms(2)] assms(5) c by simp
  then have "num_lshift a p (shift_count (host pfile) c) = num_lshift a p (num_val c)"
    "num_rshift a p (shift_count (host pfile) c) = num_rshift a p (num_val c)"
    using num_shift_saturates by metis+
  then show ?thesis
    using neg by (auto simp: num_shift_op_def assms(3) c c_def shift_count_def Let_def)
qed

section \<open>Unary operators and sign extension\<close>

lemma num_val_not:
  assumes "1 \<le> p" "p \<le> 128" "num_wf p n"
  shows "num_val (num_trim (n\<lparr>high := NOT (high n), low := NOT (low n)\<rparr>) p) = residue p (- num_ival p n - 1)"
proof -
  have "num_val (num_trim (n\<lparr>high := NOT (high n), low := NOT (low n)\<rparr>) p) = residue p (NOT (num_ival p n))"
    using assms
    by (intro nat_bit_ext)
       (auto simp: bit_residue num_val_trim nat_take_bit_mod bit_take_bit_iff bit_not_iff bit_num_ival bit_num_val)
  then show ?thesis
    by (simp add: not_int_def)
qed

lemma num_unary_op_fst:
  "fst (num_unary_op pfile n CPP_UPLUS) = n\<lparr>overflow := False\<rparr>"
  "fst (num_unary_op pfile n CPP_UMINUS) = num_negate n (precision (opts pfile))"
  "fst (num_unary_op pfile n CPP_COMPL) =
     (num_trim (n\<lparr>high := NOT (high n), low := NOT (low n)\<rparr>) (precision (opts pfile)))\<lparr>overflow := False\<rparr>"
  "fst (num_unary_op pfile n CPP_NOT) =
     n\<lparr>low := of_bool_word (num_zerop n), high := 0, overflow := False, unsignedp := False\<rparr>"
  by (simp_all add: num_unary_op_def Let_def)

lemma num_val_low [num_simps]: "num_val (n\<lparr>low := l, high := 0\<rparr>) = unat l"
  by (simp add: num_val_def)

lemma num_sign_extend_val:
  assumes "1 \<le> p" "p \<le> 128" "num_wf p n"
  shows "num_val (cpp_num_sign_extend n p) = residue 128 (num_ival p n)"
proof (rule nat_bit_ext)
  fix i
  have low: "\<not> bit (low n) j" if "p \<le> j" "j < 64" for j
    using assms(3) that bit_num_val[of n j] by (simp add: num_wf_def less_exp_iff_bits)
  have high: "\<not> bit (high n) j" if "p \<le> j + 64" for j
    using assms(3) that bit_num_val[of n "j + 64"] by (simp add: num_wf_def less_exp_iff_bits)
  have single: "w AND push_bit k 1 = 0 \<longleftrightarrow> \<not> bit w k" for w :: "64 word" and k
    by (simp only: bit_iff_and_push_bit_not_eq_0 not_not)
  have single: "w AND 2 ^ k = 0 \<longleftrightarrow> \<not> bit w k" for w :: "64 word" and k
    using single[of w k] by (simp add: push_bit_eq_mult)
  show "bit (num_val (cpp_num_sign_extend n p)) i \<longleftrightarrow> bit (residue 128 (num_ival p n)) i"
  proof (cases "64 < p")
    case True
    then show ?thesis
      using assms low high by (auto simp: bit_residue bit_num_ival cpp_num_sign_extend_def Let_def single bit_num_val bit_simps dest: bit_imp_le_length)
  next
    case False
    then show ?thesis
      using assms low high by (auto simp: bit_residue bit_num_ival cpp_num_sign_extend_def Let_def single bit_num_val bit_simps dest: bit_imp_le_length)
  qed
qed

end
