(* ===== verification/Cpp_Div.thy ===== *)
theory Cpp_Div
  imports Cpp_Arith "HOL-Library.Signed_Division"
begin

text \<open>
  Division by shifting and subtracting, and the properties of the operators as a whole. The search
  for the high bit of the divisor is a loop without an exit test: it ends because some bit is set,
  provided it starts at or above that bit. From there the loop keeps the quotient so far, the
  remainder and the shifted divisor in the relation of long division.
\<close>

section \<open>The high bit of the divisor\<close>

lemma find_high_bit_zero: "find_high_bit w i 0 = None"
proof -
  have "m \<noteq> 0" if "find_high_bit w i m = Some j" for w i m j
    by (rule find_high_bit.raw_induct[where P = "\<lambda>_ _ m _. m \<noteq> 0", OF _ that]) (auto split: if_splits, blast)
  then show ?thesis
    by (cases "find_high_bit w i 0") auto
qed

lemma mask_down: "Suc k < 64 \<Longrightarrow> drop_bit 1 (push_bit (Suc k) 1 :: 64 word) = push_bit k 1"
  by (rule bit_word_eqI) (auto simp: bit_simps)

lemma mask_test: "k < 64 \<Longrightarrow> (w :: 64 word) AND push_bit k 1 \<noteq> 0 \<longleftrightarrow> bit w k"
  by (simp only: bit_iff_and_push_bit_not_eq_0)

text \<open>The loop finds the highest bit at or below its start, and runs forever when there is none.\<close>

lemma find_high_bit_Some:
  "bit w h \<Longrightarrow> h \<le> k \<Longrightarrow> k < 64 \<Longrightarrow> (\<And>j. h < j \<Longrightarrow> j \<le> k \<Longrightarrow> \<not> bit w j) \<Longrightarrow>
     find_high_bit w i (push_bit k 1) = Some (i - int (k - h))"
proof (induction k arbitrary: i)
  case 0
  then show ?case
    by (subst find_high_bit.simps) (simp add: mask_test[of 0, simplified])
next
  case (Suc k)
  show ?case
  proof (cases "h = Suc k")
    case True
    with Suc.prems show ?thesis
      by (subst find_high_bit.simps) (simp only: mask_test if_True, simp)
  next
    case False
    with Suc.prems have "h \<le> k" "\<not> bit w (Suc k)" by auto
    moreover from this have "find_high_bit w (i - 1) (push_bit k 1) = Some (i - 1 - int (k - h))"
      using Suc.prems by (intro Suc.IH) auto
    ultimately show ?thesis
      using Suc.prems(3) by (subst find_high_bit.simps) (simp only: mask_test mask_down if_False, simp)
  qed
qed

lemma find_high_bit_None:
  "k < 64 \<Longrightarrow> (\<And>j. j \<le> k \<Longrightarrow> \<not> bit w j) \<Longrightarrow> find_high_bit w i (push_bit k 1) = None"
proof (induction k arbitrary: i)
  case 0
  then have "w AND push_bit 0 1 = 0"
    using mask_test[of 0 w] by simp
  moreover have "drop_bit 1 (push_bit 0 1 :: 64 word) = 0"
    by simp
  ultimately show ?case
    by (subst find_high_bit.simps) (simp add: find_high_bit_zero)
next
  case (Suc k)
  then have "find_high_bit w (i - 1) (push_bit k 1) = None"
    by (intro Suc.IH) auto
  moreover have "\<not> bit w (Suc k)"
    using Suc.prems(2) by simp
  ultimately show ?case
    using Suc.prems(1) by (subst find_high_bit.simps) (simp only: mask_test mask_down if_False)
qed

text \<open>Where the search looks at the whole divisor it returns the position of its high bit.\<close>

definition high_bit_search :: "nat \<Rightarrow> cpp_num \<Rightarrow> int option" where
  "high_bit_search prec rhs =
     (if high rhs \<noteq> 0
      then find_high_bit (high rhs) (int prec - 1) (push_bit (prec - 1 - PART_PRECISION) 1)
      else let i = (if prec > PART_PRECISION then prec - PART_PRECISION - 1 else prec - 1)
           in find_high_bit (low rhs) (int i) (push_bit i 1))"

lemma high_bit_ex:
  assumes "0 < (n :: nat)" obtains t where "2 ^ t \<le> n" "n < 2 ^ Suc t"
  using ex_power_ivl1[of 2 n] assms by auto

lemma high_bit_bits:
  assumes "2 ^ t \<le> n" "(n :: nat) < 2 ^ Suc t"
  shows "bit n t" "\<And>j. t < j \<Longrightarrow> \<not> bit n j"
  using assms top_bit_iff[of n t] less_exp_iff_bits[of n "Suc t"] by auto

lemma high_bit_search_Some:
  assumes "1 \<le> p" "p \<le> 64 \<or> p = 128" "num_wf p n" "2 ^ t \<le> num_val n" "num_val n < 2 ^ Suc t"
  shows "high_bit_search p n = Some (int t)"
proof -
  note b = high_bit_bits[OF assms(4,5)]
  have tp: "t < p"
    using assms(3,4) unfolding num_wf_def by (meson less_le_trans not_le power_increasing order.strict_trans1 one_le_numeral)
  show ?thesis
  proof (cases "high n = 0")
    case True
    then have "t < 64"
      using b(1) bit_num_val[of n t] by (cases "t < 64") auto
    moreover have "\<not> bit (low n) j" if "t < j" "j < 64" for j
      using b(2)[OF that(1)] that(2) bit_num_val[of n j] by simp
    moreover have "bit (low n) t"
      using b(1) \<open>t < 64\<close> bit_num_val[of n t] by simp
    moreover define i where "i = (if p > 64 then p - 64 - 1 else p - 1)"
    moreover have "i < 64" "t \<le> i"
      using assms(1,2) tp calculation by (auto simp: i_def)
    ultimately have "find_high_bit (low n) (int i) (push_bit i 1) = Some (int i - int (i - t))"
      by (intro find_high_bit_Some) auto
    with True \<open>t \<le> i\<close> show ?thesis
      by (simp only: high_bit_search_def Let_def i_def[symmetric]) simp
  next
    case False
    then obtain j where "bit (high n) j"
      by (auto simp: bit_eq_iff)
    then have t64: "64 \<le> t" "\<not> p \<le> 64"
      using b bit_num_val[of n "j + 64"] tp by (auto simp: not_less) (metis le_add2 linorder_not_less order_trans)+
    then have "bit (high n) (t - 64)" "\<And>j. t - 64 < j \<Longrightarrow> \<not> bit (high n) j"
      using b(1) b(2)[unfolded bit_num_val, of "_ + 64"] bit_num_val[of n t] by auto
    then have "find_high_bit (high n) (int p - 1) (push_bit (p - 1 - 64) 1)
        = Some (int p - 1 - int (p - 1 - 64 - (t - 64)))"
      using t64 assms(2) tp by (intro find_high_bit_Some) auto
    with False t64 tp show ?thesis
      by (simp add: high_bit_search_def of_nat_diff)
  qed
qed

section \<open>The subtract-and-shift loop\<close>

lemma num_val_set_bit:
  assumes "i < 128"
  shows "num_val (if 64 \<le> i then n\<lparr>high := high n OR push_bit (i - 64) 1\<rparr> else n\<lparr>low := low n OR push_bit i 1\<rparr>)
           = num_val n OR 2 ^ i"
  using assms
  by (intro nat_bit_ext) (auto simp: bit_num_val bit_simps bit_exp_iff split: if_splits)

lemma or_exp_multiple: "(q * 2 ^ Suc i) OR 2 ^ i = q * 2 ^ Suc i + (2 :: nat) ^ i"
proof -
  have "\<not> bit (push_bit (Suc i) q) j \<or> \<not> bit ((2 :: nat) ^ i) j" for j
    by (auto simp: bit_push_bit_iff bit_exp_iff simp del: push_bit_Suc)
  then have "push_bit (Suc i) q + 2 ^ i = push_bit (Suc i) q OR (2 :: nat) ^ i"
    by (rule disjunctive_add)
  then show ?thesis
    by (simp add: push_bit_eq_mult)
qed

lemma num_val_halve:
  "num_val (n\<lparr>low := drop_bit 1 (low n) OR push_bit 63 (high n), high := drop_bit 1 (high n)\<rparr>)
     = num_val n div 2"
proof -
  have "num_val (n\<lparr>low := drop_bit 1 (low n) OR push_bit 63 (high n), high := drop_bit 1 (high n)\<rparr>)
          = drop_bit 1 (num_val n)"
    by (intro nat_bit_ext)
       (auto simp: bit_num_val bit_simps Suc_diff_le[symmetric] not_less dest: bit_imp_le_length)
  then show ?thesis by (simp add: drop_bit_Suc)
qed

lemma num_minus_exact:
  assumes "p \<le> 128" "num_wf p a" "num_wf p b" "num_val b \<le> num_val a"
  shows "num_val (num_minus a b p) = num_val a - num_val b"
proof -
  have "num_val a + (2 ^ p - num_val b) = num_val a - num_val b + 2 ^ p"
    using assms by (simp add: num_wf_def)
  then show ?thesis
    using assms by (simp only: num_minus_val mod_add_self2) (simp add: num_wf_def)
qed

text \<open>
  The loop invariant: \<open>sub\<close> is the divisor \<open>R\<close> shifted by \<open>i\<close>, the rest of the dividend is
  below twice that, and the quotient bits found so far are above \<open>i\<close>.
\<close>

lemma div_loop_correct:
  assumes "1 \<le> p" "p \<le> 128" "precision (opts pfile) = p" "0 < R"
  shows "\<lbrakk>i < p; num_wf p lhs; num_wf p sub; unsignedp lhs; unsignedp sub;
     num_val sub = R * 2 ^ i; num_val lhs < R * 2 ^ Suc i; num_val result = Q * 2 ^ Suc i;
     div_loop pfile p i lhs sub result = (l, q)\<rbrakk>
   \<Longrightarrow> num_val l = num_val lhs mod R \<and> num_val q = Q * 2 ^ Suc i + num_val lhs div R \<and> unsignedp l
       \<and> unsignedp q = unsignedp result"
proof (induction i arbitrary: lhs sub result Q)
  case 0
  have ge: "num_greater_eq lhs sub p \<longleftrightarrow> R \<le> num_val lhs"
    using num_greater_eq_val[OF assms(1,2) 0(2,3)] 0(4-6) by (simp add: num_conv_def)
  show ?case
  proof (cases "R \<le> num_val lhs")
    case True
    have "num_val lhs div R = 1"
      using 0(7) True assms(4) by (intro div_nat_eqI) simp_all
    moreover have "num_val lhs mod R = num_val lhs - R"
      using calculation by (simp add: modulo_nat_def)
    ultimately show ?thesis
      using 0 True ge assms(2,3) or_exp_multiple[of Q 0] num_val_set_bit[of 0 result] num_minus_exact[OF assms(2) 0(2,3)]
      by (auto simp: div_loop.simps num_binary_op_def)
  next
    case False
    then show ?thesis
      using 0 ge by (auto simp: div_loop.simps)
  qed
next
  case (Suc i)
  define sub' where "sub' = sub\<lparr>low := drop_bit 1 (low sub) OR push_bit 63 (high sub), high := drop_bit 1 (high sub)\<rparr>"
  have sub': "num_val sub' = R * 2 ^ i" "num_wf p sub'" "unsignedp sub'"
    using Suc.prems(3,5,6) num_val_halve[of sub] by (auto simp: sub'_def num_wf_def)
  have ge: "num_greater_eq lhs sub p \<longleftrightarrow> R * 2 ^ Suc i \<le> num_val lhs"
    using num_greater_eq_val[OF assms(1,2) Suc.prems(2,3)] Suc.prems(4,5)
    by (simp only: num_conv_def Suc.prems(6) of_nat_le_iff if_True simp_thms)
  show ?case
  proof (cases "R * 2 ^ Suc i \<le> num_val lhs")
    case True
    define lhs' where "lhs' = num_minus lhs sub p"
    define result' where "result' = (if 64 \<le> Suc i then result\<lparr>high := high result OR push_bit (Suc i - 64) 1\<rparr>
                                     else result\<lparr>low := low result OR push_bit (Suc i) 1\<rparr>)"
    have l: "num_val lhs = num_val lhs' + R * 2 ^ Suc i"
      using num_minus_exact[OF assms(2) Suc.prems(2,3)] True Suc.prems(6) by (simp add: lhs'_def)
    have r: "num_val result' = (2 * Q + 1) * 2 ^ Suc i"
      using num_val_set_bit[of "Suc i" result] Suc.prems(1,8) assms(2) or_exp_multiple[of Q "Suc i"]
      by (simp add: result'_def algebra_simps)
    have "div_loop pfile p i lhs' sub' result' = (l, q)"
      using Suc.prems(9) True ge assms(3)
      by (simp add: div_loop.simps[of _ _ "Suc i"] num_binary_op_def lhs'_def sub'_def result'_def)
    then have "num_val l = num_val lhs' mod R \<and> num_val q = (2 * Q + 1) * 2 ^ Suc i + num_val lhs' div R
        \<and> unsignedp l \<and> unsignedp q = unsignedp result'"
      using Suc.prems l sub' r by (intro Suc.IH[of lhs' sub' result']) (simp_all add: lhs'_def)
    moreover have "num_val lhs mod R = num_val lhs' mod R" "num_val lhs div R = num_val lhs' div R + 2 ^ Suc i"
      using assms(4) by (simp_all only: l mod_mult_self2 div_mult_self2)
    ultimately show ?thesis
      by (simp add: result'_def algebra_simps)
  next
    case False
    then have "div_loop pfile p i lhs sub' result = (l, q)"
      using Suc.prems(9) ge by (simp add: div_loop.simps[of _ _ "Suc i"] sub'_def)
    then have "num_val l = num_val lhs mod R \<and> num_val q = (2 * Q) * 2 ^ Suc i + num_val lhs div R
        \<and> unsignedp l \<and> unsignedp q = unsignedp result"
      using Suc.prems False sub' by (intro Suc.IH[of lhs sub' result]) simp_all
    then show ?thesis by simp
  qed
qed

section \<open>Quotient and remainder\<close>

lemma div_core:
  assumes "1 \<le> p" "p \<le> 64 \<or> p = 128" "precision (opts pfile) = p" "num_wf p x" "num_wf p y" "num_val y \<noteq> 0"
  obtains t l q where "high_bit_search p y = Some (int t)" "t < p"
    "div_loop pfile p (p - t - 1) (x\<lparr>unsignedp := True\<rparr>) (num_lshift (y\<lparr>unsignedp := True\<rparr>) p (p - t - 1))
       \<lparr>high = 0, low = 0, unsignedp = False, overflow = False\<rparr> = (l, q)"
    "num_val l = num_val x mod num_val y" "num_val q = num_val x div num_val y"
proof -
  obtain t where t: "2 ^ t \<le> num_val y" "num_val y < 2 ^ Suc t"
    using high_bit_ex assms(6) by (metis neq0_conv)
  have p: "p \<le> 128" using assms(2) by auto
  have tp: "t < p"
    using assms(5) t(1) unfolding num_wf_def by (metis linorder_not_le order.strict_trans2 power_increasing one_le_numeral not_le order_trans)
  define i where "i = p - t - 1"
  have e: "p = t + Suc i" using tp by (simp add: i_def)
  have up: "num_val y * 2 ^ i < 2 ^ p"
  proof -
    have "num_val y * 2 ^ i < 2 ^ Suc t * 2 ^ i"
      using t(2) by (rule mult_strict_right_mono) simp
    then show ?thesis by (simp add: e power_add mult.commute)
  qed
  define sub where "sub = num_lshift (y\<lparr>unsignedp := True\<rparr>) p i"
  have sub: "num_val sub = num_val y * 2 ^ i" "num_wf p sub" "unsignedp sub"
    using num_lshift_val[OF p, of "y\<lparr>unsignedp := True\<rparr>" i] up by (simp_all add: sub_def num_wf_def)
  have "2 ^ t * 2 ^ Suc i \<le> num_val y * 2 ^ Suc i"
    using t(1) by (rule mult_right_mono) simp
  moreover have "num_val x < 2 ^ t * 2 ^ Suc i"
    using assms(4) unfolding num_wf_def e power_add .
  ultimately have x: "num_val x < num_val y * 2 ^ Suc i"
    by (rule order.strict_trans2[rotated])
  obtain l q where lq: "div_loop pfile p i (x\<lparr>unsignedp := True\<rparr>) sub
       \<lparr>high = 0, low = 0, unsignedp = False, overflow = False\<rparr> = (l, q)"
    by (metis surj_pair)
  have "num_val l = num_val (x\<lparr>unsignedp := True\<rparr>) mod num_val y \<and>
        num_val q = 0 * 2 ^ Suc i + num_val (x\<lparr>unsignedp := True\<rparr>) div num_val y \<and> unsignedp l \<and>
        unsignedp q = unsignedp \<lparr>high = 0, low = 0, unsignedp = False, overflow = False\<rparr>"
    using assms(4,6) sub x e by (intro div_loop_correct[OF assms(1) p assms(3) _ _ _ _ _ _ _ _ _ lq]) (simp_all add: num_val_make)
  then show ?thesis
    using high_bit_search_Some[OF assms(1,2,5) t] tp lq by (intro that[of t l q]) (simp_all add: i_def sub_def)
qed

text \<open>Truncating division, as C has it.\<close>

lemma sdiv_sign: "(x::int) sdiv y = (if (x < 0) \<noteq> (y < 0) then - (\<bar>x\<bar> div \<bar>y\<bar>) else \<bar>x\<bar> div \<bar>y\<bar>)"
  by (cases "x = 0"; cases "y = 0") (auto simp: signed_divide_int_def sgn_if)

lemma smod_sign: "(x::int) smod y = (if x < 0 then - (\<bar>x\<bar> mod \<bar>y\<bar>) else \<bar>x\<bar> mod \<bar>y\<bar>)"
  by (auto simp: signed_modulo_int_def sgn_if)

lemma signed_range_sdiv:
  assumes "signed_range p A" "B \<noteq> 0"
  shows "\<not> signed_range p (A sdiv B) \<longleftrightarrow> A = - (2 ^ (p - 1)) \<and> B = - 1"
proof -
  define H where "H = (2 :: int) ^ (p - 1)"
  have A: "- H \<le> A" "A < H" "0 < H"
    using assms(1) by (simp_all add: signed_range_def H_def)
  have q: "\<bar>A sdiv B\<bar> = \<bar>A\<bar> div \<bar>B\<bar>"
    using assms(2) abs_of_nonneg[OF div_int_pos_iff[THEN iffD2], of "\<bar>A\<bar>" "\<bar>B\<bar>"] by (simp add: sdiv_sign)
  have le: "\<bar>A\<bar> div \<bar>B\<bar> \<le> \<bar>A\<bar>"
    using assms(2) zdiv_mono2[of "\<bar>A\<bar>" 1 "\<bar>B\<bar>"] by simp
  show ?thesis
  proof (cases "\<bar>A\<bar> < H \<or> \<bar>B\<bar> > 1")
    case True
    have "\<bar>A\<bar> div \<bar>B\<bar> < H"
    proof (cases "\<bar>B\<bar> > 1 \<and> A \<noteq> 0")
      case True
      then have "\<bar>A\<bar> div \<bar>B\<bar> < \<bar>A\<bar>"
        by (intro int_div_less_self) simp_all
      then show ?thesis using A by linarith
    qed (use True le A in auto)
    then show ?thesis
      using q A True unfolding signed_range_def H_def[symmetric] by auto
  next
    case False
    then have "A = - H" "B = 1 \<or> B = - 1"
      using A assms(2) by auto
    then show ?thesis
      using A(3) unfolding signed_range_def H_def[symmetric] by (auto simp: sdiv_sign)
  qed
qed

lemma num_div_op_eq:
  assumes "precision (opts pfile) = p" "u = (unsignedp a \<or> unsignedp b)" "num_abs u a p = (an, x)"
    "num_abs u b p = (bn, y)" "num_val y \<noteq> 0" "high_bit_search p y = Some (int t)" "t < p"
    "div_loop pfile p (p - t - 1) (x\<lparr>unsignedp := True\<rparr>) (num_lshift (y\<lparr>unsignedp := True\<rparr>) p (p - t - 1))
       \<lparr>high = 0, low = 0, unsignedp = False, overflow = False\<rparr> = (l, q)"
    "s = (if \<not> u \<and> an \<noteq> bn then num_negate (q\<lparr>unsignedp := u, overflow := False\<rparr>) p
          else q\<lparr>unsignedp := u, overflow := False\<rparr>)"
  shows "num_div_op pfile a b CPP_DIV loc =
           Some (s\<lparr>overflow := \<not> u \<and> num_positive s p \<noteq> (an = bn) \<and> \<not> num_zerop s\<rparr>, pfile)"
    and "op \<noteq> CPP_DIV \<Longrightarrow> num_div_op pfile a b op loc =
           Some (if an then num_negate (l\<lparr>unsignedp := u, overflow := False\<rparr>) p
                 else l\<lparr>unsignedp := u, overflow := False\<rparr>, pfile)"
proof -
  have z: "\<not> (high y = 0 \<and> low y = 0)"
    using assms(5) by (auto simp: num_val_def)
  have i: "nat (int p - int t - 1) = p - t - 1"
    by simp
  note d = num_div_op_def assms(1) assms(2)[symmetric] assms(3,4) prod.case z if_False
    high_bit_search_def[symmetric, unfolded Let_def] assms(6) option.case i assms(8)
  show "num_div_op pfile a b CPP_DIV loc =
           Some (s\<lparr>overflow := \<not> u \<and> num_positive s p \<noteq> (an = bn) \<and> \<not> num_zerop s\<rparr>, pfile)"
    by (simp only: d Let_def) (simp add: assms(9))
  show "num_div_op pfile a b op loc =
           Some (if an then num_negate (l\<lparr>unsignedp := u, overflow := False\<rparr>) p
                 else l\<lparr>unsignedp := u, overflow := False\<rparr>, pfile)" if "op \<noteq> CPP_DIV"
    using that by (simp only: d Let_def if_False)
qed

lemma num_abs_pair:
  assumes "1 \<le> p" "p \<le> 128" "num_wf p n" "u \<or> \<not> unsignedp n"
  obtains m where "num_abs u n p = (num_conv p u n < 0, m)" "int (num_val m) = \<bar>num_conv p u n\<bar>" "num_wf p m"
  using num_abs_val[OF assms] by (cases "num_abs u n p") auto

lemma num_val_signed:
  assumes "p \<le> 128" "num_wf p n" "int (num_val n) = m"
  shows "num_val (if c then num_negate n p else n) = residue p (if c then - m else m)"
  using assms residue_minus[OF assms(2,1), of m] residue_of_nat[of p "num_val n"]
  by (auto simp: num_wf_def)

text \<open>What both operators return, in terms of the quotient and the remainder of the magnitudes.\<close>

lemma num_div_op_magnitudes:
  assumes "1 \<le> p" "p \<le> 64 \<or> p = 128" "precision (opts pfile) = p" "num_wf p a" "num_wf p b"
    "u = (unsignedp a \<or> unsignedp b)" "num_val b \<noteq> 0" "A = num_conv p u a" "B = num_conv p u b"
  obtains l q where "int (num_val q) = \<bar>A\<bar> div \<bar>B\<bar>" "int (num_val l) = \<bar>A\<bar> mod \<bar>B\<bar>"
    "num_wf p q" "num_wf p l" "unsignedp q = u" "unsignedp l = u" "\<not> overflow l"
    "\<And>s. s = (if (A < 0) \<noteq> (B < 0) then num_negate q p else q) \<Longrightarrow>
       num_div_op pfile a b CPP_DIV loc =
         Some (s\<lparr>overflow := \<not> u \<and> num_positive s p \<noteq> ((A < 0) = (B < 0)) \<and> \<not> num_zerop s\<rparr>, pfile)"
    "\<And>op. op \<noteq> CPP_DIV \<Longrightarrow> num_div_op pfile a b op loc = Some (if A < 0 then num_negate l p else l, pfile)"
proof -
  have p: "p \<le> 128" using assms(2) by auto
  obtain x where x: "num_abs u a p = (A < 0, x)" "int (num_val x) = \<bar>A\<bar>" "num_wf p x"
    using num_abs_pair[OF assms(1) p assms(4), of u] assms(6,8) by auto
  obtain y where y: "num_abs u b p = (B < 0, y)" "int (num_val y) = \<bar>B\<bar>" "num_wf p y"
    using num_abs_pair[OF assms(1) p assms(5), of u] assms(6,9) by auto
  have "B \<noteq> 0"
    using assms(7) num_ival_zero[OF assms(5)] by (simp add: assms(9) num_conv_def)
  then have y0: "num_val y \<noteq> 0"
    using y(2) by auto
  obtain t l q where core: "high_bit_search p y = Some (int t)" "t < p"
    "div_loop pfile p (p - t - 1) (x\<lparr>unsignedp := True\<rparr>) (num_lshift (y\<lparr>unsignedp := True\<rparr>) p (p - t - 1))
       \<lparr>high = 0, low = 0, unsignedp = False, overflow = False\<rparr> = (l, q)"
    and v: "num_val l = num_val x mod num_val y" "num_val q = num_val x div num_val y"
    using div_core[OF assms(1,2,3) x(3) y(3) y0] by metis
  have wf: "num_wf p q" "num_wf p l"
    using x(3) v order.strict_trans1[OF div_le_dividend, of "num_val x" "2 ^ p" "num_val y"]
      order.strict_trans1[OF mod_less_eq_dividend, of "num_val x" "2 ^ p" "num_val y"]
    by (simp_all add: num_wf_def)
  have u: "\<not> u \<and> (A < 0) \<noteq> (B < 0) \<longleftrightarrow> (A < 0) \<noteq> (B < 0)"
    using assms(6,8,9) by (auto simp: num_conv_def)
  note eqs = num_div_op_eq[OF assms(3,6) x(1) y(1) y0 core, unfolded u]
  show ?thesis
    by (rule that[OF _ _ _ _ _ _ _ eqs(1) eqs(2)[OF refl]])
       (use wf v x(2) y(2) in \<open>simp_all add: of_nat_div of_nat_mod\<close>)
qed

lemma num_div_op_div:
  assumes "1 \<le> p" "p \<le> 64 \<or> p = 128" "precision (opts pfile) = p" "num_wf p a" "num_wf p b"
    "u = (unsignedp a \<or> unsignedp b)" "num_val b \<noteq> 0" "A = num_conv p u a" "B = num_conv p u b"
  obtains r where "num_div_op pfile a b CPP_DIV loc = Some (r, pfile)" "unsignedp r = u" "num_wf p r"
    "num_val r = residue p (A sdiv B)" "overflow r \<longleftrightarrow> \<not> u \<and> \<not> signed_range p (A sdiv B)"
proof -
  have p: "p \<le> 128" using assms(2) by auto
  obtain l q where q: "int (num_val q) = \<bar>A\<bar> div \<bar>B\<bar>" "num_wf p q" "unsignedp q = u" and
    eq: "\<And>s. s = (if (A < 0) \<noteq> (B < 0) then num_negate q p else q) \<Longrightarrow>
       num_div_op pfile a b CPP_DIV loc =
         Some (s\<lparr>overflow := \<not> u \<and> num_positive s p \<noteq> ((A < 0) = (B < 0)) \<and> \<not> num_zerop s\<rparr>, pfile)"
    using num_div_op_magnitudes[OF assms, of loc] by metis
  define neg where "neg = ((A < 0) \<noteq> (B < 0))"
  define s where "s = (if neg then num_negate q p else q)"
  have s: "num_wf p s" "unsignedp s = u" "num_val s = residue p (A sdiv B)"
    using q num_val_signed[OF p q(2,1), of neg] by (simp_all add: s_def sdiv_sign neg_def)
  define H where "H = (2 :: nat) ^ (p - 1)"
  have H: "(2 :: nat) ^ p = 2 * H" "0 < H"
    using assms(1) by (simp_all add: H_def exp_half)
  have "num_val s = (if neg \<and> num_val q \<noteq> 0 then 2 * H - num_val q else num_val q)"
    using num_negate_val[OF p q(2)] by (simp add: s_def H(1))
  from mul_sign_test[OF H(2) this] q(2)
  have "(num_val s < H) \<noteq> (\<not> neg) \<and> num_val s \<noteq> 0 \<longleftrightarrow>
    \<not> signed_range p (if neg then - int (num_val q) else int (num_val q))"
    by (simp only: num_wf_def H(1) signed_range_half H_def)
  then have "num_positive s p \<noteq> (\<not> neg) \<and> \<not> num_zerop s \<longleftrightarrow> \<not> signed_range p (A sdiv B)"
    using num_positive_val[OF assms(1) p s(1)] by (simp add: num_zerop_val H_def q(1) sdiv_sign neg_def)
  with s show ?thesis
    by (intro that[OF eq[of s]]) (auto simp: s_def neg_def)
qed

lemma num_div_op_mod:
  assumes "1 \<le> p" "p \<le> 64 \<or> p = 128" "precision (opts pfile) = p" "num_wf p a" "num_wf p b"
    "u = (unsignedp a \<or> unsignedp b)" "num_val b \<noteq> 0" "A = num_conv p u a" "B = num_conv p u b" "op \<noteq> CPP_DIV"
  obtains r where "num_div_op pfile a b op loc = Some (r, pfile)" "unsignedp r = u" "num_wf p r"
    "num_val r = residue p (A smod B)" "\<not> overflow r"
proof -
  have p: "p \<le> 128" using assms(2) by auto
  obtain l q where l: "int (num_val l) = \<bar>A\<bar> mod \<bar>B\<bar>" "num_wf p l" "unsignedp l = u" "\<not> overflow l" and
    eq: "num_div_op pfile a b op loc = Some (if A < 0 then num_negate l p else l, pfile)"
    using num_div_op_magnitudes[OF assms(1-9), of loc] assms(10) by metis
  have "num_val l \<noteq> 2 ^ (p - 1)" if "\<not> u"
  proof -
    have "\<bar>B\<bar> \<le> 2 ^ (p - 1)"
      using that num_ival_range[OF assms(1,5)] assms(6,9) by (auto simp: num_conv_def signed_range_def)
    moreover have "B \<noteq> 0"
      using assms(7) num_ival_zero[OF assms(5)] by (simp add: assms(9) num_conv_def)
    then have "\<bar>A\<bar> mod \<bar>B\<bar> < \<bar>B\<bar>" by simp
    ultimately have "int (num_val l) < int (2 ^ (p - 1))"
      using l(1) by simp
    then show ?thesis by linarith
  qed
  then have "\<not> overflow (if A < 0 then num_negate l p else l)"
    using l(3,4) num_negate_overflow[OF assms(1) p l(2)] by auto
  with l num_val_signed[OF p l(2,1), of "A < 0"] show ?thesis
    by (intro that[OF eq]) (simp_all add: smod_sign)
qed

lemma num_div_op_zero:
  assumes "precision (opts pfile) = p" "1 \<le> p" "p \<le> 128" "num_val b = 0"
  shows "num_div_op pfile a b op loc =
    Some (snd (num_abs (unsignedp a \<or> unsignedp b) a p),
          diag_if (skip_eval pfile = 0)
            (\<lambda>r. cpp_error_with_line r CPP_DL_ERROR loc ''division by zero in #if'') pfile)"
proof -
  have "num_abs u b p = (False, b)" for u
    using assms by (simp add: num_abs_def num_positive_val num_wf_def)
  moreover have "high b = 0 \<and> low b = 0"
    using assms(4) num_val_inj[of b "\<lparr>high = 0, low = 0, unsignedp = True, overflow = True\<rparr>"]
    by (simp add: num_val_make)
  ultimately show ?thesis
    by (simp add: num_div_op_def assms(1) split_beta)
qed

text \<open>
  Between the two part sizes the search for the high bit of a one-part divisor starts too low:
  with 65 bits it only looks at bit 0.
\<close>

lemma num_div_op_diverges:
  assumes "precision (opts pfile) = 65" "unsignedp a"
  shows "num_div_op pfile a \<lparr>high = 0, low = 2, unsignedp = True, overflow = False\<rparr> op loc = None"
proof -
  have "find_high_bit 2 (int 0) (push_bit 0 1) = None"
    by (rule find_high_bit_None) (simp_all add: bit_simps)
  then show ?thesis
    using assms by (simp add: num_div_op_def num_abs_def)
qed

section \<open>Properties of the arithmetic\<close>

lemma num_conv_inj:
  assumes "num_wf p a" "num_wf p b" "u = (unsignedp a \<or> unsignedp b)"
  shows "num_conv p u a = num_conv p u b \<longleftrightarrow> num_val a = num_val b"
  using assms residue_ival[OF assms(1)] residue_ival[OF assms(2)]
  by (auto simp: num_conv_def num_ival_def)

lemma neg_minus_exp_neq: "int v \<noteq> - (2 ^ k)"
  using zero_less_power[of "2 :: int" k] by linarith

text \<open>The inputs of the examples: a 64-bit reader and numbers given by their bits.\<close>

definition reader64 :: cpp_reader where
  "reader64 = create_reader host_lp64 CLK_GNUC17"

definition num_make :: "bool \<Rightarrow> nat \<Rightarrow> cpp_num" where
  "num_make u v = \<lparr>high = of_nat (v div 2 ^ 64), low = of_nat v, unsignedp = u, overflow = False\<rparr>"

lemma reader64_simps [simp]:
  "precision (opts reader64) = 64" "host reader64 = host_lp64" "skip_eval reader64 = 0"
  by (simp_all add: reader64_def create_reader_def create_options_def cpp_set_lang_def host_lp64_def Let_def)

lemma reader128_precision: "precision (opts (reader64\<lparr>opts := (opts reader64)\<lparr>precision := 128\<rparr>\<rparr>)) = 128"
  by simp

lemma num_make_simps [simp]:
  "unsignedp (num_make u v) = u" "v < 2 ^ 64 \<Longrightarrow> num_val (num_make u v) = v"
  by (simp_all add: num_make_def num_val_make div_eq_0_iff unat_of_nat)

lemmas example_simps = num_wf_def num_ival_def num_conv_def signed_range_def residue_def count_fits_def host_lp64_def

text \<open>
  C15: addition and subtraction. On well-formed numbers of the reader's precision the result is
  the sum or difference of the operands' values modulo \<open>2 ^ precision\<close>, it is unsigned as soon as
  one operand is, and overflow is reported exactly when both operands are signed and the true
  result is outside the signed range.
\<close>

theorem num_sum_correct:
  assumes "1 \<le> p" "p \<le> 128" "precision (opts pfile) = p" "num_wf p a" "num_wf p b"
  shows "num_val (fst (num_binary_op pfile a b CPP_PLUS)) = residue p (num_ival p a + num_ival p b)
    \<and> num_val (fst (num_binary_op pfile a b CPP_MINUS)) = residue p (num_ival p a - num_ival p b)
    \<and> (unsignedp (fst (num_binary_op pfile a b CPP_PLUS)) \<longleftrightarrow> unsignedp a \<or> unsignedp b)
    \<and> (unsignedp (fst (num_binary_op pfile a b CPP_MINUS)) \<longleftrightarrow> unsignedp a \<or> unsignedp b)
    \<and> (overflow (fst (num_binary_op pfile a b CPP_PLUS)) \<longleftrightarrow>
         \<not> unsignedp a \<and> \<not> unsignedp b \<and> \<not> signed_range p (num_ival p a + num_ival p b))
    \<and> (overflow (fst (num_binary_op pfile a b CPP_MINUS)) \<longleftrightarrow>
         \<not> unsignedp a \<and> \<not> unsignedp b \<and> \<not> signed_range p (num_ival p a - num_ival p b))"
  using assms num_plus_overflow[OF assms(1,2,4,5)] num_minus_overflow[OF assms(1,2,4,5)]
  by (cases "unsignedp a \<or> unsignedp b") (auto simp: num_binary_op_def num_plus_residue num_minus_residue)

theorem num_sum_correct_witness:
  "overflow (fst (num_binary_op reader64 (num_make False (2 ^ 63 - 1)) (num_make False 1) CPP_PLUS))
   \<and> num_val (fst (num_binary_op reader64 (num_make True 0) (num_make False 1) CPP_MINUS)) = 2 ^ 64 - 1"
  using num_sum_correct[of 64 reader64 "num_make False (2 ^ 63 - 1)" "num_make False 1"]
    num_sum_correct[of 64 reader64 "num_make True 0" "num_make False 1"]
  by (simp add: example_simps)

text \<open>
  C16: the unary operators. Minus and complement compute \<open>- x\<close> and \<open>- x - 1\<close> modulo
  \<open>2 ^ precision\<close>, \<open>!\<close> yields the signed truth value, plus leaves the number alone; only the
  negation of the most negative signed number overflows.
\<close>

theorem num_unary_correct:
  assumes "1 \<le> p" "p \<le> 128" "precision (opts pfile) = p" "num_wf p n"
  shows "num_val (fst (num_unary_op pfile n CPP_UMINUS)) = residue p (- num_ival p n)
    \<and> (overflow (fst (num_unary_op pfile n CPP_UMINUS)) \<longleftrightarrow> \<not> unsignedp n \<and> num_ival p n = - (2 ^ (p - 1)))
    \<and> num_val (fst (num_unary_op pfile n CPP_COMPL)) = residue p (- num_ival p n - 1)
    \<and> num_val (fst (num_unary_op pfile n CPP_NOT)) = of_bool (num_ival p n = 0)
    \<and> \<not> unsignedp (fst (num_unary_op pfile n CPP_NOT))
    \<and> num_val (fst (num_unary_op pfile n CPP_UPLUS)) = num_val n
    \<and> (\<forall>op. op = CPP_UMINUS \<or> \<not> overflow (fst (num_unary_op pfile n op)))"
proof -
  have "num_ival p n = - (2 ^ (p - 1)) \<longleftrightarrow> num_val n = 2 ^ (p - 1)" if "\<not> unsignedp n"
    using num_ival_signed[OF that assms(1)] neg_minus_exp_neq[of "num_val n" "p - 1"] by (auto split: if_splits)
  then have ov: "overflow (num_negate n p) \<longleftrightarrow> \<not> unsignedp n \<and> num_ival p n = - (2 ^ (p - 1))"
    unfolding num_negate_overflow[OF assms(1,2,4)] by blast
  have "\<forall>op. op = CPP_UMINUS \<or> \<not> overflow (fst (num_unary_op pfile n op))"
    by (simp add: num_unary_op_def Let_def)
  then show ?thesis
    unfolding num_unary_op_fst assms(3) ov num_val_flags num_negate_residue[OF assms(2,4)]
      num_val_not[OF assms(1,2,4)] num_zerop_val num_ival_zero[OF assms(4)]
    by (simp add: num_val_low)
qed

theorem num_unary_correct_witness:
  "overflow (fst (num_unary_op reader64 (num_make False (2 ^ 63)) CPP_UMINUS))
   \<and> num_val (fst (num_unary_op reader64 (num_make False 0) CPP_COMPL)) = 2 ^ 64 - 1"
  using num_unary_correct[of 64 reader64 "num_make False (2 ^ 63)"] num_unary_correct[of 64 reader64 "num_make False 0"]
  by (simp add: example_simps)

lemma num_shift_value:
  assumes "1 \<le> p" "p \<le> 128" "precision (opts pfile) = p" "num_wf p a" "num_wf p b" "op \<in> {CPP_LSHIFT, CPP_RSHIFT}"
    "k = (if op = CPP_LSHIFT then num_ival p b else - num_ival p b)" "count_fits (host pfile) (nat \<bar>k\<bar>)"
    "r = fst (num_binary_op pfile a b op)"
  shows "num_val r = residue p (if 0 \<le> k then num_ival p a * 2 ^ nat k else num_ival p a div 2 ^ nat (- k))
    \<and> unsignedp r = unsignedp a
    \<and> (overflow r \<longleftrightarrow> 0 \<le> k \<and> \<not> unsignedp a \<and> \<not> signed_range p (num_ival p a * 2 ^ nat k))"
proof -
  have k: "\<bar>k\<bar> = \<bar>num_ival p b\<bar>" "op = CPP_LSHIFT \<or> op = CPP_RSHIFT"
    using assms(6,7) by auto
  have r: "r = (if 0 \<le> k then num_lshift a p (nat k) else num_rshift a p (nat (- k)))"
    if "num_ival p b \<noteq> 0"
    using num_shift_op_eq[OF assms(1-3,5), of a op] assms(7-9) k that
    by (auto simp: num_binary_op_def abs_if split: if_splits)
  show ?thesis
  proof (cases "num_ival p b = 0")
    case True
    then have "r = num_lshift a p 0 \<or> r = num_rshift a p 0" "k = 0"
      using num_shift_op_eq[OF assms(1-3,5), of a op] assms(7-9) k by (auto simp: num_binary_op_def)
    then show ?thesis
      using assms(1,2,4) num_ival_range[OF assms(1,4)]
      by (auto simp: num_lshift_residue num_lshift_overflow num_rshift_val)
  next
    case False
    then show ?thesis
      using r assms(1,2,4) by (auto simp: num_lshift_residue num_lshift_overflow num_rshift_val)
  qed
qed

text \<open>
  C14: shifts. A negative count shifts the other way; a left shift multiplies by a power of two
  modulo \<open>2 ^ precision\<close> and overflows exactly when the signed product does not fit, a right shift
  is the floor of the quotient (so it replicates the sign). The count has to fit the host's
  \<^verbatim>\<open>size_t\<close>, which every count does on a 64-bit host.
\<close>

theorem num_shift_correct:
  assumes "1 \<le> p" "p \<le> 128" "precision (opts pfile) = p" "num_wf p a" "num_wf p b" "op \<in> {CPP_LSHIFT, CPP_RSHIFT}"
    "k = (if op = CPP_LSHIFT then num_ival p b else - num_ival p b)" "count_fits (host pfile) (nat \<bar>k\<bar>)"
    "r = fst (num_binary_op pfile a b op)"
  shows "num_val r = residue p (if 0 \<le> k then num_ival p a * 2 ^ nat k else num_ival p a div 2 ^ nat (- k))
    \<and> unsignedp r = unsignedp a
    \<and> (overflow r \<longleftrightarrow> 0 \<le> k \<and> \<not> unsignedp a \<and> \<not> signed_range p (num_ival p a * 2 ^ nat k))"
  by (rule num_shift_value[OF assms])

theorem num_shift_correct_witness:
  "num_val (fst (num_binary_op reader64 (num_make False 5) (num_make False (2 ^ 64 - 1)) CPP_RSHIFT)) = 10
   \<and> num_val (fst (num_binary_op reader64 (num_make False (2 ^ 64 - 8)) (num_make False 1) CPP_RSHIFT)) = 2 ^ 64 - 4"
  using num_shift_correct[of 64 reader64 "num_make False 5" "num_make False (2 ^ 64 - 1)" CPP_RSHIFT, OF _ _ _ _ _ _ refl _ refl]
    num_shift_correct[of 64 reader64 "num_make False (2 ^ 64 - 8)" "num_make False 1" CPP_RSHIFT, OF _ _ _ _ _ _ refl _ refl]
  by (simp add: example_simps)

text \<open>
  C13: multiplication. The product is exact modulo \<open>2 ^ precision\<close>, overflow is never reported
  without cause, and up to a precision of 64 bits it is reported whenever the signed product does
  not fit. (If one operand is unsigned both are taken as unsigned and nothing is reported.)
\<close>

theorem num_mul_correct:
  assumes "1 \<le> p" "p \<le> 128" "precision (opts pfile) = p" "num_wf p a" "num_wf p b"
    "u = (unsignedp a \<or> unsignedp b)" "z = num_conv p u a * num_conv p u b"
  shows "num_val (num_mul pfile a b) = residue p z \<and> unsignedp (num_mul pfile a b) = u
    \<and> (overflow (num_mul pfile a b) \<longrightarrow> \<not> u \<and> \<not> signed_range p z)
    \<and> (p \<le> 64 \<longrightarrow> (overflow (num_mul pfile a b) \<longleftrightarrow> \<not> u \<and> \<not> signed_range p z))"
  using num_mul_residue[OF assms(1,2,4,5,3,6)] num_mul_overflow_sound[OF assms(1,2,4,5,3)]
    num_mul_overflow[OF assms(1) _ assms(4,5,3)] num_mul_overflow_unsigned[of a b pfile] assms(6,7)
  by (cases u) (auto simp: num_conv_def)

theorem num_mul_correct_witness:
  "num_val (num_mul reader64 (num_make False 6) (num_make False (2 ^ 64 - 7))) = 2 ^ 64 - 42
   \<and> \<not> overflow (num_mul reader64 (num_make False 6) (num_make False (2 ^ 64 - 7)))
   \<and> overflow (num_mul reader64 (num_make False (2 ^ 32)) (num_make False (2 ^ 31)))"
  using num_mul_correct[OF _ _ _ _ _ refl refl, of 64 reader64 "num_make False 6" "num_make False (2 ^ 64 - 7)"]
    num_mul_correct[OF _ _ _ _ _ refl refl, of 64 reader64 "num_make False (2 ^ 32)" "num_make False (2 ^ 31)"]
  by (simp add: example_simps)

text \<open>
  C9: division and remainder. For a precision of at most 64 bits, or of 128, both operators
  return for every non-zero divisor. The quotient truncates towards zero, the remainder has the
  sign of the dividend, no diagnostic is issued, and the only overflow is the quotient of the most
  negative number by \<open>-1\<close>.
\<close>

theorem num_div_correct:
  assumes "1 \<le> p" "p \<le> 64 \<or> p = 128" "precision (opts pfile) = p" "num_wf p a" "num_wf p b"
    "u = (unsignedp a \<or> unsignedp b)" "num_val b \<noteq> 0" "A = num_conv p u a" "B = num_conv p u b"
  shows "(\<exists>q. num_div_op pfile a b CPP_DIV loc = Some (q, pfile) \<and> num_val q = residue p (A sdiv B)
            \<and> unsignedp q = u \<and> (overflow q \<longleftrightarrow> \<not> u \<and> A = - (2 ^ (p - 1)) \<and> B = - 1))
       \<and> (\<exists>r. num_div_op pfile a b CPP_MOD loc = Some (r, pfile) \<and> num_val r = residue p (A smod B)
            \<and> unsignedp r = u \<and> \<not> overflow r)"
proof -
  have "\<not> signed_range p (A sdiv B) \<longleftrightarrow> A = - (2 ^ (p - 1)) \<and> B = - 1" if "\<not> u"
  proof -
    have "signed_range p A" "B \<noteq> 0"
      using that assms(6-9) num_ival_range[OF assms(1,4)] num_ival_zero[OF assms(5)] by (auto simp: num_conv_def)
    then show ?thesis by (rule signed_range_sdiv)
  qed
  moreover have "CPP_MOD \<noteq> CPP_DIV" by simp
  ultimately show ?thesis
    using num_div_op_div[OF assms, of loc] num_div_op_mod[OF assms, of CPP_MOD loc] by metis
qed

theorem num_div_correct_witness:
  "(\<exists>q. num_div_op reader64 (num_make False (2 ^ 64 - 7)) (num_make False 2) CPP_DIV 0 = Some (q, reader64)
        \<and> num_val q = 2 ^ 64 - 3 \<and> \<not> overflow q)
   \<and> (\<exists>r. num_div_op reader64 (num_make False (2 ^ 64 - 7)) (num_make False 2) CPP_MOD 0 = Some (r, reader64)
        \<and> num_val r = 2 ^ 64 - 1)"
  using num_div_correct[OF _ _ _ _ _ refl _ refl refl, of 64 reader64 "num_make False (2 ^ 64 - 7)" "num_make False 2" 0]
  by (auto simp: example_simps signed_divide_int_def signed_modulo_int_def)

lemma num_compare_value:
  assumes "1 \<le> p" "p \<le> 128" "precision (opts pfile) = p" "num_wf p a" "num_wf p b"
    "u = (unsignedp a \<or> unsignedp b)" "A = num_conv p u a" "B = num_conv p u b"
  shows "num_val (num_inequality_op pfile a b CPP_LESS) = of_bool (A < B)
    \<and> num_val (num_inequality_op pfile a b CPP_GREATER) = of_bool (A > B)
    \<and> num_val (num_inequality_op pfile a b CPP_LESS_EQ) = of_bool (A \<le> B)
    \<and> num_val (num_inequality_op pfile a b CPP_GREATER_EQ) = of_bool (A \<ge> B)
    \<and> num_val (num_equality_op a b CPP_EQ_EQ) = of_bool (A = B)
    \<and> num_val (num_equality_op a b CPP_NOT_EQ) = of_bool (A \<noteq> B)
    \<and> (\<forall>op. \<not> unsignedp (num_inequality_op pfile a b op) \<and> \<not> unsignedp (num_equality_op a b op))"
proof -
  have eq: "num_eq a b \<longleftrightarrow> A = B"
    using num_conv_inj[OF assms(4,5), of u] assms(6-8) by (auto simp: num_eq_val)
  have ge: "num_greater_eq a b p \<longleftrightarrow> B \<le> A"
    using num_greater_eq_val[OF assms(1,2,4,5)] unfolding assms(6-8) by simp
  show ?thesis
    by (auto simp: num_inequality_op_def num_equality_op_def Let_def assms(3) eq ge num_val_low)
qed

text \<open>
  C17: comparisons. The relational and equality operators yield the signed truth value of the
  comparison of the operands after C's usual conversions: as unsigned values if one of them is
  unsigned, as signed values otherwise.
\<close>

theorem num_compare_correct:
  assumes "1 \<le> p" "p \<le> 128" "precision (opts pfile) = p" "num_wf p a" "num_wf p b"
    "u = (unsignedp a \<or> unsignedp b)" "A = num_conv p u a" "B = num_conv p u b"
  shows "num_val (num_inequality_op pfile a b CPP_LESS) = of_bool (A < B)
    \<and> num_val (num_inequality_op pfile a b CPP_GREATER) = of_bool (A > B)
    \<and> num_val (num_inequality_op pfile a b CPP_LESS_EQ) = of_bool (A \<le> B)
    \<and> num_val (num_inequality_op pfile a b CPP_GREATER_EQ) = of_bool (A \<ge> B)
    \<and> num_val (num_equality_op a b CPP_EQ_EQ) = of_bool (A = B)
    \<and> num_val (num_equality_op a b CPP_NOT_EQ) = of_bool (A \<noteq> B)
    \<and> (\<forall>op. \<not> unsignedp (num_inequality_op pfile a b op) \<and> \<not> unsignedp (num_equality_op a b op))"
  by (rule num_compare_value[OF assms])

theorem num_compare_correct_witness:
  "num_val (num_inequality_op reader64 (num_make False (2 ^ 64 - 1)) (num_make False 1) CPP_LESS) = 1
   \<and> num_val (num_inequality_op reader64 (num_make False (2 ^ 64 - 1)) (num_make True 1) CPP_LESS) = 0"
  using num_compare_correct[OF _ _ _ _ _ refl refl refl, of 64 reader64 "num_make False (2 ^ 64 - 1)" "num_make False 1"]
    num_compare_correct[OF _ _ _ _ _ refl refl refl, of 64 reader64 "num_make False (2 ^ 64 - 1)" "num_make True 1"]
  by (simp add: example_simps)

lemma num_mul_128_unreported:
  assumes "a = \<lparr>high = 4294967295, low = 18446744073709551615, unsignedp = False, overflow = False\<rparr>"
    "b = \<lparr>high = 0, low = 4294967297, unsignedp = False, overflow = False\<rparr>" "precision (opts pfile) = 128"
  shows "\<not> overflow (num_mul pfile a b)" "num_ival 128 a * num_ival 128 b = (2 ^ 96 - 1) * (2 ^ 32 + 1)"
proof -
  define c where "c = \<lparr>high = 4294967295, low = 18446744069414584319, unsignedp = True, overflow = False\<rparr>"
  have "num_abs False a 128 = (False, a)" "num_abs False b 128 = (False, b)" "num_mul_unsigned a b 128 = (c, False)"
    "num_positive c 128"
    unfolding assms c_def by code_simp+
  then show "\<not> overflow (num_mul pfile a b)"
    using assms by (simp add: num_mul_split[OF _ refl refl refl refl refl])
  have "num_ival 128 a = 2 ^ 96 - 1" "num_ival 128 b = 2 ^ 32 + 1"
    unfolding assms by (simp_all add: num_ival_def num_val_make)
  then show "num_ival 128 a * num_ival 128 b = (2 ^ 96 - 1) * (2 ^ 32 + 1)"
    by simp
qed

text \<open>
  C34: the defects of the arithmetic at unusual widths. With a precision of 65 bits dividing by
  two never returns; with 128 bits a signed product above \<open>2 ^ 127\<close> goes unreported; and on a
  32-bit host a shift by \<open>2 ^ 32\<close> is a shift by zero.
\<close>

theorem num_width_defects:
  "num_div_op (reader64\<lparr>opts := (opts reader64)\<lparr>precision := 65\<rparr>\<rparr>) (num_make True 4) (num_make True 2) CPP_DIV loc = None
   \<and> (let r = reader64\<lparr>opts := (opts reader64)\<lparr>precision := 128\<rparr>\<rparr>;
          a = \<lparr>high = 4294967295, low = 18446744073709551615, unsignedp = False, overflow = False\<rparr>;
          b = \<lparr>high = 0, low = 4294967297, unsignedp = False, overflow = False\<rparr>
      in \<not> overflow (num_mul r a b) \<and> \<not> signed_range 128 (num_ival 128 a * num_ival 128 b))
   \<and> num_val (fst (num_binary_op (reader64\<lparr>host := host_os2\<rparr>) (num_make False 1) (num_make False (2 ^ 32)) CPP_LSHIFT)) = 1"
proof (intro conjI)
  show "num_div_op (reader64\<lparr>opts := (opts reader64)\<lparr>precision := 65\<rparr>\<rparr>) (num_make True 4) (num_make True 2) CPP_DIV loc = None"
    using num_div_op_diverges[of "reader64\<lparr>opts := (opts reader64)\<lparr>precision := 65\<rparr>\<rparr>" "num_make True 4" CPP_DIV loc]
    by (simp add: num_make_def)
  show "num_val (fst (num_binary_op (reader64\<lparr>host := host_os2\<rparr>) (num_make False 1) (num_make False (2 ^ 32)) CPP_LSHIFT)) = 1"
    by (simp add: num_binary_op_def num_shift_op_def num_make_def num_positive_def host_os2_def size_t_of_def
        num_lshift_val num_val_make)
next
  show "let r = reader64\<lparr>opts := (opts reader64)\<lparr>precision := 128\<rparr>\<rparr>;
          a = \<lparr>high = 4294967295, low = 18446744073709551615, unsignedp = False, overflow = False\<rparr>;
          b = \<lparr>high = 0, low = 4294967297, unsignedp = False, overflow = False\<rparr>
      in \<not> overflow (num_mul r a b) \<and> \<not> signed_range 128 (num_ival 128 a * num_ival 128 b)"
    unfolding Let_def num_mul_128_unreported(2)[OF refl refl, of "reader64\<lparr>opts := (opts reader64)\<lparr>precision := 128\<rparr>\<rparr>", OF reader128_precision]
    by (simp add: num_mul_128_unreported(1) signed_range_def)
qed

end
