(* ===== verification/Cpp_Number.thy ===== *)
theory Cpp_Number
  imports Cpp_Div
begin

text \<open>
  Numeric constants, from the first half of \<^verbatim>\<open>libcpp/expr.c\<close>: the classification of a
  preprocessing number (radix, integer or floating, suffixes), the interpretation of an integer
  constant, and the small functions on user-defined literal types. The spelling of a number is
  read through pointers into a NUL-terminated text; a pointer is the list of the characters from
  there to the end of the token, so \<^verbatim>\<open>limit - str\<close> is its length.
\<close>

section \<open>Classification flags\<close>

definition CPP_N_CATEGORY :: uint where "CPP_N_CATEGORY = 0x000F"
definition CPP_N_INVALID :: uint where "CPP_N_INVALID = 0x0000"
definition CPP_N_INTEGER :: uint where "CPP_N_INTEGER = 0x0001"
definition CPP_N_FLOATING :: uint where "CPP_N_FLOATING = 0x0002"
definition CPP_N_WIDTH :: uint where "CPP_N_WIDTH = 0x00F0"
definition CPP_N_SMALL :: uint where "CPP_N_SMALL = 0x0010"
definition CPP_N_MEDIUM :: uint where "CPP_N_MEDIUM = 0x0020"
definition CPP_N_LARGE :: uint where "CPP_N_LARGE = 0x0040"
definition CPP_N_MD_W :: uint where "CPP_N_MD_W = 0x10000"
definition CPP_N_MD_Q :: uint where "CPP_N_MD_Q = 0x20000"
definition CPP_N_RADIX :: uint where "CPP_N_RADIX = 0x0F00"
definition CPP_N_DECIMAL :: uint where "CPP_N_DECIMAL = 0x0100"
definition CPP_N_HEX :: uint where "CPP_N_HEX = 0x0200"
definition CPP_N_OCTAL :: uint where "CPP_N_OCTAL = 0x0400"
definition CPP_N_BINARY :: uint where "CPP_N_BINARY = 0x0800"
definition CPP_N_UNSIGNED :: uint where "CPP_N_UNSIGNED = 0x1000"
definition CPP_N_IMAGINARY :: uint where "CPP_N_IMAGINARY = 0x2000"
definition CPP_N_DFLOAT :: uint where "CPP_N_DFLOAT = 0x4000"
definition CPP_N_DEFAULT :: uint where "CPP_N_DEFAULT = 0x8000"
definition CPP_N_FRACT :: uint where "CPP_N_FRACT = 0x100000"
definition CPP_N_ACCUM :: uint where "CPP_N_ACCUM = 0x200000"
definition CPP_N_FLOATN :: uint where "CPP_N_FLOATN = 0x400000"
definition CPP_N_FLOATNX :: uint where "CPP_N_FLOATNX = 0x800000"
definition CPP_N_USERDEF :: uint where "CPP_N_USERDEF = 0x1000000"
definition CPP_N_WIDTH_FLOATN_NX :: uint where "CPP_N_WIDTH_FLOATN_NX = 0xF0000000"
definition CPP_FLOATN_SHIFT :: nat where "CPP_FLOATN_SHIFT = 24"
definition CPP_FLOATN_MAX :: nat where "CPP_FLOATN_MAX = 0xF0"

lemmas N_defs [flag_simps] =
  CPP_N_CATEGORY_def CPP_N_INVALID_def CPP_N_INTEGER_def CPP_N_FLOATING_def CPP_N_WIDTH_def CPP_N_SMALL_def
  CPP_N_MEDIUM_def CPP_N_LARGE_def CPP_N_MD_W_def CPP_N_MD_Q_def CPP_N_RADIX_def CPP_N_DECIMAL_def CPP_N_HEX_def
  CPP_N_OCTAL_def CPP_N_BINARY_def CPP_N_UNSIGNED_def CPP_N_IMAGINARY_def CPP_N_DFLOAT_def CPP_N_DEFAULT_def
  CPP_N_FRACT_def CPP_N_ACCUM_def CPP_N_FLOATN_def CPP_N_FLOATNX_def CPP_N_USERDEF_def
  CPP_N_WIDTH_FLOATN_NX_def CPP_FLOATN_SHIFT_def CPP_FLOATN_MAX_def

definition DIGIT_SEP :: "cpp_reader \<Rightarrow> uchar \<Rightarrow> bool" where
  "DIGIT_SEP pfile c = (c = CHR 0x27 \<and> digit_separators (opts pfile))"

section \<open>Suffixes\<close>

text \<open>The number of occurrences of each kind of letter in a floating suffix.\<close>

record float_counts =
  fc_f :: nat
  fc_d :: nat
  fc_l :: nat
  fc_w :: nat
  fc_q :: nat
  fc_i :: nat
  fc_fn :: nat
  fc_fnx :: nat
  fn_bits :: nat

definition float_counts_zero :: float_counts where
  "float_counts_zero =
     \<lparr>fc_f = 0, fc_d = 0, fc_l = 0, fc_w = 0, fc_q = 0, fc_i = 0, fc_fn = 0, fc_fnx = 0, fn_bits = 0\<rparr>"

definition digit_of :: "uchar \<Rightarrow> nat" where
  "digit_of c = of_char c - of_char (CHR ''0'')"

text \<open>The loop over the digits of \<^verbatim>\<open>fN\<close>.\<close>

fun read_fn_bits :: "nat \<Rightarrow> uchar list \<Rightarrow> nat \<times> uchar list" where
  "read_fn_bits n (c # s) =
     (if ISDIGIT c \<and> n < CPP_FLOATN_MAX then read_fn_bits (n * 10 + digit_of c) s else (n, c # s))"
| "read_fn_bits n [] = (n, [])"

lemma read_fn_bits_length: "length (snd (read_fn_bits n s)) \<le> length s"
  by (induction n s rule: read_fn_bits.induct) auto

text \<open>
  The loop over the letters; \<open>None\<close> is \<^verbatim>\<open>return 0\<close>. The first argument is
  \<^verbatim>\<open>CPP_OPTION (pfile, cplusplus)\<close>.
\<close>

function float_suffix_loop :: "bool \<Rightarrow> uchar list \<Rightarrow> float_counts \<Rightarrow> float_counts option" where
  "float_suffix_loop cxx [] k = Some k"
| "float_suffix_loop cxx (c # s) k =
     (if c = CHR ''f'' \<or> c = CHR ''F'' then
        if s \<noteq> [] \<and> \<not> cxx \<and> ISDIGIT (at s 0) \<and> at s 0 \<noteq> CHR ''0'' \<and> fn_bits k = 0 then
          (let (n, s') = read_fn_bits (fn_bits k) s in
           if s' \<noteq> [] \<and> at s' 0 = CHR ''x''
           then float_suffix_loop cxx (tl s') (k\<lparr>fn_bits := n, fc_fnx := fc_fnx k + 1\<rparr>)
           else float_suffix_loop cxx s' (k\<lparr>fn_bits := n, fc_fn := fc_fn k + 1\<rparr>))
        else float_suffix_loop cxx s (k\<lparr>fc_f := fc_f k + 1\<rparr>)
      else if c = CHR ''d'' \<or> c = CHR ''D'' then float_suffix_loop cxx s (k\<lparr>fc_d := fc_d k + 1\<rparr>)
      else if c = CHR ''l'' \<or> c = CHR ''L'' then float_suffix_loop cxx s (k\<lparr>fc_l := fc_l k + 1\<rparr>)
      else if c = CHR ''w'' \<or> c = CHR ''W'' then float_suffix_loop cxx s (k\<lparr>fc_w := fc_w k + 1\<rparr>)
      else if c = CHR ''q'' \<or> c = CHR ''Q'' then float_suffix_loop cxx s (k\<lparr>fc_q := fc_q k + 1\<rparr>)
      else if c = CHR ''i'' \<or> c = CHR ''I'' \<or> c = CHR ''j'' \<or> c = CHR ''J''
      then float_suffix_loop cxx s (k\<lparr>fc_i := fc_i k + 1\<rparr>)
      else None)"
  by pat_completeness auto
termination
  by (relation "measure (\<lambda>(_, s, _). length s)")
     (auto dest!: arg_cong[where f = snd] simp: less_Suc_eq_le le_diff_conv read_fn_bits_length le_SucI)

declare float_suffix_loop.simps [simp del]

text \<open>The first two stages: decimal float suffixes, and fixed-point suffixes. \<open>None\<close> is to go on.\<close>

definition decimal_float_suffix :: "uchar list \<Rightarrow> uint option" where
  "decimal_float_suffix s =
     (if length s = 2 \<and> (at s 0 = CHR ''d'' \<or> at s 0 = CHR ''D'') then
        (let uppercase = (at s 0 = CHR ''D'') in
         if at s 1 = CHR ''f'' then Some (if \<not> uppercase then CPP_N_DFLOAT OR CPP_N_SMALL else 0)
         else if at s 1 = CHR ''F'' then Some (if uppercase then CPP_N_DFLOAT OR CPP_N_SMALL else 0)
         else if at s 1 = CHR ''d'' then Some (if \<not> uppercase then CPP_N_DFLOAT OR CPP_N_MEDIUM else 0)
         else if at s 1 = CHR ''D'' then Some (if uppercase then CPP_N_DFLOAT OR CPP_N_MEDIUM else 0)
         else if at s 1 = CHR ''l'' then Some (if \<not> uppercase then CPP_N_DFLOAT OR CPP_N_LARGE else 0)
         else if at s 1 = CHR ''L'' then Some (if uppercase then CPP_N_DFLOAT OR CPP_N_LARGE else 0)
         else None)
      else None)"

definition fixed_point_width :: "uchar list \<Rightarrow> nat \<Rightarrow> uint \<Rightarrow> uint" where
  "fixed_point_width s len flags' =
     (if at s 0 = CHR ''h'' \<or> at s 0 = CHR ''H'' then
        (if len = 1 then flags' OR CPP_N_SMALL else 0)
      else if at s 0 = CHR ''l'' then
        (if len = 1 then flags' OR CPP_N_MEDIUM
         else if len = 2 \<and> at s 1 = CHR ''l'' then flags' OR CPP_N_LARGE else 0)
      else if at s 0 = CHR ''L'' then
        (if len = 1 then flags' OR CPP_N_MEDIUM
         else if len = 2 \<and> at s 1 = CHR ''L'' then flags' OR CPP_N_LARGE else 0)
      else 0)"

definition fixed_point_suffix :: "uchar list \<Rightarrow> uint option" where
  "fixed_point_suffix s =
     (let len = length s;
          flags' = (if len \<noteq> 0 then
                      (let c = at s (len - 1) in
                       if c = CHR ''k'' \<or> c = CHR ''K'' then CPP_N_ACCUM
                       else if c = CHR ''r'' \<or> c = CHR ''R'' then CPP_N_FRACT else 0)
                    else 0)
      in if flags' \<noteq> 0 then
           Some (if len = 1 then flags'
                 else let len = len - 1 in
                   if at s 0 = CHR ''u'' \<or> at s 0 = CHR ''U'' then
                     (let flags' = flags' OR CPP_N_UNSIGNED in
                      if len = 1 then flags' else fixed_point_width (tl s) (len - 1) flags')
                   else fixed_point_width s len flags')
         else None)"

text \<open>The checks on the counts and the flags they stand for.\<close>

definition float_counts_flags :: "cpp_reader \<Rightarrow> uchar list \<Rightarrow> float_counts \<Rightarrow> uint" where
  "float_counts_flags pfile s k =
     (if fc_f k + fc_d k + fc_l k + fc_w k + fc_q k + fc_fn k + fc_fnx k > 1 \<or> fc_i k > 1 then 0
      else if fn_bits k > CPP_FLOATN_MAX then 0
      else if fc_fnx k \<noteq> 0 \<and> fn_bits k \<noteq> 32 \<and> fn_bits k \<noteq> 64 \<and> fn_bits k \<noteq> 128 then 0
      else if fc_fn k \<noteq> 0 \<and> fn_bits k \<noteq> 16 \<and> fn_bits k mod 32 \<noteq> 0 then 0
      else if fc_fn k \<noteq> 0 \<and> fn_bits k = 96 then 0
      else if fc_i k \<noteq> 0 \<and>
              (\<not> ext_numeric_literals (opts pfile)
               \<or> (cplusplus (opts pfile) \<and> lang_ord (lang (opts pfile)) > lang_ord CLK_CXX11
                  \<and> at s 0 = CHR ''i''
                  \<and> (length s = 1 \<or> (length s = 2 \<and> (at s 1 = CHR ''f'' \<or> at s 1 = CHR ''l''))))) then 0
      else if (fc_w k \<noteq> 0 \<or> fc_q k \<noteq> 0) \<and> \<not> ext_numeric_literals (opts pfile) then 0
      else (if fc_i k \<noteq> 0 then CPP_N_IMAGINARY else 0)
           OR (if fc_f k \<noteq> 0 then CPP_N_SMALL
               else if fc_d k \<noteq> 0 then CPP_N_MEDIUM
               else if fc_l k \<noteq> 0 then CPP_N_LARGE
               else if fc_w k \<noteq> 0 then CPP_N_MD_W
               else if fc_q k \<noteq> 0 then CPP_N_MD_Q
               else if fc_fn k \<noteq> 0 then CPP_N_FLOATN OR push_bit CPP_FLOATN_SHIFT (of_nat (fn_bits k))
               else if fc_fnx k \<noteq> 0 then CPP_N_FLOATNX OR push_bit CPP_FLOATN_SHIFT (of_nat (fn_bits k))
               else CPP_N_DEFAULT))"

definition interpret_float_suffix :: "cpp_reader \<Rightarrow> uchar list \<Rightarrow> uint" where
  "interpret_float_suffix pfile s =
     (case decimal_float_suffix s of
        Some r \<Rightarrow> r
      | None \<Rightarrow>
          (case (if ext_numeric_literals (opts pfile) then fixed_point_suffix s else None) of
             Some r \<Rightarrow> r
           | None \<Rightarrow>
               (case float_suffix_loop (cplusplus (opts pfile)) s float_counts_zero of
                  None \<Rightarrow> 0
                | Some k \<Rightarrow> float_counts_flags pfile s k)))"

definition cpp_interpret_float_suffix :: "cpp_reader \<Rightarrow> uchar list \<Rightarrow> uint" where
  "cpp_interpret_float_suffix pfile s = interpret_float_suffix pfile s"

text \<open>
  The integer suffix is read from its end; \<open>nxt\<close> is the character behind the one looked at,
  \<^verbatim>\<open>s[len + 1]\<close>. \<open>None\<close> is \<^verbatim>\<open>return 0\<close> inside the loop.
\<close>

primrec int_suffix_loop :: "uchar list \<Rightarrow> uchar \<Rightarrow> nat \<Rightarrow> nat \<Rightarrow> nat \<Rightarrow> (nat \<times> nat \<times> nat) option" where
  "int_suffix_loop [] nxt u l i = Some (u, l, i)"
| "int_suffix_loop (c # rs) nxt u l i =
     (if c = CHR ''u'' \<or> c = CHR ''U'' then int_suffix_loop rs c (u + 1) l i
      else if c = CHR ''i'' \<or> c = CHR ''I'' \<or> c = CHR ''j'' \<or> c = CHR ''J''
      then int_suffix_loop rs c u l (i + 1)
      else if c = CHR ''l'' \<or> c = CHR ''L'' then
        (if l + 1 = 2 \<and> c \<noteq> nxt then None else int_suffix_loop rs c u (l + 1) i)
      else None)"

definition interpret_int_suffix :: "cpp_reader \<Rightarrow> uchar list \<Rightarrow> uint" where
  "interpret_int_suffix pfile s =
     (case int_suffix_loop (rev s) NUL 0 0 0 of
        None \<Rightarrow> 0
      | Some (u, l, i) \<Rightarrow>
          if l > 2 \<or> u > 1 \<or> i > 1 then 0
          else if i \<noteq> 0 \<and>
                  (\<not> ext_numeric_literals (opts pfile)
                   \<or> (cplusplus (opts pfile) \<and> lang_ord (lang (opts pfile)) > lang_ord CLK_CXX11
                      \<and> at s 0 = CHR ''i'' \<and> (length s = 1 \<or> (length s = 2 \<and> at s 1 = CHR ''l'')))) then 0
          else (if i \<noteq> 0 then CPP_N_IMAGINARY else 0) OR (if u \<noteq> 0 then CPP_N_UNSIGNED else 0)
               OR (if l = 0 then CPP_N_SMALL else if l = 1 then CPP_N_MEDIUM else CPP_N_LARGE))"

definition cpp_interpret_int_suffix :: "cpp_reader \<Rightarrow> uchar list \<Rightarrow> uint" where
  "cpp_interpret_int_suffix pfile s = interpret_int_suffix pfile s"

section \<open>User-defined literals\<close>

definition cpp_userdef_string_remove_type :: "cpp_ttype \<Rightarrow> cpp_ttype" where
  "cpp_userdef_string_remove_type t =
     (if t = CPP_STRING_USERDEF then CPP_STRING
      else if t = CPP_WSTRING_USERDEF then CPP_WSTRING
      else if t = CPP_STRING16_USERDEF then CPP_STRING16
      else if t = CPP_STRING32_USERDEF then CPP_STRING32
      else if t = CPP_UTF8STRING_USERDEF then CPP_UTF8STRING
      else t)"

definition cpp_userdef_string_add_type :: "cpp_ttype \<Rightarrow> cpp_ttype" where
  "cpp_userdef_string_add_type t =
     (if t = CPP_STRING then CPP_STRING_USERDEF
      else if t = CPP_WSTRING then CPP_WSTRING_USERDEF
      else if t = CPP_STRING16 then CPP_STRING16_USERDEF
      else if t = CPP_STRING32 then CPP_STRING32_USERDEF
      else if t = CPP_UTF8STRING then CPP_UTF8STRING_USERDEF
      else t)"

definition cpp_userdef_char_remove_type :: "cpp_ttype \<Rightarrow> cpp_ttype" where
  "cpp_userdef_char_remove_type t =
     (if t = CPP_CHAR_USERDEF then CPP_CHAR
      else if t = CPP_WCHAR_USERDEF then CPP_WCHAR
      else if t = CPP_CHAR16_USERDEF then CPP_CHAR16
      else if t = CPP_CHAR32_USERDEF then CPP_CHAR32
      else if t = CPP_UTF8CHAR_USERDEF then CPP_UTF8CHAR
      else t)"

definition cpp_userdef_char_add_type :: "cpp_ttype \<Rightarrow> cpp_ttype" where
  "cpp_userdef_char_add_type t =
     (if t = CPP_CHAR then CPP_CHAR_USERDEF
      else if t = CPP_WCHAR then CPP_WCHAR_USERDEF
      else if t = CPP_CHAR16 then CPP_CHAR16_USERDEF
      else if t = CPP_CHAR32 then CPP_CHAR32_USERDEF
      else if t = CPP_UTF8CHAR then CPP_UTF8CHAR_USERDEF
      else t)"

definition cpp_userdef_string_p :: "cpp_ttype \<Rightarrow> bool" where
  "cpp_userdef_string_p t =
     (t = CPP_STRING_USERDEF \<or> t = CPP_WSTRING_USERDEF \<or> t = CPP_STRING16_USERDEF
      \<or> t = CPP_STRING32_USERDEF \<or> t = CPP_UTF8STRING_USERDEF)"

definition cpp_userdef_char_p :: "cpp_ttype \<Rightarrow> bool" where
  "cpp_userdef_char_p t =
     (t = CPP_CHAR_USERDEF \<or> t = CPP_WCHAR_USERDEF \<or> t = CPP_CHAR16_USERDEF
      \<or> t = CPP_CHAR32_USERDEF \<or> t = CPP_UTF8CHAR_USERDEF)"

text \<open>The search for the opening delimiter from the front, and for the closing one from the end.\<close>

fun first_delim :: "uchar list \<Rightarrow> uchar option" where
  "first_delim [] = None"
| "first_delim (c # s) = (if c = CHR 0x27 \<or> c = CHR 0x22 then Some c else first_delim s)"

fun after_last :: "uchar list \<Rightarrow> nat \<Rightarrow> uchar \<Rightarrow> nat" where
  "after_last text 0 delim = 0"
| "after_last text (Suc i) delim = (if at text i = delim then Suc i else after_last text i delim)"

definition cpp_get_userdef_suffix :: "cpp_token \<Rightarrow> uchar list" where
  "cpp_get_userdef_suffix tok =
     (let text = val_text (val tok) in
      case first_delim text of
        None \<Rightarrow> drop (length text) text
      | Some delim \<Rightarrow> drop (after_last text (length text) delim) text)"

section \<open>Classification\<close>

datatype float_flag = NOT_FLOAT | AFTER_POINT | AFTER_EXPON

record scan_state =
  sc_flag :: float_flag
  max_digit :: nat
  seen_digit :: bool
  seen_digit_sep :: bool

definition scan_start :: scan_state where
  "scan_start = \<lparr>sc_flag = NOT_FLOAT, max_digit = 0, seen_digit = False, seen_digit_sep = False\<rparr>"

text \<open>The radix; \<open>Inl\<close> is a syntax error with its message.\<close>

definition classify_radix :: "cpp_reader \<Rightarrow> uchar list \<Rightarrow> string + (nat \<times> uchar list)" where
  "classify_radix pfile str =
     (if at str 0 = CHR ''0'' then
        (let str = tl str in
         if at str 0 = CHR ''x'' \<or> at str 0 = CHR ''X'' then
           (if at str 1 = CHR ''.'' \<or> ISXDIGIT (at str 1) then Inr (16, tl str)
            else if DIGIT_SEP pfile (at str 1) then Inl ''digit separator after base indicator''
            else Inr (8, str))
         else if at str 0 = CHR ''b'' \<or> at str 0 = CHR ''B'' then
           (if at str 1 = CHR ''0'' \<or> at str 1 = CHR ''1'' then Inr (2, tl str)
            else if DIGIT_SEP pfile (at str 1) then Inl ''digit separator after base indicator''
            else Inr (8, str))
         else Inr (8, str))
      else Inr (10, str))"

text \<open>The scan for a well-formed integer or float, up to the exponent or the suffix.\<close>

primrec scan_number ::
    "uchar list \<Rightarrow> cpp_reader \<Rightarrow> nat \<Rightarrow> scan_state \<Rightarrow> string + (uchar list \<times> scan_state)" where
  "scan_number [] pfile radix st = Inr ([], st)"
| "scan_number (c # str) pfile radix st =
     (if ISDIGIT c \<or> (ISXDIGIT c \<and> radix = 16) then
        scan_number str pfile radix
          (st\<lparr>seen_digit_sep := False, seen_digit := True, max_digit := max (max_digit st) (hex_value c)\<rparr>)
      else if DIGIT_SEP pfile c then
        (if seen_digit_sep st then Inl ''adjacent digit separators''
         else scan_number str pfile radix (st\<lparr>seen_digit_sep := True\<rparr>))
      else if c = CHR ''.'' then
        (if seen_digit_sep st \<or> DIGIT_SEP pfile (at str 0) then Inl ''digit separator adjacent to decimal point''
         else if sc_flag st = NOT_FLOAT
         then scan_number str pfile radix (st\<lparr>seen_digit_sep := False, sc_flag := AFTER_POINT\<rparr>)
         else Inl ''too many decimal points in number'')
      else if (radix \<le> 10 \<and> (c = CHR ''e'' \<or> c = CHR ''E'')) \<or> (radix = 16 \<and> (c = CHR ''p'' \<or> c = CHR ''P'')) then
        (if seen_digit_sep st \<or> DIGIT_SEP pfile (at str 0) then Inl ''digit separator adjacent to exponent''
         else Inr (str, st\<lparr>sc_flag := AFTER_EXPON\<rparr>))
      else Inr (c # str, st))"

text \<open>The digits of the exponent: whether they end in a separator, and what follows.\<close>

primrec scan_exponent :: "uchar list \<Rightarrow> cpp_reader \<Rightarrow> bool \<times> uchar list" where
  "scan_exponent [] pfile = (False, [])"
| "scan_exponent (c # str) pfile =
     (if ISDIGIT (at str 0) \<or> DIGIT_SEP pfile (at str 0) then scan_exponent str pfile
      else (DIGIT_SEP pfile c, str))"

text \<open>
  The result of the classification: the flags, the unrecognised suffix stored through
  \<^verbatim>\<open>ud_suffix\<close> (if the caller passed one), and the reader with the diagnostics added.
\<close>

type_synonym classified = "uint \<times> uchar list option \<times> cpp_reader"

definition syntax_error_at :: "cpp_reader \<Rightarrow> location_t \<Rightarrow> string \<Rightarrow> classified" where
  "syntax_error_at pfile loc msg = (CPP_N_INVALID, None, cpp_error_with_line pfile CPP_DL_ERROR loc msg)"

definition pedwarn_if :: "bool \<Rightarrow> location_t \<Rightarrow> string \<Rightarrow> cpp_reader \<Rightarrow> cpp_reader" where
  "pedwarn_if c loc msg = diag_if c (\<lambda>r. cpp_error_with_line r CPP_DL_PEDWARN loc msg)"

text \<open>The label \<^verbatim>\<open>syntax_ok\<close>.\<close>

definition classify_finish ::
    "cpp_reader \<Rightarrow> location_t \<Rightarrow> nat \<Rightarrow> uint \<Rightarrow> uchar list option \<Rightarrow> classified" where
  "classify_finish pfile loc radix result ud =
     (let ped = cpp_pedantic (opts pfile);
          pfile = pedwarn_if (result AND CPP_N_IMAGINARY \<noteq> 0 \<and> ped) loc
                    ''imaginary constants are a GCC extension'' pfile;
          pfile = pedwarn_if (radix = 2 \<and> \<not> binary_constants (opts pfile) \<and> ped) loc
                    (if cplusplus (opts pfile)
                     then ''binary constants are a C++14 feature or GCC extension''
                     else ''binary constants are a GCC extension'') pfile;
          result = result OR (if radix = 10 then CPP_N_DECIMAL else if radix = 16 then CPP_N_HEX
                              else if radix = 2 then CPP_N_BINARY else CPP_N_OCTAL)
      in (result, ud, pfile))"

text \<open>The exponent of a floating constant; \<open>Inl\<close> is a syntax error.\<close>

definition classify_exponent ::
    "cpp_reader \<Rightarrow> nat \<Rightarrow> uchar list \<Rightarrow> scan_state \<Rightarrow> string + uchar list" where
  "classify_exponent pfile radix str st =
     (if sc_flag st = AFTER_EXPON then
        (let str = (if at str 0 = CHR ''+'' \<or> at str 0 = CHR ''-'' then tl str else str) in
         if \<not> ISDIGIT (at str 0) then
           Inl (if DIGIT_SEP pfile (at str 0) then ''digit separator adjacent to exponent''
                else ''exponent has no digits'')
         else (let (sep, str) = scan_exponent str pfile in
               if sep then Inl ''digit separator outside digit sequence'' else Inr str))
      else if radix = 16 then Inl ''hexadecimal floating constants require an exponent''
      else if seen_digit_sep st then Inl ''digit separator outside digit sequence''
      else Inr str)"

text \<open>The suffix of a floating constant and the diagnostics on it.\<close>

definition classify_float_suffix ::
    "cpp_reader \<Rightarrow> location_t \<Rightarrow> nat \<Rightarrow> uchar list \<Rightarrow> classified" where
  "classify_float_suffix pfile loc radix str =
     (let o' = opts pfile; result = interpret_float_suffix pfile str in
      if result = 0 \<and> \<not> user_literals o'
      then syntax_error_at pfile loc ''invalid suffix on floating constant''
      else
        let ud = (if result = 0 then Some str else None);
            result = (if result = 0 then CPP_N_LARGE OR CPP_N_USERDEF else result);
            pfile = diag_if (str \<noteq> [] \<and> cpp_warn_traditional o' \<and> \<not> sys_macro_p pfile)
                      (\<lambda>r. cpp_warning_with_line r CPP_W_TRADITIONAL loc ''traditional C rejects the suffix'') pfile;
            pfile = pedwarn_if (result = CPP_N_MEDIUM \<and> cpp_pedantic o') loc
                      ''suffix for double constant is a GCC extension'' pfile
        in if result AND CPP_N_DFLOAT \<noteq> 0 \<and> radix \<noteq> 10
           then (CPP_N_INVALID, ud, cpp_error_with_line pfile CPP_DL_ERROR loc
                   ''invalid suffix with hexadecimal floating constant'')
           else
             let pfile = pedwarn_if (result AND (CPP_N_FRACT OR CPP_N_ACCUM) \<noteq> 0 \<and> cpp_pedantic o') loc
                           ''fixed-point constants are a GCC extension'' pfile;
                 pfile = pedwarn_if (result AND CPP_N_DFLOAT \<noteq> 0 \<and> cpp_pedantic o') loc
                           ''decimal float constants are a GCC extension'' pfile
             in classify_finish pfile loc radix (result OR CPP_N_FLOATING) ud)"

definition classify_float ::
    "cpp_reader \<Rightarrow> location_t \<Rightarrow> nat \<Rightarrow> uchar list \<Rightarrow> scan_state \<Rightarrow> classified" where
  "classify_float pfile loc radix str st =
     (if radix = 2 then syntax_error_at pfile loc ''invalid prefix 0b for floating constant''
      else if radix = 16 \<and> \<not> seen_digit st
      then syntax_error_at pfile loc ''no digits in hexadecimal floating constant''
      else
        let pfile = pedwarn_if (radix = 16 \<and> cpp_pedantic (opts pfile) \<and> \<not> extended_numbers (opts pfile)) loc
                      (if cplusplus (opts pfile) then ''use of C++17 hexadecimal floating constant''
                       else ''use of C99 hexadecimal floating constant'') pfile
        in case classify_exponent pfile radix str st of
             Inl msg \<Rightarrow> syntax_error_at pfile loc msg
           | Inr str \<Rightarrow> classify_float_suffix pfile loc radix str)"

definition classify_int :: "cpp_reader \<Rightarrow> location_t \<Rightarrow> nat \<Rightarrow> uchar list \<Rightarrow> classified" where
  "classify_int pfile loc radix str =
     (let o' = opts pfile; result = interpret_int_suffix pfile str in
      if result = 0 \<and> \<not> user_literals o'
      then syntax_error_at pfile loc ''invalid suffix on integer constant''
      else
        let ud = (if result = 0 then Some str else None);
            result = (if result = 0 then CPP_N_UNSIGNED OR CPP_N_LARGE OR CPP_N_USERDEF else result);
            large = (result AND CPP_N_WIDTH = CPP_N_LARGE \<and> cpp_warn_long_long o');
            u_or_i = (result AND (CPP_N_UNSIGNED OR CPP_N_IMAGINARY) \<noteq> 0);
            pfile = diag_if (cpp_warn_traditional o' \<and> \<not> sys_macro_p pfile \<and> (u_or_i \<or> large))
                      (\<lambda>r. cpp_warning_with_line r (if large then CPP_W_LONG_LONG else CPP_W_TRADITIONAL) loc
                             ''traditional C rejects the suffix'') pfile;
            pfile = diag_if large
                      (\<lambda>r. let message = (if cplusplus o' then ''use of C++11 long long integer constant''
                                          else ''use of C99 long long integer constant'')
                           in if c99 o' then cpp_warning_with_line r CPP_W_LONG_LONG loc message
                              else cpp_pedwarning_with_line r CPP_W_LONG_LONG loc message) pfile
        in classify_finish pfile loc radix (result OR CPP_N_INTEGER) ud)"

text \<open>
  What follows the scan: a fixed-point suffix on a constant without exponent, the check of the
  digits against the radix, and the two kinds of constants.
\<close>

definition classify_scanned ::
    "cpp_reader \<Rightarrow> location_t \<Rightarrow> nat \<Rightarrow> uchar list \<Rightarrow> scan_state \<Rightarrow> classified" where
  "classify_scanned pfile loc radix str st =
     (if seen_digit_sep st \<and> sc_flag st \<noteq> AFTER_EXPON
      then syntax_error_at pfile loc ''digit separator outside digit sequence''
      else if radix \<noteq> 16 \<and> sc_flag st = NOT_FLOAT
              \<and> (interpret_float_suffix pfile str AND CPP_N_FRACT \<noteq> 0
                 \<or> interpret_float_suffix pfile str AND CPP_N_ACCUM \<noteq> 0) then
        (let result = interpret_float_suffix pfile str OR CPP_N_FLOATING;
             radix = (if radix = 8 then 10 else radix);
             pfile = pedwarn_if (cpp_pedantic (opts pfile)) loc ''fixed-point constants are a GCC extension'' pfile
         in classify_finish pfile loc radix result None)
      else
        let radix = (if sc_flag st \<noteq> NOT_FLOAT \<and> radix = 8 then 10 else radix)
        in if max_digit st \<ge> radix then
             syntax_error_at pfile loc
               (if radix = 2 then ''invalid digit in binary constant'' else ''invalid digit in octal constant'')
           else if sc_flag st \<noteq> NOT_FLOAT then classify_float pfile loc radix str st
           else classify_int pfile loc radix str)"

definition cpp_classify_number :: "cpp_reader \<Rightarrow> cpp_token \<Rightarrow> location_t \<Rightarrow> classified" where
  "cpp_classify_number pfile token virtual_location =
     (let str = val_text (val token) in
      if length str = 1 then (CPP_N_INTEGER OR CPP_N_SMALL OR CPP_N_DECIMAL, None, pfile)
      else case classify_radix pfile str of
             Inl msg \<Rightarrow> syntax_error_at pfile virtual_location msg
           | Inr (radix, str) \<Rightarrow>
               (case scan_number str pfile radix scan_start of
                  Inl msg \<Rightarrow> syntax_error_at pfile virtual_location msg
                | Inr (str, st) \<Rightarrow> classify_scanned pfile virtual_location radix str st))"

section \<open>Interpretation of an integer constant\<close>

text \<open>Append \<open>digit\<close> to a number of \<open>prec\<close> bits being read in base \<open>base\<close>.\<close>

definition append_digit :: "cpp_num \<Rightarrow> nat \<Rightarrow> nat \<Rightarrow> nat \<Rightarrow> cpp_num" where
  "append_digit num digit base prec =
     (let shift = (if base = 2 then 1 else if base = 16 then 4 else 3);
          d = (of_nat digit :: cpp_num_part);
          ovf = (drop_bit (PART_PRECISION - shift) (high num) \<noteq> 0);
          result_high = push_bit shift (high num) OR drop_bit (PART_PRECISION - shift) (low num);
          result_low = push_bit shift (low num);
          (add_high, add_low) =
            (if base = 10
             then (push_bit 1 (high num) + drop_bit (PART_PRECISION - 1) (low num), push_bit 1 (low num))
             else (0, 0));
          add_high = (if add_low + d < add_low then add_high + 1 else add_high);
          add_low = add_low + d;
          add_high = (if result_low + add_low < result_low then add_high + 1 else add_high);
          ovf = (ovf \<or> result_high + add_high < result_high);
          result = \<lparr>high = result_high + add_high, low = result_low + add_low,
                    unsignedp = unsignedp num, overflow = ovf\<rparr>;
          trimmed = num_trim result prec
      in if \<not> num_eq trimmed result then trimmed\<lparr>overflow := True\<rparr> else trimmed)"

text \<open>The loop over the digits, with the fast path while \<open>low\<close> is below \<open>mx\<close>.\<close>

primrec interpret_digits ::
    "uchar list \<Rightarrow> cpp_reader \<Rightarrow> nat \<Rightarrow> nat \<Rightarrow> cpp_num_part \<Rightarrow> cpp_num \<Rightarrow> bool \<Rightarrow> cpp_num \<times> bool" where
  "interpret_digits [] pfile base prec mx result ovf = (result, ovf)"
| "interpret_digits (c # p) pfile base prec mx result ovf =
     (if ISDIGIT c \<or> (base = 16 \<and> ISXDIGIT c) then
        (if low result < mx then
           interpret_digits p pfile base prec mx
             (result\<lparr>low := low result * of_nat base + of_nat (hex_value c)\<rparr>) ovf
         else
           (let result = append_digit result (hex_value c) base prec
            in interpret_digits p pfile base prec 0 result (ovf \<or> overflow result)))
      else if DIGIT_SEP pfile c then interpret_digits p pfile base prec mx result ovf
      else (result, ovf))"

text \<open>Base and start of the digits, from the radix flags.\<close>

definition interpret_base :: "uint \<Rightarrow> nat \<times> nat" where
  "interpret_base t =
     (if t AND CPP_N_RADIX = CPP_N_OCTAL then (8, 1)
      else if t AND CPP_N_RADIX = CPP_N_HEX then (16, 2)
      else if t AND CPP_N_RADIX = CPP_N_BINARY then (2, 2)
      else (10, 0))"

text \<open>A number strictly less than this can take a digit without double-part arithmetic.\<close>

definition interpret_max :: "nat \<Rightarrow> nat \<Rightarrow> cpp_num_part" where
  "interpret_max prec base =
     (let mx = NOT 0; mx = (if prec < PART_PRECISION then drop_bit (PART_PRECISION - prec) mx else mx)
      in (mx - of_nat base + 1) div of_nat base + 1)"

definition cpp_interpret_integer :: "cpp_reader \<Rightarrow> cpp_token \<Rightarrow> uint \<Rightarrow> cpp_num \<times> cpp_reader" where
  "cpp_interpret_integer pfile token t =
     (let text = val_text (val token);
          result = \<lparr>high = 0, low = 0, unsignedp = (t AND CPP_N_UNSIGNED \<noteq> 0), overflow = False\<rparr>
      in if length text = 1 then
           (result\<lparr>low := of_nat (of_char (at text 0)) - of_nat (of_char (CHR ''0''))\<rparr>, pfile)
         else
           (let prec = precision (opts pfile);
                (base, skip) = interpret_base t;
                (result, ovf) = interpret_digits (drop skip text) pfile base prec (interpret_max prec base) result False
            in if ovf \<and> t AND CPP_N_USERDEF = 0
               then (result, cpp_error pfile CPP_DL_PEDWARN ''integer constant is too large for its type'')
               else if \<not> unsignedp result \<and> \<not> (traditional (opts pfile) \<and> in_directive pfile)
                       \<and> \<not> num_positive result prec
               then (result\<lparr>unsignedp := True\<rparr>,
                     diag_if (base = 10)
                       (\<lambda>r. cpp_error r (if c99 (opts pfile) then CPP_DL_PEDWARN else CPP_DL_WARNING)
                              ''integer constant is so large that it is unsigned'') pfile)
               else (result, pfile)))"

end
