(* ===== verification/Cpp_Integer.thy ===== *)
theory Cpp_Integer
  imports Cpp_Number
begin

text \<open>
  Integer constants: appending one digit computes \<open>v * base + d\<close> modulo \<open>2 ^ precision\<close> and notices
  the overflow, and the loop over the digits, with its fast path for small values, computes the
  value that positional notation gives to them.
\<close>

section \<open>Appending a digit\<close>

lemma num_move_up_val: "k < 128 \<Longrightarrow> num_val (num_move_up n k) = (num_val n * 2 ^ k) mod 2 ^ 128"
  using num_move_up_trim[of 128 k n] num_val_less[of "num_move_up n k"] by (simp only: num_val_trim mod_less)

lemma num_move_up_small:
  "0 < k \<Longrightarrow> k < 64 \<Longrightarrow> num_val \<lparr>high = push_bit k (high n) OR drop_bit (64 - k) (low n), low = push_bit k (low n),
                       unsignedp = u, overflow = v\<rparr> = (num_val n * 2 ^ k) mod 2 ^ 128"
  using num_move_up_val[of k n] by (simp add: num_move_up_def num_val_def)

lemma disjoint_double: "push_bit 1 h + drop_bit 63 l = push_bit 1 h OR drop_bit 63 (l :: 64 word)"
proof (rule disjunctive_add)
  show "\<not> bit (push_bit 1 h) n \<or> \<not> bit (drop_bit 63 l) n" for n
    using bit_imp_le_length[of l "63 + n"] by (cases n) (auto simp only: bit_push_bit_iff bit_drop_bit_eq comp_def, simp_all)
qed

lemma high_part_lost:
  assumes "0 < k" "k < 64"
  shows "drop_bit (64 - k) (high n) \<noteq> 0 \<longleftrightarrow> 2 ^ 128 \<le> num_val n * 2 ^ k"
proof -
  have e: "(2 :: nat) ^ 128 = 2 ^ (64 - k) * 2 ^ 64 * 2 ^ k"
    using assms by (simp flip: power_add)
  have "drop_bit (64 - k) (high n) \<noteq> 0 \<longleftrightarrow> unat (high n) div 2 ^ (64 - k) \<noteq> 0"
    by (simp only: unat_eq_zero[symmetric] unat_drop_bit_eq) (simp only: drop_bit_eq_div)
  also have "\<dots> \<longleftrightarrow> 2 ^ (64 - k) \<le> unat (high n)"
    by (simp add: div_eq_0_iff not_less)
  also have "\<dots> \<longleftrightarrow> 2 ^ (64 - k) * 2 ^ 64 \<le> num_val n"
  proof
    assume "2 ^ (64 - k) * 2 ^ 64 \<le> num_val n"
    then have "2 ^ (64 - k) * 2 ^ 64 < (unat (high n) + 1) * 2 ^ 64"
      using unat_less_64[of "low n"] by (simp add: num_val_def)
    then show "2 ^ (64 - k) \<le> unat (high n)" by simp
  qed (auto simp: num_val_def intro: trans_le_add1)
  also have "\<dots> \<longleftrightarrow> 2 ^ 128 \<le> num_val n * 2 ^ k"
    unfolding e by simp
  finally show ?thesis .
qed

text \<open>Two-part addition with the carries the code computes.\<close>

definition carry_add :: "cpp_num_part \<Rightarrow> cpp_num_part \<Rightarrow> cpp_num_part \<Rightarrow> cpp_num_part \<Rightarrow> cpp_num_part \<times> cpp_num_part" where
  "carry_add h l h' l' = (h + (if l + l' < l then h' + 1 else h'), l + l')"

lemma carry_add_val:
  assumes "carry_add h l h' l' = (rh, rl)" "unat h' < 2 ^ 63"
  shows "unat h * 2 ^ 64 + unat l + (unat h' * 2 ^ 64 + unat l') =
           (if rh < h then 2 ^ 128 else 0) + (unat rh * 2 ^ 64 + unat rl)"
proof -
  define c where "c = (if l + l' < l then 1 else 0 :: nat)"
  define k where "k = (if l + l' < l then h' + 1 else h')"
  have k: "unat k = unat h' + c"
    using assms(2) by (simp add: k_def c_def unat_word_ariths)
  have r: "rh = h + k" "rl = l + l'"
    using assms(1) by (auto simp: carry_add_def k_def)
  have "unat l + unat l' = c * 2 ^ 64 + unat rl"
    using add_parts[of l l'] by (simp add: c_def r)
  moreover have "unat h + unat k = (if rh < h then 2 ^ 64 else 0) + unat rh"
    using add_parts[of h k] by (simp add: r)
  ultimately show ?thesis
    by (cases "rh < h") (simp_all add: k)
qed

lemma carry_add_mod:
  assumes "carry_add h l h' l' = (rh, rl)"
  shows "(unat rh * 2 ^ 64 + unat rl) =
           (unat h * 2 ^ 64 + unat l + (unat h' * 2 ^ 64 + unat l')) mod 2 ^ 128"
proof -
  define a where "a = \<lparr>high = h, low = l, unsignedp = True, overflow = False\<rparr>"
  define b where "b = \<lparr>high = h', low = l', unsignedp = True, overflow = False\<rparr>"
  have t: "num_trim x 128 = x" for x :: cpp_num
    by (simp add: num_trim_def)
  have "num_plus a b 128 = \<lparr>high = rh, low = rl, unsignedp = True, overflow = False\<rparr>"
    using assms by (auto simp: num_plus_def a_def b_def carry_add_def Let_def t)
  then show ?thesis
    using num_plus_val[of 128 a b] by (simp add: a_def b_def num_val_make)
qed

lemma append_digit_eq:
  assumes "shift = (if base = 2 then 1 else if base = 16 then 4 else 3)"
    "x = num_move_up num shift"
    "y = (if base = 10 then num_move_up num 1 else \<lparr>high = 0, low = 0, unsignedp = False, overflow = False\<rparr>)"
    "carry_add (high y) (low y) 0 (of_nat digit) = (yh, yl)" "carry_add (high x) (low x) yh yl = (rh, rl)"
  shows "append_digit num digit base prec =
    (let r = \<lparr>high = rh, low = rl, unsignedp = unsignedp num,
              overflow = drop_bit (64 - shift) (high num) \<noteq> 0 \<or> rh < high x\<rparr>;
         t = num_trim r prec
     in if \<not> num_eq t r then t\<lparr>overflow := True\<rparr> else t)"
proof -
  have s: "0 < shift" "shift < 64" using assms(1) by (auto split: if_splits)
  have x: "high x = push_bit shift (high num) OR drop_bit (64 - shift) (low num)" "low x = push_bit shift (low num)"
    using s by (simp_all add: assms(2) num_move_up_def)
  have y: "(high y, low y) = (if base = 10 then (push_bit 1 (high num) + drop_bit (64 - 1) (low num), push_bit 1 (low num)) else (0, 0))"
    using disjoint_double[of "high num" "low num"] by (simp add: assms(3) num_move_up_def)
  have yh: "yh = (if yl < low y then high y + 1 else high y)" and yl: "yl = low y + of_nat digit"
    and rh: "rh = high x + (if rl < low x then yh + 1 else yh)" and rl: "rl = low x + yl"
    using assms(4,5) by (auto simp: carry_add_def)
  show ?thesis
    unfolding append_digit_def Let_def assms(1)[symmetric] y[symmetric] prod.case x[symmetric] yl[symmetric]
      yh[symmetric] rh[symmetric] rl[symmetric] by (rule refl)
qed

text \<open>The three stages of the overflow test: bits shifted out, carry out, bits above the precision.\<close>

lemma overflow_stages:
  fixes T R S :: nat
  assumes "p \<le> 128" "R = T mod 2 ^ 128" "S \<le> T" "lost \<longleftrightarrow> 2 ^ 128 \<le> S"
    "\<not> lost \<Longrightarrow> T = (if carry then 2 ^ 128 else 0) + R"
  shows "lost \<or> carry \<or> R mod 2 ^ p \<noteq> R \<longleftrightarrow> 2 ^ p \<le> T"
proof (cases "T < 2 ^ p")
  case True
  then have "T < 2 ^ 128"
    using assms(1) by (rule less_exp_mono)
  then have "R = T" "\<not> lost"
    using assms(2-4) by simp_all
  moreover from this have "\<not> carry"
    using assms(5) by (cases carry) simp_all
  ultimately show ?thesis
    using True by simp
next
  case False
  have "lost \<or> carry" if "R mod 2 ^ p = R"
  proof (rule ccontr)
    assume "\<not> (lost \<or> carry)"
    then have "T = R" using assms(5) by simp
    moreover have "R < 2 ^ p" using that by (metis mod_less_divisor zero_less_numeral zero_less_power)
    ultimately show False using False by simp
  qed
  with False show ?thesis by auto
qed

lemma append_digit_correct:
  assumes "p \<le> 128" "num_wf p n" "base \<in> {2, 8, 10, 16}" "d < 16"
  shows "num_val (append_digit n d base p) = (num_val n * base + d) mod 2 ^ p"
    and "overflow (append_digit n d base p) \<longleftrightarrow> 2 ^ p \<le> num_val n * base + d"
    and "unsignedp (append_digit n d base p) = unsignedp n"
proof -
  define shift :: nat where "shift = (if base = 2 then 1 else if base = 16 then 4 else 3)"
  define x where "x = num_move_up n shift"
  define y where "y = (if base = 10 then num_move_up n 1 else \<lparr>high = 0, low = 0, unsignedp = False, overflow = False\<rparr>)"
  obtain yh yl where c1: "carry_add (high y) (low y) 0 (of_nat d) = (yh, yl)" by fastforce
  obtain rh rl where c2: "carry_add (high x) (low x) yh yl = (rh, rl)" by fastforce
  define V where "V = num_val n"
  define A where "A = (if base = 10 then 2 * V else 0)"
  define R where "R = unat rh * 2 ^ 64 + unat rl"
  have s: "0 < shift" "shift < 64" "V * base = V * 2 ^ shift + A"
    using assms(3) by (auto simp: shift_def A_def)
  have x: "num_val x = (V * 2 ^ shift) mod 2 ^ 128"
    using num_move_up_val[of shift n] s by (simp add: x_def V_def)
  have y: "num_val y = A mod 2 ^ 128"
    using num_move_up_val[of 1 n] by (simp add: y_def A_def V_def num_val_make mult.commute)
  have d: "unat (of_nat d :: 64 word) = d"
    using assms(4) by (simp add: unat_of_nat)
  have "R = (num_val x + (unat yh * 2 ^ 64 + unat yl)) mod 2 ^ 128"
    using carry_add_mod[OF c2] by (simp add: R_def num_val_def)
  also have "unat yh * 2 ^ 64 + unat yl = (num_val y + d) mod 2 ^ 128"
    using carry_add_mod[OF c1] d by (simp add: num_val_def)
  finally have R: "R = (V * base + d) mod 2 ^ 128"
    by (simp add: x y s(3) mod_simps add.assoc)
  have exact: "V * base + d = (if rh < high x then 2 ^ 128 else 0) + R" if "V * 2 ^ shift < 2 ^ 128"
  proof -
    have A: "A + d < 2 ^ 127" "A < 2 ^ 127"
      using that assms(4) by (auto simp: A_def shift_def split: if_splits)
    have "unat yh * 2 ^ 64 + unat yl = A + d"
      using carry_add_mod[OF c1] d y A by (simp add: num_val_def)
    moreover from this have "unat yh < 2 ^ 63"
      using A by simp
    moreover have "num_val x = V * 2 ^ shift"
      using x that by simp
    ultimately show ?thesis
      using carry_add_val[OF c2] by (simp add: s(3) R_def num_val_def)
  qed
  define lost where "lost \<longleftrightarrow> drop_bit (64 - shift) (high n) \<noteq> 0"
  define r where "r = \<lparr>high = rh, low = rl, unsignedp = unsignedp n, overflow = lost \<or> rh < high x\<rparr>"
  have lost: "lost \<longleftrightarrow> 2 ^ 128 \<le> V * 2 ^ shift"
    using high_part_lost[OF s(1,2), of n] by (simp add: lost_def V_def)
  have r: "append_digit n d base p =
    (if \<not> num_eq (num_trim r p) r then (num_trim r p)\<lparr>overflow := True\<rparr> else num_trim r p)"
    using append_digit_eq[OF shift_def x_def y_def c1 c2] by (simp add: r_def lost_def Let_def)
  have v: "num_val r = R"
    by (simp add: r_def R_def num_val_make)
  show "num_val (append_digit n d base p) = (num_val n * base + d) mod 2 ^ p"
    using mod_mod_exp[OF assms(1)] by (simp add: r num_val_trim v R V_def)
  show "unsignedp (append_digit n d base p) = unsignedp n"
    by (simp add: r) (simp add: r_def)
  have "overflow (append_digit n d base p) \<longleftrightarrow> lost \<or> rh < high x \<or> R mod 2 ^ p \<noteq> R"
    by (simp add: r num_eq_val num_val_trim v) (auto simp: r_def)
  also have "\<dots> \<longleftrightarrow> 2 ^ p \<le> V * base + d"
    by (rule overflow_stages[OF assms(1) R _ lost]) (use lost exact s(3) in simp_all)
  finally show "overflow (append_digit n d base p) \<longleftrightarrow> 2 ^ p \<le> num_val n * base + d"
    by (simp only: V_def)
qed

section \<open>Reading the digits\<close>

text \<open>The digits that the loop reads, and the number they denote.\<close>

definition int_digits :: "cpp_reader \<Rightarrow> nat \<Rightarrow> uchar list \<Rightarrow> nat list" where
  "int_digits pfile base s =
     map hex_value (filter (\<lambda>c. \<not> DIGIT_SEP pfile c)
       (takeWhile (\<lambda>c. ISDIGIT c \<or> (base = 16 \<and> ISXDIGIT c) \<or> DIGIT_SEP pfile c) s))"

definition digits_value :: "nat \<Rightarrow> nat \<Rightarrow> nat list \<Rightarrow> nat" where
  "digits_value base v ds = foldl (\<lambda>v d. v * base + d) v ds"

lemma DIGIT_SEP_not_digit: "DIGIT_SEP pfile c \<Longrightarrow> \<not> ISDIGIT c \<and> \<not> ISXDIGIT c"
  by (auto simp: DIGIT_SEP_def char_simps)

lemma int_digits_Cons:
  "int_digits pfile base (c # s) =
     (if ISDIGIT c \<or> (base = 16 \<and> ISXDIGIT c) then hex_value c # int_digits pfile base s
      else if DIGIT_SEP pfile c then int_digits pfile base s else [])"
  using DIGIT_SEP_not_digit[of pfile c] by (auto simp: int_digits_def)

lemma int_digits_Nil [simp]: "int_digits pfile base [] = []"
  by (simp add: int_digits_def)

lemma digits_value_simps [simp]:
  "digits_value base v [] = v" "digits_value base v (d # ds) = digits_value base (v * base + d) ds"
  by (simp_all add: digits_value_def)

definition good_base :: "nat \<Rightarrow> bool" where
  "good_base base \<longleftrightarrow> base \<in> {2, 8, 10, 16}"

lemma interpret_base_good: "interpret_base t = (base, k) \<Longrightarrow> good_base base"
  by (auto simp: interpret_base_def good_base_def split: if_splits)

lemma interpret_max_val:
  assumes "8 \<le> p" "p \<le> 128" "good_base base" "q = min p 64"
  shows "unat (interpret_max p base) = (2 ^ q - base) div base + 1"
proof -
  have q: "8 \<le> q" "q \<le> 64" using assms by auto
  define m :: cpp_num_part where "m = (if p < 64 then drop_bit (64 - p) (NOT 0) else NOT 0)"
  have "m = mask q"
    by (rule bit_word_eqI) (auto simp: m_def assms(4) bit_simps)
  then have m: "m = 2 ^ q - 1"
    by (simp add: mask_eq_exp_minus_1)
  have b: "base \<le> 16" "2 \<le> base" "base \<le> 2 ^ q"
    using assms(3) power_increasing[OF q(1), of "2 :: nat"] by (auto simp: good_base_def)
  have "(2 :: nat) ^ q \<le> 2 ^ 64"
    using q by (intro power_increasing) simp_all
  have e: "m - of_nat base + 1 = of_nat (2 ^ q - base)"
    using b(3) by (simp add: m of_nat_diff)
  have "unat (m - of_nat base + 1) = 2 ^ q - base"
  proof -
    have "2 ^ q - base < 2 ^ 64"
      using b \<open>2 ^ q \<le> 2 ^ 64\<close> by linarith
    then show ?thesis
      unfolding e unat_of_nat by (intro mod_less) simp
  qed
  then have "unat ((m - of_nat base + 1) div of_nat base) = (2 ^ q - base) div base"
    using b by (simp add: unat_div unat_of_nat)
  moreover have "(2 ^ q - base) div base < 2 ^ 63"
    using b \<open>2 ^ q \<le> 2 ^ 64\<close> by (intro less_mult_imp_div_less) simp
  moreover define D where "D = (m - of_nat base + 1) div of_nat base"
  moreover have "interpret_max p base = D + 1"
    unfolding interpret_max_def Let_def m_def D_def by (rule refl)
  moreover have "unat (D + 1) = unat D + 1" if "unat D < 2 ^ 63"
    using that by (simp add: unat_word_ariths)
  ultimately show ?thesis by simp
qed

lemma fast_digit:
  assumes "8 \<le> p" "p \<le> 128" "good_base base" "d < base" "l < interpret_max p base"
  shows "unat (l * of_nat base + of_nat d) = unat l * base + d" "unat l * base + d < 2 ^ p"
proof -
  define q where "q = min p 64"
  have "unat l \<le> (2 ^ q - base) div base"
    using assms interpret_max_val[OF assms(1-3) q_def] by (simp add: word_less_nat_alt)
  then have "unat l * base \<le> 2 ^ q - base"
    by (metis mult_le_mono1 order_trans times_div_less_eq_dividend mult.commute)
  moreover have "base \<le> 2 ^ q"
    using assms(1,3) power_increasing[of 8 q "2 :: nat"] by (auto simp: good_base_def q_def)
  ultimately have lt: "unat l * base + d < 2 ^ q"
    using assms(4) by linarith
  moreover have "(2 :: nat) ^ q \<le> 2 ^ 64" "(2 :: nat) ^ q \<le> 2 ^ p"
    unfolding q_def by (intro power_increasing; simp)+
  ultimately have small: "unat l * base + d < 2 ^ 64" "unat l * base + d < 2 ^ p"
    by linarith+
  then show "unat l * base + d < 2 ^ p" by simp
  have "l * of_nat base + of_nat d = of_nat (unat l * base + d)" by simp
  then show "unat (l * of_nat base + of_nat d) = unat l * base + d"
    using small(1) by (simp only: unat_of_nat) simp
qed

lemma interpret_digits_correct:
  assumes "8 \<le> p" "p \<le> 128" "good_base base"
  shows "\<lbrakk>num_val n = W mod 2 ^ p; ovf \<longleftrightarrow> 2 ^ p \<le> W;
     mx = 0 \<or> (mx = interpret_max p base \<and> high n = 0 \<and> \<not> ovf);
     \<forall>d \<in> set (int_digits pfile base s). d < base;
     interpret_digits s pfile base p mx n ovf = (n', ovf')\<rbrakk>
   \<Longrightarrow> num_val n' = digits_value base W (int_digits pfile base s) mod 2 ^ p
       \<and> (ovf' \<longleftrightarrow> 2 ^ p \<le> digits_value base W (int_digits pfile base s)) \<and> unsignedp n' = unsignedp n"
proof (induction s arbitrary: W mx n ovf)
  case Nil
  then show ?case by simp
next
  case (Cons c s)
  define d where "d = hex_value c"
  consider (digit) "ISDIGIT c \<or> (base = 16 \<and> ISXDIGIT c)" | (sep) "\<not> (ISDIGIT c \<or> (base = 16 \<and> ISXDIGIT c))" "DIGIT_SEP pfile c"
    | (stop) "\<not> (ISDIGIT c \<or> (base = 16 \<and> ISXDIGIT c))" "\<not> DIGIT_SEP pfile c"
    by blast
  then show ?case
  proof cases
    case digit
    then have ds: "int_digits pfile base (c # s) = d # int_digits pfile base s"
      by (simp add: int_digits_Cons d_def)
    then have d: "d < base" "d < 16"
      using Cons.prems(4) assms(3) by (auto simp: good_base_def)
    have W: "(W mod 2 ^ p * base + d) mod 2 ^ p = (W * base + d) mod 2 ^ p"
      by (metis mod_add_left_eq mod_mult_left_eq)
    show ?thesis
    proof (cases "low n < mx")
      case True
      then have h: "high n = 0" "\<not> ovf" "mx = interpret_max p base"
        using Cons.prems(3) by auto
      then have "unat (low n) = W"
        using Cons.prems(1,2) by (simp add: num_val_def)
      then have v: "num_val (n\<lparr>low := low n * of_nat base + of_nat d\<rparr>) = (W * base + d) mod 2 ^ p" "W * base + d < 2 ^ p"
        using fast_digit[OF assms d(1), of "low n"] True h by (simp_all add: num_val_def)
      have "interpret_digits s pfile base p mx (n\<lparr>low := low n * of_nat base + of_nat d\<rparr>) ovf = (n', ovf')"
        using Cons.prems(5) digit True by (simp add: d_def)
      with Cons.IH[OF v(1), of ovf mx] show ?thesis
        using v(2) h Cons.prems(4) ds by (simp add: not_le)
    next
      case False
      define m where "m = append_digit n d base p"
      have wf: "num_wf p n"
        using Cons.prems(1) by (simp add: num_wf_def)
      have b: "base \<in> {2, 8, 10, 16}"
        using assms(3) by (simp add: good_base_def)
      note m = append_digit_correct[OF assms(2) wf b d(2), folded m_def]
      have "ovf \<or> overflow m \<longleftrightarrow> 2 ^ p \<le> W * base + d"
        using m(2) Cons.prems(1,2) assms(3) by (auto simp: good_base_def not_le)
      moreover have "interpret_digits s pfile base p 0 m (ovf \<or> overflow m) = (n', ovf')"
        using Cons.prems(5) digit False by (simp add: d_def m_def Let_def)
      moreover have "num_val m = (W * base + d) mod 2 ^ p"
        using m(1) Cons.prems(1) W by simp
      ultimately show ?thesis
        using Cons.IH[of m "W * base + d" "ovf \<or> overflow m" 0] Cons.prems(4) ds m(3) by simp
    qed
  next
    case sep
    then have "int_digits pfile base (c # s) = int_digits pfile base s"
      "interpret_digits (c # s) pfile base p mx n ovf = interpret_digits s pfile base p mx n ovf"
      by (auto simp: int_digits_Cons)
    with Cons.IH[OF Cons.prems(1-3)] Cons.prems(4,5) show ?thesis by simp
  next
    case stop
    then have "int_digits pfile base (c # s) = []" "interpret_digits (c # s) pfile base p mx n ovf = (n, ovf)"
      by (auto simp: int_digits_Cons)
    with Cons.prems show ?thesis by simp
  qed
qed

section \<open>Properties of integer constants\<close>

definition token_of :: "uchar list \<Rightarrow> cpp_token" where
  "token_of s = \<lparr>src_loc = 0, type = CPP_NUMBER, flags = 0, val = Val_str s\<rparr>"

lemma interpret_integer_long:
  assumes "8 \<le> p" "p \<le> 128" "precision (opts pfile) = p" "length (val_text (val tok)) \<noteq> 1"
    "interpret_base t = (base, k)" "ds = int_digits pfile base (drop k (val_text (val tok)))"
    "\<forall>d \<in> set ds. d < base" "v = digits_value base 0 ds"
  obtains m where "num_val m = v mod 2 ^ p" "unsignedp m = (t AND CPP_N_UNSIGNED \<noteq> 0)"
    "cpp_interpret_integer pfile tok t =
       (if 2 ^ p \<le> v \<and> t AND CPP_N_USERDEF = 0
        then (m, cpp_error pfile CPP_DL_PEDWARN ''integer constant is too large for its type'')
        else if t AND CPP_N_UNSIGNED = 0 \<and> \<not> (traditional (opts pfile) \<and> in_directive pfile)
                \<and> 2 ^ (p - 1) \<le> v mod 2 ^ p
        then (m\<lparr>unsignedp := True\<rparr>,
              diag_if (base = 10)
                (\<lambda>r. cpp_error r (if c99 (opts pfile) then CPP_DL_PEDWARN else CPP_DL_WARNING)
                       ''integer constant is so large that it is unsigned'') pfile)
        else (m, pfile))"
proof -
  define n0 where "n0 = \<lparr>high = 0, low = 0, unsignedp = (t AND CPP_N_UNSIGNED \<noteq> 0), overflow = False\<rparr>"
  obtain m ovf where m: "interpret_digits (drop k (val_text (val tok))) pfile base p (interpret_max p base) n0 False = (m, ovf)"
    by fastforce
  have "num_val m = digits_value base 0 ds mod 2 ^ p \<and> (ovf \<longleftrightarrow> 2 ^ p \<le> digits_value base 0 ds) \<and> unsignedp m = unsignedp n0"
    unfolding assms(6) using assms(6,7)
    by (intro interpret_digits_correct[OF assms(1,2) interpret_base_good[OF assms(5)] _ _ _ _ m])
       (simp_all add: n0_def num_val_make)
  then have v: "num_val m = v mod 2 ^ p" "ovf \<longleftrightarrow> 2 ^ p \<le> v" "unsignedp m = (t AND CPP_N_UNSIGNED \<noteq> 0)"
    using assms(8) by (simp_all add: n0_def)
  then have "num_positive m p \<longleftrightarrow> v mod 2 ^ p < 2 ^ (p - 1)"
    using num_positive_val[of p m] assms(1,2) by (simp add: num_wf_def)
  with v show ?thesis
    using assms(3-5) m by (intro that[of m]) (auto simp: cpp_interpret_integer_def n0_def Let_def not_le)
qed

lemma interpret_integer_cases:
  assumes "8 \<le> p" "p \<le> 128" "precision (opts pfile) = p" "interpret_base t = (base, k)"
    "ds = int_digits pfile base (drop k (val_text (val tok)))" "\<forall>d \<in> set ds. d < base"
    "length (val_text (val tok)) = 1 \<longrightarrow> base = 10 \<and> ISDIGIT (at (val_text (val tok)) 0)"
    "v = digits_value base 0 ds" "cpp_interpret_integer pfile tok t = (n, r)"
  shows "num_val n = v mod 2 ^ p
    \<and> (v < 2 ^ p \<and> \<not> (traditional (opts pfile) \<and> in_directive pfile) \<longrightarrow>
         num_ival p n = int v \<and> (unsignedp n \<longleftrightarrow> t AND CPP_N_UNSIGNED \<noteq> 0 \<or> 2 ^ (p - 1) \<le> v))
    \<and> (t AND CPP_N_USERDEF = 0 \<longrightarrow>
         (Diag CPP_DL_PEDWARN CPP_W_NONE None ''integer constant is too large for its type'' # diags pfile = diags r
          \<longleftrightarrow> 2 ^ p \<le> v))"
proof (cases "length (val_text (val tok)) = 1")
  case True
  then obtain c where c: "val_text (val tok) = [c]" "ISDIGIT c" "base = 10" "k = 0"
    using assms(4,7) by (auto simp: length_Suc_conv interpret_base_def split: if_splits)
  then have v: "v = hex_value c" "v < 10"
    using assms(5,8) hex_value_digit[of c] by (simp_all add: int_digits_Cons)
  have "(2 :: nat) ^ 7 \<le> 2 ^ (p - 1)" "(2 :: nat) ^ 7 \<le> 2 ^ p"
    using assms(1) by (intro power_increasing; simp)+
  with v have lt: "v < 2 ^ (p - 1)" "v < 2 ^ p" by simp_all
  have "of_nat (of_char c) - 48 = (of_nat (of_char c - 48) :: 64 word)" "of_char c - 48 = v"
    using c(2) v by (auto simp: char_simps of_nat_diff)
  then have "unat (of_nat (of_char c) - 48 :: 64 word) = v"
    using v(2) by (simp add: unat_of_nat)
  then have "num_val n = v" "unsignedp n = (t AND CPP_N_UNSIGNED \<noteq> 0)" "r = pfile"
    using assms(9) c(1) by (auto simp: cpp_interpret_integer_def num_val_def)
  with lt show ?thesis
    by (auto simp: num_ival_def not_le)
next
  case False
  from interpret_integer_long[OF assms(1-3) False assms(4-6,8)] obtain m where
    m: "num_val m = v mod 2 ^ p" "unsignedp m = (t AND CPP_N_UNSIGNED \<noteq> 0)" and
    eq: "cpp_interpret_integer pfile tok t =
       (if 2 ^ p \<le> v \<and> t AND CPP_N_USERDEF = 0
        then (m, cpp_error pfile CPP_DL_PEDWARN ''integer constant is too large for its type'')
        else if t AND CPP_N_UNSIGNED = 0 \<and> \<not> (traditional (opts pfile) \<and> in_directive pfile)
                \<and> 2 ^ (p - 1) \<le> v mod 2 ^ p
        then (m\<lparr>unsignedp := True\<rparr>,
              diag_if (base = 10)
                (\<lambda>r. cpp_error r (if c99 (opts pfile) then CPP_DL_PEDWARN else CPP_DL_WARNING)
                       ''integer constant is so large that it is unsigned'') pfile)
        else (m, pfile))" .
  show ?thesis
    using m eq assms(9) by (auto simp: num_ival_def cpp_diagnostic_def diag_if_def not_le split: if_splits)
qed

text \<open>
  C19: the value of an integer constant. The digits of the token, in the base its classification
  gives and with digit separators skipped, denote a natural number \<open>v\<close>. The result has the value
  \<open>v\<close> modulo \<open>2 ^ precision\<close>; a constant that fits the precision (and is not read with traditional
  semantics) denotes \<open>v\<close> exactly, becoming unsigned when it is too big for the signed type; and
  the constant is diagnosed as too large exactly when \<open>v\<close> does not fit.
\<close>

theorem interpret_integer_value:
  assumes "8 \<le> p" "p \<le> 128" "precision (opts pfile) = p" "interpret_base t = (base, k)"
    "ds = int_digits pfile base (drop k (val_text (val tok)))" "\<forall>d \<in> set ds. d < base"
    "length (val_text (val tok)) = 1 \<longrightarrow> base = 10 \<and> ISDIGIT (at (val_text (val tok)) 0)"
    "v = digits_value base 0 ds" "cpp_interpret_integer pfile tok t = (n, r)"
  shows "num_val n = v mod 2 ^ p
    \<and> (v < 2 ^ p \<and> \<not> (traditional (opts pfile) \<and> in_directive pfile) \<longrightarrow>
         num_ival p n = int v \<and> (unsignedp n \<longleftrightarrow> t AND CPP_N_UNSIGNED \<noteq> 0 \<or> 2 ^ (p - 1) \<le> v))
    \<and> (t AND CPP_N_USERDEF = 0 \<longrightarrow>
         (Diag CPP_DL_PEDWARN CPP_W_NONE None ''integer constant is too large for its type'' # diags pfile = diags r
          \<longleftrightarrow> 2 ^ p \<le> v))"
  by (rule interpret_integer_cases[OF assms])

theorem interpret_integer_value_witness:
  "num_val (fst (cpp_interpret_integer reader64 (token_of ''0xff'') (CPP_N_INTEGER OR CPP_N_SMALL OR CPP_N_HEX))) = 255"
proof -
  have "interpret_base (CPP_N_INTEGER OR CPP_N_SMALL OR CPP_N_HEX) = (16, 2)"
    by (simp add: interpret_base_def flag_simps)
  moreover have "int_digits reader64 16 ''ff'' = [15, 15]"
    by (simp add: int_digits_Cons char_simps)
  ultimately show ?thesis
    using interpret_integer_value[OF _ _ _ _ _ _ _ _ prod.collapse[symmetric], of 64 reader64
        "CPP_N_INTEGER OR CPP_N_SMALL OR CPP_N_HEX" 16 2 "[15, 15]" "token_of ''0xff''" 255]
    by (simp add: token_of_def)
qed

end
