(* ===== verification/Cpp_Classify.thy ===== *)
theory Cpp_Classify
  imports Cpp_Integer
begin

text \<open>
  Correctness of the classification of numeric constants: the flag fields it returns, the
  diagnostics that accompany a rejection, and the round trip from a printed constant through
  classification and interpretation back to its value.
\<close>

section \<open>Suffix flags\<close>

text \<open>The category, radix and user-defined fields, which the suffix functions leave clear.\<close>

abbreviation outer_fields :: uint where "outer_fields \<equiv> 0x01000F0F"

lemma push_28_outer: "push_bit 28 (w :: uint) AND outer_fields = 0"
proof -
  have "(outer_fields :: uint) = take_bit 28 outer_fields"
    by simp
  moreover have "push_bit 28 w AND take_bit 28 v = 0" for v :: uint
    by (rule bit_word_eqI) (auto simp: bit_simps)
  ultimately show ?thesis by metis
qed

lemma floatn_outer: "16 dvd n \<Longrightarrow> push_bit 24 (of_nat n :: uint) AND outer_fields = 0"
proof -
  assume "16 dvd n"
  then obtain k where "n = 16 * k" by blast
  then have "push_bit 24 (of_nat n :: uint) = push_bit 28 (of_nat k)"
    by (simp add: push_bit_eq_mult)
  then show ?thesis by (simp only: push_28_outer)
qed

lemma or_and_zero: "(a OR b) AND m = 0 \<longleftrightarrow> a AND m = 0 \<and> b AND m = (0 :: uint)"
  by (simp add: bit.conj_disj_distrib2 or_eq_0_iff)

lemma if_and_zero: "(if c then a else b) AND m = (0 :: uint) \<longleftrightarrow> (c \<longrightarrow> a AND m = 0) \<and> (\<not> c \<longrightarrow> b AND m = 0)"
  by simp

lemma float_counts_flags_outer: "float_counts_flags pfile s k AND outer_fields = 0"
proof -
  have fn: "push_bit 24 (of_nat (fn_bits k) :: uint) AND outer_fields = 0"
    if "fn_bits k = 16 \<or> fn_bits k = 32 \<or> fn_bits k = 64 \<or> fn_bits k = 128 \<or> fn_bits k mod 32 = 0"
    using that by (intro floatn_outer) (auto intro: dvd_trans[of 16 32])
  show ?thesis
    unfolding float_counts_flags_def if_and_zero or_and_zero CPP_FLOATN_SHIFT_def
    using fn by (simp add: flag_simps)
qed

lemma decimal_float_suffix_outer: "decimal_float_suffix s = Some r \<Longrightarrow> r AND outer_fields = 0"
  by (simp add: decimal_float_suffix_def Let_def flag_simps split: if_splits)

lemma fixed_point_width_outer: "w AND outer_fields = 0 \<Longrightarrow> fixed_point_width s n w AND outer_fields = 0"
  unfolding fixed_point_width_def if_and_zero or_and_zero by (simp add: flag_simps)

lemma fixed_point_suffix_outer: "fixed_point_suffix s = Some r \<Longrightarrow> r AND outer_fields = 0"
  by (auto simp: fixed_point_suffix_def Let_def or_and_zero flag_simps intro!: fixed_point_width_outer split: if_splits)

lemma interpret_float_suffix_outer: "interpret_float_suffix pfile s AND outer_fields = 0"
  using float_counts_flags_outer decimal_float_suffix_outer fixed_point_suffix_outer
  by (auto simp: interpret_float_suffix_def split: option.splits if_splits)

lemma interpret_int_suffix_outer: "interpret_int_suffix pfile s AND outer_fields = 0"
  by (auto simp: interpret_int_suffix_def or_and_zero flag_simps split: option.splits)

section \<open>What a classification returns\<close>

definition add_diags :: "cpp_reader \<Rightarrow> cpp_diag list \<Rightarrow> cpp_reader" where
  "add_diags pfile ds = pfile\<lparr>diags := ds @ diags pfile\<rparr>"

definition rejects :: "cpp_diag list \<Rightarrow> bool" where
  "rejects ds \<longleftrightarrow> (\<exists>d \<in> set ds. diag_level d = CPP_DL_ERROR)"

definition good_flags :: "uint \<Rightarrow> bool" where
  "good_flags f \<longleftrightarrow>
     (f AND CPP_N_CATEGORY = CPP_N_INTEGER \<or> f AND CPP_N_CATEGORY = CPP_N_FLOATING)
     \<and> f AND CPP_N_RADIX \<in> {CPP_N_DECIMAL, CPP_N_HEX, CPP_N_OCTAL, CPP_N_BINARY}"

text \<open>
  Only diagnostics are added to the reader; the flags are \<^verbatim>\<open>CPP_N_INVALID\<close> exactly when an error
  was among them, and otherwise name one category and one radix.
\<close>

definition classified_ok :: "cpp_reader \<Rightarrow> classified \<Rightarrow> bool" where
  "classified_ok pfile res \<longleftrightarrow>
     (case res of (f, ud, r) \<Rightarrow>
        \<exists>ds. r = add_diags pfile ds \<and> (f = CPP_N_INVALID \<longleftrightarrow> rejects ds) \<and> (f \<noteq> CPP_N_INVALID \<longrightarrow> good_flags f))"

lemma add_diags_append [simp]: "add_diags (add_diags pfile ds) ds' = add_diags pfile (ds' @ ds)"
  by (simp add: add_diags_def)

lemma rejects_append [simp]: "rejects (a @ b) \<longleftrightarrow> rejects a \<or> rejects b" "\<not> rejects []"
  by (auto simp: rejects_def)

text \<open>Readers that differ by diagnostics none of which is an error.\<close>

definition quieter :: "cpp_reader \<Rightarrow> cpp_reader \<Rightarrow> bool" where
  "quieter r r' \<longleftrightarrow> (\<exists>ds. r' = add_diags r ds \<and> \<not> rejects ds)"

lemma quieter_refl: "quieter r r"
  by (auto simp: quieter_def add_diags_def intro!: exI[of _ "[]"])

lemma quieter_diag:
  "quieter r r' \<Longrightarrow> level \<noteq> CPP_DL_ERROR \<Longrightarrow> quieter r (diag_if c (\<lambda>x. cpp_diagnostic x level reason loc msg) r')"
  unfolding quieter_def
  by (elim exE, rule_tac x = "(if c then [Diag level reason loc msg] else []) @ ds" in exI)
     (auto simp: diag_if_def cpp_diagnostic_def add_diags_def rejects_def)

lemma quieter_pedwarn: "quieter r r' \<Longrightarrow> quieter r (pedwarn_if c loc msg r')"
  unfolding pedwarn_if_def by (rule quieter_diag) simp_all

lemmas quieter_intros = quieter_pedwarn quieter_diag quieter_refl

lemma classified_ok_quieter: "quieter r r' \<Longrightarrow> classified_ok r' res \<Longrightarrow> classified_ok r res"
  by (fastforce simp: quieter_def classified_ok_def)

lemma classified_ok_error:
  "classified_ok pfile (CPP_N_INVALID, ud, cpp_error_with_line pfile CPP_DL_ERROR loc msg)"
  by (auto simp: classified_ok_def cpp_diagnostic_def add_diags_def rejects_def intro: exI[of _ "[_]"])

lemma syntax_error_ok: "classified_ok pfile (syntax_error_at pfile loc msg)"
  by (simp add: syntax_error_at_def classified_ok_error)

lemma classified_ok_if:
  "\<lbrakk>c \<Longrightarrow> classified_ok r x; \<not> c \<Longrightarrow> classified_ok r y\<rbrakk> \<Longrightarrow> classified_ok r (if c then x else y)"
  by simp

lemma and_subfield: "w AND m = (0 :: uint) \<Longrightarrow> m AND n = n \<Longrightarrow> w AND n = 0"
  by (metis and.assoc and_zero_eq zero_and_eq)

lemma good_flags_or:
  assumes "w AND 0xF0F = 0" "c = CPP_N_INTEGER \<or> c = CPP_N_FLOATING"
    "x \<in> {CPP_N_DECIMAL, CPP_N_HEX, CPP_N_OCTAL, CPP_N_BINARY}"
  shows "good_flags (w OR c OR x)" "w OR c OR x \<noteq> 0"
proof -
  have "w AND 0xF = 0" "w AND 0xF00 = 0"
    by (rule and_subfield[OF assms(1)]; simp)+
  then show "good_flags (w OR c OR x)"
    using assms(2,3) unfolding good_flags_def N_defs
    by (elim disjE insertE emptyE) (simp_all add: bit.conj_disj_distrib2)
  show "w OR c OR x \<noteq> 0"
    using assms(2) unfolding N_defs or_eq_0_iff by auto
qed

lemma classify_finish_ok:
  assumes "w AND 0xF0F = 0" "c = CPP_N_INTEGER \<or> c = CPP_N_FLOATING"
  shows "classified_ok pfile (classify_finish pfile loc radix (w OR c) ud)"
proof -
  define x where "x = (if radix = 10 then CPP_N_DECIMAL else if radix = 16 then CPP_N_HEX
           else if radix = 2 then CPP_N_BINARY else CPP_N_OCTAL)"
  have "x \<in> {CPP_N_DECIMAL, CPP_N_HEX, CPP_N_OCTAL, CPP_N_BINARY}"
    by (simp add: x_def)
  then have "classified_ok r ((w OR c) OR x, ud, r)" for r
    using good_flags_or[OF assms, of x] quieter_refl[of r]
    by (auto simp: classified_ok_def CPP_N_INVALID_def or.assoc quieter_def)
  then show ?thesis
    unfolding classify_finish_def Let_def x_def by (rule classified_ok_quieter[rotated]) (intro quieter_intros)
qed

lemma classify_float_suffix_ok: "classified_ok pfile (classify_float_suffix pfile loc radix str)"
proof (cases "interpret_float_suffix pfile str = 0 \<and> \<not> user_literals (opts pfile)")
  case True
  then show ?thesis by (simp add: classify_float_suffix_def syntax_error_ok)
next
  case False
  define w where "w = (if interpret_float_suffix pfile str = 0 then CPP_N_LARGE OR CPP_N_USERDEF
                       else interpret_float_suffix pfile str)"
  have "w AND 0xF0F = 0"
    using and_subfield[OF interpret_float_suffix_outer[of pfile str], of "0xF0F"] by (simp add: w_def flag_simps)
  then have fin: "classified_ok r (classify_finish r loc radix (w OR CPP_N_FLOATING) ud)" for r ud
    by (simp add: classify_finish_ok)
  show ?thesis
    unfolding classify_float_suffix_def Let_def w_def[symmetric] if_not_P[OF False]
    by (split if_split, intro conjI impI; rule classified_ok_quieter[OF _ classified_ok_error] classified_ok_quieter[OF _ fin])
       (intro quieter_intros; simp)+
qed

lemma classify_float_ok: "classified_ok pfile (classify_float pfile loc radix str st)"
proof -
  have "classified_ok r (case y of Inl msg \<Rightarrow> syntax_error_at r loc msg | Inr str \<Rightarrow> classify_float_suffix r loc radix str)" for r y
    by (simp add: syntax_error_ok classify_float_suffix_ok split: sum.split)
  then show ?thesis
    unfolding classify_float_def Let_def
    by (auto intro: syntax_error_ok classified_ok_quieter[OF quieter_pedwarn[OF quieter_refl]])
qed

lemma classify_int_ok: "classified_ok pfile (classify_int pfile loc radix str)"
proof (cases "interpret_int_suffix pfile str = 0 \<and> \<not> user_literals (opts pfile)")
  case True
  then show ?thesis by (simp add: classify_int_def syntax_error_ok)
next
  case False
  define w where "w = (if interpret_int_suffix pfile str = 0 then CPP_N_UNSIGNED OR CPP_N_LARGE OR CPP_N_USERDEF
                       else interpret_int_suffix pfile str)"
  have "w AND 0xF0F = 0"
    using and_subfield[OF interpret_int_suffix_outer[of pfile str], of "0xF0F"] by (simp add: w_def flag_simps)
  then have fin: "classified_ok r (classify_finish r loc radix (w OR CPP_N_INTEGER) ud)" for r ud
    by (simp add: classify_finish_ok)
  show ?thesis
    unfolding classify_int_def Let_def w_def[symmetric] if_not_P[OF False]
    by (rule classified_ok_quieter[OF _ fin]) (cases "c99 (opts pfile)"; simp only: if_True if_False; intro quieter_intros; simp)
qed

lemma classify_scanned_ok: "classified_ok pfile (classify_scanned pfile loc radix str st)"
proof -
  have "interpret_float_suffix pfile str AND 0xF0F = 0"
    using and_subfield[OF interpret_float_suffix_outer[of pfile str], of "0xF0F"] by simp
  then have fin: "classified_ok pfile (classify_finish (pedwarn_if c loc msg pfile) loc radix'
               (interpret_float_suffix pfile str OR CPP_N_FLOATING) None)" for c msg radix'
    by (rule classified_ok_quieter[OF quieter_pedwarn[OF quieter_refl] classify_finish_ok]) simp_all
  show ?thesis
    unfolding classify_scanned_def Let_def
    by (intro classified_ok_if fin syntax_error_ok classify_float_ok classify_int_ok)
qed

lemma classify_number_ok: "classified_ok pfile (cpp_classify_number pfile tok loc)"
proof -
  have one: "classified_ok pfile (CPP_N_INTEGER OR CPP_N_SMALL OR CPP_N_DECIMAL, None, pfile)"
    by (auto simp: classified_ok_def add_diags_def good_flags_def flag_simps intro!: exI[of _ "[]"])
  then show ?thesis
    unfolding cpp_classify_number_def Let_def
    by (auto intro: one syntax_error_ok classify_scanned_ok split: sum.split)
qed

text \<open>
  C20: a classification changes nothing of the reader but adds diagnostics, returns
  \<^verbatim>\<open>CPP_N_INVALID\<close> exactly when it has reported an error, and otherwise returns flags with exactly
  one category (integer or floating) and exactly one radix: no suffix flag, user-defined suffix
  or \<^verbatim>\<open>_FloatN\<close> width ever disturbs these fields.
\<close>

theorem classify_number_flags:
  "\<exists>ds. snd (snd (cpp_classify_number pfile tok loc)) = pfile\<lparr>diags := ds @ diags pfile\<rparr>
     \<and> (fst (cpp_classify_number pfile tok loc) = CPP_N_INVALID \<longleftrightarrow> (\<exists>d. d \<in> set ds \<and> diag_level d = CPP_DL_ERROR))
     \<and> (fst (cpp_classify_number pfile tok loc) = CPP_N_INVALID \<or> good_flags (fst (cpp_classify_number pfile tok loc)))"
  using classify_number_ok[of pfile tok loc]
  by (auto simp: classified_ok_def add_diags_def rejects_def Bex_def split: prod.splits)

section \<open>Printing and reading back\<close>

text \<open>The spelling of a natural number in one of the four bases, as a C constant.\<close>

definition digit_char :: "nat \<Rightarrow> uchar" where
  "digit_char d = (if d < 10 then char_of (48 + d) else char_of (87 + d))"

fun print_digits :: "nat \<Rightarrow> nat \<Rightarrow> uchar list" where
  "print_digits base v =
     (if v < base \<or> base < 2 then [digit_char v] else print_digits base (v div base) @ [digit_char (v mod base)])"

declare print_digits.simps [simp del]

definition base_prefix :: "nat \<Rightarrow> uchar list" where
  "base_prefix base = (if base = 8 then ''0'' else if base = 16 then ''0x'' else if base = 2 then ''0b'' else [])"

definition radix_flag :: "nat \<Rightarrow> uint" where
  "radix_flag base =
     (if base = 8 then CPP_N_OCTAL else if base = 16 then CPP_N_HEX else if base = 2 then CPP_N_BINARY else CPP_N_DECIMAL)"

lemma digit_char_simps:
  "d < 16 \<Longrightarrow> hex_value (digit_char d) = d" "d < 16 \<Longrightarrow> ISXDIGIT (digit_char d)"
  "d < 16 \<Longrightarrow> ISDIGIT (digit_char d) \<longleftrightarrow> d < 10" "d < 16 \<Longrightarrow> digit_char d = CHR ''0'' \<longleftrightarrow> d = 0"
  by (auto simp: digit_char_def char_simps of_char_of char_of_eq_iff take_bit_eq_mod)

text \<open>Characters of a spelling: digits of the base.\<close>

definition base_digit :: "nat \<Rightarrow> uchar \<Rightarrow> bool" where
  "base_digit base c \<longleftrightarrow> (ISDIGIT c \<or> (base = 16 \<and> ISXDIGIT c)) \<and> hex_value c < base"

lemma base_digit_char: "good_base base \<Longrightarrow> d < base \<Longrightarrow> base_digit base (digit_char d)"
  using digit_char_simps[of d] by (auto simp: base_digit_def good_base_def)

lemma print_digits_base: "good_base base \<Longrightarrow> c \<in> set (print_digits base v) \<Longrightarrow> base_digit base c"
proof (induction base v rule: print_digits.induct)
  case (1 base v)
  show ?case
  proof (cases "v < base \<or> base < 2")
    case True
    then have "c = digit_char v" "v < base"
      using "1.prems" by (auto simp: print_digits.simps[of base v] good_base_def)
    with "1.prems"(1) show ?thesis by (simp add: base_digit_char)
  next
    case False
    then have "c \<in> set (print_digits base (v div base)) \<or> c = digit_char (v mod base)"
      using "1.prems"(2) by (auto simp: print_digits.simps[of base v])
    with False "1.IH"[OF False "1.prems"(1)] "1.prems"(1) show ?thesis
      by (auto intro: base_digit_char simp: not_less)
  qed
qed

lemma print_digits_hd: "good_base base \<Longrightarrow> at (print_digits base v) 0 = CHR ''0'' \<longleftrightarrow> v = 0"
proof (induction base v rule: print_digits.induct)
  case (1 base v)
  have ne: "print_digits base w \<noteq> []" for w
    by (subst print_digits.simps) simp
  have app: "at (xs @ ys) 0 = at xs 0" if "xs \<noteq> []" for xs ys
    using that by (cases xs) simp_all
  show ?case
  proof (cases "v < base \<or> base < 2")
    case True
    with 1(2) show ?thesis
      using digit_char_simps(4)[of v] by (auto simp: print_digits.simps[of base v] good_base_def)
  next
    case False
    then show ?thesis
      using 1 by (simp add: print_digits.simps[of base v] app ne div_eq_0_iff not_less)
  qed
qed

lemma digits_value_append: "digits_value base v (xs @ ys) = digits_value base (digits_value base v xs) ys"
  by (simp add: digits_value_def)

lemma print_digits_value: "good_base base \<Longrightarrow> digits_value base 0 (map hex_value (print_digits base v)) = v"
proof (induction base v rule: print_digits.induct)
  case (1 base v)
  have b: "2 \<le> base" "base \<le> 16"
    using 1(2) by (auto simp: good_base_def)
  show ?case
  proof (cases "v < base")
    case True
    then show ?thesis
      using b by (simp add: print_digits.simps[of base v] digit_char_simps)
  next
    case False
    moreover have "v mod base < 16" using b by (intro less_le_trans[OF mod_less_divisor]) simp_all
    ultimately show ?thesis
      using 1 b by (simp add: print_digits.simps[of base v] digits_value_append digit_char_simps)
  qed
qed

text \<open>Scanning and reading digits of the base, up to a character that is none.\<close>

definition stops :: "cpp_reader \<Rightarrow> uchar list \<Rightarrow> bool" where
  "stops pfile s \<longleftrightarrow> \<not> ISXDIGIT (at s 0) \<and> \<not> DIGIT_SEP pfile (at s 0)
     \<and> at s 0 \<notin> {CHR ''.'', CHR ''e'', CHR ''E'', CHR ''p'', CHR ''P''}"

lemma scan_number_stop: "stops pfile s \<Longrightarrow> scan_number s pfile radix st = Inr (s, st)"
  by (cases s) (auto simp: stops_def ISXDIGIT_def)

lemma scan_number_digits:
  "\<forall>c \<in> set ds. base_digit radix c \<Longrightarrow> stops pfile s \<Longrightarrow> max_digit st < radix \<Longrightarrow>
   \<exists>m < radix. scan_number (ds @ s) pfile radix st =
     Inr (s, if ds = [] then st else st\<lparr>seen_digit_sep := False, seen_digit := True, max_digit := m\<rparr>)"
proof (induction ds arbitrary: st)
  case Nil
  then show ?case by (auto simp: scan_number_stop)
next
  case (Cons c ds)
  then have c: "ISDIGIT c \<or> (ISXDIGIT c \<and> radix = 16)" "hex_value c < radix"
    by (auto simp: base_digit_def)
  let ?st = "st\<lparr>seen_digit_sep := False, seen_digit := True, max_digit := max (max_digit st) (hex_value c)\<rparr>"
  from Cons.IH[of ?st] Cons.prems c obtain m where
    "m < radix" "scan_number (ds @ s) pfile radix ?st =
       Inr (s, if ds = [] then ?st else ?st\<lparr>seen_digit_sep := False, seen_digit := True, max_digit := m\<rparr>)"
    by auto
  with c Cons.prems(3) show ?case
    by (intro exI[of _ "if ds = [] then max (max_digit st) (hex_value c) else m"]) (auto simp: max_def)
qed

lemma int_digits_spelling:
  "\<forall>c \<in> set ds. base_digit base c \<Longrightarrow> stops pfile s \<Longrightarrow> int_digits pfile base (ds @ s) = map hex_value ds"
proof (induction ds)
  case Nil
  then show ?case
    by (cases s) (auto simp: stops_def int_digits_Cons ISXDIGIT_def)
qed (auto simp: int_digits_Cons base_digit_def)

text \<open>An accepted integer suffix starts with a character that stops the scan.\<close>

lemma int_suffix_loop_chars:
  "int_suffix_loop rs nxt u l i = Some x \<Longrightarrow> set rs \<subseteq> set ''uUlLiIjJ''"
  by (induction rs arbitrary: nxt u l i) (auto split: if_splits)

lemma int_suffix_chars: "interpret_int_suffix pfile s \<noteq> 0 \<Longrightarrow> set s \<subseteq> set ''uUlLiIjJ''"
  using int_suffix_loop_chars[of "rev s" NUL 0 0 0] by (auto simp: interpret_int_suffix_def split: option.splits)

lemma int_suffix_stops: "interpret_int_suffix pfile s \<noteq> 0 \<Longrightarrow> stops pfile s"
proof -
  assume "interpret_int_suffix pfile s \<noteq> 0"
  then have "s = [] \<or> at s 0 \<in> set ''uUlLiIjJ''"
    using int_suffix_chars[of pfile s] by (cases s) auto
  then show ?thesis
    by (auto simp: stops_def DIGIT_SEP_def char_simps NUL_char)
qed

abbreviation fixed_fields :: uint where "fixed_fields \<equiv> 0x300000"

lemma int_suffix_not_fixed:
  assumes "interpret_int_suffix pfile s \<noteq> 0"
  shows "interpret_float_suffix pfile s AND CPP_N_FRACT = 0" "interpret_float_suffix pfile s AND CPP_N_ACCUM = 0"
proof -
  have fl: "float_counts_flags pfile s k AND fixed_fields = 0" for k
  proof -
    have "push_bit 24 (w :: uint) AND take_bit 24 v = 0" for v w
      by (rule bit_word_eqI) (auto simp: bit_simps)
    from this[of _ fixed_fields] have "push_bit 24 (w :: uint) AND fixed_fields = 0" for w
      by simp
    then show ?thesis
      unfolding float_counts_flags_def if_and_zero or_and_zero CPP_FLOATN_SHIFT_def by (simp add: flag_simps)
  qed
  have c: "at s i \<in> insert NUL (set ''uUlLiIjJ'')" for i
    using int_suffix_chars[OF assms] nth_mem[of i s] by (auto simp: at_def subset_iff)
  have "decimal_float_suffix s = None"
    using c[of 0] by (auto simp: decimal_float_suffix_def NUL_char)
  moreover have "fixed_point_suffix s = None"
    using c[of "length s - 1"] by (auto simp: fixed_point_suffix_def Let_def NUL_char)
  ultimately have "interpret_float_suffix pfile s AND fixed_fields = 0"
    using fl by (auto simp: interpret_float_suffix_def split: option.splits)
  then show "interpret_float_suffix pfile s AND CPP_N_FRACT = 0" "interpret_float_suffix pfile s AND CPP_N_ACCUM = 0"
    by (auto simp: flag_simps intro: and_subfield)
qed

lemma binary_digit:
  assumes "ISDIGIT c" "hex_value c < 2" shows "c = CHR ''0'' \<or> c = CHR ''1''"
proof -
  have "of_char c = (48 :: nat) \<or> of_char c = (49 :: nat)"
    using assms by (auto simp: char_simps)
  then have "c = char_of (48 :: nat) \<or> c = char_of (49 :: nat)"
    by (metis char_of_char)
  then show ?thesis
    by (auto simp: char_of_eq_iff)
qed

lemma classify_radix_prefix:
  assumes "good_base base" "base = 10 \<longrightarrow> 0 < v"
  shows "classify_radix pfile (base_prefix base @ print_digits base v @ s) = Inr (base, print_digits base v @ s)"
proof -
  obtain c cs where p: "print_digits base v = c # cs"
    by (cases "print_digits base v") (auto simp: print_digits.simps[of base v] split: if_splits)
  have c: "base_digit base c" "c = CHR ''0'' \<longleftrightarrow> v = 0"
    using print_digits_base[OF assms(1), of c v] print_digits_hd[OF assms(1), of v] by (simp_all add: p)
  have "base = 2 \<Longrightarrow> c = CHR ''0'' \<or> c = CHR ''1''"
    using c(1) binary_digit[of c] by (auto simp: base_digit_def)
  moreover have "base \<noteq> 16 \<Longrightarrow> c \<noteq> CHR ''x'' \<and> c \<noteq> CHR ''X'' \<and> c \<noteq> CHR ''b'' \<and> c \<noteq> CHR ''B''"
    using c(1) by (auto simp: base_digit_def ISDIGIT_def)
  moreover have "base = 16 \<Longrightarrow> ISXDIGIT c" "base = 10 \<Longrightarrow> c \<noteq> CHR ''0''"
    using c assms(2) by (auto simp: base_digit_def ISXDIGIT_def)
  ultimately show ?thesis
    using assms(1) unfolding good_base_def p
    by (elim insertE emptyE) (simp_all add: classify_radix_def base_prefix_def Let_def)
qed

lemma classify_print:
  assumes "good_base base" "base = 10 \<longrightarrow> 0 < v" "interpret_int_suffix pfile s = f" "f \<noteq> 0"
  shows "fst (cpp_classify_number pfile (token_of (base_prefix base @ print_digits base v @ s)) loc)
           = f OR CPP_N_INTEGER OR radix_flag base"
proof -
  define str where "str = base_prefix base @ print_digits base v @ s"
  obtain c cs where p: "print_digits base v = c # cs"
    by (cases "print_digits base v") (auto simp: print_digits.simps[of base v] split: if_splits)
  show ?thesis
  proof (cases "length str = 1")
    case True
    then have "base = 10" "s = []"
      using assms(1) by (auto simp: str_def p base_prefix_def good_base_def split: if_splits)
    moreover from this have "f = CPP_N_SMALL"
      using assms(3) by (simp add: interpret_int_suffix_def)
    ultimately show ?thesis
      using True by (simp add: cpp_classify_number_def token_of_def str_def flag_simps radix_flag_def)
  next
    case False
    have stop: "stops pfile s"
      using int_suffix_stops assms(3,4) by blast
    have "max_digit scan_start < base" "print_digits base v \<noteq> []"
      using assms(1) by (auto simp: scan_start_def good_base_def p)
    then obtain m where m: "m < base" "scan_number (print_digits base v @ s) pfile base scan_start =
      Inr (s, scan_start\<lparr>seen_digit_sep := False, seen_digit := True, max_digit := m\<rparr>)"
      using scan_number_digits[OF _ stop, of "print_digits base v" base scan_start] print_digits_base[OF assms(1)]
      by auto
    have "cpp_classify_number pfile (token_of str) loc = classify_int pfile loc base s"
      using False m int_suffix_not_fixed[of pfile s] assms(3,4)
        classify_radix_prefix[OF assms(1,2), of pfile s]
      by (simp add: cpp_classify_number_def token_of_def str_def classify_scanned_def scan_start_def)
    then show ?thesis
      using assms by (auto simp: str_def classify_int_def classify_finish_def radix_flag_def good_base_def or.assoc Let_def)
  qed
qed

text \<open>The flags and the value of a printed constant, for any token that is spelled that way.\<close>

lemma integer_constant_reads:
  assumes "8 \<le> p" "p \<le> 128" "precision (opts pfile) = p" "\<not> traditional (opts pfile)"
    "base \<in> {2, 8, 10, 16}" "base = 10 \<longrightarrow> 0 < v" "v < 2 ^ p"
    "interpret_int_suffix pfile s = f" "f \<noteq> 0" "val_text (val tok) = base_prefix base @ print_digits base v @ s"
    "t = fst (cpp_classify_number pfile tok loc)" "n = fst (cpp_interpret_integer pfile tok t)"
  shows "t = f OR CPP_N_INTEGER OR radix_flag base" "num_ival p n = int v" "num_wf p n"
    "unsignedp n \<longleftrightarrow> f AND CPP_N_UNSIGNED \<noteq> 0 \<or> 2 ^ (p - 1) \<le> v"
proof -
  have b: "good_base base" using assms(5) by (simp add: good_base_def)
  have t: "t = f OR CPP_N_INTEGER OR radix_flag base"
    using classify_print[OF b assms(6,8,9)] assms(10,11) by (simp add: cpp_classify_number_def token_of_def)
  have "f AND 0xF00 = 0"
    using and_subfield[OF interpret_int_suffix_outer[of pfile s], of "0xF00"] assms(8) by simp
  then have ib: "interpret_base t = (base, length (base_prefix base))"
    using assms(5) by (auto simp: t interpret_base_def radix_flag_def base_prefix_def flag_simps bit.conj_disj_distrib2)
  have ds: "int_digits pfile base (drop (length (base_prefix base)) (val_text (val tok))) = map hex_value (print_digits base v)"
    using int_digits_spelling[of "print_digits base v" base pfile s] print_digits_base[OF b]
      int_suffix_stops[of pfile s] assms(8-10) by simp
  have lt: "\<forall>d \<in> set (map hex_value (print_digits base v)). d < base"
    using print_digits_base[OF b] by (auto simp: base_digit_def)
  have one: "length (val_text (val tok)) = 1 \<longrightarrow> base = 10 \<and> ISDIGIT (at (val_text (val tok)) 0)"
  proof
    assume l: "length (val_text (val tok)) = 1"
    obtain c cs where p: "print_digits base v = c # cs"
      by (cases "print_digits base v") (auto simp: print_digits.simps[of base v] split: if_splits)
    with l assms(10) have "base_prefix base = []" "val_text (val tok) = [c]"
      by auto
    moreover from this have "base = 10"
      using assms(5) by (auto simp: base_prefix_def split: if_splits)
    ultimately show "base = 10 \<and> ISDIGIT (at (val_text (val tok)) 0)"
      using print_digits_base[OF b, of c v] p by (simp add: base_digit_def)
  qed
  have u: "t AND CPP_N_UNSIGNED = f AND CPP_N_UNSIGNED"
    using assms(5) by (auto simp: t radix_flag_def flag_simps bit.conj_disj_distrib2)
  note v = interpret_integer_cases[OF assms(1-3) ib ds[symmetric] lt one print_digits_value[OF b, symmetric] prod.collapse[symmetric]]
  show "t = f OR CPP_N_INTEGER OR radix_flag base" by (rule t)
  show "num_ival p n = int v" "num_wf p n" "unsignedp n \<longleftrightarrow> f AND CPP_N_UNSIGNED \<noteq> 0 \<or> 2 ^ (p - 1) \<le> v"
    using v assms(4,7) by (simp_all add: assms(12) u num_wf_def)
qed

text \<open>
  C18: printing and reading back. A natural number printed in base 2, 8, 10 or 16 as a C constant,
  followed by any suffix that is accepted, is classified as an integer constant of that radix
  with the flags of that suffix; if it fits the precision, interpreting the token gives the
  number back, signed unless the suffix
  says otherwise or it is too large for that.
\<close>

theorem integer_constant_roundtrip:
  assumes "8 \<le> p" "p \<le> 128" "precision (opts pfile) = p" "\<not> traditional (opts pfile)"
    "base \<in> {2, 8, 10, 16}" "base = 10 \<longrightarrow> 0 < v" "v < 2 ^ p"
    "interpret_int_suffix pfile s = f" "f \<noteq> 0" "val_text (val tok) = base_prefix base @ print_digits base v @ s"
    "t = fst (cpp_classify_number pfile tok loc)" "n = fst (cpp_interpret_integer pfile tok t)"
  shows "t = f OR CPP_N_INTEGER OR radix_flag base \<and> num_ival p n = int v
    \<and> (unsignedp n \<longleftrightarrow> f AND CPP_N_UNSIGNED \<noteq> 0 \<or> 2 ^ (p - 1) \<le> v)"
  using integer_constant_reads[OF assms] by simp

theorem integer_constant_roundtrip_witness:
  "num_ival 64 (fst (cpp_interpret_integer reader64 (token_of ''42ul'')
     (fst (cpp_classify_number reader64 (token_of ''42ul'') 0)))) = 42"
proof -
  have "traditional (opts reader64) = False" "ext_numeric_literals (opts reader64)"
    by (simp_all add: reader64_def create_reader_def create_options_def cpp_set_lang_def Let_def)
  moreover have "interpret_int_suffix reader64 ''ul'' = CPP_N_UNSIGNED OR CPP_N_MEDIUM"
    by (simp add: interpret_int_suffix_def)
  moreover have "base_prefix 10 = []" "print_digits 10 42 = ''42''" "val_text (val (token_of ''42ul'')) = ''42ul''"
    by (simp_all add: base_prefix_def print_digits.simps digit_char_def char_of_eq_iff token_of_def)
  ultimately show ?thesis
    using integer_constant_roundtrip[OF _ _ _ _ _ _ _ _ _ _ refl refl, of 64 reader64 10 42 "''ul''"
        "CPP_N_UNSIGNED OR CPP_N_MEDIUM" "token_of ''42ul''" 0]
    by (auto simp: CPP_N_UNSIGNED_def CPP_N_MEDIUM_def)
qed

end
