(* ===== verification/Cpp_Assert.thy ===== *)
theory Cpp_Assert
  imports Cpp_Reader
begin

text \<open>
  Assertions, from \<^verbatim>\<open>libcpp/directives.c\<close>: \<^verbatim>\<open>#assert\<close>, \<^verbatim>\<open>#unassert\<close> and the \<^verbatim>\<open>#predicate (answer)\<close>
  test of \<^verbatim>\<open>#if\<close>. An answer is a token list kept in the node of the predicate, whose name is
  prefixed with \<^verbatim>\<open>#\<close> to take it out of the macro namespace.
\<close>

section \<open>Definitions\<close>

text \<open>\<^verbatim>\<open>TOKEN_SPELL\<close>, the spelling classes of \<^verbatim>\<open>TTYPE_TABLE\<close>.\<close>

datatype spell_type = SPELL_OPERATOR | SPELL_IDENT | SPELL_LITERAL | SPELL_NONE

definition TOKEN_SPELL :: "cpp_ttype \<Rightarrow> spell_type" where
  "TOKEN_SPELL t =
     (if t \<le> CPP_ATSIGN then SPELL_OPERATOR
      else if t = CPP_NAME \<or> t = CPP_AT_NAME then SPELL_IDENT
      else if t \<le> CPP_COMMENT then SPELL_LITERAL
      else SPELL_NONE)"

text \<open>
  \<^verbatim>\<open>_cpp_equiv_tokens\<close>; macro arguments do not occur outside macro definitions, so of the types
  without a spelling nothing but the type is compared.
\<close>

definition cpp_equiv_tokens :: "cpp_token \<Rightarrow> cpp_token \<Rightarrow> bool" where
  "cpp_equiv_tokens a b =
     (type a = type b \<and> flags a = flags b \<and>
      (case TOKEN_SPELL (type a) of
         SPELL_OPERATOR \<Rightarrow> type a \<noteq> CPP_PASTE \<or> val a = val b
       | SPELL_NONE \<Rightarrow> True
       | SPELL_IDENT \<Rightarrow> val a = val b
       | SPELL_LITERAL \<Rightarrow> val_text (val a) = val_text (val b)))"

text \<open>The loop of \<^verbatim>\<open>parse_answer\<close>: the tokens up to the closing parenthesis.\<close>

function read_answer :: "cpp_reader \<Rightarrow> cpp_token list \<Rightarrow> cpp_token list option \<times> cpp_reader" where
  "read_answer pfile acc =
     (case cpp_get_token pfile of (t, pfile') \<Rightarrow>
        if type t = CPP_CLOSE_PAREN then (Some acc, pfile')
        else if type t = CPP_EOF
        then (None, cpp_error pfile' CPP_DL_ERROR ''missing ) to complete answer'')
        else read_answer pfile' (acc @ [t]))"
  by pat_completeness auto
termination
  by (relation "measure (\<lambda>(pfile, _). length (tokens pfile))") (auto dest: get_token_shorter(1)[OF sym])

declare read_answer.simps [simp del]

text \<open>
  \<^verbatim>\<open>parse_answer\<close> returns whether it succeeded and, through \<^verbatim>\<open>answer_ptr\<close>, the answer if there
  is one.
\<close>

definition parse_answer ::
    "cpp_reader \<Rightarrow> directive_type \<Rightarrow> location_t \<Rightarrow> bool \<times> cpp_token list option \<times> cpp_reader" where
  "parse_answer pfile typ pred_loc =
     (let (paren, pfile) = cpp_get_token pfile in
      if type paren \<noteq> CPP_OPEN_PAREN then
        (if typ = T_IF then (True, None, cpp_backup_token pfile)
         else if typ = T_UNASSERT \<and> type paren = CPP_EOF then (True, None, pfile)
         else (False, None, cpp_error_with_line pfile CPP_DL_ERROR pred_loc ''missing ( after predicate''))
      else
        (case read_answer pfile [] of
           (None, pfile) \<Rightarrow> (False, None, pfile)
         | (Some [], pfile) \<Rightarrow> (False, None, cpp_error pfile CPP_DL_ERROR ''predicate's answer is empty'')
         | (Some (t # ts), pfile) \<Rightarrow> (True, Some (t\<lparr>flags := flags t AND NOT PREV_WHITE\<rparr> # ts), pfile)))"

definition assert_name :: "node_ref \<Rightarrow> node_ref" where
  "assert_name name = CHR ''#'' # name"

definition parse_assertion ::
    "cpp_reader \<Rightarrow> directive_type \<Rightarrow> node_ref option \<times> cpp_token list option \<times> cpp_reader" where
  "parse_assertion pfile typ =
     (let pfile = pfile\<lparr>prevent_expansion := prevent_expansion pfile + 1\<rparr>;
          (predicate, pfile) = cpp_get_token pfile;
          (result, answer, pfile) =
            (if type predicate = CPP_EOF
             then (None, None, cpp_error pfile CPP_DL_ERROR ''assertion without predicate'')
             else if type predicate \<noteq> CPP_NAME
             then (None, None, cpp_error_with_line pfile CPP_DL_ERROR (src_loc predicate) ''predicate must be an identifier'')
             else
               (let (ok, answer, pfile) = parse_answer pfile typ (src_loc predicate)
                in (if ok then map_option assert_name (val_node (val predicate)) else None, answer, pfile)))
      in (result, answer, pfile\<lparr>prevent_expansion := prevent_expansion pfile - 1\<rparr>))"

text \<open>
  \<^verbatim>\<open>find_answer\<close>: the answers before the candidate and those from it on (none if it is not in
  the chain); the code returns the pointer between the two.
\<close>

fun equiv_answers :: "cpp_token list \<Rightarrow> cpp_token list \<Rightarrow> bool" where
  "equiv_answers [] [] = True"
| "equiv_answers (a # as) (b # bs) = (cpp_equiv_tokens a b \<and> equiv_answers as bs)"
| "equiv_answers _ _ = False"

primrec find_answer :: "cpp_token list list \<Rightarrow> cpp_token list \<Rightarrow> cpp_token list list \<times> cpp_token list list" where
  "find_answer [] candidate = ([], [])"
| "find_answer (answer # rest) candidate =
     (if equiv_answers answer candidate then ([], answer # rest)
      else case find_answer rest candidate of (before, found) \<Rightarrow> (answer # before, found))"

definition set_answers :: "node_ref \<Rightarrow> cpp_token list list \<Rightarrow> cpp_reader \<Rightarrow> cpp_reader" where
  "set_answers node as pfile = pfile\<lparr>nodes := (nodes pfile)(node := (nodes pfile node)\<lparr>answers := as\<rparr>)\<rparr>"

text \<open>\<^verbatim>\<open>_cpp_test_assertion\<close>: whether it failed, the value, and the reader.\<close>

definition cpp_test_assertion :: "cpp_reader \<Rightarrow> bool \<times> bool \<times> cpp_reader" where
  "cpp_test_assertion pfile =
     (case parse_assertion pfile T_IF of
        (Some node, answer, pfile) \<Rightarrow>
          (False,
           answers (nodes pfile node) \<noteq> []
             \<and> (case answer of None \<Rightarrow> True | Some a \<Rightarrow> snd (find_answer (answers (nodes pfile node)) a) \<noteq> []),
           pfile)
      | (None, answer, pfile) \<Rightarrow> (True, False, if SEEN_EOL pfile then cpp_backup_token pfile else pfile))"

definition do_assert :: "cpp_reader \<Rightarrow> cpp_reader" where
  "do_assert pfile =
     (case parse_assertion pfile T_ASSERT of
        (Some node, Some answer, pfile) \<Rightarrow>
          if snd (find_answer (answers (nodes pfile node)) answer) \<noteq> []
          then cpp_error pfile CPP_DL_WARNING ''re-asserted''
          else check_eol (set_answers node (answer # answers (nodes pfile node)) pfile)
      | (_, _, pfile) \<Rightarrow> pfile)"

text \<open>\<^verbatim>\<open>_cpp_free_definition\<close> makes the node void again and forgets what it held.\<close>

definition cpp_free_definition :: "node_ref \<Rightarrow> cpp_reader \<Rightarrow> cpp_reader" where
  "cpp_free_definition node pfile =
     pfile\<lparr>nodes := (nodes pfile)(node :=
        (nodes pfile node)\<lparr>node_kind := NT_VOID, answers := [], node_used := False\<rparr>)\<rparr>"

definition do_unassert :: "cpp_reader \<Rightarrow> cpp_reader" where
  "do_unassert pfile =
     (case parse_assertion pfile T_UNASSERT of
        (Some node, Some answer, pfile) \<Rightarrow>
          (case find_answer (answers (nodes pfile node)) answer of
             (before, found) \<Rightarrow> check_eol (set_answers node (before @ tl found) pfile))
      | (Some node, None, pfile) \<Rightarrow> cpp_free_definition node pfile
      | (None, _, pfile) \<Rightarrow> pfile)"

section \<open>Answers as a set\<close>

lemma equiv_tokens_refl [simp]: "cpp_equiv_tokens a a"
  by (simp add: cpp_equiv_tokens_def split: spell_type.splits)

lemma equiv_tokens_sym: "cpp_equiv_tokens a b \<Longrightarrow> cpp_equiv_tokens b a"
  by (auto simp: cpp_equiv_tokens_def split: spell_type.splits)

lemma equiv_tokens_trans: "cpp_equiv_tokens a b \<Longrightarrow> cpp_equiv_tokens b c \<Longrightarrow> cpp_equiv_tokens a c"
  by (auto simp: cpp_equiv_tokens_def split: spell_type.splits)

lemma equiv_answers_refl [simp]: "equiv_answers a a"
  by (induction a) simp_all

lemma equiv_answers_sym: "equiv_answers a b \<Longrightarrow> equiv_answers b a"
  by (induction a b rule: equiv_answers.induct) (auto intro: equiv_tokens_sym)

lemma equiv_answers_trans: "equiv_answers a b \<Longrightarrow> equiv_answers b c \<Longrightarrow> equiv_answers a c"
proof (induction a b arbitrary: c rule: equiv_answers.induct)
  case (2 a as b bs)
  then show ?case by (cases c) (auto intro: equiv_tokens_trans)
qed auto

text \<open>
  The contract of a chain of answers: a candidate is found iff an equivalent answer is in the
  chain, adding one in front makes it found, and cutting out what was found removes it. The
  clients of the chain (\<^verbatim>\<open>#assert\<close>, \<^verbatim>\<open>#unassert\<close> and the test) only rely on this.
\<close>

locale answer_chain =
  fixes equiv :: "'a \<Rightarrow> 'a \<Rightarrow> bool" and find :: "'a list \<Rightarrow> 'a \<Rightarrow> 'a list \<times> 'a list"
  assumes equiv_refl: "equiv a a"
    and equiv_sym: "equiv a b \<Longrightarrow> equiv b a"
    and equiv_trans: "equiv a b \<Longrightarrow> equiv b c \<Longrightarrow> equiv a c"
    and find_split: "find as a = (before, found) \<Longrightarrow> as = before @ found"
    and find_before: "find as a = (before, found) \<Longrightarrow> b \<in> set before \<Longrightarrow> \<not> equiv b a"
    and find_found: "find as a = (before, b # found) \<Longrightarrow> equiv b a"
begin

definition holds :: "'a list \<Rightarrow> 'a \<Rightarrow> bool" where
  "holds as a \<longleftrightarrow> (\<exists>b \<in> set as. equiv b a)"

text \<open>No answer is in the chain twice.\<close>

definition unique :: "'a list \<Rightarrow> bool" where
  "unique as \<longleftrightarrow> sorted_wrt (\<lambda>a b. \<not> equiv a b) as"

lemma find_holds: "snd (find as a) \<noteq> [] \<longleftrightarrow> holds as a"
proof -
  obtain before found where f: "find as a = (before, found)" by fastforce
  show ?thesis
  proof (cases found)
    case Nil
    with f show ?thesis
      using find_split[OF f] find_before[OF f] by (auto simp: holds_def)
  next
    case (Cons b bs)
    with f show ?thesis
      using find_split[OF f] find_found[of as a before b bs] by (auto simp: holds_def)
  qed
qed

lemma holds_add: "holds (a # as) b \<longleftrightarrow> equiv a b \<or> holds as b"
  by (auto simp: holds_def)

lemma unique_add: "unique as \<Longrightarrow> \<not> holds as a \<Longrightarrow> unique (a # as)"
  by (auto simp: unique_def holds_def intro: equiv_sym)

lemma unique_cut:
  assumes "unique as" "find as a = (before, found)"
  shows "unique (before @ tl found)" "holds (before @ tl found) b \<longleftrightarrow> holds as b \<and> \<not> equiv a b"
proof -
  have as: "as = before @ found" by (rule find_split[OF assms(2)])
  show "unique (before @ tl found)"
    using assms(1) by (cases found) (auto simp: unique_def as sorted_wrt_append)
  show "holds (before @ tl found) b \<longleftrightarrow> holds as b \<and> \<not> equiv a b"
  proof (cases found)
    case Nil
    then show ?thesis
      using find_before[OF assms(2)] as by (auto simp: holds_def dest: equiv_trans equiv_sym)
  next
    case (Cons c cs)
    then have c: "equiv c a" using find_found assms(2) by blast
    have "\<not> equiv d a" if "d \<in> set cs" for d
    proof -
      have "\<not> equiv c d"
        using that assms(1) by (simp add: unique_def as Cons sorted_wrt_append)
      then show ?thesis
        using equiv_trans[OF c, of d] equiv_sym[of d a] by blast
    qed
    moreover have "\<not> equiv d a" if "d \<in> set before" for d
      using find_before[OF assms(2) that] .
    ultimately have "\<not> equiv a b" if "d \<in> set (before @ cs)" "equiv d b" for d
      using that equiv_trans[of d b a] equiv_sym[of a b] by auto
    moreover have "equiv a b" if "equiv c b"
      using equiv_trans[OF equiv_sym[OF c] that] .
    ultimately show ?thesis
      by (auto simp: holds_def as Cons)
  qed
qed

end

lemma find_answer_split: "find_answer as a = (before, found) \<Longrightarrow> as = before @ found"
  by (induction as arbitrary: before) (auto split: if_splits prod.splits)

lemma find_answer_before: "find_answer as a = (before, found) \<Longrightarrow> b \<in> set before \<Longrightarrow> \<not> equiv_answers b a"
  by (induction as arbitrary: before) (auto split: if_splits prod.splits)

lemma find_answer_found: "find_answer as a = (before, b # found) \<Longrightarrow> equiv_answers b a"
  by (induction as arbitrary: before) (auto split: if_splits prod.splits)

interpretation chain: answer_chain equiv_answers find_answer
  by unfold_locales
     (auto intro: equiv_answers_sym equiv_answers_trans find_answer_split find_answer_found dest: find_answer_before)

text \<open>What a reader holds to be asserted, and the invariant of its predicates.\<close>

definition asserted :: "cpp_reader \<Rightarrow> node_ref \<Rightarrow> cpp_token list \<Rightarrow> bool" where
  "asserted pfile node a \<longleftrightarrow> chain.holds (answers (nodes pfile node)) a"

definition answers_unique :: "cpp_reader \<Rightarrow> bool" where
  "answers_unique pfile \<longleftrightarrow> (\<forall>node. chain.unique (answers (nodes pfile node)))"

section \<open>Assertion directives\<close>

lemma check_eol_nodes [simp]: "nodes (check_eol pfile) = nodes pfile"
  by (auto simp: check_eol_def check_eol_1_def cpp_get_token_def cpp_get_token_with_location_def diag_if_def
      cpp_diagnostic_def split: list.splits prod.splits)

lemma set_answers_simps [simp]:
  "answers (nodes (set_answers node as pfile) n) = (if n = node then as else answers (nodes pfile n))"
  by (simp add: set_answers_def)

text \<open>A line of tokens, and what reading an answer from it gives.\<close>

definition items :: "cpp_token list \<Rightarrow> pp_item list" where
  "items ts = map (\<lambda>t. \<lparr>item_token = t, item_loc = src_loc t, item_context = 0\<rparr>) ts"

definition plain_token :: "cpp_ttype \<Rightarrow> cpp_token" where
  "plain_token t = \<lparr>src_loc = 0, type = t, flags = 0, val = Val_none\<rparr>"

definition name_token :: "node_ref \<Rightarrow> cpp_token" where
  "name_token n = \<lparr>src_loc = 0, type = CPP_NAME, flags = 0, val = Val_node n n\<rparr>"

definition answer_tokens :: "cpp_token list \<Rightarrow> bool" where
  "answer_tokens ts \<longleftrightarrow> ts \<noteq> [] \<and> (\<forall>t \<in> set ts. type t \<noteq> CPP_CLOSE_PAREN \<and> type t \<noteq> CPP_EOF)"

text \<open>\<^verbatim>\<open>predicate (answer)\<close> as the rest of a line.\<close>

definition assertion_line :: "node_ref \<Rightarrow> cpp_token list \<Rightarrow> pp_item list" where
  "assertion_line pred ts = items (name_token pred # plain_token CPP_OPEN_PAREN # ts @ [plain_token CPP_CLOSE_PAREN])"

definition at_line :: "cpp_reader \<Rightarrow> pp_item list \<Rightarrow> cpp_reader" where
  "at_line pfile is = pfile\<lparr>tokens := is, token_run := []\<rparr>"

definition trim_answer :: "cpp_token list \<Rightarrow> cpp_token list" where
  "trim_answer ts = (hd ts)\<lparr>flags := flags (hd ts) AND NOT PREV_WHITE\<rparr> # tl ts"

lemma get_token_Cons [simp]:
  "tokens pfile = i # is \<Longrightarrow> cpp_get_token pfile =
     (item_token i, pfile\<lparr>tokens := is, cpp_context := item_context i, token_run := i # token_run pfile\<rparr>)"
  by (simp add: cpp_get_token_def cpp_get_token_with_location_def)

lemma items_Cons [simp]:
  "items (t # ts) = \<lparr>item_token = t, item_loc = src_loc t, item_context = 0\<rparr> # items ts" "items [] = []"
  "items (xs @ ys) = items xs @ items ys"
  by (simp_all add: items_def)

lemma read_answer_line:
  "\<forall>t \<in> set ts. type t \<noteq> CPP_CLOSE_PAREN \<and> type t \<noteq> CPP_EOF \<Longrightarrow>
   tokens pfile = items (ts @ [plain_token CPP_CLOSE_PAREN]) \<Longrightarrow>
   \<exists>run c. read_answer pfile acc = (Some (acc @ ts), pfile\<lparr>tokens := [], cpp_context := c, token_run := run\<rparr>)"
proof (induction ts arbitrary: pfile acc)
  case Nil
  then show ?case
    by (subst read_answer.simps) (auto simp: plain_token_def)
next
  case (Cons t ts)
  let ?p = "pfile\<lparr>tokens := items (ts @ [plain_token CPP_CLOSE_PAREN]), cpp_context := 0,
                  token_run := \<lparr>item_token = t, item_loc = src_loc t, item_context = 0\<rparr> # token_run pfile\<rparr>"
  have "read_answer pfile acc = read_answer ?p (acc @ [t])"
    using Cons.prems by (subst read_answer.simps) simp
  with Cons.IH[of ?p "acc @ [t]"] Cons.prems(1) show ?case
    by auto
qed

lemma parse_assertion_line:
  assumes "answer_tokens ts"
  shows "\<exists>run c. parse_assertion (at_line pfile (assertion_line pred ts)) typ =
     (Some (assert_name pred), Some (trim_answer ts), pfile\<lparr>tokens := [], cpp_context := c, token_run := run\<rparr>)"
proof -
  define p where "p = pfile\<lparr>prevent_expansion := prevent_expansion pfile + 1, tokens := items (ts @ [plain_token CPP_CLOSE_PAREN]),
    cpp_context := 0, token_run := [\<lparr>item_token = plain_token CPP_OPEN_PAREN, item_loc = 0, item_context = 0\<rparr>,
                                     \<lparr>item_token = name_token pred, item_loc = 0, item_context = 0\<rparr>]\<rparr>"
  obtain run c where r: "read_answer p [] = (Some ts, p\<lparr>tokens := [], cpp_context := c, token_run := run\<rparr>)"
    using read_answer_line[of ts p "[]"] assms by (auto simp: answer_tokens_def p_def)
  obtain t ts' where ts: "ts = t # ts'"
    using assms by (cases ts) (auto simp: answer_tokens_def)
  have "parse_assertion (at_line pfile (assertion_line pred ts)) typ =
     (Some (assert_name pred), Some (trim_answer ts), pfile\<lparr>tokens := [], cpp_context := c, token_run := run\<rparr>)"
    using r unfolding p_def
    by (simp add: parse_assertion_def parse_answer_def at_line_def assertion_line_def name_token_def plain_token_def trim_answer_def ts)
  then show ?thesis by blast
qed

text \<open>
  C21: assertions behave as a set. A line \<^verbatim>\<open>#assert pred (answer)\<close> makes exactly that answer (up to
  token equivalence) hold of that predicate, in addition to what held before; \<^verbatim>\<open>#unassert\<close> of the
  same line makes exactly it not hold; both leave all other answers alone and keep the invariant
  that no answer is stored twice; and \<^verbatim>\<open>#pred (answer)\<close> in \<^verbatim>\<open>#if\<close> yields whether the answer holds.
\<close>

theorem assertions_as_set:
  assumes "answers_unique pfile" "answer_tokens ts" "line = assertion_line pred ts" "a = trim_answer ts"
  shows "answers_unique (do_assert (at_line pfile line)) \<and> answers_unique (do_unassert (at_line pfile line))
    \<and> (\<forall>n b. asserted (do_assert (at_line pfile line)) n b
              \<longleftrightarrow> asserted pfile n b \<or> (n = assert_name pred \<and> equiv_answers a b))
    \<and> (\<forall>n b. asserted (do_unassert (at_line pfile line)) n b
              \<longleftrightarrow> asserted pfile n b \<and> \<not> (n = assert_name pred \<and> equiv_answers a b))
    \<and> fst (snd (cpp_test_assertion (at_line pfile line))) = asserted pfile (assert_name pred) a"
proof -
  define as where "as = answers (nodes pfile (assert_name pred))"
  obtain before found where f: "find_answer as a = (before, found)" by fastforce
  have u: "chain.unique as"
    using assms(1) by (simp add: answers_unique_def as_def)
  obtain run c where parse: "\<And>typ. typ = T_ASSERT \<Longrightarrow> parse_assertion (at_line pfile line) typ =
     (Some (assert_name pred), Some a, pfile\<lparr>tokens := [], cpp_context := c, token_run := run\<rparr>)"
    using parse_assertion_line[OF assms(2), of pfile pred T_ASSERT] assms(3,4) by auto
  obtain run' c' where parse': "parse_assertion (at_line pfile line) T_UNASSERT =
     (Some (assert_name pred), Some a, pfile\<lparr>tokens := [], cpp_context := c', token_run := run'\<rparr>)"
    using parse_assertion_line[OF assms(2), of pfile pred T_UNASSERT] assms(3,4) by auto
  obtain run'' c'' where parse'': "parse_assertion (at_line pfile line) T_IF =
     (Some (assert_name pred), Some a, pfile\<lparr>tokens := [], cpp_context := c'', token_run := run''\<rparr>)"
    using parse_assertion_line[OF assms(2), of pfile pred T_IF] assms(3,4) by auto
  have ins: "answers (nodes (do_assert (at_line pfile line)) n) =
      (if n = assert_name pred \<and> \<not> chain.holds as a then a # as else answers (nodes pfile n))" for n
    by (simp add: do_assert_def parse chain.find_holds as_def cpp_diagnostic_def)
  have del: "answers (nodes (do_unassert (at_line pfile line)) n) =
      (if n = assert_name pred then before @ tl found else answers (nodes pfile n))" for n
    using f by (simp add: do_unassert_def parse' as_def)
  have test: "fst (snd (cpp_test_assertion (at_line pfile line))) \<longleftrightarrow> chain.holds as a"
    using chain.find_holds[of as a] by (auto simp: cpp_test_assertion_def parse'' as_def)
  have same: "chain.holds as b" if "chain.holds as a" "equiv_answers a b" for b
    using that equiv_answers_trans by (auto simp: chain.holds_def)
  show ?thesis
    using assms(1) u f same
    by (auto simp: answers_unique_def asserted_def ins del test as_def[symmetric]
        chain.holds_add chain.unique_add chain.unique_cut)
qed

theorem assertions_as_set_witness:
  "fst (snd (cpp_test_assertion (at_line (do_assert (at_line (create_reader host_os2 CLK_GNUC17)
       (assertion_line ''machine'' [name_token ''i386'']))) (assertion_line ''machine'' [name_token ''i386'']))))"
proof -
  let ?r = "create_reader host_os2 CLK_GNUC17" and ?t = "[name_token ''i386'']"
  have u: "answers_unique ?r" "answer_tokens ?t"
    by (simp_all add: answers_unique_def create_reader_def chain.unique_def answer_tokens_def name_token_def)
  note first = assertions_as_set[OF u refl refl, of "''machine''"]
  then have u': "answers_unique (do_assert (at_line ?r (assertion_line ''machine'' ?t)))"
    and "asserted (do_assert (at_line ?r (assertion_line ''machine'' ?t))) (assert_name ''machine'') (trim_answer ?t)"
    by auto
  with assertions_as_set[OF u' u(2) refl refl, of "''machine''"] show ?thesis
    by blast
qed

end
