(* ===== verification/Cpp_Expr.thy ===== *)
theory Cpp_Expr
  imports Cpp_Classify Cpp_Assert
begin

text \<open>
  The expression evaluator of \<^verbatim>\<open>#if\<close>, the middle of \<^verbatim>\<open>libcpp/expr.c\<close>: operands (\<^verbatim>\<open>eval_token\<close>
  with \<^verbatim>\<open>defined\<close>, \<^verbatim>\<open>__has_include__\<close> and assertions), the operator table, the reduction of the
  operator stack and the operator-precedence parser \<^verbatim>\<open>_cpp_parse_expr\<close>.

  The stack is a list with its top first. The value of an entry is undefined until it is stored,
  so it is an option here; reading it before, or reading below the bottom of the stack, gives the
  outcome \<open>Undefined\<close>, and a division that does not return the outcome \<open>Diverges\<close>.
\<close>

section \<open>Operands\<close>

definition num_of_bool :: "bool \<Rightarrow> cpp_num" where
  "num_of_bool b = \<lparr>high = 0, low = of_bool_word b, unsignedp = False, overflow = False\<rparr>"

definition parse_defined :: "cpp_reader \<Rightarrow> cpp_num \<times> cpp_reader" where
  "parse_defined pfile =
     (let initial_context = cpp_context pfile;
          pfile = pfile\<lparr>prevent_expansion := prevent_expansion pfile + 1\<rparr>;
          (token, pfile) = cpp_get_token pfile;
          paren = (type token = CPP_OPEN_PAREN);
          (token, pfile) = (if paren then cpp_get_token pfile else (token, pfile));
          (node, pfile) =
            (if type token = CPP_NAME then
               (if paren then
                  (let (t, pfile) = cpp_get_token pfile in
                   if type t \<noteq> CPP_CLOSE_PAREN
                   then (None, cpp_error pfile CPP_DL_ERROR ''missing ) after defined'')
                   else (val_node (val token), pfile))
                else (val_node (val token), pfile))
             else
               (None,
                diag_if (flags token AND NAMED_OP \<noteq> 0)
                  (\<lambda>r. cpp_error r CPP_DL_ERROR ''is an alternative token in C++'')
                  (cpp_error pfile CPP_DL_ERROR ''operator defined requires an identifier'')));
          pfile =
            (case node of
               None \<Rightarrow> pfile
             | Some n \<Rightarrow>
                 (maybe_notify_macro_use n (mark_macro_used n
                   (diag_if ((cpp_context pfile \<noteq> initial_context \<or> initial_context \<noteq> 0)
                             \<and> warn_expansion_to_defined (opts pfile))
                      (\<lambda>r. cpp_pedwarning r CPP_W_EXPANSION_TO_DEFINED ''this use of defined may not be portable'')
                      pfile)))\<lparr>mi_ind_cmacro := Some n\<rparr>);
          pfile = pfile\<lparr>prevent_expansion := prevent_expansion pfile - 1\<rparr>
      in (num_of_bool (case node of
                         None \<Rightarrow> False
                       | Some n \<Rightarrow> cpp_macro_p (nodes pfile n) \<and> \<not> node_conditional (nodes pfile n)),
          pfile))"

text \<open>\<^verbatim>\<open>get_token_no_padding\<close> and \<^verbatim>\<open>glue_header_name\<close>, for a header in angle brackets.\<close>

function get_token_no_padding :: "cpp_reader \<Rightarrow> cpp_token \<times> cpp_reader" where
  "get_token_no_padding pfile =
     (case cpp_get_token pfile of (t, pfile') \<Rightarrow>
        if type t \<noteq> CPP_PADDING then (t, pfile') else get_token_no_padding pfile')"
  by pat_completeness auto
termination
  by (relation "measure (\<lambda>pfile. length (tokens pfile))") (auto dest!: get_token_shorter(1)[OF sym])

declare get_token_no_padding.simps [simp del]

lemma get_token_no_padding_shorter:
  "get_token_no_padding pfile = (t, pfile') \<Longrightarrow> type t \<noteq> CPP_EOF \<Longrightarrow> length (tokens pfile') < length (tokens pfile)"
proof (induction pfile rule: get_token_no_padding.induct)
  case (1 pfile)
  obtain u p where g: "cpp_get_token pfile = (u, p)" by fastforce
  show ?case
  proof (cases "type u = CPP_PADDING")
    case True
    then show ?thesis
      using 1 g get_token_no_padding.simps[of pfile] get_token_not_longer(1)[OF g]
      by (force dest: less_le_trans)
  next
    case False
    then show ?thesis
      using 1(2,3) g get_token_no_padding.simps[of pfile] get_token_shorter(1)[OF g] by simp
  qed
qed

function glue_header_name :: "cpp_reader \<Rightarrow> string \<Rightarrow> string \<times> cpp_reader" where
  "glue_header_name pfile buffer =
     (case get_token_no_padding pfile of (t, pfile') \<Rightarrow>
        if type t = CPP_GREATER then (buffer, pfile')
        else if type t = CPP_EOF
        then (buffer, cpp_error pfile' CPP_DL_ERROR ''missing terminating > character'')
        else glue_header_name pfile'
               (buffer @ (if flags t AND PREV_WHITE \<noteq> 0 then '' '' else []) @ spell_token pfile t))"
  by pat_completeness auto
termination
  by (relation "measure (\<lambda>(pfile, _). length (tokens pfile))") (auto dest!: get_token_no_padding_shorter[OF sym])

declare glue_header_name.simps [simp del]

text \<open>
  \<^verbatim>\<open>token->val.node.node\<close> where the token is a string: the bits of the string are read as a
  pointer, which is not null and is no node's. It is represented by a name no identifier has.
\<close>

definition wild_node :: "uchar list \<Rightarrow> node_ref" where
  "wild_node s = NUL # s"

definition parse_has_include :: "cpp_reader \<Rightarrow> include_type \<Rightarrow> cpp_num \<times> cpp_reader" where
  "parse_has_include pfile typ =
     (let pfile = pfile\<lparr>in_has_include := in_has_include pfile + 1\<rparr>;
          (token, pfile) = cpp_get_token pfile;
          paren = (type token = CPP_OPEN_PAREN);
          (token, pfile) = (if paren then cpp_get_token pfile else (token, pfile));
          (fname, bracket, node, pfile) =
            (if type token = CPP_STRING \<or> type token = CPP_HEADER_NAME then
               (Some (butlast (tl (val_text (val token)))), type token = CPP_HEADER_NAME,
                Some (wild_node (val_text (val token))), pfile)
             else if type token = CPP_LESS then
               (let (fname, pfile) = glue_header_name pfile [] in (Some fname, True, None, pfile))
             else (None, False, None,
                   cpp_error pfile CPP_DL_ERROR ''operator __has_include__ requires a header string''));
          result = num_of_bool (case fname of None \<Rightarrow> False | Some f \<Rightarrow> has_header pfile f bracket typ);
          pfile =
            (if paren \<and> \<not> SEEN_EOL pfile then
               (let (t, pfile) = cpp_get_token pfile
                in diag_if (type t \<noteq> CPP_CLOSE_PAREN)
                     (\<lambda>r. cpp_error r CPP_DL_ERROR ''missing ) after __has_include__'') pfile)
             else pfile);
          pfile = (case node of None \<Rightarrow> pfile | Some n \<Rightarrow> pfile\<lparr>mi_ind_cmacro := Some n\<rparr>)
      in (result, pfile\<lparr>in_has_include := in_has_include pfile - 1\<rparr>))"

text \<open>A character constant, sign-extended from 32 bits.\<close>

definition num_of_charconst :: "cppchar_t \<Rightarrow> bool \<Rightarrow> nat \<Rightarrow> cpp_num" where
  "num_of_charconst cc u prec =
     (let result = \<lparr>high = 0, low = ucast cc, unsignedp = False, overflow = False\<rparr>;
          result = (if \<not> u \<and> sint cc < 0
                    then num_trim (result\<lparr>low := low result OR NOT (drop_bit (PART_PRECISION - 32) (NOT 0)),
                                          high := NOT 0\<rparr>) prec
                    else result)
      in result\<lparr>unsignedp := u\<rparr>)"

definition eval_number :: "cpp_reader \<Rightarrow> cpp_token \<Rightarrow> location_t \<Rightarrow> cpp_num \<times> cpp_reader" where
  "eval_number pfile token loc =
     (let (temp, _, pfile) = cpp_classify_number pfile token loc;
          pfile = diag_if (temp AND CPP_N_USERDEF \<noteq> 0)
                    (\<lambda>r. cpp_error r CPP_DL_ERROR ''user-defined literal in preprocessor expression'') pfile
      in if temp AND CPP_N_CATEGORY = CPP_N_FLOATING then
           (num_of_bool False,
            cpp_error_with_line pfile CPP_DL_ERROR loc ''floating constant in preprocessor expression'')
         else if temp AND CPP_N_CATEGORY = CPP_N_INTEGER then
           (if temp AND CPP_N_IMAGINARY = 0 then cpp_interpret_integer pfile token temp
            else (num_of_bool False,
                  cpp_error_with_line pfile CPP_DL_ERROR loc ''imaginary number in preprocessor expression''))
         else (num_of_bool False, pfile))"

definition eval_name :: "cpp_reader \<Rightarrow> node_ref option \<Rightarrow> location_t \<Rightarrow> cpp_num \<times> cpp_reader" where
  "eval_name pfile node loc =
     (if node = Some ''defined'' then parse_defined pfile
      else if node = Some ''__has_include__'' then parse_has_include pfile IT_INCLUDE
      else if node = Some ''__has_include_next__'' then parse_has_include pfile IT_INCLUDE_NEXT
      else if cplusplus (opts pfile) \<and> (node = Some ''true'' \<or> node = Some ''false'')
      then (num_of_bool (node = Some ''true''), pfile)
      else (num_of_bool False,
            diag_if (warn_undef (opts pfile) \<and> skip_eval pfile = 0)
              (\<lambda>r. cpp_warning_with_line r CPP_W_UNDEF loc ''is not defined, evaluates to 0'') pfile))"

definition eval_assertion :: "cpp_reader \<Rightarrow> location_t \<Rightarrow> cpp_num \<times> cpp_reader" where
  "eval_assertion pfile loc =
     (let pfile =
            (if \<not> skipping pfile then
               (if cpp_pedantic (opts pfile)
                then cpp_error_with_line pfile CPP_DL_PEDWARN loc ''assertions are a GCC extension''
                else diag_if (cpp_warn_deprecated (opts pfile))
                       (\<lambda>r. cpp_warning_with_line r CPP_W_DEPRECATED loc ''assertions are a deprecated extension'') pfile)
             else pfile);
          (_, temp, pfile) = cpp_test_assertion pfile
      in (num_of_bool temp, pfile))"

definition eval_token :: "cpp_reader \<Rightarrow> cpp_token \<Rightarrow> location_t \<Rightarrow> cpp_num \<times> cpp_reader" where
  "eval_token pfile token loc =
     (if type token = CPP_NUMBER then eval_number pfile token loc
      else if type token \<in> {CPP_WCHAR, CPP_CHAR, CPP_CHAR16, CPP_CHAR32, CPP_UTF8CHAR} then
        (let (cc, u) = charconst pfile token in (num_of_charconst cc u (precision (opts pfile)), pfile))
      else if type token = CPP_NAME then eval_name pfile (val_node (val token)) loc
      else if type token = CPP_HASH then eval_assertion pfile loc
      else (num_of_bool False, abort_reader pfile))"

section \<open>The operator table\<close>

record cpp_operator =
  prio :: nat
  NO_L_OPERAND :: bool
  LEFT_ASSOC :: bool
  CHECK_PROMOTION :: bool

definition op_plain :: "nat \<Rightarrow> cpp_operator" where
  "op_plain n = \<lparr>prio = n, NO_L_OPERAND = False, LEFT_ASSOC = False, CHECK_PROMOTION = False\<rparr>"

definition op_prefix :: "nat \<Rightarrow> cpp_operator" where
  "op_prefix n = (op_plain n)\<lparr>NO_L_OPERAND := True\<rparr>"

definition op_left :: "nat \<Rightarrow> cpp_operator" where
  "op_left n = (op_plain n)\<lparr>LEFT_ASSOC := True\<rparr>"

definition op_left_promo :: "nat \<Rightarrow> cpp_operator" where
  "op_left_promo n = (op_left n)\<lparr>CHECK_PROMOTION := True\<rparr>"

text \<open>The table itself, in the order of the first members of \<^verbatim>\<open>enum cpp_ttype\<close>.\<close>

definition optab :: "cpp_operator list" where
  "optab =
     [op_plain 0,         \<comment> \<open>EQ\<close>
      op_prefix 16,       \<comment> \<open>NOT\<close>
      op_left_promo 12,   \<comment> \<open>GREATER\<close>
      op_left_promo 12,   \<comment> \<open>LESS\<close>
      op_left_promo 14,   \<comment> \<open>PLUS\<close>
      op_left_promo 14,   \<comment> \<open>MINUS\<close>
      op_left_promo 15,   \<comment> \<open>MULT\<close>
      op_left_promo 15,   \<comment> \<open>DIV\<close>
      op_left_promo 15,   \<comment> \<open>MOD\<close>
      op_left_promo 9,    \<comment> \<open>AND\<close>
      op_left_promo 7,    \<comment> \<open>OR\<close>
      op_left_promo 8,    \<comment> \<open>XOR\<close>
      op_left 13,         \<comment> \<open>RSHIFT\<close>
      op_left 13,         \<comment> \<open>LSHIFT\<close>
      op_prefix 16,       \<comment> \<open>COMPL\<close>
      op_left 6,          \<comment> \<open>AND_AND\<close>
      op_left 5,          \<comment> \<open>OR_OR\<close>
      op_plain 4,         \<comment> \<open>QUERY\<close>
      op_left_promo 4,    \<comment> \<open>COLON\<close>
      op_left 4,          \<comment> \<open>COMMA\<close>
      op_prefix 1,        \<comment> \<open>OPEN_PAREN\<close>
      op_plain 0,         \<comment> \<open>CLOSE_PAREN\<close>
      op_plain 0,         \<comment> \<open>EOF\<close>
      op_left 11,         \<comment> \<open>EQ_EQ\<close>
      op_left 11,         \<comment> \<open>NOT_EQ\<close>
      op_left_promo 12,   \<comment> \<open>GREATER_EQ\<close>
      op_left_promo 12,   \<comment> \<open>LESS_EQ\<close>
      op_prefix 16,       \<comment> \<open>UPLUS\<close>
      op_prefix 16]       \<comment> \<open>UMINUS\<close>"

definition optab_at :: "cpp_ttype \<Rightarrow> cpp_operator" where
  "optab_at op = optab ! ttype_ord op"

section \<open>Reduction\<close>

record op =
  op_token :: cpp_token
  op_value :: "cpp_num option"
  op_loc :: location_t
  op_op :: cpp_ttype

datatype 'a outcome = Returns 'a | Diverges | Undefined

text \<open>Whether one turn of the loop goes on with a smaller stack or leaves \<^verbatim>\<open>reduce\<close>.\<close>

datatype reduction =
  Continue "op list" cpp_reader
| Leave "op list option" cpp_reader
| Stop_diverges
| Stop_undefined

text \<open>Warn if the effective sign of an operand changes because of integer promotions.\<close>

definition check_promotion :: "cpp_reader \<Rightarrow> op \<Rightarrow> cpp_num \<Rightarrow> cpp_num \<Rightarrow> location_t \<Rightarrow> cpp_reader" where
  "check_promotion pfile tp l r left_loc =
     (if unsignedp r = unsignedp l then pfile
      else if unsignedp r then
        diag_if (\<not> num_positive l (precision (opts pfile)))
          (\<lambda>x. cpp_error_with_line x CPP_DL_WARNING left_loc ''the left operand changes sign when promoted'') pfile
      else
        diag_if (\<not> num_positive r (precision (opts pfile)))
          (\<lambda>x. cpp_error_with_line x CPP_DL_WARNING (op_loc tp) ''the right operand changes sign when promoted'') pfile)"

text \<open>The binary operators that compute a value from two others; \<open>None\<close> when the division hangs.\<close>

definition binary_value ::
    "cpp_reader \<Rightarrow> cpp_num \<Rightarrow> cpp_num \<Rightarrow> cpp_ttype \<Rightarrow> location_t \<Rightarrow> (cpp_num \<times> cpp_reader) option" where
  "binary_value pfile l r op loc =
     (if op \<in> {CPP_PLUS, CPP_MINUS, CPP_RSHIFT, CPP_LSHIFT, CPP_COMMA} then Some (num_binary_op pfile l r op)
      else if op \<in> {CPP_GREATER, CPP_LESS, CPP_GREATER_EQ, CPP_LESS_EQ}
      then Some (num_inequality_op pfile l r op, pfile)
      else if op \<in> {CPP_EQ_EQ, CPP_NOT_EQ} then Some (num_equality_op l r op, pfile)
      else if op \<in> {CPP_AND, CPP_OR, CPP_XOR} then Some (num_bitwise_op l r op, pfile)
      else if op = CPP_MULT then Some (num_mul pfile l r, pfile)
      else num_div_op pfile l r op loc)"

text \<open>The common end of a turn: \<^verbatim>\<open>top--\<close> and the check for overflow.\<close>

definition reduced :: "op \<Rightarrow> op \<Rightarrow> op list \<Rightarrow> cpp_num \<Rightarrow> cpp_reader \<Rightarrow> reduction" where
  "reduced tp below rest v pfile =
     Continue (below\<lparr>op_value := Some v, op_loc := op_loc tp\<rparr> # rest)
       (diag_if (overflow v \<and> skip_eval pfile = 0)
          (\<lambda>r. cpp_error r CPP_DL_PEDWARN ''integer overflow in preprocessor expression'') pfile)"

definition skip_down :: "bool \<Rightarrow> cpp_reader \<Rightarrow> cpp_reader" where
  "skip_down c pfile = (if c then pfile\<lparr>skip_eval := skip_eval pfile - 1\<rparr> else pfile)"

definition skip_up :: "bool \<Rightarrow> cpp_reader \<Rightarrow> cpp_reader" where
  "skip_up c pfile = (if c then pfile\<lparr>skip_eval := skip_eval pfile + 1\<rparr> else pfile)"

definition reduce_unary :: "cpp_reader \<Rightarrow> op \<Rightarrow> op list \<Rightarrow> reduction" where
  "reduce_unary pfile tp rest =
     (case (op_value tp, rest) of
        (Some v, below # rest) \<Rightarrow>
          (let (v, pfile) = num_unary_op pfile v (op_op tp) in reduced tp below rest v pfile)
      | _ \<Rightarrow> Stop_undefined)"

definition reduce_binary :: "cpp_reader \<Rightarrow> op \<Rightarrow> op list \<Rightarrow> reduction" where
  "reduce_binary pfile tp rest =
     (case (op_value tp, rest) of
        (Some r, below # rest) \<Rightarrow>
          (case op_value below of
             None \<Rightarrow> Stop_undefined
           | Some l \<Rightarrow>
               (case binary_value pfile l r (op_op tp) (op_loc tp) of
                  None \<Rightarrow> Stop_diverges
                | Some (v, pfile) \<Rightarrow> reduced tp below rest v pfile))
      | _ \<Rightarrow> Stop_undefined)"

text \<open>\<^verbatim>\<open>||\<close> and \<^verbatim>\<open>&&\<close>: the left value decides whether the right one was skipped.\<close>

definition reduce_logical :: "cpp_reader \<Rightarrow> op \<Rightarrow> op list \<Rightarrow> reduction" where
  "reduce_logical pfile tp rest =
     (case (op_value tp, rest) of
        (Some r, below # rest) \<Rightarrow>
          (case op_value below of
             None \<Rightarrow> Stop_undefined
           | Some l \<Rightarrow>
               (let is_or = (op_op tp = CPP_OR_OR);
                    v = (if is_or then \<not> num_zerop l \<or> \<not> num_zerop r else \<not> num_zerop l \<and> \<not> num_zerop r)
                in Continue (below\<lparr>op_value := Some (num_of_bool v), op_loc := op_loc tp\<rparr> # rest)
                     (skip_down (if is_or then \<not> num_zerop l else num_zerop l) pfile)))
      | _ \<Rightarrow> Stop_undefined)"

definition reduce_paren :: "cpp_reader \<Rightarrow> cpp_ttype \<Rightarrow> op \<Rightarrow> op list \<Rightarrow> reduction" where
  "reduce_paren pfile op tp rest =
     (if op \<noteq> CPP_CLOSE_PAREN
      then Leave None (cpp_error_with_line pfile CPP_DL_ERROR (src_loc (op_token tp)) ''missing ) in expression'')
      else case (op_value tp, rest) of
             (Some v, below # rest) \<Rightarrow>
               Leave (Some (below\<lparr>op_value := Some v, op_loc := op_loc tp\<rparr> # rest)) pfile
           | _ \<Rightarrow> Stop_undefined)"

text \<open>\<^verbatim>\<open>cond ? a : b\<close>: the entries are those of the colon, of the query, and the one below.\<close>

definition reduce_colon :: "cpp_reader \<Rightarrow> op \<Rightarrow> op list \<Rightarrow> reduction" where
  "reduce_colon pfile tp rest =
     (case (op_value tp, rest) of
        (Some b, query # below # rest) \<Rightarrow>
          (case (op_value query, op_value below) of
             (Some a, Some c) \<Rightarrow>
               (let u = (unsignedp a \<or> unsignedp b) in
                if \<not> num_zerop c
                then Continue (below\<lparr>op_value := Some (a\<lparr>unsignedp := u\<rparr>), op_loc := op_loc query\<rparr> # rest)
                       (skip_down True pfile)
                else Continue (below\<lparr>op_value := Some (b\<lparr>unsignedp := u\<rparr>), op_loc := op_loc tp\<rparr> # rest) pfile)
           | _ \<Rightarrow> Stop_undefined)
      | _ \<Rightarrow> Stop_undefined)"

definition promotion_checked :: "cpp_reader \<Rightarrow> op \<Rightarrow> op list \<Rightarrow> cpp_reader option" where
  "promotion_checked pfile tp rest =
     (if warn_num_sign_change (opts pfile) \<and> CHECK_PROMOTION (optab_at (op_op tp)) then
        (case (op_value tp, rest) of
           (Some r, below # rest) \<Rightarrow>
             map_option (\<lambda>l. check_promotion pfile tp l r (op_loc below)) (op_value below)
         | _ \<Rightarrow> None)
      else Some pfile)"

definition bad_op :: "cpp_reader \<Rightarrow> cpp_reader" where
  "bad_op pfile = cpp_error pfile CPP_DL_ICE ''impossible operator''"

definition reduce_turn :: "cpp_reader \<Rightarrow> cpp_ttype \<Rightarrow> op \<Rightarrow> op list \<Rightarrow> reduction" where
  "reduce_turn pfile op tp rest =
     (case promotion_checked pfile tp rest of
        None \<Rightarrow> Stop_undefined
      | Some pfile \<Rightarrow>
          (let t = op_op tp in
           if t \<in> {CPP_UPLUS, CPP_UMINUS, CPP_NOT, CPP_COMPL} then reduce_unary pfile tp rest
           else if t \<in> {CPP_PLUS, CPP_MINUS, CPP_RSHIFT, CPP_LSHIFT, CPP_COMMA, CPP_GREATER, CPP_LESS,
                        CPP_GREATER_EQ, CPP_LESS_EQ, CPP_EQ_EQ, CPP_NOT_EQ, CPP_AND, CPP_OR, CPP_XOR,
                        CPP_MULT, CPP_DIV, CPP_MOD} then reduce_binary pfile tp rest
           else if t = CPP_OR_OR \<or> t = CPP_AND_AND then reduce_logical pfile tp rest
           else if t = CPP_OPEN_PAREN then reduce_paren pfile op tp rest
           else if t = CPP_COLON then reduce_colon pfile tp rest
           else if t = CPP_QUERY then
             (if op = CPP_COMMA \<or> op = CPP_COLON then Leave (Some (tp # rest)) pfile
              else Leave None (cpp_error pfile CPP_DL_ERROR ''? without following :''))
           else Leave None (bad_op pfile)))"

lemma reduce_turn_shorter: "reduce_turn pfile op tp rest = Continue s r \<Longrightarrow> length s \<le> length rest"
  by (auto simp: reduce_turn_def reduce_unary_def reduce_binary_def reduce_logical_def reduce_paren_def
      reduce_colon_def reduced_def Let_def split: option.splits if_splits prod.splits list.splits)

function reduce_loop :: "nat \<Rightarrow> cpp_ttype \<Rightarrow> cpp_reader \<Rightarrow> op list \<Rightarrow> (op list option \<times> cpp_reader) outcome" where
  "reduce_loop p op pfile [] = Undefined"
| "reduce_loop p op pfile (tp # rest) =
     (if p < prio (optab_at (op_op tp)) then
        (case reduce_turn pfile op tp rest of
           Continue s r \<Rightarrow> reduce_loop p op r s
         | Leave s r \<Rightarrow> Returns (s, r)
         | Stop_diverges \<Rightarrow> Diverges
         | Stop_undefined \<Rightarrow> Undefined)
      else if op = CPP_CLOSE_PAREN
      then Returns (None, cpp_error pfile CPP_DL_ERROR ''missing ( in expression'')
      else Returns (Some (tp # rest), pfile))"
  by pat_completeness auto
termination
  by (relation "measure (\<lambda>(_, _, _, s). length s)") (auto dest!: reduce_turn_shorter simp: less_Suc_eq_le)

declare reduce_loop.simps [simp del]

definition reduce :: "cpp_reader \<Rightarrow> op list \<Rightarrow> cpp_ttype \<Rightarrow> (op list option \<times> cpp_reader) outcome" where
  "reduce pfile stack op =
     (case stack of
        [] \<Rightarrow> Undefined
      | tp # _ \<Rightarrow>
          if op_op tp \<le> CPP_EQ \<or> op_op tp > CPP_UMINUS then Returns (None, bad_op pfile)
          else if op = CPP_OPEN_PAREN then Returns (Some stack, pfile)
          else reduce_loop (prio (optab_at op) - of_bool (LEFT_ASSOC (optab_at op))) op pfile stack)"

section \<open>Tokens that are left on the line\<close>

definition pending :: "cpp_reader \<Rightarrow> nat" where
  "pending pfile = length (filter (\<lambda>i. type (item_token i) \<noteq> CPP_EOF) (tokens pfile))"

lemma pending_get:
  "cpp_get_token_with_location pfile = (i, pfile') \<Longrightarrow>
     pending pfile' = pending pfile - of_bool (type (item_token i) \<noteq> CPP_EOF)
     \<and> (type (item_token i) \<noteq> CPP_EOF \<longrightarrow> pending pfile' < pending pfile) \<and> hd (token_run pfile') = i \<and> token_run pfile' \<noteq> []"
  "cpp_get_token pfile = (t, pfile') \<Longrightarrow>
     pending pfile' = pending pfile - of_bool (type t \<noteq> CPP_EOF)
     \<and> (type t \<noteq> CPP_EOF \<longrightarrow> pending pfile' < pending pfile) \<and> item_token (hd (token_run pfile')) = t \<and> token_run pfile' \<noteq> []"
  by (auto simp: cpp_get_token_def cpp_get_token_with_location_def pending_def eof_item_def split: list.splits)

lemma pending_get_le: "cpp_get_token pfile = (t, pfile') \<Longrightarrow> pending pfile' \<le> pending pfile"
  using pending_get(2) by fastforce

lemma pending_tokens: "tokens r = tokens r' \<Longrightarrow> pending r = pending r'"
  by (simp add: pending_def)

lemma tokens_simps [simp]:
  "tokens (cpp_diagnostic r l w x m) = tokens r" "tokens (abort_reader r) = tokens r"
  "tokens (mark_macro_used n r) = tokens r" "tokens (maybe_notify_macro_use n r) = tokens r"
  "token_run (cpp_diagnostic r l w x m) = token_run r"
  by (simp_all add: cpp_diagnostic_def abort_reader_def mark_macro_used_def maybe_notify_macro_use_def Let_def)

lemma tokens_diag_if [simp]: "(\<And>x. tokens (f x) = tokens x) \<Longrightarrow> tokens (diag_if c f r) = tokens r"
  by (simp add: diag_if_def)

lemma pending_simps [simp]:
  "pending (cpp_diagnostic r l w x m) = pending r" "pending (abort_reader r) = pending r"
  "pending (r\<lparr>prevent_expansion := b\<rparr>) = pending r" "pending (r\<lparr>in_has_include := b\<rparr>) = pending r"
  "pending (r\<lparr>mi_ind_cmacro := n\<rparr>) = pending r" "pending (r\<lparr>skip_eval := k\<rparr>) = pending r"
  "pending (mark_macro_used m r) = pending r" "pending (maybe_notify_macro_use m r) = pending r"
  by (simp_all add: pending_def)

lemma pending_diag_if [simp]: "(\<And>x. tokens (f x) = tokens x) \<Longrightarrow> pending (diag_if c f r) = pending r"
  by (simp add: pending_def)

lemma pending_parse_defined: "parse_defined pfile = (n, r) \<Longrightarrow> pending r \<le> pending pfile"
  by (auto simp: parse_defined_def Let_def split: prod.splits if_splits option.splits
      dest!: pending_get_le)

lemma pending_no_padding: "get_token_no_padding pfile = (t, r) \<Longrightarrow> pending r \<le> pending pfile"
proof (induction pfile rule: get_token_no_padding.induct)
  case (1 pfile)
  then show ?case
    by (auto simp: get_token_no_padding.simps[of pfile] split: prod.splits if_splits dest!: pending_get_le)
qed

lemma pending_glue: "glue_header_name pfile b = (f, r) \<Longrightarrow> pending r \<le> pending pfile"
proof (induction pfile b rule: glue_header_name.induct)
  case (1 pfile b)
  obtain t p where g: "get_token_no_padding pfile = (t, p)" by fastforce
  have "pending p \<le> pending pfile"
    by (rule pending_no_padding[OF g])
  with 1 g show ?case
    by (auto simp: glue_header_name.simps[of pfile] split: if_splits)
qed

lemma pending_has_include: "parse_has_include pfile typ = (n, r) \<Longrightarrow> pending r \<le> pending pfile"
  by (auto simp: parse_has_include_def Let_def split: prod.splits if_splits option.splits
      dest!: pending_get_le pending_glue)

lemma pending_backup:
  "token_run pfile \<noteq> [] \<Longrightarrow>
     pending (cpp_backup_token pfile) = pending pfile + of_bool (type (item_token (hd (token_run pfile))) \<noteq> CPP_EOF)"
  by (cases "token_run pfile") (auto simp: cpp_backup_token_def pending_def)

lemma pending_read_answer: "read_answer pfile acc = (a, r) \<Longrightarrow> pending r \<le> pending pfile"
proof (induction pfile acc rule: read_answer.induct)
  case (1 pfile acc)
  obtain t p where g: "cpp_get_token pfile = (t, p)" by fastforce
  have "pending p \<le> pending pfile"
    by (rule pending_get_le[OF g])
  with 1 g show ?case
    by (auto simp: read_answer.simps[of pfile] split: if_splits)
qed

lemma pending_parse_answer: "parse_answer pfile typ loc = (ok, a, r) \<Longrightarrow> pending r \<le> pending pfile"
proof -
  assume p: "parse_answer pfile typ loc = (ok, a, r)"
  obtain t q where g: "cpp_get_token pfile = (t, q)" by fastforce
  have "pending q \<le> pending pfile" "pending (cpp_backup_token q) \<le> pending pfile"
    using pending_get(2)[OF g] pending_backup[of q] by auto
  with p g show ?thesis
    by (auto simp: parse_answer_def split: if_splits prod.splits option.splits list.splits dest!: pending_read_answer)
qed

lemma pending_parse_assertion: "parse_assertion pfile typ = (n, a, r) \<Longrightarrow> pending r \<le> pending pfile"
  by (auto simp: parse_assertion_def Let_def split: if_splits prod.splits dest!: pending_get_le pending_parse_answer)

lemma pending_test_assertion: "cpp_test_assertion pfile = (e, v, r) \<Longrightarrow> pending r \<le> pending pfile"
  using pending_backup
  by (auto simp: cpp_test_assertion_def SEEN_EOL_def split: prod.splits option.splits dest!: pending_parse_assertion)

lemma interpret_integer_reader: "cpp_interpret_integer pfile tok t = (n, r) \<Longrightarrow> \<exists>ds. r = pfile\<lparr>diags := ds\<rparr>"
proof -
  assume i: "cpp_interpret_integer pfile tok t = (n, r)"
  have "r = pfile \<or> (\<exists>l w x m. r = cpp_diagnostic pfile l w x m)"
    using i by (auto simp: cpp_interpret_integer_def diag_if_def Let_def split: prod.splits if_splits)
  then show ?thesis
    by (auto simp: cpp_diagnostic_def intro: exI[of _ "diags pfile"])
qed

lemma classify_number_reader: "cpp_classify_number pfile tok loc = (f, u, r) \<Longrightarrow> \<exists>ds. r = pfile\<lparr>diags := ds\<rparr>"
  using classify_number_ok[of pfile tok loc] by (auto simp: classified_ok_def add_diags_def)

text \<open>
  Frame of the evaluation of a number: only diagnostics are added.
\<close>

lemma eval_number_reader: "eval_number pfile tok loc = (n, r) \<Longrightarrow> \<exists>ds. r = pfile\<lparr>diags := ds\<rparr>"
  by (auto simp: eval_number_def cpp_diagnostic_def diag_if_def Let_def split: prod.splits if_splits
      dest!: classify_number_reader interpret_integer_reader)

lemma pending_eval_token: "eval_token pfile tok loc = (n, r) \<Longrightarrow> pending r \<le> pending pfile"
proof -
  assume e: "eval_token pfile tok loc = (n, r)"
  have num: "pending r \<le> pending pfile" if "eval_number pfile tok loc = (n, r)"
    using eval_number_reader[OF that] by (auto simp: pending_def)
  have name: "pending r \<le> pending pfile" if "eval_name pfile x loc = (n, r)" for x
    using that by (auto simp: eval_name_def split: if_splits dest!: pending_parse_defined pending_has_include)
  have ass: "pending r \<le> pending pfile" if "eval_assertion pfile loc = (n, r)"
    using that by (auto simp: eval_assertion_def Let_def split: if_splits prod.splits dest!: pending_test_assertion)
  show ?thesis
    using e num name ass by (auto simp: eval_token_def split: if_splits prod.splits)
qed

section \<open>The parser\<close>

definition operand_types :: "cpp_ttype set" where
  "operand_types = {CPP_NUMBER, CPP_CHAR, CPP_WCHAR, CPP_CHAR16, CPP_CHAR32, CPP_UTF8CHAR, CPP_NAME, CPP_HASH}"

text \<open>The operator a token stands for.\<close>

definition token_op :: "cpp_ttype \<Rightarrow> bool \<Rightarrow> cpp_ttype" where
  "token_op t want_value =
     (if t = CPP_PLUS \<and> want_value then CPP_UPLUS else if t = CPP_MINUS \<and> want_value then CPP_UMINUS else t)"

text \<open>
  The checks before an operator is shifted: that it is one, and that it comes where a value or an
  operator is expected. \<open>Some\<close> is a syntax error.
\<close>

definition operator_error :: "bool \<Rightarrow> cpp_ttype \<Rightarrow> cpp_ttype \<Rightarrow> cpp_ttype \<Rightarrow> bool \<Rightarrow> string option" where
  "operator_error is_if t op top_op want_value =
     (if t \<notin> {CPP_NOT, CPP_PLUS, CPP_MINUS} \<and> (op \<le> CPP_EQ \<or> op \<ge> CPP_PLUS_EQ)
      then Some ''token is not valid in preprocessor expressions''
      else if NO_L_OPERAND (optab_at op) then
        (if \<not> want_value then Some ''missing binary operator before token'' else None)
      else if want_value then
        (if op = CPP_CLOSE_PAREN \<and> top_op = CPP_OPEN_PAREN then Some ''missing expression between ( and )''
         else if op = CPP_EOF \<and> top_op = CPP_EOF
         then Some (if is_if then ''#if with no expression'' else ''#elif with no expression'')
         else if top_op \<noteq> CPP_EOF \<and> top_op \<noteq> CPP_OPEN_PAREN then Some ''operator has no right operand''
         else if op = CPP_CLOSE_PAREN \<or> op = CPP_EOF then None
         else Some ''operator has no left operand'')
      else None)"

text \<open>
  The effect on \<open>skip_eval\<close> of shifting an operator: \<open>None\<close> is a read of an undefined value, \<open>Inl\<close>
  a syntax error.
\<close>

definition shift_skip :: "cpp_reader \<Rightarrow> op list \<Rightarrow> cpp_ttype \<Rightarrow> (string + cpp_reader) option" where
  "shift_skip pfile stack op =
     (if op \<in> {CPP_OR_OR, CPP_AND_AND, CPP_QUERY} then
        (case stack of
           tp # _ \<Rightarrow> map_option (\<lambda>v. Inr (skip_up (if op = CPP_OR_OR then \<not> num_zerop v else num_zerop v) pfile)) (op_value tp)
         | [] \<Rightarrow> None)
      else if op = CPP_COLON then
        (case stack of
           [] \<Rightarrow> None
         | tp # rest \<Rightarrow>
             if op_op tp \<noteq> CPP_QUERY then Some (Inl '' : without preceding ?'')
             else case rest of
                    below # _ \<Rightarrow>
                      map_option (\<lambda>c. Inr (if \<not> num_zerop c then skip_up True pfile else skip_down True pfile)) (op_value below)
                  | [] \<Rightarrow> None)
      else Some (Inr pfile))"

definition syntax_error :: "cpp_reader \<Rightarrow> location_t \<Rightarrow> string \<Rightarrow> (bool \<times> cpp_reader) outcome" where
  "syntax_error pfile loc msg = Returns (False, cpp_error_with_line pfile CPP_DL_ERROR loc msg)"

text \<open>After the loop: the controlling macro, the balance of the stack, the truth value.\<close>

definition parse_end :: "bool \<Rightarrow> cpp_reader \<Rightarrow> op list \<Rightarrow> nat \<Rightarrow> bool \<Rightarrow> (bool \<times> cpp_reader) outcome" where
  "parse_end is_if pfile stack lex_count saw_leading_not =
     (let pfile = (if mi_ind_cmacro pfile \<noteq> None \<and> \<not> (saw_leading_not \<and> lex_count = 3)
                   then pfile\<lparr>mi_ind_cmacro := None\<rparr> else pfile)
      in case stack of
           [] \<Rightarrow> Undefined
         | tp # rest \<Rightarrow>
             if rest \<noteq> []
             then Returns (False, cpp_error_with_line pfile CPP_DL_ICE (op_loc tp)
                            (if is_if then ''unbalanced stack in #if'' else ''unbalanced stack in #elif''))
             else case op_value tp of None \<Rightarrow> Undefined | Some v \<Rightarrow> Returns (\<not> num_zerop v, pfile))"

text \<open>A reduction touches nothing of the reader but its diagnostics and \<open>skip_eval\<close>.\<close>

definition frame :: "cpp_reader \<Rightarrow> cpp_reader \<Rightarrow> bool" where
  "frame r r' \<longleftrightarrow> r'\<lparr>diags := [], skip_eval := 0\<rparr> = r\<lparr>diags := [], skip_eval := 0\<rparr>"

lemma frame_refl [simp]: "frame r r"
  by (simp add: frame_def)

lemma frame_trans [trans]: "frame a b \<Longrightarrow> frame b c \<Longrightarrow> frame a c"
  by (simp add: frame_def)

lemma frame_diagnostic [simp]: "frame r (cpp_diagnostic r l w x m)" "frame r (r\<lparr>skip_eval := k\<rparr>)"
  by (simp_all add: frame_def cpp_diagnostic_def)

lemma frame_diag_if [simp]: "(\<And>x. frame x (f x)) \<Longrightarrow> frame r (diag_if c f r)"
  by (simp add: diag_if_def)

lemma frame_skip [simp]: "frame r (skip_up c r)" "frame r (skip_down c r)"
  by (simp_all add: skip_up_def skip_down_def)

lemma frame_fields:
  assumes "frame r r'"
  shows "tokens r' = tokens r" "opts r' = opts r" "host r' = host r" "nodes r' = nodes r" "token_run r' = token_run r"
    "mi_ind_cmacro r' = mi_ind_cmacro r" "charconst r' = charconst r" "skipping r' = skipping r" "in_directive r' = in_directive r"
proof -
  have f: "f (r'\<lparr>diags := [], skip_eval := 0\<rparr>) = f (r\<lparr>diags := [], skip_eval := 0\<rparr>)" for f :: "cpp_reader \<Rightarrow> 'a"
    using assms by (simp only: frame_def)
  show "tokens r' = tokens r" "opts r' = opts r" "host r' = host r" "nodes r' = nodes r" "token_run r' = token_run r"
    "mi_ind_cmacro r' = mi_ind_cmacro r" "charconst r' = charconst r" "skipping r' = skipping r" "in_directive r' = in_directive r"
    using f[of tokens] f[of opts] f[of host] f[of nodes] f[of token_run] f[of mi_ind_cmacro] f[of charconst]
      f[of skipping] f[of in_directive] by simp_all
qed

lemma frame_ops:
  "frame pfile (snd (num_unary_op pfile n op))" "frame pfile (snd (num_binary_op pfile l r op))"
  "num_div_op pfile l r op loc = Some (n', pfile') \<Longrightarrow> frame pfile pfile'"
  "binary_value pfile l r op loc = Some (n', pfile') \<Longrightarrow> frame pfile pfile'"
  "frame pfile (check_promotion pfile t l r loc)"
proof -
  show u: "frame pfile (snd (num_unary_op pfile n op))"
    by (simp add: num_unary_op_def Let_def)
  show b: "frame pfile (snd (num_binary_op pfile l r op))" for op
    by (simp add: num_binary_op_def)
  show d: "frame pfile pfile'" if "num_div_op pfile l r op loc = Some (n', pfile')" for op
    using that by (auto simp: num_div_op_def Let_def split: prod.splits if_splits option.splits)
  show "frame pfile pfile'" if "binary_value pfile l r op loc = Some (n', pfile')"
    using that b[of op] d by (auto simp: binary_value_def split: if_splits)
  show "frame pfile (check_promotion pfile t l r loc)"
    by (simp add: check_promotion_def)
qed

definition framed :: "cpp_reader \<Rightarrow> reduction \<Rightarrow> bool" where
  "framed pfile res =
     (case res of Continue s r \<Rightarrow> frame pfile r | Leave s r \<Rightarrow> frame pfile r | _ \<Rightarrow> True)"

lemma framed_trans: "frame a b \<Longrightarrow> framed b res \<Longrightarrow> framed a res"
  by (auto simp: framed_def intro: frame_trans split: reduction.splits)

lemma framed_reduced: "framed pfile (reduced t below rest v pfile)"
  by (simp add: framed_def reduced_def)

lemma framed_turns:
  "framed pfile (reduce_unary pfile t rest)" "framed pfile (reduce_binary pfile t rest)"
  "framed pfile (reduce_logical pfile t rest)" "framed pfile (reduce_colon pfile t rest)"
  "framed pfile (reduce_paren pfile op t rest)"
proof -
  show "framed pfile (reduce_unary pfile t rest)"
    using framed_trans[OF frame_ops(1) framed_reduced]
    by (auto simp: reduce_unary_def split_beta framed_def split: option.splits list.splits)
  show "framed pfile (reduce_binary pfile t rest)"
    using framed_trans[OF frame_ops(4) framed_reduced]
    by (auto simp: reduce_binary_def framed_def split: option.splits list.splits prod.splits)
qed (auto simp: framed_def reduce_logical_def reduce_colon_def reduce_paren_def Let_def split: option.splits list.splits)

lemma framed_turn: "framed pfile (reduce_turn pfile op t rest)"
proof (cases "promotion_checked pfile t rest")
  case None
  then show ?thesis by (simp add: reduce_turn_def framed_def)
next
  case (Some q)
  then have "frame pfile q"
    using frame_ops(5) by (auto simp: promotion_checked_def split: if_splits option.splits list.splits)
  moreover have "framed q (Leave s q)" "framed q (Leave s (cpp_diagnostic q l w x m))" for s l w x m
    by (simp_all add: framed_def)
  ultimately show ?thesis
    unfolding reduce_turn_def Some option.case Let_def bad_op_def
    by (intro framed_trans[of pfile q]) (simp_all add: framed_turns)
qed

lemma reduce_loop_frame: "reduce_loop p op pfile stack = Returns (s, r) \<Longrightarrow> frame pfile r"
proof (induction p op pfile stack rule: reduce_loop.induct)
  case (2 p op pfile t rest)
  have f: "framed pfile (reduce_turn pfile op t rest)"
    by (rule framed_turn)
  show ?case
  proof (cases "reduce_turn pfile op t rest")
    case (Continue s' r')
    then show ?thesis
      using 2 f by (auto simp: reduce_loop.simps(2) framed_def intro: frame_trans split: if_splits)
  qed (use 2 f in \<open>auto simp: reduce_loop.simps(2) framed_def split: if_splits\<close>)
qed (simp add: reduce_loop.simps(1))

lemma reduce_frame: "reduce pfile stack op = Returns (s, r) \<Longrightarrow> frame pfile r"
  by (auto simp: reduce_def bad_op_def dest: reduce_loop_frame split: list.splits if_splits)

lemma shift_skip_frame: "shift_skip pfile stack op = Some (Inr r) \<Longrightarrow> frame pfile r"
  by (auto simp: shift_skip_def split: if_splits list.splits)

lemma pending_frame: "frame r r' \<Longrightarrow> pending r' = pending r"
  by (simp add: pending_def frame_fields)

lemma token_op_EOF [simp]: "token_op CPP_EOF w = CPP_EOF"
  by (simp add: token_op_def)

lemma token_op_eof: "token_op t w \<noteq> CPP_EOF \<Longrightarrow> t \<noteq> CPP_EOF"
  by (auto simp: token_op_def)

text \<open>
  The loop of \<^verbatim>\<open>_cpp_parse_expr\<close>. The arguments that change are the reader, the stack, whether a
  value is wanted, the number of tokens lexed and whether a leading \<^verbatim>\<open>!\<close> was seen.
\<close>

function parse_loop :: "bool \<Rightarrow> cpp_reader \<Rightarrow> op list \<Rightarrow> bool \<Rightarrow> nat \<Rightarrow> bool \<Rightarrow> (bool \<times> cpp_reader) outcome" where
  "parse_loop is_if pfile stack want_value lex_count saw_leading_not =
     (case (cpp_get_token_with_location pfile, stack) of
        (_, []) \<Rightarrow> Undefined
      | ((item, pfile), tp # rest) \<Rightarrow>
          (let lex_count = lex_count + 1; token = item_token item; t = type token; loc = item_loc item in
           if t \<in> operand_types then
             (if \<not> want_value then syntax_error pfile loc ''missing binary operator before token''
              else case eval_token pfile token loc of
                     (v, pfile) \<Rightarrow>
                       parse_loop is_if pfile (tp\<lparr>op_value := Some v\<rparr> # rest) False lex_count saw_leading_not)
           else
             let saw_leading_not = (if t = CPP_NOT then lex_count = 1 else saw_leading_not);
                 op = token_op t want_value
             in case operator_error is_if t op (op_op tp) want_value of
                  Some msg \<Rightarrow> syntax_error pfile loc msg
                | None \<Rightarrow>
                    (case reduce pfile stack op of
                       Undefined \<Rightarrow> Undefined
                     | Diverges \<Rightarrow> Diverges
                     | Returns (None, pfile) \<Rightarrow> Returns (False, pfile)
                     | Returns (Some stack, pfile) \<Rightarrow>
                         if op = CPP_EOF then parse_end is_if pfile stack lex_count saw_leading_not
                         else if op = CPP_CLOSE_PAREN
                         then parse_loop is_if pfile stack want_value lex_count saw_leading_not
                         else
                           (case shift_skip pfile stack op of
                              None \<Rightarrow> Undefined
                            | Some (Inl msg) \<Rightarrow> syntax_error pfile loc msg
                            | Some (Inr pfile) \<Rightarrow>
                                parse_loop is_if pfile
                                  (\<lparr>op_token = token, op_value = None, op_loc = loc, op_op = op\<rparr> # stack)
                                  True lex_count saw_leading_not))))"
  by pat_completeness auto
termination
proof (relation "measure (\<lambda>(_, pfile, _). pending pfile)", goal_cases)
  case 1
  then show ?case by simp
next
  case 2
  then show ?case
    by (auto simp: operand_types_def dest!: pending_get(1)[OF sym] pending_eval_token[OF sym])
next
  case 3
  then show ?case
    by (auto dest!: pending_get(1)[OF sym] reduce_frame pending_frame token_op_eof)
next
  case 4
  then show ?case
    by (auto dest!: pending_get(1)[OF sym] reduce_frame shift_skip_frame pending_frame token_op_eof)
qed

declare parse_loop.simps [simp del]

text \<open>The stack starts with an entry whose operator, of the lowest priority, prevents reductions.\<close>

definition cpp_parse_expr :: "cpp_reader \<Rightarrow> bool \<Rightarrow> (bool \<times> cpp_reader) outcome" where
  "cpp_parse_expr pfile is_if =
     parse_loop is_if (pfile\<lparr>skip_eval := 0, mi_ind_cmacro := None\<rparr>)
       [\<lparr>op_token = item_token eof_item, op_value = None, op_loc = 0, op_op = CPP_EOF\<rparr>] True 0 False"

end
