(* ===== verification/Cpp_Eval.thy ===== *)
theory Cpp_Eval
  imports Cpp_Expr
begin

text \<open>
  The operator-precedence parser evaluates C's expression grammar. Expressions are given as
  syntax trees whose nodes carry the tokens they are written with; a big-step evaluator on trees
  says what \<^verbatim>\<open>#if\<close> means, including which operands are evaluated with diagnostics off; and the
  parser run on the tokens of a tree computes what the evaluator does.
\<close>

section \<open>Trees and their evaluation\<close>

text \<open>
  An atom is an operand: its first token and those it reads beyond it (for \<^verbatim>\<open>defined\<close>).
\<close>

datatype pp_expr =
  Atom pp_item "pp_item list"
| Paren pp_item pp_item pp_expr
| Unary pp_item pp_expr
| Binary pp_item pp_expr pp_expr
| Cond pp_item pp_item pp_expr pp_expr pp_expr

fun toks :: "pp_expr \<Rightarrow> pp_item list" where
  "toks (Atom i is) = i # is"
| "toks (Paren i j e) = i # toks e @ [j]"
| "toks (Unary i e) = i # toks e"
| "toks (Binary i l r) = toks l @ i # toks r"
| "toks (Cond i j c a b) = toks c @ i # toks a @ j # toks b"

abbreviation item_type :: "pp_item \<Rightarrow> cpp_ttype" where
  "item_type i \<equiv> type (item_token i)"

text \<open>The reader without its position in the line.\<close>

definition strip :: "cpp_reader \<Rightarrow> cpp_reader" where
  "strip r = r\<lparr>tokens := [], token_run := [], cpp_context := 0\<rparr>"

definition eval_atom :: "pp_item \<Rightarrow> pp_item list \<Rightarrow> cpp_reader \<Rightarrow> cpp_num \<times> cpp_reader" where
  "eval_atom i is R =
     (case eval_token (R\<lparr>tokens := is, token_run := [i], cpp_context := item_context i\<rparr>) (item_token i) (item_loc i) of
        (v, R') \<Rightarrow> (v, strip R'))"

definition overflow_diag :: "cpp_num \<Rightarrow> cpp_reader \<Rightarrow> cpp_reader" where
  "overflow_diag v R =
     diag_if (overflow v \<and> skip_eval R = 0)
       (\<lambda>r. cpp_error r CPP_DL_PEDWARN ''integer overflow in preprocessor expression'') R"

definition unary_op :: "pp_item \<Rightarrow> cpp_ttype" where
  "unary_op i = token_op (item_type i) True"

definition override :: "location_t \<Rightarrow> location_t option \<Rightarrow> location_t" where
  "override l lo = (case lo of None \<Rightarrow> l | Some x \<Rightarrow> x)"

text \<open>
  Evaluation gives the value, the location that the value takes over (if it is not an atom's), and
  the reader with the diagnostics issued; \<open>None\<close> is a division that does not return. The right
  operand of a short-circuit operator and the branch of a conditional that is not taken are
  evaluated with \<open>skip_eval\<close> raised.
\<close>

fun eval :: "pp_expr \<Rightarrow> cpp_reader \<Rightarrow> (cpp_num \<times> location_t option \<times> cpp_reader) option" where
  "eval (Atom i is) R = (case eval_atom i is R of (v, R) \<Rightarrow> Some (v, None, R))"
| "eval (Paren i j e) R =
     (case eval e R of None \<Rightarrow> None | Some (v, lo, R) \<Rightarrow> Some (v, Some (override (item_loc i) lo), R))"
| "eval (Unary i e) R =
     (case eval e R of
        None \<Rightarrow> None
      | Some (v, lo, R) \<Rightarrow>
          (case num_unary_op R v (unary_op i) of
             (v, R) \<Rightarrow> Some (v, Some (override (item_loc i) lo), overflow_diag v R)))"
| "eval (Binary i l r) R =
     (case eval l R of
        None \<Rightarrow> None
      | Some (x, _, R) \<Rightarrow>
          if item_type i = CPP_OR_OR \<or> item_type i = CPP_AND_AND then
            (let decided = (if item_type i = CPP_OR_OR then \<not> num_zerop x else num_zerop x) in
             case eval r (skip_up decided R) of
               None \<Rightarrow> None
             | Some (y, lo, R) \<Rightarrow>
                 Some (num_of_bool (if item_type i = CPP_OR_OR then \<not> num_zerop x \<or> \<not> num_zerop y
                                    else \<not> num_zerop x \<and> \<not> num_zerop y),
                       Some (override (item_loc i) lo), skip_down decided R))
          else
            (case eval r R of
               None \<Rightarrow> None
             | Some (y, lo, R) \<Rightarrow>
                 (case binary_value R x y (item_type i) (override (item_loc i) lo) of
                    None \<Rightarrow> None
                  | Some (v, R) \<Rightarrow> Some (v, Some (override (item_loc i) lo), overflow_diag v R))))"
| "eval (Cond i j c a b) R =
     (case eval c R of
        None \<Rightarrow> None
      | Some (x, _, R) \<Rightarrow>
          (case eval a (skip_up (num_zerop x) R) of
             None \<Rightarrow> None
           | Some (y, lo, R) \<Rightarrow>
               (case eval b (if \<not> num_zerop x then skip_up True R else skip_down True R) of
                  None \<Rightarrow> None
                | Some (z, lo', R) \<Rightarrow>
                    (let u = (unsignedp y \<or> unsignedp z) in
                     if \<not> num_zerop x
                     then Some (y\<lparr>unsignedp := u\<rparr>, Some (override (item_loc i) lo), skip_down True R)
                     else Some (z\<lparr>unsignedp := u\<rparr>, Some (override (item_loc j) lo'), R)))))"

section \<open>The grammar\<close>

definition unary_types :: "cpp_ttype set" where
  "unary_types = {CPP_PLUS, CPP_MINUS, CPP_NOT, CPP_COMPL}"

definition binary_types :: "cpp_ttype set" where
  "binary_types =
     {CPP_PLUS, CPP_MINUS, CPP_RSHIFT, CPP_LSHIFT, CPP_COMMA, CPP_GREATER, CPP_LESS, CPP_GREATER_EQ, CPP_LESS_EQ,
      CPP_EQ_EQ, CPP_NOT_EQ, CPP_AND, CPP_OR, CPP_XOR, CPP_MULT, CPP_DIV, CPP_MOD, CPP_OR_OR, CPP_AND_AND}"

text \<open>
  The levels of C's grammar (C11 6.5): the comma operator 3, conditional expressions 4, the binary
  operators 5 to 15 with their usual precedence, unary and primary expressions 16.
\<close>

definition binary_level :: "cpp_ttype \<Rightarrow> nat" where
  "binary_level t =
     (if t = CPP_COMMA then 3
      else if t = CPP_OR_OR then 5
      else if t = CPP_AND_AND then 6
      else if t = CPP_OR then 7
      else if t = CPP_XOR then 8
      else if t = CPP_AND then 9
      else if t = CPP_EQ_EQ \<or> t = CPP_NOT_EQ then 11
      else if t = CPP_LESS \<or> t = CPP_GREATER \<or> t = CPP_LESS_EQ \<or> t = CPP_GREATER_EQ then 12
      else if t = CPP_LSHIFT \<or> t = CPP_RSHIFT then 13
      else if t = CPP_PLUS \<or> t = CPP_MINUS then 14
      else 15)"

fun level :: "pp_expr \<Rightarrow> nat" where
  "level (Binary i l r) = binary_level (item_type i)"
| "level (Cond i j c a b) = 4"
| "level _ = 16"

text \<open>An operand that reads exactly its own tokens and depends on nothing that follows them.\<close>

definition atom_ok :: "pp_item \<Rightarrow> pp_item list \<Rightarrow> bool" where
  "atom_ok i is \<longleftrightarrow> item_type i \<in> operand_types \<and>
     (\<forall>R ts v R'. tokens R = is @ ts \<and> cpp_context R = item_context i \<and> (\<exists>run. token_run R = i # run)
        \<and> eval_token R (item_token i) (item_loc i) = (v, R')
        \<longrightarrow> tokens R' = ts \<and> eval_atom i is (strip R) = (v, strip R'))"

text \<open>
  The productions: binary operators are left-associative, the conditional operator is
  right-associative and takes any expression between \<^verbatim>\<open>?\<close> and \<^verbatim>\<open>:\<close>.
\<close>

fun wf_expr :: "pp_expr \<Rightarrow> bool" where
  "wf_expr (Atom i is) = atom_ok i is"
| "wf_expr (Paren i j e) = (item_type i = CPP_OPEN_PAREN \<and> item_type j = CPP_CLOSE_PAREN \<and> wf_expr e)"
| "wf_expr (Unary i e) = (item_type i \<in> unary_types \<and> wf_expr e \<and> level e = 16)"
| "wf_expr (Binary i l r) =
     (item_type i \<in> binary_types \<and> wf_expr l \<and> wf_expr r
      \<and> binary_level (item_type i) \<le> level l \<and> binary_level (item_type i) < level r)"
| "wf_expr (Cond i j c a b) =
     (item_type i = CPP_QUERY \<and> item_type j = CPP_COLON \<and> wf_expr c \<and> wf_expr a \<and> wf_expr b
      \<and> 4 < level c \<and> 4 \<le> level b)"

section \<open>What the operations keep of the reader\<close>

text \<open>Moving the reader along the line commutes with everything the operators do.\<close>

definition setpos :: "pp_item list \<Rightarrow> pp_item list \<Rightarrow> nat \<Rightarrow> cpp_reader \<Rightarrow> cpp_reader" where
  "setpos ts run c r = r\<lparr>tokens := ts, token_run := run, cpp_context := c\<rparr>"

lemma strip_setpos: "strip r = setpos [] [] 0 r"
  by (simp add: strip_def setpos_def)

lemma setpos_simps [simp]:
  "setpos a b c (setpos d e f r) = setpos a b c r" "strip (setpos a b c r) = strip r"
  "opts (setpos a b c r) = opts r" "host (setpos a b c r) = host r" "skip_eval (setpos a b c r) = skip_eval r"
  "tokens (setpos a b c r) = a" "token_run (setpos a b c r) = b" "cpp_context (setpos a b c r) = c"
  "cpp_diagnostic (setpos a b c r) l w x m = setpos a b c (cpp_diagnostic r l w x m)"
  "skip_up g (setpos a b c r) = setpos a b c (skip_up g r)"
  "skip_down g (setpos a b c r) = setpos a b c (skip_down g r)"
  by (simp_all add: setpos_def strip_def cpp_diagnostic_def skip_up_def skip_down_def)

lemma setpos_diag_if: "(\<And>x. f (setpos a b c x) = setpos a b c (f x)) \<Longrightarrow> diag_if d f (setpos a b c r) = setpos a b c (diag_if d f r)"
  by (simp add: diag_if_def)

lemma setpos_unary: "num_unary_op (setpos a b c r) v op = map_prod id (setpos a b c) (num_unary_op r v op)"
  by (simp add: num_unary_op_def Let_def setpos_diag_if)

lemma setpos_binary: "num_binary_op (setpos a b c r) x y op = map_prod id (setpos a b c) (num_binary_op r x y op)"
proof -
  have "num_shift_op (setpos a b c r) x y op = num_shift_op r x y op"
    unfolding num_shift_op_def setpos_simps ..
  then show ?thesis
    by (simp add: num_binary_op_def setpos_diag_if)
qed

lemma div_loop_opts: "opts r' = opts r \<Longrightarrow> div_loop r' p i x s q = div_loop r p i x s q"
proof (induction i arbitrary: x s q)
  case 0
  then show ?case by (simp add: div_loop.simps num_binary_op_def)
next
  case (Suc i)
  have m: "fst (num_binary_op r' x s CPP_MINUS) = fst (num_binary_op r x s CPP_MINUS)"
    using Suc.prems by (simp add: num_binary_op_def)
  show ?case
    unfolding div_loop.simps[of r' p "Suc i"] div_loop.simps[of r p "Suc i"] m using Suc by simp
qed

lemma setpos_div: "num_div_op (setpos a b c r) x y op loc = map_option (map_prod id (setpos a b c)) (num_div_op r x y op loc)"
proof -
  define p where "p = precision (opts r)"
  define u where "u = (unsignedp x \<or> unsignedp y)"
  obtain xn x' where x: "num_abs u x p = (xn, x')" by fastforce
  obtain yn y' where y: "num_abs u y p = (yn, y')" by fastforce
  have d: "div_loop (setpos a b c r) = div_loop r"
    by (intro ext div_loop_opts) simp
  note def = num_div_op_def p_def[symmetric] u_def[symmetric] x y setpos_simps d Let_def prod.case
  show ?thesis
  proof (cases "high y' = 0 \<and> low y' = 0")
    case True
    then show ?thesis
      unfolding def if_P[OF True] by (simp add: setpos_diag_if)
  next
    case False
    note def = def if_not_P[OF False] high_bit_search_def[symmetric, unfolded Let_def]
    show ?thesis
    proof (cases "high_bit_search p y'")
      case None
      then show ?thesis
        unfolding def by simp
    next
      case (Some t)
      obtain l q where lq: "div_loop r p (nat (int p - t - 1)) (x'\<lparr>unsignedp := True\<rparr>)
          (num_lshift (y'\<lparr>unsignedp := True\<rparr>) p (nat (int p - t - 1)))
          \<lparr>high = 0, low = 0, unsignedp = False, overflow = False\<rparr> = (l, q)"
        by fastforce
      show ?thesis
        unfolding def Some option.case lq by (cases "op = CPP_DIV") (simp_all only: refl if_True if_False option.map map_prod_simp id_apply)
    qed
  qed
qed

lemma setpos_binary_value:
  "binary_value (setpos a b c r) x y op loc = map_option (map_prod id (setpos a b c)) (binary_value r x y op loc)"
proof -
  have "num_mul (setpos a b c r) x y = num_mul r x y"
    unfolding num_mul_def setpos_simps ..
  then show ?thesis
    unfolding binary_value_def by (simp add: setpos_binary setpos_div num_inequality_op_def)
qed

lemma setpos_overflow_diag: "overflow_diag v (setpos a b c r) = setpos a b c (overflow_diag v r)"
  by (simp add: overflow_diag_def setpos_diag_if)

lemmas setpos_ops = setpos_unary setpos_binary_value setpos_overflow_diag

text \<open>
  No operand or operator changes the options, leaves \<open>skip_eval\<close> changed, or changes of a node
  what operands depend on: whether it is a macro, and its answers.
\<close>

definition macro_env :: "cpp_reader \<Rightarrow> node_ref \<Rightarrow> node_type \<times> bool \<times> cpp_token list list" where
  "macro_env r n = (node_kind (nodes r n), node_conditional (nodes r n), answers (nodes r n))"

lemma macro_env_simps [simp]:
  "macro_env (mark_macro_used m r) = macro_env r" "macro_env (maybe_notify_macro_use m r) = macro_env r"
  by (auto simp: macro_env_def fun_eq_iff mark_macro_used_def maybe_notify_macro_use_def abort_reader_def Let_def)

lemma macro_env_frame [simp]:
  "macro_env (r\<lparr>tokens := ts\<rparr>) = macro_env r" "macro_env (r\<lparr>token_run := ts\<rparr>) = macro_env r"
  "macro_env (r\<lparr>cpp_context := c\<rparr>) = macro_env r" "macro_env (r\<lparr>diags := ds\<rparr>) = macro_env r"
  "macro_env (r\<lparr>skip_eval := k\<rparr>) = macro_env r" "macro_env (r\<lparr>prevent_expansion := b\<rparr>) = macro_env r"
  "macro_env (r\<lparr>in_has_include := b\<rparr>) = macro_env r" "macro_env (r\<lparr>mi_ind_cmacro := m\<rparr>) = macro_env r"
  "macro_env (r\<lparr>aborted := x\<rparr>) = macro_env r"
  by (simp_all add: macro_env_def fun_eq_iff)

definition keeps :: "cpp_reader \<Rightarrow> cpp_reader \<Rightarrow> bool" where
  "keeps r r' \<longleftrightarrow> opts r' = opts r \<and> host r' = host r \<and> charconst r' = charconst r \<and> skip_eval r' = skip_eval r
     \<and> has_header r' = has_header r \<and> macro_env r' = macro_env r"

lemma keeps_refl [simp]: "keeps r r"
  by (simp add: keeps_def)

lemma keeps_trans [trans]: "keeps a b \<Longrightarrow> keeps b c \<Longrightarrow> keeps a c"
  by (simp add: keeps_def)

lemma keeps_macros:
  "opts (mark_macro_used m r) = opts r" "host (mark_macro_used m r) = host r" "charconst (mark_macro_used m r) = charconst r"
  "skip_eval (mark_macro_used m r) = skip_eval r" "has_header (mark_macro_used m r) = has_header r"
  "opts (maybe_notify_macro_use m r) = opts r" "host (maybe_notify_macro_use m r) = host r"
  "charconst (maybe_notify_macro_use m r) = charconst r" "skip_eval (maybe_notify_macro_use m r) = skip_eval r"
  "has_header (maybe_notify_macro_use m r) = has_header r"
  by (simp_all add: mark_macro_used_def maybe_notify_macro_use_def abort_reader_def Let_def)

lemma keeps_simps [simp]:
  "keeps a (cpp_diagnostic r l w x m) = keeps a r" "keeps a (abort_reader r) = keeps a r"
  "keeps a (r\<lparr>prevent_expansion := b\<rparr>) = keeps a r" "keeps a (r\<lparr>in_has_include := b\<rparr>) = keeps a r"
  "keeps a (r\<lparr>mi_ind_cmacro := n\<rparr>) = keeps a r" "keeps a (mark_macro_used m r) = keeps a r"
  "keeps a (maybe_notify_macro_use m r) = keeps a r" "keeps a (r\<lparr>diags := ds\<rparr>) = keeps a r"
  "keeps a (cpp_backup_token r) = keeps a r" "keeps a (setpos d e f r) = keeps a r" "keeps a (strip r) = keeps a r"
  by (auto simp: keeps_def cpp_diagnostic_def abort_reader_def cpp_backup_token_def setpos_def strip_def
      keeps_macros split: list.splits)

lemma keeps_diag_if [simp]: "(\<And>x. keeps a (f x) = keeps a x) \<Longrightarrow> keeps a (diag_if c f r) = keeps a r"
  by (simp add: diag_if_def)

lemma keeps_left [simp]:
  "keeps (r\<lparr>prevent_expansion := b\<rparr>) a = keeps r a" "keeps (r\<lparr>in_has_include := b'\<rparr>) a = keeps r a"
  "keeps (r\<lparr>tokens := ts, token_run := run, cpp_context := c\<rparr>) a = keeps r a"
  "keeps (cpp_diagnostic r l w x m) a = keeps r a" "keeps (strip r) a = keeps r a"
  by (auto simp: keeps_def cpp_diagnostic_def strip_def)

lemma keeps_get: "cpp_get_token r = (t, r') \<Longrightarrow> keeps r r'"
  by (auto simp: cpp_get_token_def cpp_get_token_with_location_def keeps_def split: list.splits)

lemma keeps_no_padding: "get_token_no_padding r = (t, r') \<Longrightarrow> keeps r r'"
proof (induction r rule: get_token_no_padding.induct)
  case (1 r)
  then show ?case
    by (auto simp: get_token_no_padding.simps[of r] intro: keeps_trans split: prod.splits if_splits dest!: keeps_get)
qed

lemma keeps_glue: "glue_header_name r b = (f, r') \<Longrightarrow> keeps r r'"
proof (induction r b rule: glue_header_name.induct)
  case (1 r b)
  obtain t p where g: "get_token_no_padding r = (t, p)" by fastforce
  have "keeps r p"
    by (rule keeps_no_padding[OF g])
  with 1 g show ?case
    by (auto simp: glue_header_name.simps[of r] intro: keeps_trans split: if_splits)
qed

lemma keeps_read_answer: "read_answer r acc = (a, r') \<Longrightarrow> keeps r r'"
proof (induction r acc rule: read_answer.induct)
  case (1 r acc)
  obtain t p where g: "cpp_get_token r = (t, p)" by fastforce
  have "keeps r p"
    by (rule keeps_get[OF g])
  with 1 g show ?case
    by (auto simp: read_answer.simps[of r] intro: keeps_trans split: if_splits)
qed

lemma keeps_parse_answer: "parse_answer r typ loc = (ok, a, r') \<Longrightarrow> keeps r r'"
  by (auto simp: parse_answer_def intro: keeps_trans split: if_splits prod.splits option.splits list.splits
      dest!: keeps_get keeps_read_answer)

lemma keeps_parse_assertion: "parse_assertion r typ = (n, a, r') \<Longrightarrow> keeps r r'"
  by (auto simp: parse_assertion_def Let_def intro: keeps_trans split: if_splits prod.splits
      dest!: keeps_get keeps_parse_answer)

lemma keeps_test_assertion: "cpp_test_assertion r = (e, v, r') \<Longrightarrow> keeps r r'"
  by (auto simp: cpp_test_assertion_def split: prod.splits option.splits if_splits dest!: keeps_parse_assertion)

lemma keeps_parse_defined: "parse_defined r = (n, r') \<Longrightarrow> keeps r r'"
proof -
  assume p: "parse_defined r = (n, r')"
  obtain t1 r1 where g1: "cpp_get_token (r\<lparr>prevent_expansion := prevent_expansion r + 1\<rparr>) = (t1, r1)" by fastforce
  obtain t2 r2 where g2: "(if type t1 = CPP_OPEN_PAREN then cpp_get_token r1 else (t1, r1)) = (t2, r2)" by fastforce
  have k: "keeps r r2"
    using keeps_get[OF g1] g2 by (auto split: if_splits dest!: keeps_get intro: keeps_trans)
  show ?thesis
    using p k unfolding parse_defined_def Let_def g1 prod.case g2
    by (auto split: prod.splits if_splits option.splits dest!: keeps_get intro: keeps_trans)
qed

lemma keeps_has_include: "parse_has_include r typ = (n, r') \<Longrightarrow> keeps r r'"
proof -
  assume p: "parse_has_include r typ = (n, r')"
  obtain t1 r1 where g1: "cpp_get_token (r\<lparr>in_has_include := in_has_include r + 1\<rparr>) = (t1, r1)" by fastforce
  obtain t2 r2 where g2: "(if type t1 = CPP_OPEN_PAREN then cpp_get_token r1 else (t1, r1)) = (t2, r2)" by fastforce
  have k: "keeps r r2"
    using keeps_get[OF g1] g2 by (auto split: if_splits dest!: keeps_get intro: keeps_trans)
  show ?thesis
    using p k unfolding parse_has_include_def Let_def g1 prod.case g2
    by (auto split: prod.splits if_splits option.splits dest!: keeps_get keeps_glue intro: keeps_trans)
qed

lemma keeps_eval_token: "eval_token r tok loc = (v, r') \<Longrightarrow> keeps r r'"
proof -
  assume e: "eval_token r tok loc = (v, r')"
  have num: "keeps r r'" if "eval_number r tok loc = (v, r')"
    using eval_number_reader[OF that] by auto
  have name: "keeps r r'" if "eval_name r x loc = (v, r')" for x
    using that by (auto simp: eval_name_def split: if_splits dest!: keeps_parse_defined keeps_has_include)
  have ass: "keeps r r'" if "eval_assertion r loc = (v, r')"
    using that by (auto simp: eval_assertion_def Let_def diag_if_def split: if_splits prod.splits dest!: keeps_test_assertion)
  show ?thesis
    using e num name ass by (auto simp: eval_token_def split: if_splits prod.splits)
qed

lemma keeps_eval_atom: "eval_atom i is R = (v, R') \<Longrightarrow> keeps R R'"
  by (auto simp: eval_atom_def split: prod.splits dest!: keeps_eval_token)

lemma keeps_ops:
  "num_unary_op r v op = (v', r') \<Longrightarrow> keeps r r'" "binary_value r x y op loc = Some (v', r') \<Longrightarrow> keeps r r'"
  "keeps r (overflow_diag v r)"
proof -
  show "num_unary_op r v op = (v', r') \<Longrightarrow> keeps r r'"
    by (auto simp: num_unary_op_def Let_def split: if_splits)
  have "keeps r r'" if "num_div_op r x y op loc = Some (v', r')"
    using that by (auto simp: num_div_op_def Let_def split: prod.splits if_splits option.splits)
  then show "binary_value r x y op loc = Some (v', r') \<Longrightarrow> keeps r r'"
    by (auto simp: binary_value_def num_binary_op_def split: if_splits)
  show "keeps r (overflow_diag v r)"
    by (simp add: overflow_diag_def)
qed

lemma keeps_skip: "keeps (skip_up c r) r' \<Longrightarrow> keeps r (skip_down c r')" "keeps (skip_down c r) r' \<Longrightarrow> keeps r (skip_up c r')"
  by (auto simp: keeps_def skip_up_def skip_down_def)

lemma eval_keeps: "eval e R = Some (v, lo, R') \<Longrightarrow> keeps R R'"
proof (induction e arbitrary: R v lo R')
  case (Atom i "is")
  then show ?case by (auto split: prod.splits dest: keeps_eval_atom)
next
  case (Paren i j e)
  then show ?case by (auto split: option.splits)
next
  case (Unary i e)
  then obtain x lo' R1 x' R2 where "eval e R = Some (x, lo', R1)" "num_unary_op R1 x (unary_op i) = (x', R2)" "R' = overflow_diag x' R2"
    by (auto split: option.splits prod.splits)
  then show ?case
    using Unary.IH keeps_ops by (meson keeps_trans)
next
  case (Binary i l r)
  then obtain x lo1 R1 where l: "eval l R = Some (x, lo1, R1)"
    by (auto split: option.splits)
  show ?case
  proof (cases "item_type i = CPP_OR_OR \<or> item_type i = CPP_AND_AND")
    case True
    then obtain d y lo2 R2 where "eval r (skip_up d R1) = Some (y, lo2, R2)" "R' = skip_down d R2"
      using Binary.prems l by (auto simp: Let_def split: option.splits prod.splits if_splits)
    then show ?thesis
      using Binary.IH l keeps_skip(1) by (meson keeps_trans)
  next
    case False
    then obtain y lo2 R2 z R3 loc where "eval r R1 = Some (y, lo2, R2)" "binary_value R2 x y (item_type i) loc = Some (z, R3)"
      "R' = overflow_diag z R3"
      using Binary.prems l by (auto split: option.splits prod.splits if_splits)
    then show ?thesis
      using Binary.IH l keeps_ops by (meson keeps_trans)
  qed
next
  case (Cond i j c a b)
  then obtain x lo1 R1 y lo2 R2 z lo3 R3 where
    e: "eval c R = Some (x, lo1, R1)" "eval a (skip_up (num_zerop x) R1) = Some (y, lo2, R2)"
    "eval b (if \<not> num_zerop x then skip_up True R2 else skip_down True R2) = Some (z, lo3, R3)"
    "R' = (if \<not> num_zerop x then skip_down True R3 else R3)"
    by (auto simp: Let_def split: option.splits prod.splits if_splits)
  note k = Cond.IH(1)[OF e(1)] Cond.IH(2)[OF e(2)] Cond.IH(3)[OF e(3)]
  show ?case
    using k e(4) by (cases "num_zerop x") (auto simp: keeps_def skip_up_def skip_down_def)
qed

end
