(* ===== verification/Cpp_Parse.thy ===== *)
theory Cpp_Parse
  imports Cpp_Eval
begin

text \<open>
  The operator-precedence parser refines the evaluator on trees: parsing the tokens of a
  well-formed tree leaves the operators of its right edge on the stack, and reducing them with any
  operator of lower priority gives the value of the tree.
\<close>

section \<open>The operator table\<close>

lemmas optab_simps = optab_at_def optab_def op_plain_def op_prefix_def op_left_def op_left_promo_def

lemma binary_optab:
  assumes "t \<in> binary_types"
  shows "prio (optab_at t) = (if t = CPP_COMMA then 4 else binary_level t)" "LEFT_ASSOC (optab_at t)"
    "\<not> NO_L_OPERAND (optab_at t)"
  using assms by (auto simp: binary_types_def binary_level_def optab_simps)

lemma unary_optab:
  assumes "i \<in> unary_types" "op = token_op i True"
  shows "prio (optab_at op) = 16" "\<not> LEFT_ASSOC (optab_at op)" "NO_L_OPERAND (optab_at op)"
    "op \<in> {CPP_UPLUS, CPP_UMINUS, CPP_NOT, CPP_COMPL}"
  using assms by (auto simp: unary_types_def token_op_def optab_simps)

lemma optab_max: "CPP_EQ < op \<Longrightarrow> op \<le> CPP_UMINUS \<Longrightarrow> prio (optab_at op) \<le> 16"
  by (cases op) (simp_all add: optab_simps less_cpp_ttype_def less_eq_cpp_ttype_def)

text \<open>The threshold below which an operator reduces the right edge of a tree.\<close>

fun edge :: "pp_expr \<Rightarrow> nat" where
  "edge (Unary i e) = 16"
| "edge (Binary i l r) = prio (optab_at (item_type i))"
| "edge (Cond i j c a b) = 4"
| "edge _ = 17"

text \<open>The operators under which a tree may be parsed.\<close>

fun accepts :: "cpp_ttype \<Rightarrow> pp_expr \<Rightarrow> bool" where
  "accepts op (Binary i l r) =
     (if item_type i = CPP_COMMA then prio (optab_at op) < 4 \<or> op = CPP_QUERY
      else prio (optab_at op) < binary_level (item_type i))"
| "accepts op (Cond i j c a b) = (prio (optab_at op) \<le> 4)"
| "accepts op _ = True"

lemma binary_level_bounds: "t \<noteq> CPP_COMMA \<Longrightarrow> 5 \<le> binary_level t" "binary_level t \<le> 15" "3 \<le> binary_level t"
  "binary_level CPP_COMMA = 3"
  by (simp_all add: binary_level_def)

lemma edge_level: "wf_expr e \<Longrightarrow> level e \<le> edge e \<and> 4 \<le> edge e"
  using binary_optab(1) binary_level_bounds by (cases e) (auto simp: binary_level_def)

lemma query_optab: "prio (optab_at CPP_QUERY) = 4" "\<not> LEFT_ASSOC (optab_at CPP_QUERY)" "\<not> NO_L_OPERAND (optab_at CPP_QUERY)"
  "prio (optab_at CPP_COLON) = 4" "LEFT_ASSOC (optab_at CPP_COLON)" "\<not> NO_L_OPERAND (optab_at CPP_COLON)"
  "prio (optab_at CPP_OPEN_PAREN) = 1" "NO_L_OPERAND (optab_at CPP_OPEN_PAREN)"
  "prio (optab_at CPP_CLOSE_PAREN) = 0" "\<not> NO_L_OPERAND (optab_at CPP_CLOSE_PAREN)" "\<not> LEFT_ASSOC (optab_at CPP_CLOSE_PAREN)"
  "prio (optab_at CPP_EOF) = 0" "\<not> NO_L_OPERAND (optab_at CPP_EOF)" "\<not> LEFT_ASSOC (optab_at CPP_EOF)"
  by (simp_all add: optab_simps)

lemma accepts_level:
  assumes "wf_expr e" "n \<le> level e" "prio (optab_at op) < n \<or> (prio (optab_at op) \<le> 4 \<and> 4 \<le> level e)" "3 < n"
  shows "accepts op e"
proof (cases e)
  case (Binary i l r)
  with assms binary_level_bounds(1)[of "item_type i"] show ?thesis by (auto simp: binary_level_bounds(4))
qed (use assms in auto)

lemma accepts_left:
  assumes "accepts op (Binary i l r)" "wf_expr (Binary i l r)"
  shows "accepts op l"
proof (cases "item_type i = CPP_COMMA")
  case True
  then have "prio (optab_at op) \<le> 4"
    using assms(1) query_optab(1) by auto
  then show ?thesis
    using True assms by (cases l) (auto dest: binary_level_bounds(1) le_less_trans)
next
  case False
  then have "5 \<le> binary_level (item_type i)" by (rule binary_level_bounds(1))
  then show ?thesis
    using False assms accepts_level[of l "binary_level (item_type i)" op] by simp
qed

lemma accepts_right:
  assumes "wf_expr (Binary i l r)"
  shows "accepts (item_type i) r"
proof (cases "item_type i = CPP_COMMA")
  case True
  then have "prio (optab_at (item_type i)) \<le> 4" "4 \<le> level r"
    using assms binary_optab(1)[of "item_type i"] by (simp_all add: binary_level_bounds(4))
  then show ?thesis
    using accepts_level[of r 4 "item_type i"] assms by simp
next
  case False
  then show ?thesis
    using accepts_level[of r "level r" "item_type i"] binary_optab(1)[of "item_type i"] assms binary_level_bounds(1)[of "item_type i"] by simp
qed

lemma accepts_low: "prio (optab_at op) \<le> 1 \<Longrightarrow> accepts op e"
proof (cases e)
  case (Binary i l r)
  then show "prio (optab_at op) \<le> 1 \<Longrightarrow> accepts op e"
    using binary_level_bounds(1)[of "item_type i"] by auto
qed simp_all

lemma accepts_unary: "level e = 16 \<Longrightarrow> accepts op e"
proof (cases e)
  case (Binary i l r)
  then show "level e = 16 \<Longrightarrow> accepts op e"
    using binary_level_bounds(2)[of "item_type i"] by auto
qed simp_all

lemma accepts_cond:
  assumes "wf_expr (Cond i j c a b)" "accepts op (Cond i j c a b)"
  shows "accepts op c" "accepts CPP_QUERY a" "accepts CPP_COLON b"
proof -
  show "accepts op c" "accepts CPP_COLON b"
    using assms accepts_level[of c "level c" op] accepts_level[of b 4 CPP_COLON] query_optab by simp_all
  show "accepts CPP_QUERY a"
  proof (cases a)
    case (Binary i' l r)
    then show ?thesis using query_optab(1) binary_level_bounds(1)[of "item_type i'"] by auto
  qed (simp_all add: query_optab)
qed

section \<open>Steps of the parser\<close>

definition stack_op :: "op \<Rightarrow> bool" where
  "stack_op tp \<longleftrightarrow> CPP_EQ < op_op tp \<and> op_op tp \<le> CPP_UMINUS"

definition new_op :: "pp_item \<Rightarrow> cpp_ttype \<Rightarrow> op" where
  "new_op i op = \<lparr>op_token = item_token i, op_value = None, op_loc = item_loc i, op_op = op\<rparr>"

definition give :: "cpp_num \<Rightarrow> location_t option \<Rightarrow> op \<Rightarrow> op" where
  "give v lo tp = tp\<lparr>op_value := Some v, op_loc := override (op_loc tp) lo\<rparr>"

lemma give_simps [simp]: "op_value (give v lo tp) = Some v" "op_op (give v lo tp) = op_op tp"
  "op_loc (give v lo tp) = override (op_loc tp) lo" "give v lo (give w lo' tp) = give v (case lo of None \<Rightarrow> lo' | Some l \<Rightarrow> lo) tp"
  "stack_op (give v lo tp) = stack_op tp"
  by (simp_all add: give_def override_def stack_op_def split: option.splits)

lemma override_simps [simp]: "override l None = l" "override l (Some x) = x" "override (override l lo) lo' = override l (case lo' of None \<Rightarrow> lo | Some x \<Rightarrow> lo')"
  by (simp_all add: override_def split: option.splits)

lemma get_item: "tokens r = i # ts \<Longrightarrow> cpp_get_token_with_location r = (i, setpos ts (i # token_run r) (item_context i) r)"
  by (simp add: cpp_get_token_with_location_def setpos_def)

lemma parse_operand:
  assumes "tokens r = i # ts" "item_type i \<in> operand_types"
    "eval_token (setpos ts (i # token_run r) (item_context i) r) (item_token i) (item_loc i) = (v, r')"
  shows "parse_loop is_if r (tp # rest) True n saw = parse_loop is_if r' (give v None tp # rest) False (n + 1) saw"
  using assms by (subst parse_loop.simps) (simp add: get_item give_def)

lemma parse_operator:
  assumes "tokens r = i # ts" "item_type i \<notin> operand_types" "op = token_op (item_type i) w"
    "operator_error is_if (item_type i) op (op_op tp) w = None"
    "reduce (setpos ts (i # token_run r) (item_context i) r) (tp # rest) op = Returns (Some s, r1)"
    "op \<noteq> CPP_EOF" "op \<noteq> CPP_CLOSE_PAREN" "shift_skip r1 s op = Some (Inr r2)"
  shows "\<exists>saw'. parse_loop is_if r (tp # rest) w n saw = parse_loop is_if r2 (new_op i op # s) True (n + 1) saw'"
  using assms by (subst parse_loop.simps) (auto simp: get_item new_op_def Let_def)

lemma parse_close:
  assumes "tokens r = i # ts" "item_type i = CPP_CLOSE_PAREN"
    "reduce (setpos ts (i # token_run r) (item_context i) r) (tp # rest) CPP_CLOSE_PAREN = Returns (Some s, r1)"
  shows "parse_loop is_if r (tp # rest) False n saw = parse_loop is_if r1 s False (n + 1) saw"
proof -
  have "operator_error is_if CPP_CLOSE_PAREN CPP_CLOSE_PAREN t False = None" for t
    by (simp add: operator_error_def query_optab less_eq_cpp_ttype_def)
  with assms show ?thesis
    by (subst parse_loop.simps) (simp add: get_item Let_def token_op_def operand_types_def)
qed

lemma reduce_op:
  "stack_op tp \<Longrightarrow> op \<noteq> CPP_OPEN_PAREN \<Longrightarrow>
   reduce r (tp # rest) op = reduce_loop (prio (optab_at op) - of_bool (LEFT_ASSOC (optab_at op))) op r (tp # rest)"
  "stack_op tp \<Longrightarrow> reduce r (tp # rest) CPP_OPEN_PAREN = Returns (Some (tp # rest), r)"
  by (auto simp: reduce_def stack_op_def)

lemma reduce_stop:
  "\<not> p < prio (optab_at (op_op tp)) \<Longrightarrow> op \<noteq> CPP_CLOSE_PAREN \<Longrightarrow> reduce_loop p op r (tp # rest) = Returns (Some (tp # rest), r)"
  by (simp add: reduce_loop.simps)

lemma reduce_query:
  "p < 4 \<Longrightarrow> op_op tp = CPP_QUERY \<Longrightarrow> op \<in> {CPP_COMMA, CPP_COLON} \<Longrightarrow> reduce_loop p op r (tp # rest) = Returns (Some (tp # rest), r)"
  by (auto simp: reduce_loop.simps reduce_turn_def promotion_checked_def optab_simps)

section \<open>The right edge\<close>

text \<open>
  A stack with its reader settles as another when reducing it below a priority is the same as
  reducing the other.
\<close>

definition settles :: "nat \<Rightarrow> cpp_reader \<Rightarrow> op list \<Rightarrow> cpp_reader \<Rightarrow> op list \<Rightarrow> bool" where
  "settles q r1 s1 r2 s2 \<longleftrightarrow>
     (\<forall>p op ts run c. p < q \<longrightarrow> reduce_loop p op (setpos ts run c r1) s1 = reduce_loop p op (setpos ts run c r2) s2)"

lemma settles_refl [simp]: "settles q r s r s"
  by (simp add: settles_def)

lemma settles_step:
  assumes "settles q r1 s1 r2 s2" "q' \<le> q"
    "\<And>p op ts run c. p < q' \<Longrightarrow> reduce_loop p op (setpos ts run c r2) s2 = reduce_loop p op (setpos ts run c r3) s3"
  shows "settles q' r1 s1 r3 s3"
  using assms by (auto simp: settles_def)

text \<open>One turn of the reduction loop for each operator, on the stack that the operands have left.\<close>

lemma reduced_give: "reduced tp below rest v r = Continue (give v (Some (op_loc tp)) below # rest) (overflow_diag v r)"
  by (simp add: reduced_def overflow_diag_def give_def)

lemma promotion_silent: "\<not> warn_num_sign_change (opts r) \<Longrightarrow> promotion_checked r tp rest = Some r"
  by (simp add: promotion_checked_def)

lemma new_op_simps [simp]: "op_op (new_op i op) = op" "op_loc (new_op i op) = item_loc i"
  by (simp_all add: new_op_def)

lemma turn_unary:
  assumes "\<not> warn_num_sign_change (opts r)" "item_type i \<in> unary_types" "op = unary_op i" "num_unary_op r v op = (v', r')" "p < 16"
  shows "reduce_loop p o' (setpos ts run c r) (give v lo (new_op i op) # tp # rest)
    = reduce_loop p o' (setpos ts run c (overflow_diag v' r')) (give v' (Some (override (item_loc i) lo)) tp # rest)"
  using assms unary_optab[of "item_type i" op]
  by (subst reduce_loop.simps)
     (simp add: unary_op_def reduce_turn_def promotion_silent reduce_unary_def reduced_give setpos_ops)

lemma turn_binary:
  assumes "\<not> warn_num_sign_change (opts r)" "item_type i \<in> binary_types" "item_type i \<notin> {CPP_OR_OR, CPP_AND_AND}"
    "binary_value r x y (item_type i) (override (item_loc i) lo) = Some (v, r')" "p < prio (optab_at (item_type i))"
  shows "reduce_loop p o' (setpos ts run c r) (give y lo (new_op i (item_type i)) # give x lx tp # rest)
    = reduce_loop p o' (setpos ts run c (overflow_diag v r')) (give v (Some (override (item_loc i) lo)) tp # rest)"
proof -
  have "reduce_turn (setpos ts run c r) o' (give y lo (new_op i (item_type i))) (give x lx tp # rest)
      = reduce_binary (setpos ts run c r) (give y lo (new_op i (item_type i))) (give x lx tp # rest)"
    using assms(1-3) by (auto simp: reduce_turn_def promotion_silent binary_types_def)
  then show ?thesis
    using assms(4,5) by (subst reduce_loop.simps) (simp add: reduce_binary_def reduced_give setpos_ops)
qed

lemma turn_logical:
  assumes "\<not> warn_num_sign_change (opts r)" "item_type i \<in> {CPP_OR_OR, CPP_AND_AND}" "p < prio (optab_at (item_type i))"
    "decided = (if item_type i = CPP_OR_OR then \<not> num_zerop x else num_zerop x)"
    "b = (if item_type i = CPP_OR_OR then \<not> num_zerop x \<or> \<not> num_zerop y else \<not> num_zerop x \<and> \<not> num_zerop y)"
  shows "reduce_loop p o' (setpos ts run c r) (give y lo (new_op i (item_type i)) # give x lx tp # rest)
    = reduce_loop p o' (setpos ts run c (skip_down decided r)) (give (num_of_bool b) (Some (override (item_loc i) lo)) tp # rest)"
proof -
  have "reduce_turn (setpos ts run c r) o' (give y lo (new_op i (item_type i))) (give x lx tp # rest)
      = reduce_logical (setpos ts run c r) (give y lo (new_op i (item_type i))) (give x lx tp # rest)"
    using assms(1,2) by (auto simp: reduce_turn_def promotion_silent)
  then show ?thesis
    using assms(3-5) by (subst reduce_loop.simps) (auto simp: reduce_logical_def give_def)
qed

lemma turn_colon:
  assumes "\<not> warn_num_sign_change (opts r)" "p < 4" "u = (unsignedp a \<or> unsignedp b)"
  shows "reduce_loop p o' (setpos ts run cx r) (give b lb (new_op j CPP_COLON) # give a la (new_op i CPP_QUERY) # give c lc tp # rest)
    = (if \<not> num_zerop c
       then reduce_loop p o' (setpos ts run cx (skip_down True r)) (give (a\<lparr>unsignedp := u\<rparr>) (Some (override (item_loc i) la)) tp # rest)
       else reduce_loop p o' (setpos ts run cx r) (give (b\<lparr>unsignedp := u\<rparr>) (Some (override (item_loc j) lb)) tp # rest))"
  using assms by (subst reduce_loop.simps) (auto simp: query_optab reduce_turn_def promotion_silent reduce_colon_def give_def)

text \<open>Reading the next operator where one is expected.\<close>

lemma no_operator_error:
  "t \<in> binary_types \<union> {CPP_QUERY, CPP_COLON} \<Longrightarrow> token_op t False = t \<and> t \<notin> operand_types \<and> t \<notin> {CPP_EOF, CPP_CLOSE_PAREN, CPP_OPEN_PAREN}
     \<and> operator_error is_if t t top_op False = None \<and> CPP_EQ < t \<and> t \<le> CPP_UMINUS"
  by (auto simp: binary_types_def token_op_def operand_types_def operator_error_def optab_simps less_eq_cpp_ttype_def less_cpp_ttype_def)

lemma unary_token:
  "t \<in> unary_types \<union> {CPP_OPEN_PAREN} \<Longrightarrow> op = token_op t True \<Longrightarrow> t \<notin> operand_types \<and> operator_error is_if t op top_op True = None
     \<and> op \<noteq> CPP_EOF \<and> op \<noteq> CPP_CLOSE_PAREN \<and> shift_skip r s op = Some (Inr r)"
  by (auto simp: unary_types_def token_op_def operand_types_def operator_error_def optab_simps less_eq_cpp_ttype_def shift_skip_def)

lemma operator_after:
  assumes "settles q r1 (tp1 # s1) r2 s2" "stack_op tp1" "tokens r1 = i # ts" "item_type i \<in> binary_types \<union> {CPP_QUERY, CPP_COLON}"
    "p = prio (optab_at (item_type i)) - of_bool (LEFT_ASSOC (optab_at (item_type i)))" "p < q"
    "\<And>r. reduce_loop p (item_type i) r s2 = Returns (Some s2, r)"
    "\<And>a b c. shift_skip (setpos a b c r2) s2 (item_type i) = Some (Inr (setpos a b c r3))"
  shows "\<exists>r4 saw'. parse_loop is_if r1 (tp1 # s1) False n saw = parse_loop is_if r4 (new_op i (item_type i) # s2) True (n + 1) saw'
     \<and> tokens r4 = ts \<and> strip r4 = strip r3 \<and> stack_op (new_op i (item_type i))"
proof -
  note i = no_operator_error[OF assms(4)]
  let ?r = "setpos ts (i # token_run r1) (item_context i)"
  have "reduce (?r r1) (tp1 # s1) (item_type i) = reduce_loop p (item_type i) (?r r1) (tp1 # s1)"
    using reduce_op(1)[OF assms(2), of "item_type i"] i assms(5) by simp
  also have "\<dots> = Returns (Some s2, ?r r2)"
    using assms(1,6,7) by (simp add: settles_def)
  finally have "\<exists>saw'. parse_loop is_if r1 (tp1 # s1) False n saw = parse_loop is_if (?r r3) (new_op i (item_type i) # s2) True (n + 1) saw'"
    using parse_operator[OF assms(3), of "item_type i" False is_if tp1 s1 s2 "?r r2" "?r r3"] i assms(8) by simp
  then show ?thesis
    using i by (auto simp: stack_op_def)
qed

section \<open>The simulation\<close>

text \<open>
  Parsing a tree where a value is wanted leads to a state where an operator is wanted, whose
  stack settles as the stack of before with the value of the tree stored in its top.
\<close>

definition reached :: "bool \<Rightarrow> pp_expr \<Rightarrow> cpp_reader \<Rightarrow> op \<Rightarrow> op list \<Rightarrow> nat \<Rightarrow> bool \<Rightarrow> pp_item list
    \<Rightarrow> cpp_num \<times> location_t option \<times> cpp_reader \<Rightarrow> bool" where
  "reached is_if e r tp rest n saw ts res \<longleftrightarrow>
     (\<exists>r1 tp1 s1 n' saw' r2.
        parse_loop is_if r (tp # rest) True n saw = parse_loop is_if r1 (tp1 # s1) False n' saw'
        \<and> stack_op tp1 \<and> tokens r1 = ts \<and> strip r2 = snd (snd res)
        \<and> settles (edge e) r1 (tp1 # s1) r2 (give (fst res) (fst (snd res)) tp # rest))"

definition simulated :: "bool \<Rightarrow> pp_expr \<Rightarrow> bool" where
  "simulated is_if e \<longleftrightarrow>
     (\<forall>r tp rest n saw ts res.
        accepts (op_op tp) e \<and> stack_op tp \<and> tokens r = toks e @ ts \<and> \<not> warn_num_sign_change (opts r)
        \<and> eval e (strip r) = Some res \<longrightarrow> reached is_if e r tp rest n saw ts res)"

lemma reachedI:
  "parse_loop is_if r (tp # rest) True n saw = parse_loop is_if r1 (tp1 # s1) False n' saw' \<Longrightarrow> stack_op tp1 \<Longrightarrow>
   tokens r1 = ts \<Longrightarrow> strip r2 = R' \<Longrightarrow> settles (edge e) r1 (tp1 # s1) r2 (give v lo tp # rest) \<Longrightarrow>
   reached is_if e r tp rest n saw ts (v, lo, R')"
  unfolding reached_def by force

lemma reachedE:
  assumes "reached is_if e r tp rest n saw ts (v, lo, R')"
  obtains r1 tp1 s1 n' saw' r2 where
    "parse_loop is_if r (tp # rest) True n saw = parse_loop is_if r1 (tp1 # s1) False n' saw'"
    "stack_op tp1" "tokens r1 = ts" "strip r2 = R'" "settles (edge e) r1 (tp1 # s1) r2 (give v lo tp # rest)"
  using assms unfolding reached_def by auto

lemma simulatedD:
  "simulated is_if e \<Longrightarrow> accepts (op_op tp) e \<Longrightarrow> stack_op tp \<Longrightarrow> tokens r = toks e @ ts \<Longrightarrow> \<not> warn_num_sign_change (opts r) \<Longrightarrow>
   eval e (strip r) = Some res \<Longrightarrow> reached is_if e r tp rest n saw ts res"
  unfolding simulated_def by blast

lemma strip_simps [simp]: "opts (strip r) = opts r" "skip_eval (strip r) = skip_eval r"
  "skip_up b (strip r) = strip (skip_up b r)" "skip_down b (strip r) = strip (skip_down b r)"
  by (simp_all add: strip_setpos)

lemma strip_ops:
  "num_unary_op (strip r) v op = (v', R') \<Longrightarrow> \<exists>r'. num_unary_op r v op = (v', r') \<and> strip r' = R'"
  "binary_value (strip r) x y op loc = Some (v', R') \<Longrightarrow> \<exists>r'. binary_value r x y op loc = Some (v', r') \<and> strip r' = R'"
  "overflow_diag v (strip r) = strip (overflow_diag v r)"
  by (auto simp: strip_setpos setpos_ops map_prod_def split: prod.splits)

lemma eval_opts: "eval e (strip r) = Some (v, lo, R') \<Longrightarrow> strip r2 = R' \<Longrightarrow> opts r2 = opts r"
  using eval_keeps[of e "strip r" v lo R'] by (auto simp: keeps_def)

lemma simulated_atom: "atom_ok i is \<Longrightarrow> simulated is_if (Atom i is)"
  unfolding simulated_def
proof (intro allI impI, elim conjE, goal_cases)
  case (1 r tp rest n saw ts res)
  let ?r = "setpos (is @ ts) (i # token_run r) (item_context i) r"
  obtain v r' where e: "eval_token ?r (item_token i) (item_loc i) = (v, r')" by fastforce
  with 1 have a: "tokens r' = ts" "eval_atom i is (strip r) = (v, strip r')" "item_type i \<in> operand_types"
    unfolding atom_ok_def by (metis setpos_simps(2,6-8))+
  have "parse_loop is_if r (tp # rest) True n saw = parse_loop is_if r' (give v None tp # rest) False (n + 1) saw"
    using 1 a(3) by (intro parse_operand[OF _ _ e]) simp_all
  moreover have "res = (v, None, strip r')"
    using 1 a(2) by simp
  ultimately show ?case
    using reachedI[of is_if r tp rest n saw r' "give v None tp" rest] 1 a(1) by simp
qed

lemma simulated_unary:
  assumes "simulated is_if e" "wf_expr (Unary i e)"
  shows "simulated is_if (Unary i e)"
  unfolding simulated_def
proof (intro allI impI, elim conjE, goal_cases)
  case (1 r tp rest n saw ts res)
  define op where "op = unary_op i"
  note opt = unary_optab[of "item_type i" op]
  obtain v lo R v' R' where e: "eval e (strip r) = Some (v, lo, R)" "num_unary_op R v op = (v', R')"
    "res = (v', Some (override (item_loc i) lo), overflow_diag v' R')"
    using 1 by (auto simp: op_def split: option.splits prod.splits)
  let ?r = "setpos (toks e @ ts) (i # token_run r) (item_context i) r"
  have i: "item_type i \<in> unary_types" "op = token_op (item_type i) True" "stack_op (new_op i op)" "accepts op e" "16 \<le> edge e"
  proof -
    show i: "item_type i \<in> unary_types" "op = token_op (item_type i) True"
      using assms(2) by (simp_all add: op_def unary_op_def)
    show "stack_op (new_op i op)"
      using opt(4)[OF i] by (auto simp: stack_op_def less_eq_cpp_ttype_def less_cpp_ttype_def)
    show "accepts op e" "16 \<le> edge e"
      using assms(2) accepts_unary[of e op] edge_level[of e] by simp_all
  qed
  have "reduce ?r (tp # rest) op = Returns (Some (tp # rest), ?r)"
  proof -
    have "op \<noteq> CPP_OPEN_PAREN" "op \<noteq> CPP_CLOSE_PAREN" "\<not> 16 < prio (optab_at (op_op tp))"
      using opt(4)[OF i(1,2)] optab_max[of "op_op tp"] 1(2) by (auto simp: stack_op_def)
    then show ?thesis
      using reduce_op(1)[OF 1(2), of op] opt(1,2)[OF i(1,2)] by (simp add: reduce_stop)
  qed
  then obtain saw' where "parse_loop is_if r (tp # rest) True n saw = parse_loop is_if ?r (new_op i op # tp # rest) True (n + 1) saw'"
    using parse_operator[of r i "toks e @ ts" op True is_if tp rest "tp # rest" ?r ?r n saw] unary_token[of "item_type i" op] i(1,2) 1(3)
    by auto
  moreover have "reached is_if e ?r (new_op i op) (tp # rest) (n + 1) saw' ts (v, lo, R)"
    using i 1 e(1) by (intro simulatedD[OF assms(1)]) simp_all
  then obtain r1 tp1 s1 n' sw r2 where p:
    "parse_loop is_if ?r (new_op i op # tp # rest) True (n + 1) saw' = parse_loop is_if r1 (tp1 # s1) False n' sw"
    "stack_op tp1" "tokens r1 = ts" "strip r2 = R" "settles (edge e) r1 (tp1 # s1) r2 (give v lo (new_op i op) # tp # rest)"
    by (rule reachedE)
  moreover obtain r3 where r3: "num_unary_op r2 v op = (v', r3)" "strip r3 = R'"
    using strip_ops(1) e(2) p(4) by blast
  moreover have "settles 16 r1 (tp1 # s1) (overflow_diag v' r3) (give v' (Some (override (item_loc i) lo)) tp # rest)"
    using turn_unary[OF _ i(1) op_def r3(1)] eval_opts[OF e(1) p(4)] 1 i(5) by (intro settles_step[OF p(5)]) auto
  ultimately show ?case
    unfolding e(3) by (intro reachedI[of is_if r tp rest n saw r1 tp1 s1 n' sw ts "overflow_diag v' r3"])
      (simp_all add: strip_ops(3)[symmetric])
qed

lemma turn_paren:
  assumes "\<not> warn_num_sign_change (opts r)"
  shows "reduce_loop 0 CPP_CLOSE_PAREN (setpos ts run c r) (give v lo (new_op i CPP_OPEN_PAREN) # tp # rest)
    = Returns (Some (give v (Some (override (item_loc i) lo)) tp # rest), setpos ts run c r)"
  using assms by (subst reduce_loop.simps) (simp add: query_optab reduce_turn_def promotion_silent reduce_paren_def give_def)

lemma simulated_paren:
  assumes "simulated is_if e" "wf_expr (Paren i j e)"
  shows "simulated is_if (Paren i j e)"
  unfolding simulated_def
proof (intro allI impI, elim conjE, goal_cases)
  case (1 r tp rest n saw ts res)
  let ?op = "new_op i CPP_OPEN_PAREN" and ?r = "setpos (toks e @ j # ts) (i # token_run r) (item_context i) r"
  obtain v lo R where e: "eval e (strip r) = Some (v, lo, R)" "res = (v, Some (override (item_loc i) lo), R)"
    using 1 by (auto split: option.splits prod.splits)
  have op: "stack_op ?op" "accepts (op_op ?op) e"
    using accepts_low[of CPP_OPEN_PAREN] by (simp_all add: query_optab stack_op_def less_eq_cpp_ttype_def less_cpp_ttype_def)
  have "token_op (item_type i) True = CPP_OPEN_PAREN"
    using assms(2) by (simp add: token_op_def)
  then obtain saw' where p0: "parse_loop is_if r (tp # rest) True n saw = parse_loop is_if ?r (?op # tp # rest) True (n + 1) saw'"
    using parse_operator[of r i "toks e @ j # ts" CPP_OPEN_PAREN True is_if tp rest "tp # rest" ?r ?r n saw]
      unary_token[of "item_type i" CPP_OPEN_PAREN] assms(2) 1(2,3) by (auto simp: reduce_op(2))
  have "reached is_if e ?r ?op (tp # rest) (n + 1) saw' (j # ts) (v, lo, R)"
    using op 1 e(1) by (intro simulatedD[OF assms(1)]) simp_all
  then obtain r1 tp1 s1 n' sw r2 where p:
    "parse_loop is_if ?r (?op # tp # rest) True (n + 1) saw' = parse_loop is_if r1 (tp1 # s1) False n' sw"
    "stack_op tp1" "tokens r1 = j # ts" "strip r2 = R" "settles (edge e) r1 (tp1 # s1) r2 (give v lo ?op # tp # rest)"
    by (rule reachedE)
  let ?q = "setpos ts (j # token_run r1) (item_context j)"
  have "reduce (?q r1) (tp1 # s1) CPP_CLOSE_PAREN = reduce_loop 0 CPP_CLOSE_PAREN (?q r2) (give v lo ?op # tp # rest)"
    using reduce_op(1)[OF p(2)] p(5) edge_level[of e] assms(2) by (simp add: query_optab settles_def)
  also have "\<dots> = Returns (Some (give v (Some (override (item_loc i) lo)) tp # rest), ?q r2)"
    using eval_opts[OF e(1) p(4)] 1 by (intro turn_paren) simp
  finally have p1: "parse_loop is_if r1 (tp1 # s1) False n' sw
     = parse_loop is_if (?q r2) (give v (Some (override (item_loc i) lo)) tp # rest) False (n' + 1) sw"
    using assms(2) by (intro parse_close[OF p(3)]) simp_all
  show ?case
    unfolding e(2) using p(4) 1(2) by (intro reachedI[OF trans[OF p0 trans[OF p(1) p1]], where ?r2.0 = "?q r2"]) simp_all
qed

text \<open>The left operand of a binary operator has been parsed when the operator comes.\<close>

lemma binary_operator_stops:
  assumes "accepts (op_op tp) (Binary i l r)" "item_type i \<in> binary_types" "p = prio (optab_at (item_type i)) - 1" "op_op x = op_op tp"
  shows "reduce_loop p (item_type i) q (x # rest) = Returns (Some (x # rest), q)"
proof (cases "item_type i = CPP_COMMA \<and> op_op tp = CPP_QUERY")
  case True
  then show ?thesis
    using assms binary_optab(1)[of CPP_COMMA] by (intro reduce_query) simp_all
next
  case False
  have "item_type i \<noteq> CPP_CLOSE_PAREN"
    using no_operator_error[of "item_type i"] assms(2) by auto
  then show ?thesis
    using False assms binary_optab(1)[of "item_type i"] by (intro reduce_stop) (auto split: if_splits)
qed

lemma shift_skip_binary:
  assumes "item_type i \<in> binary_types"
  shows "shift_skip (setpos a b c r) (give x lo tp # rest) (item_type i)
    = Some (Inr (setpos a b c (if item_type i \<in> {CPP_OR_OR, CPP_AND_AND}
                               then skip_up (if item_type i = CPP_OR_OR then \<not> num_zerop x else num_zerop x) r else r)))"
  using assms by (auto simp: shift_skip_def binary_types_def)

lemma edge_left: "wf_expr (Binary i l r) \<Longrightarrow> prio (optab_at (item_type i)) - 1 < edge l"
  using edge_level[of l] binary_optab(1)[of "item_type i"] binary_level_bounds(3)[of "item_type i"] by auto

lemma edge_right: "wf_expr (Binary i l r) \<Longrightarrow> prio (optab_at (item_type i)) \<le> edge r"
  using edge_level[of r] binary_optab(1)[of "item_type i"] by auto

text \<open>Both operands parsed: what is left is one turn of the reduction.\<close>

lemma reached_binary:
  assumes "simulated is_if l" "simulated is_if q" "wf_expr (Binary i l q)" "accepts (op_op tp) (Binary i l q)" "stack_op tp"
    "tokens r = toks (Binary i l q) @ ts" "\<not> warn_num_sign_change (opts r)" "eval l (strip r) = Some (x, lx, R)"
    "logical = (item_type i = CPP_OR_OR \<or> item_type i = CPP_AND_AND)"
    "decided = (if item_type i = CPP_OR_OR then \<not> num_zerop x else num_zerop x)"
    "eval q (if logical then skip_up decided R else R) = Some (y, lo, R2)"
    "\<And>r2. strip r2 = R2 \<Longrightarrow> \<exists>r3. strip r3 = R3 \<and> (\<forall>p o' ts run c. p < prio (optab_at (item_type i)) \<longrightarrow>
        reduce_loop p o' (setpos ts run c r2) (give y lo (new_op i (item_type i)) # give x lx tp # rest)
        = reduce_loop p o' (setpos ts run c r3) (give v lv tp # rest))"
  shows "reached is_if (Binary i l q) r tp rest n saw ts (v, lv, R3)"
proof -
  let ?op = "new_op i (item_type i)" and ?t = "item_type i"
  have i: "?t \<in> binary_types" "wf_expr l" "wf_expr q"
    using assms(3) by simp_all
  have "reached is_if l r tp rest n saw (i # toks q @ ts) (x, lx, R)"
    using assms(3-8) accepts_left[OF assms(4,3)] by (intro simulatedD[OF assms(1)]) simp_all
  then obtain r1 tp1 s1 n1 w1 r2 where l:
    "parse_loop is_if r (tp # rest) True n saw = parse_loop is_if r1 (tp1 # s1) False n1 w1"
    "stack_op tp1" "tokens r1 = i # toks q @ ts" "strip r2 = R" "settles (edge l) r1 (tp1 # s1) r2 (give x lx tp # rest)"
    by (rule reachedE)
  let ?r3 = "if logical then skip_up decided r2 else r2"
  have skip: "shift_skip (setpos a b c r2) (give x lx tp # rest) ?t = Some (Inr (setpos a b c ?r3))" for a b c
    using shift_skip_binary[OF i(1)] assms(9,10) by auto
  have stop: "reduce_loop (prio (optab_at ?t) - 1) ?t r' (give x lx tp # rest) = Returns (Some (give x lx tp # rest), r')" for r'
    by (rule binary_operator_stops[OF assms(4) i(1) refl]) simp
  have "prio (optab_at ?t) - 1 = prio (optab_at ?t) - of_bool (LEFT_ASSOC (optab_at ?t))"
    using binary_optab(2)[OF i(1)] by simp
  then obtain r4 w2 where o: "parse_loop is_if r1 (tp1 # s1) False n1 w1 = parse_loop is_if r4 (?op # give x lx tp # rest) True (n1 + 1) w2"
    "tokens r4 = toks q @ ts" "strip r4 = strip ?r3" "stack_op ?op"
    using operator_after[OF l(5,2,3) _ _ edge_left[OF assms(3)] stop skip, of is_if n1 w1] i(1) by blast
  have "opts r4 = opts r"
    using arg_cong[OF o(3), of opts] eval_opts[OF assms(8) l(4)] by (auto simp: skip_up_def split: if_splits)
  moreover have "eval q (strip r4) = Some (y, lo, R2)"
    using o(3) l(4) assms(11) by (auto split: if_splits)
  ultimately have "reached is_if q r4 ?op (give x lx tp # rest) (n1 + 1) w2 ts (y, lo, R2)"
    using accepts_right[OF assms(3)] o(2,4) assms(7) by (intro simulatedD[OF assms(2)]) simp_all
  then obtain r5 tp5 s5 n5 w5 r6 where q:
    "parse_loop is_if r4 (?op # give x lx tp # rest) True (n1 + 1) w2 = parse_loop is_if r5 (tp5 # s5) False n5 w5"
    "stack_op tp5" "tokens r5 = ts" "strip r6 = R2" "settles (edge q) r5 (tp5 # s5) r6 (give y lo ?op # give x lx tp # rest)"
    by (rule reachedE)
  obtain r7 where r7: "strip r7 = R3" "\<forall>p o' ts run c. p < prio (optab_at ?t) \<longrightarrow>
      reduce_loop p o' (setpos ts run c r6) (give y lo ?op # give x lx tp # rest) = reduce_loop p o' (setpos ts run c r7) (give v lv tp # rest)"
    using assms(12)[OF q(4)] by blast
  have "settles (prio (optab_at ?t)) r5 (tp5 # s5) r7 (give v lv tp # rest)"
    by (rule settles_step[OF q(5) edge_right[OF assms(3)]]) (use r7(2) in blast)
  then show ?thesis
    using q(2,3) r7(1) by (intro reachedI[OF trans[OF l(1) trans[OF o(1) q(1)]]]) simp_all
qed

lemma simulated_binary:
  assumes "simulated is_if l" "simulated is_if q" "wf_expr (Binary i l q)"
  shows "simulated is_if (Binary i l q)"
  unfolding simulated_def
proof (intro allI impI, elim conjE, goal_cases)
  case (1 r tp rest n saw ts res)
  define logical where "logical = (item_type i = CPP_OR_OR \<or> item_type i = CPP_AND_AND)"
  obtain x lx R where l: "eval l (strip r) = Some (x, lx, R)"
    using 1 by (auto split: option.splits)
  define decided where "decided = (if item_type i = CPP_OR_OR then \<not> num_zerop x else num_zerop x)"
  obtain y lo R2 where q: "eval q (if logical then skip_up decided R else R) = Some (y, lo, R2)"
    using 1 l by (auto simp: Let_def logical_def decided_def split: option.splits if_splits)
  have opts: "opts r2 = opts r" if "strip r2 = R2" for r2
    using eval_keeps[OF l] eval_keeps[OF q] that by (auto simp: keeps_def skip_up_def split: if_splits)
  note reached = reached_binary[OF assms 1(1-4) l logical_def decided_def q]
  show ?case
  proof (cases logical)
    case True
    define b where "b = (if item_type i = CPP_OR_OR then \<not> num_zerop x \<or> \<not> num_zerop y else \<not> num_zerop x \<and> \<not> num_zerop y)"
    have res: "res = (num_of_bool b, Some (override (item_loc i) lo), skip_down decided R2)"
      using 1(5) True l q by (auto simp: Let_def logical_def decided_def b_def split: if_splits)
    show ?thesis
      unfolding res
    proof (rule reached)
      fix r2 assume r2: "strip r2 = R2"
      show "\<exists>r3. strip r3 = skip_down decided R2 \<and> (\<forall>p o' ts run c. p < prio (optab_at (item_type i)) \<longrightarrow>
          reduce_loop p o' (setpos ts run c r2) (give y lo (new_op i (item_type i)) # give x lx tp # rest)
          = reduce_loop p o' (setpos ts run c r3) (give (num_of_bool b) (Some (override (item_loc i) lo)) tp # rest))"
        using r2 True opts[OF r2] 1(4) by (intro exI[of _ "skip_down decided r2"] conjI allI impI turn_logical decided_def b_def)
          (auto simp: logical_def)
    qed
  next
    case False
    obtain v R3 where v: "binary_value R2 x y (item_type i) (override (item_loc i) lo) = Some (v, R3)"
      "res = (v, Some (override (item_loc i) lo), overflow_diag v R3)"
      using 1(5) False l q by (auto simp: logical_def split: option.splits prod.splits)
    show ?thesis
      unfolding v(2)
    proof (rule reached)
      fix r2 assume r2: "strip r2 = R2"
      then obtain r3 where r3: "binary_value r2 x y (item_type i) (override (item_loc i) lo) = Some (v, r3)" "strip r3 = R3"
        using strip_ops(2) v(1) by blast
      show "\<exists>r3. strip r3 = overflow_diag v R3 \<and> (\<forall>p o' ts run c. p < prio (optab_at (item_type i)) \<longrightarrow>
          reduce_loop p o' (setpos ts run c r2) (give y lo (new_op i (item_type i)) # give x lx tp # rest)
          = reduce_loop p o' (setpos ts run c r3) (give v (Some (override (item_loc i) lo)) tp # rest))"
        using False opts[OF r2] 1(4) assms(3) r3
        by (intro exI[of _ "overflow_diag v r3"] conjI allI impI turn_binary) (auto simp: logical_def strip_ops(3)[symmetric])
    qed
  qed
qed

text \<open>The condition and the first branch of a conditional, up to the colon.\<close>

lemma reached_query:
  assumes "simulated is_if c" "simulated is_if a" "wf_expr (Cond i j c a b)" "accepts (op_op tp) (Cond i j c a b)" "stack_op tp"
    "tokens r = toks (Cond i j c a b) @ ts" "\<not> warn_num_sign_change (opts r)"
    "eval c (strip r) = Some (x, lx, R)" "eval a (skip_up (num_zerop x) R) = Some (y, ly, R2)"
  obtains r4 n' w r5 r6 where
    "parse_loop is_if r (tp # rest) True n saw
       = parse_loop is_if r4 (new_op j CPP_COLON # give y ly (new_op i CPP_QUERY) # give x lx tp # rest) True n' w"
    "tokens r4 = toks b @ ts" "strip r4 = strip r5" "r5 = (if \<not> num_zerop x then skip_up True r6 else skip_down True r6)" "strip r6 = R2"
proof -
  have ij: "item_type i = CPP_QUERY" "item_type j = CPP_COLON" "wf_expr c" "wf_expr a" "4 < level c"
    using assms(3) by simp_all
  note ac = accepts_cond[OF assms(3,4)]
  have "reached is_if c r tp rest n saw (i # toks a @ j # toks b @ ts) (x, lx, R)"
    using assms(4-8) ac(1) by (intro simulatedD[OF assms(1)]) simp_all
  then obtain r1 tp1 s1 n1 w1 r2 where c:
    "parse_loop is_if r (tp # rest) True n saw = parse_loop is_if r1 (tp1 # s1) False n1 w1"
    "stack_op tp1" "tokens r1 = i # toks a @ j # toks b @ ts" "strip r2 = R" "settles (edge c) r1 (tp1 # s1) r2 (give x lx tp # rest)"
    by (rule reachedE)
  have stop: "reduce_loop 4 (item_type i) r' (give x lx tp # rest) = Returns (Some (give x lx tp # rest), r')" for r'
    using assms(4) ij(1) by (intro reduce_stop) simp_all
  have skip: "shift_skip (setpos p q s r2) (give x lx tp # rest) (item_type i) = Some (Inr (setpos p q s (skip_up (num_zerop x) r2)))" for p q s
    by (simp add: shift_skip_def ij(1))
  have "4 < edge c"
    using edge_level[OF ij(3)] ij(5) by simp
  from operator_after[OF c(5,2,3) _ _ this stop skip, of is_if n1 w1] obtain r3 w2 where q:
    "parse_loop is_if r1 (tp1 # s1) False n1 w1 = parse_loop is_if r3 (new_op i CPP_QUERY # give x lx tp # rest) True (n1 + 1) w2"
    "tokens r3 = toks a @ j # toks b @ ts" "strip r3 = strip (skip_up (num_zerop x) r2)" "stack_op (new_op i CPP_QUERY)"
    by (auto simp: ij(1) query_optab)
  have "opts r3 = opts r"
    using arg_cong[OF q(3), of opts] eval_opts[OF assms(8) c(4)] by (auto simp: skip_up_def split: if_splits)
  moreover have ea: "eval a (strip r3) = Some (y, ly, R2)"
    using q(3) c(4) assms(9) by auto
  ultimately have "reached is_if a r3 (new_op i CPP_QUERY) (give x lx tp # rest) (n1 + 1) w2 (j # toks b @ ts) (y, ly, R2)"
    using ac(2) q(2,4) assms(7) by (intro simulatedD[OF assms(2)]) simp_all
  then obtain r5 tp5 s5 n5 w5 r6 where a:
    "parse_loop is_if r3 (new_op i CPP_QUERY # give x lx tp # rest) True (n1 + 1) w2 = parse_loop is_if r5 (tp5 # s5) False n5 w5"
    "stack_op tp5" "tokens r5 = j # toks b @ ts" "strip r6 = R2"
    "settles (edge a) r5 (tp5 # s5) r6 (give y ly (new_op i CPP_QUERY) # give x lx tp # rest)"
    by (rule reachedE)
  let ?s = "give y ly (new_op i CPP_QUERY) # give x lx tp # rest" and ?r = "if \<not> num_zerop x then skip_up True r6 else skip_down True r6"
  have stop: "reduce_loop 3 (item_type j) r' ?s = Returns (Some ?s, r')" for r'
    by (intro reduce_query) (simp_all add: ij(2))
  have skip: "shift_skip (setpos p q s r6) ?s (item_type j) = Some (Inr (setpos p q s ?r))" for p q s
    by (simp add: shift_skip_def ij(2))
  have "3 < edge a"
    using edge_level[OF ij(4)] by simp
  from operator_after[OF a(5,2,3) _ _ this stop skip, of is_if n5 w5] obtain r7 w7 where
    "parse_loop is_if r5 (tp5 # s5) False n5 w5 = parse_loop is_if r7 (new_op j CPP_COLON # ?s) True (n5 + 1) w7"
    "tokens r7 = toks b @ ts" "strip r7 = strip ?r"
    by (auto simp: ij(2) query_optab)
  then show thesis
    using that[of r7 "n5 + 1" w7 ?r r6] c(1) q(1) a(1,4) by simp
qed

lemma simulated_cond:
  assumes "simulated is_if c" "simulated is_if a" "simulated is_if b" "wf_expr (Cond i j c a b)"
  shows "simulated is_if (Cond i j c a b)"
  unfolding simulated_def
proof (intro allI impI, elim conjE, goal_cases)
  case (1 r tp rest n saw ts res)
  obtain x lx R y ly R2 z lz R3 where
    e: "eval c (strip r) = Some (x, lx, R)" "eval a (skip_up (num_zerop x) R) = Some (y, ly, R2)"
    "eval b (if \<not> num_zerop x then skip_up True R2 else skip_down True R2) = Some (z, lz, R3)"
    using 1 by (auto simp: Let_def split: option.splits prod.splits if_splits)
  let ?s = "give y ly (new_op i CPP_QUERY) # give x lx tp # rest"
  obtain r4 n4 w4 r5 r6 where p:
    "parse_loop is_if r (tp # rest) True n saw = parse_loop is_if r4 (new_op j CPP_COLON # ?s) True n4 w4"
    "tokens r4 = toks b @ ts" "strip r4 = strip r5" "r5 = (if \<not> num_zerop x then skip_up True r6 else skip_down True r6)" "strip r6 = R2"
    using reached_query[OF assms(1,2,4) 1(1-4) e(1,2)] by metis
  have o4: "opts r4 = opts r"
    using eval_keeps[OF e(1)] eval_keeps[OF e(2)] arg_cong[OF p(3), of opts] p(4,5)
    by (auto simp: keeps_def skip_up_def skip_down_def split: if_splits)
  have eb: "eval b (strip r4) = Some (z, lz, R3)"
    using e(3) p(3-5) by auto
  have "stack_op (new_op j CPP_COLON)"
    by (simp add: stack_op_def less_eq_cpp_ttype_def less_cpp_ttype_def)
  then have "reached is_if b r4 (new_op j CPP_COLON) ?s n4 w4 ts (z, lz, R3)"
    using accepts_cond(3)[OF assms(4) 1(1)] p(2) 1(4) o4 eb by (intro simulatedD[OF assms(3)]) simp_all
  then obtain r7 tp7 s7 n7 w7 r8 where b:
    "parse_loop is_if r4 (new_op j CPP_COLON # ?s) True n4 w4 = parse_loop is_if r7 (tp7 # s7) False n7 w7"
    "stack_op tp7" "tokens r7 = ts" "strip r8 = R3" "settles (edge b) r7 (tp7 # s7) r8 (give z lz (new_op j CPP_COLON) # ?s)"
    by (rule reachedE)
  have o8: "\<not> warn_num_sign_change (opts r8)"
    using eval_opts[OF eb b(4)] o4 1(4) by simp
  have eb4: "4 \<le> edge b"
    using edge_level[of b] assms(4) by simp
  define u where "u = (unsignedp y \<or> unsignedp z)"
  define r9 where "r9 = (if \<not> num_zerop x then skip_down True r8 else r8)"
  define v lv where "v = (if \<not> num_zerop x then y\<lparr>unsignedp := u\<rparr> else z\<lparr>unsignedp := u\<rparr>)"
    "lv = Some (if \<not> num_zerop x then override (item_loc i) ly else override (item_loc j) lz)"
  have "settles 4 r7 (tp7 # s7) r9 (give v lv tp # rest)"
    by (rule settles_step[OF b(5) eb4]) (simp add: turn_colon[OF o8 _ u_def] r9_def v_lv_def)
  moreover have "res = (v, lv, strip r9)"
    using 1(5) e b(4) by (auto simp: Let_def u_def r9_def v_lv_def)
  ultimately show ?case
    using b(2,3) by (auto intro!: reachedI[OF trans[OF p(1) b(1)]])
qed

lemma wf_simulated: "wf_expr e \<Longrightarrow> simulated is_if e"
proof (induction e)
  case (Atom i "is")
  then show ?case by (simp add: simulated_atom)
next
  case (Paren i j e)
  then show ?case by (intro simulated_paren) simp_all
next
  case (Unary i e)
  then show ?case by (intro simulated_unary) simp_all
next
  case (Binary i l r)
  then show ?case by (intro simulated_binary) simp_all
next
  case (Cond i j c a b)
  then show ?case by (intro simulated_cond) simp_all
qed

section \<open>The whole line\<close>

lemma parse_eof:
  assumes "tokens r = []" "reduce (setpos [] (eof_item # token_run r) 0 r) (tp # rest) CPP_EOF = Returns (Some s, r1)"
  shows "parse_loop is_if r (tp # rest) False n saw = parse_end is_if r1 s (n + 1) saw"
proof -
  have "operator_error is_if CPP_EOF CPP_EOF t False = None" for t
    by (simp add: operator_error_def query_optab less_eq_cpp_ttype_def)
  moreover have "cpp_get_token_with_location r = (eof_item, setpos [] (eof_item # token_run r) 0 r)"
    using assms(1) by (simp add: cpp_get_token_with_location_def setpos_def)
  moreover have "item_type eof_item = CPP_EOF"
    by (simp add: eof_item_def)
  ultimately show ?thesis
    using assms(2) by (subst parse_loop.simps) (simp add: Let_def token_op_def operand_types_def)
qed

lemma parse_end_expr:
  "\<exists>m. parse_end is_if r [give v lo b] n saw = Returns (\<not> num_zerop v, r\<lparr>mi_ind_cmacro := m\<rparr>)"
proof -
  have "\<exists>m. r = r\<lparr>mi_ind_cmacro := m\<rparr>"
    by (rule exI[of _ "mi_ind_cmacro r"]) simp
  then show ?thesis
    by (auto simp: parse_end_def Let_def)
qed

lemma parse_expr_tree:
  assumes "wf_expr e" "tokens r = toks e" "\<not> warn_num_sign_change (opts r)"
    "eval e (strip (r\<lparr>skip_eval := 0, mi_ind_cmacro := None\<rparr>)) = Some (v, lo, R')"
  shows "\<exists>r' m. cpp_parse_expr r is_if = Returns (\<not> num_zerop v, r') \<and> strip r' = R'\<lparr>mi_ind_cmacro := m\<rparr> \<and> skip_eval r' = 0"
proof -
  let ?r = "r\<lparr>skip_eval := 0, mi_ind_cmacro := None\<rparr>" and ?b = "\<lparr>op_token = item_token eof_item, op_value = None, op_loc = 0, op_op = CPP_EOF\<rparr>"
  have "stack_op ?b" "accepts (op_op ?b) e"
    using accepts_low[of CPP_EOF] by (simp_all add: query_optab stack_op_def less_eq_cpp_ttype_def less_cpp_ttype_def)
  then have "reached is_if e ?r ?b [] 0 False [] (v, lo, R')"
    using assms by (intro simulatedD[OF wf_simulated]) simp_all
  then obtain r1 tp1 s1 n' saw' r2 where p:
    "parse_loop is_if ?r [?b] True 0 False = parse_loop is_if r1 (tp1 # s1) False n' saw'"
    "stack_op tp1" "tokens r1 = []" "strip r2 = R'" "settles (edge e) r1 (tp1 # s1) r2 [give v lo ?b]"
    by (rule reachedE)
  let ?q = "setpos [] (eof_item # token_run r1) 0"
  have "reduce (?q r1) (tp1 # s1) CPP_EOF = reduce_loop 0 CPP_EOF (?q r2) [give v lo ?b]"
    using reduce_op(1)[OF p(2)] p(5) edge_level[OF assms(1)] by (simp add: query_optab settles_def)
  also have "\<dots> = Returns (Some [give v lo ?b], ?q r2)"
    by (simp add: reduce_stop query_optab)
  finally have "cpp_parse_expr r is_if = parse_end is_if (?q r2) [give v lo ?b] (n' + 1) saw'"
    using parse_eof[OF p(3)] p(1) by (simp add: cpp_parse_expr_def)
  then obtain m where "cpp_parse_expr r is_if = Returns (\<not> num_zerop v, (?q r2)\<lparr>mi_ind_cmacro := m\<rparr>)"
    using parse_end_expr[of is_if "?q r2" v lo ?b] by metis
  moreover have "strip ((?q r2)\<lparr>mi_ind_cmacro := m\<rparr>) = R'\<lparr>mi_ind_cmacro := m\<rparr>" "skip_eval ((?q r2)\<lparr>mi_ind_cmacro := m\<rparr>) = 0"
    using eval_keeps[OF assms(4)] p(4) by (auto simp: keeps_def strip_def setpos_def)
  ultimately show ?thesis by blast
qed

end
