(* ===== verification/Cpp_Meaning.thy ===== *)
theory Cpp_Meaning
  imports Cpp_Parse
begin

text \<open>
  What \<^verbatim>\<open>#if\<close> means in C: expressions over integers of \<open>p\<close> bits that are signed or unsigned, with
  the usual arithmetic conversions, wrap-around and short-circuit operators, defined without
  reference to two-part numbers, stacks or readers. The laws that connect the operations on
  numbers with this arithmetic are the locale \<open>number_laws\<close>; from them alone follows that the
  evaluator, and so the parser, computes the meaning.
\<close>

section \<open>C's integers\<close>

text \<open>An integer of the preprocessor: whether its type is \<^verbatim>\<open>uintmax_t\<close>, and its value.\<close>

type_synonym cint = "bool \<times> int"

definition wrap :: "nat \<Rightarrow> bool \<Rightarrow> int \<Rightarrow> int" where
  "wrap p u z = (if u then take_bit p z else signed_take_bit (p - 1) z)"

definition cint_unary :: "nat \<Rightarrow> cpp_ttype \<Rightarrow> cint \<Rightarrow> cint" where
  "cint_unary p op c =
     (case c of (u, z) \<Rightarrow>
        if op = CPP_UPLUS then (u, z)
        else if op = CPP_UMINUS then (u, wrap p u (- z))
        else if op = CPP_COMPL then (u, wrap p u (- z - 1))
        else (False, of_bool (z = 0)))"

text \<open>A negative shift count shifts the other way, which is an extension.\<close>

definition cint_shift :: "nat \<Rightarrow> cint \<Rightarrow> int \<Rightarrow> cint" where
  "cint_shift p c k =
     (case c of (u, z) \<Rightarrow> (u, wrap p u (if 0 \<le> k then z * 2 ^ nat k else z div 2 ^ nat (- k))))"

text \<open>\<open>None\<close> is a division by zero, or a shift count that the host cannot represent.\<close>

definition cint_binary :: "nat \<Rightarrow> host_info \<Rightarrow> cpp_ttype \<Rightarrow> cint \<Rightarrow> cint \<Rightarrow> cint option" where
  "cint_binary p h op c d =
     (let u = (fst c \<or> fst d); a = wrap p u (snd c); b = wrap p u (snd d);
          arith = (\<lambda>z. Some (u, wrap p u z)); truth = (\<lambda>t. Some (False, of_bool t)) in
      if op = CPP_PLUS then arith (a + b)
      else if op = CPP_MINUS then arith (a - b)
      else if op = CPP_MULT then arith (a * b)
      else if op = CPP_DIV then (if b = 0 then None else arith (a sdiv b))
      else if op = CPP_MOD then (if b = 0 then None else arith (a smod b))
      else if op = CPP_AND then arith (a AND b)
      else if op = CPP_OR then arith (a OR b)
      else if op = CPP_XOR then arith (a XOR b)
      else if op = CPP_LESS then truth (a < b)
      else if op = CPP_GREATER then truth (a > b)
      else if op = CPP_LESS_EQ then truth (a \<le> b)
      else if op = CPP_GREATER_EQ then truth (a \<ge> b)
      else if op = CPP_EQ_EQ then truth (a = b)
      else if op = CPP_NOT_EQ then truth (a \<noteq> b)
      else if op = CPP_LSHIFT \<or> op = CPP_RSHIFT then
        (if count_fits h (nat \<bar>snd d\<bar>)
         then Some (cint_shift p c (if op = CPP_LSHIFT then snd d else - snd d)) else None)
      else Some d)"

text \<open>
  The meaning of a tree, given the meaning of its operands. The right operand of a decided
  \<^verbatim>\<open>||\<close> or \<^verbatim>\<open>&&\<close> need not have one; both branches of a conditional do, because the type of the one that
  is not taken decides how the other is converted.
\<close>

fun cval :: "nat \<Rightarrow> host_info \<Rightarrow> (pp_item \<Rightarrow> pp_item list \<Rightarrow> cint) \<Rightarrow> pp_expr \<Rightarrow> cint option" where
  "cval p h \<rho> (Atom i is) = Some (\<rho> i is)"
| "cval p h \<rho> (Paren i j e) = cval p h \<rho> e"
| "cval p h \<rho> (Unary i e) = map_option (cint_unary p (unary_op i)) (cval p h \<rho> e)"
| "cval p h \<rho> (Binary i l r) =
     (case cval p h \<rho> l of
        None \<Rightarrow> None
      | Some c \<Rightarrow>
          if item_type i = CPP_OR_OR then
            (if snd c \<noteq> 0 then Some (False, 1) else map_option (\<lambda>d. (False, of_bool (snd d \<noteq> 0))) (cval p h \<rho> r))
          else if item_type i = CPP_AND_AND then
            (if snd c = 0 then Some (False, 0) else map_option (\<lambda>d. (False, of_bool (snd d \<noteq> 0))) (cval p h \<rho> r))
          else (case cval p h \<rho> r of None \<Rightarrow> None | Some d \<Rightarrow> cint_binary p h (item_type i) c d))"
| "cval p h \<rho> (Cond i j c a b) =
     (case (cval p h \<rho> c, cval p h \<rho> a, cval p h \<rho> b) of
        (Some c, Some a, Some b) \<Rightarrow>
          (let u = (fst a \<or> fst b) in Some (u, wrap p u (snd (if snd c \<noteq> 0 then a else b))))
      | _ \<Rightarrow> None)"

fun atoms :: "pp_expr \<Rightarrow> (pp_item \<times> pp_item list) set" where
  "atoms (Atom i is) = {(i, is)}"
| "atoms (Paren i j e) = atoms e"
| "atoms (Unary i e) = atoms e"
| "atoms (Binary i l r) = atoms l \<union> atoms r"
| "atoms (Cond i j c a b) = atoms c \<union> atoms a \<union> atoms b"

section \<open>The interface between numbers and expressions\<close>

text \<open>
  \<open>den\<close> says which integer a number stands for. The laws are what the evaluator needs of the
  arithmetic: every operation on numbers that stand for integers returns and gives a number that
  stands for one, namely for the result of C's operation where that is defined.
\<close>

locale number_laws =
  fixes p :: nat and h :: host_info and good :: "cpp_reader \<Rightarrow> bool" and den :: "cpp_num \<Rightarrow> cint \<Rightarrow> bool"
  assumes good_keeps: "good r \<Longrightarrow> opts r' = opts r \<Longrightarrow> host r' = host r \<Longrightarrow> good r'"
    and den_zero: "den v c \<Longrightarrow> num_zerop v \<longleftrightarrow> snd c = 0"
    and den_bool: "den (num_of_bool b) (False, of_bool b)"
    and den_unary: "good r \<Longrightarrow> den v c \<Longrightarrow> op \<in> {CPP_UPLUS, CPP_UMINUS, CPP_NOT, CPP_COMPL} \<Longrightarrow>
        den (fst (num_unary_op r v op)) (cint_unary p op c)"
    and den_binary: "good r \<Longrightarrow> den v c \<Longrightarrow> den w d \<Longrightarrow> op \<in> binary_types - {CPP_OR_OR, CPP_AND_AND} \<Longrightarrow>
        cint_binary p h op c d = Some e \<Longrightarrow> \<exists>x r'. binary_value r v w op loc = Some (x, r') \<and> den x e"
    and total_binary: "good r \<Longrightarrow> den v c \<Longrightarrow> den w d \<Longrightarrow> op \<in> binary_types - {CPP_OR_OR, CPP_AND_AND} \<Longrightarrow>
        \<exists>x r' e. binary_value r v w op loc = Some (x, r') \<and> den x e"
    and den_convert: "den v c \<Longrightarrow> den (v\<lparr>unsignedp := fst c \<or> u\<rparr>) (fst c \<or> u, wrap p (fst c \<or> u) (snd c))"
    and den_sign: "den v c \<Longrightarrow> unsignedp v = fst c"
begin

text \<open>An operand stands for an integer in every reader with the environment of \<open>r\<close>.\<close>

definition stands :: "cpp_reader \<Rightarrow> pp_item \<times> pp_item list \<Rightarrow> cint \<Rightarrow> bool" where
  "stands r a c \<longleftrightarrow>
     (\<forall>R. keeps (r\<lparr>skip_eval := skip_eval R\<rparr>) R \<longrightarrow> den (fst (eval_atom (fst a) (snd a) R)) c)"

lemma stands_keeps: "stands r a c \<Longrightarrow> keeps (r\<lparr>skip_eval := skip_eval r'\<rparr>) r' \<Longrightarrow> stands r' a c"
  by (auto simp: stands_def keeps_def)

lemma keeps_env: "keeps (r\<lparr>skip_eval := skip_eval R\<rparr>) R \<Longrightarrow> keeps R R' \<Longrightarrow> keeps (r\<lparr>skip_eval := skip_eval R'\<rparr>) R'"
  by (auto simp: keeps_def)

lemma keeps_env_skip:
  "keeps (r\<lparr>skip_eval := skip_eval R\<rparr>) R \<Longrightarrow> keeps (r\<lparr>skip_eval := skip_eval (skip_up b R)\<rparr>) (skip_up b R)"
  "keeps (r\<lparr>skip_eval := skip_eval R\<rparr>) R \<Longrightarrow> keeps (r\<lparr>skip_eval := skip_eval (skip_down b R)\<rparr>) (skip_down b R)"
  by (auto simp: keeps_def skip_up_def skip_down_def)

text \<open>A tree has the value its meaning says, and a value in any case.\<close>

definition valued_in :: "(pp_item \<Rightarrow> pp_item list \<Rightarrow> cint) \<Rightarrow> cpp_reader \<Rightarrow> pp_expr \<Rightarrow> cpp_reader \<Rightarrow> bool" where
  "valued_in \<rho> r e R \<longleftrightarrow>
     (\<exists>v lo R' c. eval e R = Some (v, lo, R') \<and> den v c \<and> (\<forall>d. cval p h \<rho> e = Some d \<longrightarrow> den v d)
        \<and> keeps (r\<lparr>skip_eval := skip_eval R'\<rparr>) R')"

definition valued :: "(pp_item \<Rightarrow> pp_item list \<Rightarrow> cint) \<Rightarrow> cpp_reader \<Rightarrow> pp_expr \<Rightarrow> bool" where
  "valued \<rho> r e \<longleftrightarrow> (\<forall>R. keeps (r\<lparr>skip_eval := skip_eval R\<rparr>) R \<longrightarrow> valued_in \<rho> r e R)"

lemma valued_inI:
  "eval e R = Some (v, lo, R') \<Longrightarrow> den v c \<Longrightarrow> (\<And>d. cval p h \<rho> e = Some d \<Longrightarrow> den v d) \<Longrightarrow>
   keeps (r\<lparr>skip_eval := skip_eval R'\<rparr>) R' \<Longrightarrow> valued_in \<rho> r e R"
  unfolding valued_in_def by blast

lemma valuedE:
  assumes "valued \<rho> r e" "keeps (r\<lparr>skip_eval := skip_eval R\<rparr>) R"
  obtains v lo R' c where "eval e R = Some (v, lo, R')" "den v c" "\<And>d. cval p h \<rho> e = Some d \<Longrightarrow> den v d"
    "keeps (r\<lparr>skip_eval := skip_eval R'\<rparr>) R'"
  using assms unfolding valued_def valued_in_def by metis

lemma good_env: "good r \<Longrightarrow> keeps (r\<lparr>skip_eval := skip_eval R\<rparr>) R \<Longrightarrow> good R"
  by (rule good_keeps[of r]) (auto simp: keeps_def)

lemma valued_unary:
  assumes "valued \<rho> r e" "good r" "item_type i \<in> unary_types"
  shows "valued \<rho> r (Unary i e)"
  unfolding valued_def
proof (intro allI impI)
  fix R assume k: "keeps (r\<lparr>skip_eval := skip_eval R\<rparr>) R"
  obtain v lo R' c where e: "eval e R = Some (v, lo, R')" "den v c" "\<And>d. cval p h \<rho> e = Some d \<Longrightarrow> den v d"
    "keeps (r\<lparr>skip_eval := skip_eval R'\<rparr>) R'"
    by (rule valuedE[OF assms(1) k]) blast
  obtain w R2 where u: "num_unary_op R' v (unary_op i) = (w, R2)" by fastforce
  have op: "unary_op i \<in> {CPP_UPLUS, CPP_UMINUS, CPP_NOT, CPP_COMPL}"
    using unary_optab(4)[OF assms(3)] by (simp add: unary_op_def)
  have dw: "den w (cint_unary p (unary_op i) d)" if "den v d" for d
    using den_unary[OF good_env[OF assms(2) e(4)] that op] u by simp
  have k2: "keeps R' (overflow_diag w R2)"
    using keeps_ops(1)[OF u] keeps_ops(3) keeps_trans by blast
  have ev: "eval (Unary i e) R = Some (w, Some (override (item_loc i) lo), overflow_diag w R2)"
    using e(1) u by simp
  show "valued_in \<rho> r (Unary i e) R"
  proof (rule valued_inI[OF ev dw[OF e(2)] _ keeps_env[OF e(4) k2]])
    fix d assume "cval p h \<rho> (Unary i e) = Some d"
    then obtain d' where "cval p h \<rho> e = Some d'" "d = cint_unary p (unary_op i) d'" by auto
    then show "den w d" using dw e(3) by simp
  qed
qed

lemma valued_arith:
  assumes "valued \<rho> r a" "valued \<rho> r b" "good r" "item_type i \<in> binary_types - {CPP_OR_OR, CPP_AND_AND}"
  shows "valued \<rho> r (Binary i a b)"
  unfolding valued_def
proof (intro allI impI)
  fix R assume k: "keeps (r\<lparr>skip_eval := skip_eval R\<rparr>) R"
  obtain x lx R1 c where a: "eval a R = Some (x, lx, R1)" "den x c" "\<And>d. cval p h \<rho> a = Some d \<Longrightarrow> den x d"
    "keeps (r\<lparr>skip_eval := skip_eval R1\<rparr>) R1"
    by (rule valuedE[OF assms(1) k]) blast
  obtain y ly R2 d where b: "eval b R1 = Some (y, ly, R2)" "den y d" "\<And>d. cval p h \<rho> b = Some d \<Longrightarrow> den y d"
    "keeps (r\<lparr>skip_eval := skip_eval R2\<rparr>) R2"
    by (rule valuedE[OF assms(2) a(4)]) blast
  note good = good_env[OF assms(3) b(4)]
  obtain v R3 e where v: "binary_value R2 x y (item_type i) (override (item_loc i) ly) = Some (v, R3)" "den v e"
    using total_binary[OF good a(2) b(2) assms(4)] by blast
  have "den v e'" if m: "cval p h \<rho> (Binary i a b) = Some e'" for e'
  proof -
    obtain c' d' where "cval p h \<rho> a = Some c'" "cval p h \<rho> b = Some d'" "cint_binary p h (item_type i) c' d' = Some e'"
      using m assms(4) by (cases "cval p h \<rho> a"; cases "cval p h \<rho> b") auto
    then show ?thesis
      using den_binary[OF good a(3) b(3) assms(4), of c' d' e' "override (item_loc i) ly"] v(1) by auto
  qed
  moreover have "keeps R2 (overflow_diag v R3)"
    using keeps_ops(2)[OF v(1)] keeps_ops(3) keeps_trans by blast
  ultimately show "valued_in \<rho> r (Binary i a b) R"
    using a(1) b(1) v assms(4) by (intro valued_inI[OF _ v(2) _ keeps_env[OF b(4)]]) auto
qed

lemma valued_logical:
  assumes "valued \<rho> r a" "valued \<rho> r b" "item_type i \<in> {CPP_OR_OR, CPP_AND_AND}"
  shows "valued \<rho> r (Binary i a b)"
  unfolding valued_def
proof (intro allI impI)
  fix R assume k: "keeps (r\<lparr>skip_eval := skip_eval R\<rparr>) R"
  obtain x lx R1 c where a: "eval a R = Some (x, lx, R1)" "den x c" "\<And>d. cval p h \<rho> a = Some d \<Longrightarrow> den x d"
    "keeps (r\<lparr>skip_eval := skip_eval R1\<rparr>) R1"
    by (rule valuedE[OF assms(1) k]) blast
  define u where "u = (if item_type i = CPP_OR_OR then \<not> num_zerop x else num_zerop x)"
  obtain y ly R2 d where b: "eval b (skip_up u R1) = Some (y, ly, R2)" "den y d" "\<And>d. cval p h \<rho> b = Some d \<Longrightarrow> den y d"
    "keeps (r\<lparr>skip_eval := skip_eval R2\<rparr>) R2"
    by (rule valuedE[OF assms(2) keeps_env_skip(1)[OF a(4)]]) blast
  define t where "t = (if item_type i = CPP_OR_OR then \<not> num_zerop x \<or> \<not> num_zerop y else \<not> num_zerop x \<and> \<not> num_zerop y)"
  have e: "eval (Binary i a b) R = Some (num_of_bool t, Some (override (item_loc i) ly), skip_down u R2)"
    using a(1) b(1) assms(3) by (auto simp: Let_def u_def t_def)
  moreover have "den (num_of_bool t) e'" if "cval p h \<rho> (Binary i a b) = Some e'" for e'
  proof -
    have "e' = (False, of_bool t)"
      using that assms(3) den_zero[OF a(3)] den_zero[OF b(3)]
      by (auto simp: t_def split: option.splits if_splits)
    then show ?thesis using den_bool by simp
  qed
  ultimately show "valued_in \<rho> r (Binary i a b) R"
    by (intro valued_inI[OF _ den_bool _ keeps_env_skip(2)[OF b(4)]])
qed

lemma valued_cond:
  assumes "valued \<rho> r c" "valued \<rho> r a" "valued \<rho> r b"
  shows "valued \<rho> r (Cond i j c a b)"
  unfolding valued_def
proof (intro allI impI)
  fix R assume k: "keeps (r\<lparr>skip_eval := skip_eval R\<rparr>) R"
  obtain x lx R1 z where c: "eval c R = Some (x, lx, R1)" "den x z" "\<And>d. cval p h \<rho> c = Some d \<Longrightarrow> den x d"
    "keeps (r\<lparr>skip_eval := skip_eval R1\<rparr>) R1"
    by (rule valuedE[OF assms(1) k]) blast
  obtain v lv R2 d where a: "eval a (skip_up (num_zerop x) R1) = Some (v, lv, R2)" "den v d"
    "\<And>d. cval p h \<rho> a = Some d \<Longrightarrow> den v d" "keeps (r\<lparr>skip_eval := skip_eval R2\<rparr>) R2"
    by (rule valuedE[OF assms(2) keeps_env_skip(1)[OF c(4)]]) blast
  let ?R = "if \<not> num_zerop x then skip_up True R2 else skip_down True R2"
  have "keeps (r\<lparr>skip_eval := skip_eval ?R\<rparr>) ?R"
    using keeps_env_skip[OF a(4)] by simp
  from valuedE[OF assms(3) this] obtain w lw R3 e where b: "eval b ?R = Some (w, lw, R3)" "den w e"
    "\<And>d. cval p h \<rho> b = Some d \<Longrightarrow> den w d" "keeps (r\<lparr>skip_eval := skip_eval R3\<rparr>) R3"
    by blast
  define u where "u = (unsignedp v \<or> unsignedp w)"
  define y where "y = (if \<not> num_zerop x then v\<lparr>unsignedp := u\<rparr> else w\<lparr>unsignedp := u\<rparr>)"
  have "\<exists>lo. eval (Cond i j c a b) R = Some (y, lo, if \<not> num_zerop x then skip_down True R3 else R3)"
    using c(1) a(1) b(1) by (auto simp: Let_def y_def u_def)
  then obtain lo where ev: "eval (Cond i j c a b) R = Some (y, lo, if \<not> num_zerop x then skip_down True R3 else R3)" ..
  have "\<exists>f. den y f"
    using den_convert[OF a(2), of "unsignedp w"] den_convert[OF b(2), of "unsignedp v"] den_sign[OF a(2)] den_sign[OF b(2)]
    by (auto simp: y_def u_def disj_commute)
  then obtain f where f: "den y f" ..
  have "den y f" if m: "cval p h \<rho> (Cond i j c a b) = Some f" for f
  proof -
    obtain c' a' b' where s: "cval p h \<rho> c = Some c'" "cval p h \<rho> a = Some a'" "cval p h \<rho> b = Some b'"
      "f = (fst a' \<or> fst b', wrap p (fst a' \<or> fst b') (snd (if snd c' \<noteq> 0 then a' else b')))"
      using m by (cases "cval p h \<rho> c"; cases "cval p h \<rho> a"; cases "cval p h \<rho> b") (auto simp: Let_def)
    note d = c(3)[OF s(1)] a(3)[OF s(2)] b(3)[OF s(3)]
    show ?thesis
      using den_convert[OF d(2), of "unsignedp w"] den_convert[OF d(3), of "unsignedp v"]
        den_zero[OF d(1)] den_sign[OF d(2)] den_sign[OF d(3)] s(4)
      by (auto simp: y_def u_def disj_commute)
  qed
  then show "valued_in \<rho> r (Cond i j c a b) R"
    using keeps_env_skip(2)[OF b(4), of True] b(4) by (intro valued_inI[OF ev f]) simp_all
qed

lemma eval_valued:
  assumes "good r" "wf_expr e" "\<forall>a \<in> atoms e. stands r a (\<rho> (fst a) (snd a))"
  shows "valued \<rho> r e"
  using assms(2,3)
proof (induction e)
  case (Atom i "is")
  show ?case
    unfolding valued_def
  proof (intro allI impI)
    fix R assume k: "keeps (r\<lparr>skip_eval := skip_eval R\<rparr>) R"
    obtain v R' where e: "eval_atom i is R = (v, R')" by fastforce
    then have "den v (\<rho> i is)"
      using Atom k by (auto simp: stands_def)
    then show "valued_in \<rho> r (Atom i is) R"
      using e by (intro valued_inI[OF _ _ _ keeps_env[OF k keeps_eval_atom[OF e]]]) auto
  qed
next
  case (Paren i j e)
  then have v: "valued \<rho> r e" by simp
  show ?case
    unfolding valued_def
  proof (intro allI impI)
    fix R assume k: "keeps (r\<lparr>skip_eval := skip_eval R\<rparr>) R"
    show "valued_in \<rho> r (Paren i j e) R"
      by (rule valuedE[OF v k]) (auto intro: valued_inI)
  qed
next
  case (Unary i e)
  then show ?case
    using valued_unary assms(1) by simp
next
  case (Binary i l r')
  then show ?case
    using valued_arith[of \<rho> r l r' i] valued_logical[of \<rho> r l r' i] assms(1) by auto
next
  case (Cond i j c a b)
  then show ?case
    by (intro valued_cond) simp_all
qed

end

section \<open>The laws hold of the arithmetic\<close>

definition width_ok :: "nat \<Rightarrow> bool" where
  "width_ok p \<longleftrightarrow> 2 \<le> p \<and> (p \<le> 64 \<or> p = 128)"

definition good_reader :: "nat \<Rightarrow> host_info \<Rightarrow> cpp_reader \<Rightarrow> bool" where
  "good_reader p h r \<longleftrightarrow> precision (opts r) = p \<and> host r = h"

definition denotes :: "nat \<Rightarrow> cpp_num \<Rightarrow> cint \<Rightarrow> bool" where
  "denotes p v c \<longleftrightarrow> num_wf p v \<and> unsignedp v = fst c \<and> num_ival p v = snd c"

lemma num_ival_wrap:
  assumes "1 \<le> p" "num_val n = residue p z"
  shows "num_ival p n = wrap p (unsignedp n) z"
proof -
  have "num_wf p n" "int (num_val n) = take_bit p z"
    using assms(2) residue_less[of p z] by (simp_all add: num_wf_def residue_int take_bit_eq_mod)
  moreover have "p - 1 < p" using assms(1) by simp
  ultimately show ?thesis
    using num_ival_take_bit[OF assms(1)] by (simp add: wrap_def signed_take_bit_take_bit)
qed

lemma denotesI: "1 \<le> p \<Longrightarrow> num_val n = residue p z \<Longrightarrow> unsignedp n = u \<Longrightarrow> denotes p n (u, wrap p u z)"
  using num_ival_wrap[of p n z] residue_less[of p z] by (simp add: denotes_def num_wf_def)

lemma denotes_truth:
  assumes "2 \<le> p" "num_val n = of_bool b" "\<not> unsignedp n"
  shows "denotes p n (False, of_bool b)"
proof -
  have "1 < (2 :: nat) ^ (p - 1)" "1 < (2 :: nat) ^ p"
    using assms(1) by (auto intro!: one_less_power simp del: One_nat_def)
  then show ?thesis
    using assms(2,3) by (auto simp: denotes_def num_wf_def num_ival_def)
qed

lemma num_conv_wrap:
  assumes "1 \<le> p" "num_wf p v" "unsignedp v \<longrightarrow> u"
  shows "wrap p u (num_ival p v) = num_conv p u v"
proof (cases u)
  case True
  then show ?thesis
    using residue_ival[OF assms(2)] residue_int[of p "num_ival p v"] by (simp add: wrap_def num_conv_def take_bit_eq_mod)
next
  case False
  with assms(3) have "\<not> unsignedp v" by simp
  then show ?thesis
    using num_ival_wrap[OF assms(1), of v "num_ival p v"] residue_ival[OF assms(2)] False by (simp add: num_conv_def)
qed

lemma num_conv_residue: "num_wf p v \<Longrightarrow> residue p (num_conv p u v) = num_val v"
  by (auto simp: num_conv_def residue_ival residue_of_nat num_wf_def)

lemma residue_arith:
  assumes "num_wf p a" "num_wf p b"
  shows "residue p (num_conv p u a + num_conv p u b) = residue p (num_ival p a + num_ival p b)"
    "residue p (num_conv p u a - num_conv p u b) = residue p (num_ival p a - num_ival p b)"
proof -
  have c: "num_conv p u v mod 2 ^ p = num_ival p v mod 2 ^ p" for v
    using num_ival_mod[of p v] by (simp add: num_conv_def)
  show "residue p (num_conv p u a + num_conv p u b) = residue p (num_ival p a + num_ival p b)"
    by (rule residue_cong) (intro mod_add_cong c)
  show "residue p (num_conv p u a - num_conv p u b) = residue p (num_ival p a - num_ival p b)"
    by (rule residue_cong) (intro mod_diff_cong c)
qed

lemma residue_bits:
  assumes "num_wf p a" "num_wf p b"
  shows "residue p (num_conv p u a AND num_conv p u b) = num_val a AND num_val b"
    "residue p (num_conv p u a OR num_conv p u b) = num_val a OR num_val b"
    "residue p (num_conv p u a XOR num_conv p u b) = num_val a XOR num_val b"
proof -
  have v: "take_bit p (num_conv p u x) = int (num_val x)" if "num_wf p x" for x
    using num_conv_residue[OF that, of u] residue_int[of p "num_conv p u x"] by (simp add: take_bit_eq_mod)
  have r: "residue p z = nat (take_bit p z)" for z
    by (simp add: residue_def take_bit_eq_mod)
  show "residue p (num_conv p u a AND num_conv p u b) = num_val a AND num_val b"
    "residue p (num_conv p u a OR num_conv p u b) = num_val a OR num_val b"
    "residue p (num_conv p u a XOR num_conv p u b) = num_val a XOR num_val b"
    using v[OF assms(1)] v[OF assms(2)]
    by (simp_all add: r of_nat_and_eq[symmetric] of_nat_or_eq[symmetric] of_nat_xor_eq[symmetric])
qed

lemma denotes_unary:
  assumes "2 \<le> p" "p \<le> 128" "precision (opts r) = p" "denotes p v c" "op \<in> {CPP_UPLUS, CPP_UMINUS, CPP_NOT, CPP_COMPL}"
  shows "denotes p (fst (num_unary_op r v op)) (cint_unary p op c)"
proof -
  have v: "num_wf p v" "c = (unsignedp v, num_ival p v)" "1 \<le> p"
    using assms(1,4) by (auto simp: denotes_def prod_eq_iff)
  note u = num_unary_op_fst[of r v] assms(3)
  show ?thesis
  proof (cases "op = CPP_NOT")
    case True
    have "num_val (fst (num_unary_op r v CPP_NOT)) = of_bool (num_ival p v = 0)" "\<not> unsignedp (fst (num_unary_op r v CPP_NOT))"
      using u num_ival_zero[OF v(1)] by (simp_all add: num_val_low num_zerop_val)
    from denotes_truth[OF assms(1) this] show ?thesis
      using True v(2) by (simp add: cint_unary_def)
  next
    case False
    then consider "op = CPP_UPLUS" | "op = CPP_UMINUS" | "op = CPP_COMPL"
      using assms(5) by auto
    then show ?thesis
    proof cases
      case 1
      then show ?thesis
        using u v assms(1) by (simp add: cint_unary_def denotes_def num_ival_def)
    next
      case 2
      then show ?thesis
        using u v num_negate_residue[OF assms(2) v(1)] by (auto simp: cint_unary_def intro!: denotesI)
    next
      case 3
      then show ?thesis
        using u v num_val_not[OF v(3) assms(2) v(1)] by (auto simp: cint_unary_def intro!: denotesI)
    qed
  qed
qed

lemma denotes_val: "denotes p v c \<Longrightarrow> num_wf p v \<and> c = (unsignedp v, num_ival p v)"
  by (auto simp: denotes_def prod_eq_iff)

lemma wf_denotes: "num_wf p v \<Longrightarrow> denotes p v (unsignedp v, num_ival p v)"
  by (simp add: denotes_def)

text \<open>The operators by what they compute.\<close>

definition truth_types :: "cpp_ttype set" where
  "truth_types = {CPP_LESS, CPP_GREATER, CPP_LESS_EQ, CPP_GREATER_EQ, CPP_EQ_EQ, CPP_NOT_EQ}"

definition modular_types :: "cpp_ttype set" where
  "modular_types = {CPP_PLUS, CPP_MINUS, CPP_MULT, CPP_AND, CPP_OR, CPP_XOR}"

lemma binary_groups:
  "t \<in> binary_types - {CPP_OR_OR, CPP_AND_AND} \<Longrightarrow>
   t \<in> truth_types \<or> t \<in> modular_types \<or> t \<in> {CPP_DIV, CPP_MOD} \<or> t \<in> {CPP_LSHIFT, CPP_RSHIFT} \<or> t = CPP_COMMA"
  by (auto simp: binary_types_def truth_types_def modular_types_def)

lemma denotes_truths:
  assumes "2 \<le> p" "p \<le> 128" "precision (opts r) = p" "num_wf p a" "num_wf p b" "op \<in> truth_types"
  shows "\<exists>x e. binary_value r a b op loc = Some (x, r)
    \<and> cint_binary p h op (unsignedp a, num_ival p a) (unsignedp b, num_ival p b) = Some e \<and> denotes p x e"
proof -
  define u where "u = (unsignedp a \<or> unsignedp b)"
  define A B where "A = num_conv p u a" and "B = num_conv p u b"
  have p: "1 \<le> p" using assms(1) by simp
  have w: "wrap p u (num_ival p a) = A" "wrap p u (num_ival p b) = B"
    using num_conv_wrap[OF p assms(4), of u] num_conv_wrap[OF p assms(5), of u] by (simp_all add: u_def A_def B_def)
  note v = num_compare_value[OF p assms(2-5) u_def A_def B_def]
  define t where "t = (if op = CPP_LESS then A < B else if op = CPP_GREATER then A > B else if op = CPP_LESS_EQ then A \<le> B
       else if op = CPP_GREATER_EQ then A \<ge> B else if op = CPP_EQ_EQ then A = B else A \<noteq> B)"
  have c: "cint_binary p h op (unsignedp a, num_ival p a) (unsignedp b, num_ival p b) = Some (False, of_bool t)"
    using assms(6) by (auto simp: cint_binary_def Let_def u_def[symmetric] w truth_types_def t_def)
  have "\<exists>x. binary_value r a b op loc = Some (x, r) \<and> num_val x = of_bool t \<and> \<not> unsignedp x"
    using assms(6) v by (auto simp: binary_value_def truth_types_def t_def)
  then show ?thesis
    unfolding c using denotes_truth[OF assms(1)] by blast
qed

lemma denotes_modular:
  assumes "2 \<le> p" "p \<le> 128" "precision (opts r) = p" "num_wf p a" "num_wf p b" "op \<in> modular_types"
  shows "\<exists>x e. binary_value r a b op loc = Some (x, r)
    \<and> cint_binary p h op (unsignedp a, num_ival p a) (unsignedp b, num_ival p b) = Some e \<and> denotes p x e"
proof -
  define u where "u = (unsignedp a \<or> unsignedp b)"
  define A B where "A = num_conv p u a" and "B = num_conv p u b"
  have p: "1 \<le> p" using assms(1) by simp
  have w: "wrap p u (num_ival p a) = A" "wrap p u (num_ival p b) = B"
    using num_conv_wrap[OF p assms(4), of u] num_conv_wrap[OF p assms(5), of u] by (simp_all add: u_def A_def B_def)
  define z where "z = (if op = CPP_PLUS then A + B else if op = CPP_MINUS then A - B else if op = CPP_MULT then A * B
      else if op = CPP_AND then A AND B else if op = CPP_OR then A OR B else A XOR B)"
  have c: "cint_binary p h op (unsignedp a, num_ival p a) (unsignedp b, num_ival p b) = Some (u, wrap p u z)"
    using assms(6) by (auto simp: cint_binary_def Let_def u_def[symmetric] w modular_types_def z_def)
  have "\<exists>x. binary_value r a b op loc = Some (x, r) \<and> unsignedp x = u \<and> num_val x = residue p z"
    using assms(6) assms(3) num_plus_residue[OF assms(2), of a b] num_minus_residue[OF assms(2,4,5)]
      num_mul_residue[OF p assms(2,4,5,3) u_def] num_bitwise_val[of a b] residue_arith[OF assms(4,5), of u] residue_bits[OF assms(4,5), of u]
    by (auto simp: modular_types_def binary_value_def z_def A_def[symmetric] B_def[symmetric] num_binary_op_def u_def[symmetric])
  then show ?thesis
    unfolding c using denotesI[OF p] by blast
qed

lemma denotes_shift:
  assumes "2 \<le> p" "p \<le> 128" "precision (opts r) = p" "host r = h" "num_wf p a" "num_wf p b" "op \<in> {CPP_LSHIFT, CPP_RSHIFT}"
  shows "\<exists>x. binary_value r a b op loc = Some (x, r) \<and> num_wf p x
    \<and> (\<forall>e. cint_binary p h op (unsignedp a, num_ival p a) (unsignedp b, num_ival p b) = Some e \<longrightarrow> denotes p x e)"
proof -
  define x where "x = fst (num_binary_op r a b op)"
  define k where "k = (if op = CPP_LSHIFT then num_ival p b else - num_ival p b)"
  have p: "1 \<le> p" "\<bar>k\<bar> = \<bar>num_ival p b\<bar>" using assms(1) by (simp_all add: k_def)
  have b: "binary_value r a b op loc = Some (x, r)" "num_wf p x"
    using assms(2,3,7) by (auto simp: binary_value_def x_def num_binary_op_def num_shift_op_def Let_def)
  have "denotes p x (cint_shift p (unsignedp a, num_ival p a) k)" if "count_fits h (nat \<bar>num_ival p b\<bar>)"
    using num_shift_value[OF p(1) assms(2,3,5,6,7) k_def _ x_def] that assms(4) p
    by (auto simp: cint_shift_def intro!: denotesI)
  moreover have "cint_binary p h op (unsignedp a, num_ival p a) (unsignedp b, num_ival p b) =
      (if count_fits h (nat \<bar>num_ival p b\<bar>) then Some (cint_shift p (unsignedp a, num_ival p a) k) else None)"
    using assms(7) by (auto simp: cint_binary_def Let_def k_def)
  ultimately show ?thesis
    using b by auto
qed

lemma denotes_div:
  assumes "2 \<le> p" "p \<le> 64 \<or> p = 128" "precision (opts r) = p" "num_wf p a" "num_wf p b" "op \<in> {CPP_DIV, CPP_MOD}"
  shows "\<exists>x r'. binary_value r a b op loc = Some (x, r') \<and> num_wf p x
    \<and> (\<forall>e. cint_binary p h op (unsignedp a, num_ival p a) (unsignedp b, num_ival p b) = Some e \<longrightarrow> denotes p x e)"
proof -
  define u where "u = (unsignedp a \<or> unsignedp b)"
  define A B where "A = num_conv p u a" and "B = num_conv p u b"
  have p: "1 \<le> p" "p \<le> 128" using assms(1,2) by auto
  have w: "wrap p u (num_ival p a) = A" "wrap p u (num_ival p b) = B"
    using num_conv_wrap[OF p(1) assms(4), of u] num_conv_wrap[OF p(1) assms(5), of u] by (simp_all add: u_def A_def B_def)
  have c: "cint_binary p h op (unsignedp a, num_ival p a) (unsignedp b, num_ival p b) =
      (if B = 0 then None else Some (u, wrap p u (if op = CPP_DIV then A sdiv B else A smod B)))"
    using assms(6) by (auto simp: cint_binary_def Let_def u_def[symmetric] w)
  have bv: "binary_value r a b op loc = num_div_op r a b op loc"
    using assms(6) by (auto simp: binary_value_def)
  show ?thesis
  proof (cases "num_val b = 0")
    case True
    then have "B = 0"
      using num_ival_zero[OF assms(5)] by (simp add: B_def num_conv_def)
    then show ?thesis
      unfolding c bv num_div_op_zero[OF assms(3) p True] using num_abs_val(3)[OF p assms(4), of "unsignedp a \<or> unsignedp b"] by auto
  next
    case False
    have "\<exists>x. num_div_op r a b op loc = Some (x, r) \<and> unsignedp x = u \<and> num_val x = residue p (if op = CPP_DIV then A sdiv B else A smod B)"
    proof (cases "op = CPP_DIV")
      case True
      show ?thesis
        by (rule num_div_op_div[OF p(1) assms(2-5) u_def False A_def B_def, of loc]) (use True in auto)
    next
      case o: False
      show ?thesis
        by (rule num_div_op_mod[OF p(1) assms(2-5) u_def False A_def B_def o, of loc]) (use o in auto)
    qed
    then obtain x where "num_div_op r a b op loc = Some (x, r)" "denotes p x (u, wrap p u (if op = CPP_DIV then A sdiv B else A smod B))"
      using denotesI[OF p(1)] by blast
    then show ?thesis
      unfolding c bv by (auto simp: denotes_def)
  qed
qed

lemma denotes_binary:
  assumes "width_ok p" "good_reader p h r" "denotes p v c" "denotes p w d" "op \<in> binary_types - {CPP_OR_OR, CPP_AND_AND}"
  shows "\<exists>x r'. binary_value r v w op loc = Some (x, r') \<and> num_wf p x \<and> (\<forall>e. cint_binary p h op c d = Some e \<longrightarrow> denotes p x e)"
proof -
  have p: "2 \<le> p" "p \<le> 64 \<or> p = 128" "p \<le> 128" and r: "precision (opts r) = p" "host r = h"
    using assms(1,2) by (auto simp: width_ok_def good_reader_def)
  have v: "num_wf p v" "num_wf p w" "c = (unsignedp v, num_ival p v)" "d = (unsignedp w, num_ival p w)"
    using denotes_val assms(3,4) by blast+
  from binary_groups[OF assms(5)] show ?thesis
  proof (elim disjE)
    assume "op \<in> truth_types"
    from denotes_truths[OF p(1,3) r(1) v(1,2) this] show ?thesis
      unfolding v(3,4) by (metis denotes_val option.inject)
  next
    assume "op \<in> modular_types"
    from denotes_modular[OF p(1,3) r(1) v(1,2) this] show ?thesis
      unfolding v(3,4) by (metis denotes_val option.inject)
  next
    assume "op \<in> {CPP_DIV, CPP_MOD}"
    from denotes_div[OF p(1,2) r(1) v(1,2) this] show ?thesis
      unfolding v(3,4) by blast
  next
    assume "op \<in> {CPP_LSHIFT, CPP_RSHIFT}"
    from denotes_shift[OF p(1,3) r v(1,2) this] show ?thesis
      unfolding v(3,4) by blast
  next
    assume "op = CPP_COMMA"
    then show ?thesis
      using v by (auto simp: binary_value_def num_binary_op_def cint_binary_def Let_def wf_denotes)
  qed
qed

lemma number_laws_hold: "width_ok p \<Longrightarrow> number_laws p h (good_reader p h) (denotes p)"
proof (unfold_locales, goal_cases)
  case 1
  then show ?case by (simp add: good_reader_def)
next
  case (2 v c)
  then show ?case
    using num_ival_zero[of p v] by (simp add: denotes_def num_zerop_val)
next
  case (3 b)
  then show ?case
    by (intro denotes_truth) (simp_all add: width_ok_def num_of_bool_def num_val_make)
next
  case (4 r v c op)
  then show ?case
    by (intro denotes_unary) (auto simp: width_ok_def good_reader_def)
next
  case (5 r v c w d op e loc)
  then show ?case
    using denotes_binary[of p h r v c w d op loc] by blast
next
  case (6 r v c w d op loc)
  then show ?case
    using denotes_binary[of p h r v c w d op loc] wf_denotes by blast
next
  case (7 v c u)
  then show ?case
    using num_conv_wrap[of p v "fst c \<or> u"]
    by (auto simp: denotes_def width_ok_def num_conv_def num_ival_def)
next
  case (8 v c)
  then show ?case by (simp add: denotes_def)
qed

text \<open>The usual case: 64-bit arithmetic, whatever the host.\<close>

interpretation n64: number_laws 64 h "good_reader 64 h" "denotes 64" for h
  by (rule number_laws_hold) (simp add: width_ok_def)

end
