(* ===== verification/Cpp_Operand.thy ===== *)
theory Cpp_Operand
  imports Cpp_Meaning
begin

text \<open>
  The operands of an expression: numbers, character constants, identifiers and \<^verbatim>\<open>defined\<close> read
  exactly their own tokens, whatever follows, and stand for the integers C gives them.
\<close>

section \<open>Numbers do not depend on the position in the line\<close>

lemma setpos_fields [simp]: "sys_macro_p (setpos a b c r) = sys_macro_p r" "in_directive (setpos a b c r) = in_directive r"
  "charconst (setpos a b c r) = charconst r" "nodes (setpos a b c r) = nodes r" "skipping (setpos a b c r) = skipping r"
  by (simp_all add: setpos_def)

lemma setpos_suffix [simp]:
  "DIGIT_SEP (setpos a b c r) = DIGIT_SEP r" "interpret_float_suffix (setpos a b c r) = interpret_float_suffix r"
  "interpret_int_suffix (setpos a b c r) = interpret_int_suffix r"
  by (intro ext; unfold DIGIT_SEP_def interpret_float_suffix_def float_counts_flags_def interpret_int_suffix_def setpos_simps; rule refl)+

lemma setpos_scan [simp]:
  "classify_radix (setpos a b c r) str = classify_radix r str" "scan_number str (setpos a b c r) radix st = scan_number str r radix st"
  "scan_exponent str (setpos a b c r) = scan_exponent str r" "classify_exponent (setpos a b c r) radix str st = classify_exponent r radix str st"
proof -
  show "classify_radix (setpos a b c r) str = classify_radix r str"
    unfolding classify_radix_def setpos_suffix ..
  show "scan_number str (setpos a b c r) radix st = scan_number str r radix st"
    by (induction str arbitrary: st) (simp_all only: scan_number.simps setpos_suffix)
  show e: "scan_exponent str (setpos a b c r) = scan_exponent str r" for str
    by (induction str) (simp_all only: scan_exponent.simps setpos_suffix)
  show "classify_exponent (setpos a b c r) radix str st = classify_exponent r radix str st"
    unfolding classify_exponent_def e setpos_suffix ..
qed

definition at_pos :: "pp_item list \<Rightarrow> pp_item list \<Rightarrow> nat \<Rightarrow> classified \<Rightarrow> classified" where
  "at_pos a b c x = (case x of (t, ud, r) \<Rightarrow> (t, ud, setpos a b c r))"

lemma setpos_diags [simp]:
  "diag_if d (\<lambda>r. cpp_diagnostic r l w x m) (setpos a b c r) = setpos a b c (diag_if d (\<lambda>r. cpp_diagnostic r l w x m) r)"
  "pedwarn_if d loc msg (setpos a b c r) = setpos a b c (pedwarn_if d loc msg r)"
  by (simp_all add: pedwarn_if_def setpos_diag_if)

lemma setpos_classify_parts:
  "syntax_error_at (setpos a b c r) loc msg = at_pos a b c (syntax_error_at r loc msg)"
  "classify_finish (setpos a b c r) loc radix res ud = at_pos a b c (classify_finish r loc radix res ud)"
  by (simp_all add: syntax_error_at_def classify_finish_def at_pos_def Let_def)

lemma at_pos_if: "(if d then at_pos a b c x else at_pos a b c y) = at_pos a b c (if d then x else y)"
  by simp

lemma setpos_float_suffix:
  "classify_float_suffix (setpos a b c r) loc radix str = at_pos a b c (classify_float_suffix r loc radix str)"
  unfolding classify_float_suffix_def Let_def
  by (simp add: setpos_classify_parts) (simp add: at_pos_def)

lemma setpos_classify_float:
  "classify_float (setpos a b c r) loc radix str st = at_pos a b c (classify_float r loc radix str st)"
  by (simp add: classify_float_def Let_def setpos_classify_parts setpos_float_suffix split: sum.split)

lemma setpos_classify_int: "classify_int (setpos a b c r) loc radix str = at_pos a b c (classify_int r loc radix str)"
  unfolding classify_int_def Let_def by (simp add: setpos_classify_parts setpos_diag_if)

lemma setpos_classify: "cpp_classify_number (setpos a b c r) tok loc = at_pos a b c (cpp_classify_number r tok loc)"
proof -
  have "classify_scanned (setpos a b c r) loc radix str st = at_pos a b c (classify_scanned r loc radix str st)" for radix str st
    by (simp add: classify_scanned_def Let_def setpos_classify_parts setpos_classify_float setpos_classify_int)
  then show ?thesis
    by (simp add: cpp_classify_number_def Let_def setpos_classify_parts at_pos_def split: sum.split prod.split)
qed

lemma setpos_interpret: "cpp_interpret_integer (setpos a b c r) tok t = map_prod id (setpos a b c) (cpp_interpret_integer r tok t)"
proof -
  have "interpret_digits s (setpos a b c r) base prec mx n v = interpret_digits s r base prec mx n v" for s base prec mx n v
    by (induction s arbitrary: mx n v) (simp_all only: interpret_digits.simps setpos_suffix Let_def)
  then show ?thesis
    unfolding cpp_interpret_integer_def Let_def setpos_simps setpos_fields setpos_diags
    by (simp add: split_beta map_prod_def)
qed

lemma setpos_number: "eval_number (setpos a b c r) tok loc = map_prod id (setpos a b c) (eval_number r tok loc)"
proof -
  obtain t ud r' where cl: "cpp_classify_number r tok loc = (t, ud, r')"
    by (cases "cpp_classify_number r tok loc") auto
  show ?thesis
    unfolding eval_number_def setpos_classify cl at_pos_def prod.case Let_def by (simp add: setpos_interpret)
qed

lemma number_reader: "eval_number r tok loc = (v, r') \<Longrightarrow> tokens r' = tokens r"
  using eval_number_reader[of r tok loc v r'] by auto

section \<open>Operands that read their own tokens\<close>

lemma setpos_same: "setpos (tokens R) (token_run R) (cpp_context R) R = R"
  by (cases R) (simp add: setpos_def)

lemma atom_okI:
  assumes "item_type i \<in> operand_types"
    "\<And>r ts run. eval_token (setpos (is @ ts) (i # run) (item_context i) r) (item_token i) (item_loc i)
        = (case f r of (v, r') \<Rightarrow> (v, setpos ts (g run) (k r) r'))"
    "\<And>r a b c. f (setpos a b c r) = map_prod id (setpos a b c) (f r)"
  shows "atom_ok i is"
  unfolding atom_ok_def
proof (intro conjI allI impI, goal_cases)
  case 1
  show ?case by (rule assms(1))
next
  case (2 R ts v R')
  then obtain run where run: "R = setpos (is @ ts) (i # run) (item_context i) R"
    using setpos_same[of R] by metis
  obtain w q where f: "f R = (w, q)" by fastforce
  have R': "v = w" "R' = setpos ts (g run) (k R) q"
    using 2 assms(2)[of ts run R] run f by auto
  then show ?case by simp
next
  case (3 R ts v R')
  then obtain run where run: "R = setpos (is @ ts) (i # run) (item_context i) R"
    using setpos_same[of R] by metis
  obtain w q where f: "f R = (w, q)" by fastforce
  have R': "v = w" "R' = setpos ts (g run) (k R) q"
    using 3 assms(2)[of ts run R] run f by auto
  have "strip R\<lparr>tokens := is, token_run := [i], cpp_context := item_context i\<rparr> = setpos (is @ []) [i] (item_context i) (strip R)"
    by (simp add: strip_def setpos_def)
  then show ?case
    using assms(2)[of "[]" "[]" "strip R"] assms(3)[of "[]" "[]" 0 R] f R' by (simp add: eval_atom_def strip_setpos)
qed

text \<open>Numbers, character constants and identifiers are single tokens.\<close>

lemma atom_number:
  assumes "item_type i = CPP_NUMBER"
  shows "atom_ok i []"
proof (rule atom_okI[where f = "\<lambda>r. eval_number r (item_token i) (item_loc i)" and g = "\<lambda>run. i # run" and k = "\<lambda>_. item_context i"])
  show "item_type i \<in> operand_types" using assms by (simp add: operand_types_def)
  fix r ts run
  show "eval_token (setpos ([] @ ts) (i # run) (item_context i) r) (item_token i) (item_loc i)
      = (case eval_number r (item_token i) (item_loc i) of (v, r') \<Rightarrow> (v, setpos ts (i # run) (item_context i) r'))"
    using assms by (simp add: eval_token_def setpos_number map_prod_def)
qed (rule setpos_number)

definition char_types :: "cpp_ttype set" where
  "char_types = {CPP_WCHAR, CPP_CHAR, CPP_CHAR16, CPP_CHAR32, CPP_UTF8CHAR}"

lemma atom_char:
  assumes "item_type i \<in> char_types"
  shows "atom_ok i []"
  by (rule atom_okI[where f = "\<lambda>r. (case charconst r (item_token i) of (cc, u) \<Rightarrow> num_of_charconst cc u (precision (opts r)), r)"
        and g = "\<lambda>run. i # run" and k = "\<lambda>_. item_context i"])
     (use assms in \<open>auto simp: char_types_def operand_types_def eval_token_def split: prod.splits\<close>)

text \<open>The identifiers that are operators of \<^verbatim>\<open>#if\<close>.\<close>

definition operator_names :: "node_ref set" where
  "operator_names = {''defined'', ''__has_include__'', ''__has_include_next__''}"

lemma atom_name:
  assumes "item_type i = CPP_NAME" "val_node (val (item_token i)) = Some n" "n \<notin> operator_names"
  shows "atom_ok i []"
  by (rule atom_okI[where f = "\<lambda>r. eval_name r (Some n) (item_loc i)" and g = "\<lambda>run. i # run" and k = "\<lambda>_. item_context i"])
     (use assms in \<open>auto simp: operand_types_def operator_names_def eval_token_def eval_name_def\<close>)

section \<open>The operator \<^verbatim>\<open>defined\<close>\<close>

lemma setpos_macros [simp]:
  "mark_macro_used n (setpos a b c r) = setpos a b c (mark_macro_used n r)"
  "maybe_notify_macro_use n (setpos a b c r) = setpos a b c (maybe_notify_macro_use n r)"
  "(setpos a b c r)\<lparr>mi_ind_cmacro := m\<rparr> = setpos a b c (r\<lparr>mi_ind_cmacro := m\<rparr>)"
  "(setpos a b c r)\<lparr>prevent_expansion := k\<rparr> = setpos a b c (r\<lparr>prevent_expansion := k\<rparr>)"
  "prevent_expansion (setpos a b c r) = prevent_expansion r"
  by (simp_all add: setpos_def mark_macro_used_def maybe_notify_macro_use_def abort_reader_def Let_def)

lemma prevent_macros:
  "mark_macro_used n (r\<lparr>prevent_expansion := k\<rparr>) = (mark_macro_used n r)\<lparr>prevent_expansion := k\<rparr>"
  "maybe_notify_macro_use n (r\<lparr>prevent_expansion := k\<rparr>) = (maybe_notify_macro_use n r)\<lparr>prevent_expansion := k\<rparr>"
  "diag_if b (\<lambda>r. cpp_diagnostic r l w x m) (r\<lparr>prevent_expansion := k\<rparr>) = (diag_if b (\<lambda>r. cpp_diagnostic r l w x m) r)\<lparr>prevent_expansion := k\<rparr>"
  "prevent_expansion (mark_macro_used n r) = prevent_expansion r" "prevent_expansion (maybe_notify_macro_use n r) = prevent_expansion r"
  "prevent_expansion (diag_if b (\<lambda>r. cpp_diagnostic r l w x m) r) = prevent_expansion r"
  by (simp_all add: mark_macro_used_def maybe_notify_macro_use_def abort_reader_def diag_if_def cpp_diagnostic_def Let_def)

definition defined_result :: "node_ref \<Rightarrow> bool \<Rightarrow> cpp_reader \<Rightarrow> cpp_num \<times> cpp_reader" where
  "defined_result n expanded r =
     (let r = (maybe_notify_macro_use n (mark_macro_used n
                (diag_if (expanded \<and> warn_expansion_to_defined (opts r))
                  (\<lambda>r. cpp_pedwarning r CPP_W_EXPANSION_TO_DEFINED ''this use of defined may not be portable'') r)))
                \<lparr>mi_ind_cmacro := Some n\<rparr>
      in (num_of_bool (cpp_macro_p (nodes r n) \<and> \<not> node_conditional (nodes r n)), r))"

lemma setpos_defined: "defined_result n e (setpos a b c r) = map_prod id (setpos a b c) (defined_result n e r)"
  by (simp add: defined_result_def Let_def)

lemma get_setpos: "cpp_get_token (setpos (x # ts) run c r) = (item_token x, setpos ts (x # run) (item_context x) r)"
  by (simp add: cpp_get_token_def cpp_get_token_with_location_def setpos_def)

lemma prevent_same: "prevent_expansion r = k \<Longrightarrow> r\<lparr>mi_ind_cmacro := m, prevent_expansion := k\<rparr> = (r\<lparr>mi_ind_cmacro := m\<rparr> :: cpp_reader)"
  by auto

lemma parse_defined_name:
  assumes "item_type x = CPP_NAME" "val_node (val (item_token x)) = Some n"
  shows "parse_defined (setpos (x # ts) run c r)
    = (case defined_result n (item_context x \<noteq> c \<or> c \<noteq> 0) r of (v, r') \<Rightarrow> (v, setpos ts (x # run) (item_context x) r'))"
  using assms by (simp add: parse_defined_def get_setpos defined_result_def Let_def prevent_macros prevent_same)

lemma parse_defined_paren:
  assumes "item_type x = CPP_NAME" "val_node (val (item_token x)) = Some n" "item_type lp = CPP_OPEN_PAREN" "item_type rp = CPP_CLOSE_PAREN"
  shows "parse_defined (setpos (lp # x # rp # ts) run c r)
    = (case defined_result n (item_context rp \<noteq> c \<or> c \<noteq> 0) r of (v, r') \<Rightarrow> (v, setpos ts (rp # x # lp # run) (item_context rp) r'))"
  using assms by (simp add: parse_defined_def get_setpos defined_result_def Let_def prevent_macros prevent_same)

lemma atom_defined:
  assumes "item_type i = CPP_NAME" "val_node (val (item_token i)) = Some ''defined''"
    "item_type x = CPP_NAME" "val_node (val (item_token x)) = Some n"
  shows "atom_ok i [x]"
  by (rule atom_okI[where f = "defined_result n (item_context x \<noteq> item_context i \<or> item_context i \<noteq> 0)"
        and g = "\<lambda>run. x # i # run" and k = "\<lambda>_. item_context x"])
     (use assms in \<open>simp_all add: operand_types_def eval_token_def eval_name_def parse_defined_name setpos_defined\<close>)

lemma atom_defined_paren:
  assumes "item_type i = CPP_NAME" "val_node (val (item_token i)) = Some ''defined''"
    "item_type x = CPP_NAME" "val_node (val (item_token x)) = Some n" "item_type lp = CPP_OPEN_PAREN" "item_type rp = CPP_CLOSE_PAREN"
  shows "atom_ok i [lp, x, rp]"
  by (rule atom_okI[where f = "defined_result n (item_context rp \<noteq> item_context i \<or> item_context i \<noteq> 0)"
        and g = "\<lambda>run. rp # x # lp # i # run" and k = "\<lambda>_. item_context rp"])
     (use assms in \<open>simp_all add: operand_types_def eval_token_def eval_name_def parse_defined_paren setpos_defined\<close>)

section \<open>What the operands stand for\<close>

definition is_macro :: "cpp_reader \<Rightarrow> node_ref \<Rightarrow> bool" where
  "is_macro r n \<longleftrightarrow> cpp_macro_p (nodes r n) \<and> \<not> node_conditional (nodes r n)"

lemma macro_env_is_macro: "macro_env r' = macro_env r \<Longrightarrow> is_macro r' n = is_macro r n"
  by (auto simp: is_macro_def cpp_macro_p_def macro_env_def dest: fun_cong[of _ _ n])

text \<open>
  The integers of the operands: an undefined identifier is zero, \<^verbatim>\<open>true\<close> is one in C++, \<^verbatim>\<open>defined\<close>
  tells whether its argument is a macro, and a constant has the value it is written for.
\<close>

inductive operand :: "nat \<Rightarrow> cpp_reader \<Rightarrow> pp_item \<Rightarrow> pp_item list \<Rightarrow> cint \<Rightarrow> bool" where
  operand_name: "item_type i = CPP_NAME \<Longrightarrow> val_node (val (item_token i)) = Some n \<Longrightarrow> n \<notin> operator_names \<Longrightarrow>
     operand p r i [] (False, of_bool (cplusplus (opts r) \<and> n = ''true''))"
| operand_defined: "item_type i = CPP_NAME \<Longrightarrow> val_node (val (item_token i)) = Some ''defined'' \<Longrightarrow>
     item_type x = CPP_NAME \<Longrightarrow> val_node (val (item_token x)) = Some n \<Longrightarrow> operand p r i [x] (False, of_bool (is_macro r n))"
| operand_defined_paren: "item_type i = CPP_NAME \<Longrightarrow> val_node (val (item_token i)) = Some ''defined'' \<Longrightarrow>
     item_type x = CPP_NAME \<Longrightarrow> val_node (val (item_token x)) = Some n \<Longrightarrow> item_type lp = CPP_OPEN_PAREN \<Longrightarrow> item_type rp = CPP_CLOSE_PAREN \<Longrightarrow>
     operand p r i [lp, x, rp] (False, of_bool (is_macro r n))"
| operand_number: "item_type i = CPP_NUMBER \<Longrightarrow> val_text (val (item_token i)) = base_prefix base @ print_digits base v @ s \<Longrightarrow>
     base \<in> {2, 8, 10, 16} \<Longrightarrow> (base = 10 \<longrightarrow> 0 < v) \<Longrightarrow> v < 2 ^ p \<Longrightarrow> interpret_int_suffix r s = f \<Longrightarrow> f \<noteq> 0 \<Longrightarrow> f AND CPP_N_IMAGINARY = 0 \<Longrightarrow>
     operand p r i [] (f AND CPP_N_UNSIGNED \<noteq> 0 \<or> 2 ^ (p - 1) \<le> v, int v)"
| operand_zero: "item_type i = CPP_NUMBER \<Longrightarrow> val_text (val (item_token i)) = ''0'' \<Longrightarrow> operand p r i [] (False, 0)"

lemma operand_atom: "operand p r i is c \<Longrightarrow> atom_ok i is"
  by (induction rule: operand.induct) (auto intro: atom_name atom_defined atom_defined_paren atom_number)

lemma eval_atom_setpos:
  "eval_atom i is R = (case eval_token (setpos is [i] (item_context i) R) (item_token i) (item_loc i) of (v, R') \<Rightarrow> (v, strip R'))"
  by (simp add: eval_atom_def setpos_def)

lemma eval_atom_defined:
  assumes "item_type i = CPP_NAME" "val_node (val (item_token i)) = Some ''defined''"
    "item_type x = CPP_NAME" "val_node (val (item_token x)) = Some n"
    "is = [x] \<or> (\<exists>lp rp. is = [lp, x, rp] \<and> item_type lp = CPP_OPEN_PAREN \<and> item_type rp = CPP_CLOSE_PAREN)"
  shows "fst (eval_atom i is R) = num_of_bool (is_macro R n)"
proof -
  have "fst (defined_result n e R) = num_of_bool (is_macro R n)" for e
    using macro_env_is_macro[of "snd (defined_result n e R)" R n] by (simp add: defined_result_def Let_def is_macro_def diag_if_def cpp_diagnostic_def)
  then have "fst (case defined_result n e R of (v, r') \<Rightarrow> (v, f r')) = num_of_bool (is_macro R n)" for e f
    by (simp add: split_beta)
  with assms show ?thesis
    by (auto simp: eval_atom_setpos eval_token_def eval_name_def parse_defined_name parse_defined_paren split_beta)
qed

lemma interpret_diags: "fst (cpp_interpret_integer (r\<lparr>diags := ds\<rparr>) tok t) = fst (cpp_interpret_integer r tok t)"
proof -
  have sep: "DIGIT_SEP (r\<lparr>diags := ds\<rparr>) = DIGIT_SEP r"
    by (simp add: fun_eq_iff DIGIT_SEP_def)
  have "interpret_digits s (r\<lparr>diags := ds\<rparr>) base prec mx n v = interpret_digits s r base prec mx n v" for s base prec mx n v
    by (induction s arbitrary: mx n v) (simp_all only: interpret_digits.simps sep Let_def)
  then show ?thesis
    by (simp add: cpp_interpret_integer_def Let_def split_beta)
qed

lemma number_value:
  assumes "8 \<le> p" "p \<le> 128" "precision (opts r) = p" "\<not> traditional (opts r)" "val_text (val tok) = base_prefix base @ print_digits base v @ s"
    "base \<in> {2, 8, 10, 16}" "base = 10 \<longrightarrow> 0 < v" "v < 2 ^ p" "interpret_int_suffix r s = f" "f \<noteq> 0" "f AND CPP_N_IMAGINARY = 0"
  shows "denotes p (fst (eval_number r tok loc)) (f AND CPP_N_UNSIGNED \<noteq> 0 \<or> 2 ^ (p - 1) \<le> v, int v)"
proof -
  obtain t ud r' where cl: "cpp_classify_number r tok loc = (t, ud, r')"
    by (cases "cpp_classify_number r tok loc") auto
  have t: "t = fst (cpp_classify_number r tok loc)" "t = f OR CPP_N_INTEGER OR radix_flag base"
    using cl integer_constant_reads(1)[OF assms(1-4,6-10,5) refl refl, of loc] by simp_all
  have "f AND 0x00F = 0"
    using and_subfield[OF interpret_int_suffix_outer[of r s], of "0x00F"] assms(9) by simp
  then have fl: "t AND CPP_N_CATEGORY = CPP_N_INTEGER" "t AND CPP_N_IMAGINARY = 0"
    using assms(6,11) by (auto simp: t(2) radix_flag_def flag_simps bit.conj_disj_distrib2)
  define q where "q = diag_if (t AND CPP_N_USERDEF \<noteq> 0) (\<lambda>r. cpp_error r CPP_DL_ERROR ''user-defined literal in preprocessor expression'') r'"
  have "CPP_N_INTEGER \<noteq> CPP_N_FLOATING"
    by (simp add: flag_simps)
  then have e: "eval_number r tok loc = cpp_interpret_integer q tok t"
    using fl by (simp add: eval_number_def cl Let_def q_def)
  obtain ds where ds: "r' = r\<lparr>diags := ds\<rparr>"
    using classify_number_reader[OF cl] by blast
  have "\<exists>ds. q = r\<lparr>diags := ds\<rparr>"
    by (cases "t AND CPP_N_USERDEF \<noteq> 0") (auto simp: q_def cpp_diagnostic_def ds)
  then have "fst (cpp_interpret_integer q tok t) = fst (cpp_interpret_integer r tok t)"
    using interpret_diags by auto
  then show ?thesis
    using integer_constant_reads(2-4)[OF assms(1-4,6-10,5) t(1) refl] e by (simp add: denotes_def)
qed

lemma keeps_suffix: "keeps (r\<lparr>skip_eval := k\<rparr>) R \<Longrightarrow> interpret_int_suffix R s = interpret_int_suffix r s"
proof -
  assume "keeps (r\<lparr>skip_eval := k\<rparr>) R"
  then have o: "opts R = opts r" by (simp add: keeps_def)
  show ?thesis
    unfolding interpret_int_suffix_def o ..
qed

lemma operand_stands:
  assumes "operand p r i is c" "8 \<le> p" "width_ok p" "precision (opts r) = p" "\<not> traditional (opts r)"
  shows "number_laws.stands (denotes p) r (i, is) c"
proof -
  have laws: "number_laws p (host r) (good_reader p (host r)) (denotes p)"
    using assms(3) by (rule number_laws_hold)
  have "denotes p (fst (eval_atom i is R)) c" if k: "keeps (r\<lparr>skip_eval := skip_eval R\<rparr>) R" for R
  proof -
    have o: "opts R = opts r" "macro_env R = macro_env r"
      using k by (simp_all add: keeps_def)
    have p: "p \<le> 128" using assms(3) by (auto simp: width_ok_def)
    show ?thesis
      using assms(1)
    proof (cases rule: operand.cases)
      case (operand_name n)
      then have "fst (eval_atom i is R) = num_of_bool (cplusplus (opts r) \<and> n = ''true'')"
        using o by (auto simp: eval_atom_setpos eval_token_def eval_name_def operator_names_def)
      then show ?thesis
        using number_laws.den_bool[OF laws] operand_name by simp
    next
      case (operand_defined x n)
      then show ?thesis
        using number_laws.den_bool[OF laws] eval_atom_defined[of i x n "is" R] macro_env_is_macro[OF o(2)] by simp
    next
      case (operand_defined_paren x n lp rp)
      then show ?thesis
        using number_laws.den_bool[OF laws] eval_atom_defined[of i x n "is" R] macro_env_is_macro[OF o(2)] by simp
    next
      case (operand_number base v s f)
      then show ?thesis
        using number_value[of p R "item_token i" base v s f "item_loc i"] keeps_suffix[OF k] o assms(2,4,5) p
        by (simp add: eval_atom_setpos eval_token_def setpos_number split_beta map_prod_def)
    next
      case operand_zero
      then have "fst (eval_number R (item_token i) (item_loc i)) = num_of_bool False"
        by (simp add: eval_number_def cpp_classify_number_def cpp_interpret_integer_def num_of_bool_def flag_simps)
      then show ?thesis
        using operand_zero number_laws.den_bool[OF laws, of False]
        by (simp add: eval_atom_setpos eval_token_def setpos_number split_beta map_prod_def)
    qed
  qed
  then show ?thesis
    by (simp add: number_laws.stands_def[OF laws])
qed

section \<open>The meaning of a directive\<close>

definition operands_mean :: "nat \<Rightarrow> cpp_reader \<Rightarrow> (pp_item \<Rightarrow> pp_item list \<Rightarrow> cint) \<Rightarrow> pp_expr \<Rightarrow> bool" where
  "operands_mean p r \<rho> e \<longleftrightarrow> (\<forall>i is. (i, is) \<in> atoms e \<longrightarrow> operand p r i is (\<rho> i is))"

lemma if_value:
  assumes "8 \<le> p" "width_ok p" "precision (opts r) = p" "\<not> traditional (opts r)" "\<not> warn_num_sign_change (opts r)"
    "wf_expr e" "tokens r = toks e" "operands_mean p r \<rho> e"
  shows "\<exists>b r'. cpp_parse_expr r is_if = Returns (b, r') \<and> skip_eval r' = 0
    \<and> (\<forall>u z. cval p (host r) \<rho> e = Some (u, z) \<longrightarrow> b = (z \<noteq> 0))"
proof -
  let ?R = "strip (r\<lparr>skip_eval := 0, mi_ind_cmacro := None\<rparr>)"
  have laws: "number_laws p (host r) (good_reader p (host r)) (denotes p)"
    using assms(2) by (rule number_laws_hold)
  have "\<forall>a \<in> atoms e. number_laws.stands (denotes p) r a (\<rho> (fst a) (snd a))"
    using assms(8) operand_stands[OF _ assms(1-4)] unfolding operands_mean_def by (metis prod.collapse)
  then have v: "number_laws.valued p (host r) (denotes p) \<rho> r e"
    using assms(3,6) by (intro number_laws.eval_valued[OF laws]) (simp_all add: good_reader_def)
  have k: "keeps (r\<lparr>skip_eval := skip_eval ?R\<rparr>) ?R"
    by (simp add: keeps_def strip_def)
  obtain v lo R' c where e: "eval e ?R = Some (v, lo, R')" "denotes p v c"
    "\<And>d. cval p (host r) \<rho> e = Some d \<Longrightarrow> denotes p v d"
    by (rule number_laws.valuedE[OF laws v k]) blast
  obtain r' m where "cpp_parse_expr r is_if = Returns (\<not> num_zerop v, r')" "skip_eval r' = 0"
    using parse_expr_tree[OF assms(6,7,5) e(1), of is_if] by blast
  then show ?thesis
    using number_laws.den_zero[OF laws e(3)] by auto
qed


definition lit :: "string \<Rightarrow> pp_item" where
  "lit s = \<lparr>item_token = token_of s, item_loc = 0, item_context = 0\<rparr>"

definition punct :: "cpp_ttype \<Rightarrow> pp_item" where
  "punct t = \<lparr>item_token = \<lparr>src_loc = 0, type = t, flags = 0, val = Val_none\<rparr>, item_loc = 0, item_context = 0\<rparr>"

lemma item_simps [simp]: "item_type (lit s) = CPP_NUMBER" "item_type (punct t) = t" "val_text (val (item_token (lit s))) = s"
  "item_loc (lit s) = 0" "item_loc (punct t) = 0" "item_context (lit s) = 0" "item_context (punct t) = 0" "type (token_of s) = CPP_NUMBER" "val_text (val (token_of s)) = s"
  by (simp_all add: lit_def punct_def token_of_def)

lemma lit_ok [simp]: "atom_ok (lit s) []"
  by (rule atom_number) simp

lemma reader64_options: "\<not> traditional (opts reader64)" "\<not> warn_num_sign_change (opts reader64)" "precision (opts reader64) = 64"
  "ext_numeric_literals (opts reader64)" "host reader64 = host_lp64" "\<not> cpp_warn_traditional (opts reader64)" "\<not> cpp_pedantic (opts reader64)"
  by (simp_all add: reader64_def create_reader_def create_options_def cpp_set_lang_def Let_def host_lp64_def)

lemma lit_operand:
  assumes "0 < v" "v < 2 ^ 63" "s = print_digits 10 v"
  shows "operand 64 (reader64\<lparr>tokens := ts\<rparr>) (lit s) [] (False, int v)"
proof -
  have f: "interpret_int_suffix (reader64\<lparr>tokens := ts\<rparr>) [] = CPP_N_SMALL" "CPP_N_SMALL \<noteq> 0"
    "CPP_N_SMALL AND CPP_N_IMAGINARY = 0" "CPP_N_SMALL AND CPP_N_UNSIGNED = 0"
    by (simp_all add: interpret_int_suffix_def flag_simps)
  have "operand 64 (reader64\<lparr>tokens := ts\<rparr>) (lit s) [] (CPP_N_SMALL AND CPP_N_UNSIGNED \<noteq> 0 \<or> 2 ^ (64 - 1) \<le> v, int v)"
    using assms f by (intro operand_number[where base = 10 and s = "[]"]) (simp_all add: base_prefix_def)
  then show ?thesis
    using assms(2) f(4) by simp
qed


section \<open>A division by zero that is not evaluated\<close>

text \<open>The expression \<^verbatim>\<open>(1 ? -1 : 1 / d) < 0\<close>.\<close>

definition skipped_division :: "string \<Rightarrow> pp_expr" where
  "skipped_division d =
     Binary (punct CPP_LESS)
       (Paren (punct CPP_OPEN_PAREN) (punct CPP_CLOSE_PAREN)
         (Cond (punct CPP_QUERY) (punct CPP_COLON) (Atom (lit ''1'') []) (Unary (punct CPP_MINUS) (Atom (lit ''1'') []))
           (Binary (punct CPP_DIV) (Atom (lit ''1'') []) (Atom (lit d) []))))
       (Atom (lit ''0'') [])"

lemma wf_skipped_division: "wf_expr (skipped_division d)"
  by (simp add: skipped_division_def binary_types_def binary_level_def unary_types_def)

definition constant_of :: "string \<Rightarrow> cint" where
  "constant_of s = (if s = ''0x1u'' then (True, 1) else if s = ''0x0u'' then (True, 0) else if s = ''1'' then (False, 1) else (False, 0))"

lemma skipped_operands:
  assumes "d = ''0x1u'' \<or> d = ''0x0u''" "r = reader64\<lparr>tokens := ts\<rparr>"
  shows "operands_mean 64 r (\<lambda>i _. constant_of (val_text (val (item_token i)))) (skipped_division d)"
proof -
  have pd: "print_digits 10 1 = ''1''" "print_digits 16 1 = ''1''" "print_digits 16 0 = ''0''"
    by (simp_all add: print_digits.simps digit_char_def char_of_eq_iff)
  have f: "interpret_int_suffix r ''u'' = CPP_N_UNSIGNED OR CPP_N_SMALL" "CPP_N_UNSIGNED OR CPP_N_SMALL \<noteq> 0"
    "(CPP_N_UNSIGNED OR CPP_N_SMALL) AND CPP_N_IMAGINARY = 0" "(CPP_N_UNSIGNED OR CPP_N_SMALL) AND CPP_N_UNSIGNED \<noteq> 0"
    by (simp_all add: interpret_int_suffix_def flag_simps)
  have "operand 64 r (lit ''0x1u'') [] ((CPP_N_UNSIGNED OR CPP_N_SMALL) AND CPP_N_UNSIGNED \<noteq> 0 \<or> 2 ^ (64 - 1) \<le> (1 :: nat), int 1)"
    using f pd by (intro operand_number[where base = 16 and s = "''u''"]) (simp_all add: base_prefix_def)
  moreover have "operand 64 r (lit ''0x0u'') [] ((CPP_N_UNSIGNED OR CPP_N_SMALL) AND CPP_N_UNSIGNED \<noteq> 0 \<or> 2 ^ (64 - 1) \<le> (0 :: nat), int 0)"
    using f pd by (intro operand_number[where base = 16 and s = "''u''"]) (simp_all add: base_prefix_def)
  moreover have "operand 64 r (lit ''1'') [] (False, 1)" "operand 64 r (lit ''0'') [] (False, 0)"
    using lit_operand[of 1 "''1''" ts] pd assms(2) operand_zero[of "lit ''0''" 64 r] by simp_all
  ultimately show ?thesis
    using assms(1) f(4) by (auto simp: operands_mean_def skipped_division_def constant_of_def)
qed

lemma division_by_zero_type:
  assumes "denotes 64 x (False, a)" "denotes 64 y (True, 0)" "precision (opts r) = 64"
  shows "\<exists>r'. binary_value r x y CPP_DIV loc = Some (x, r')"
proof -
  have "num_val y = 0" "unsignedp y"
    using assms(2) num_ival_zero[of 64 y] by (simp_all add: denotes_def)
  then show ?thesis
    using num_div_op_zero[OF assms(3), of y x CPP_DIV loc] by (simp add: binary_value_def num_abs_def)
qed

lemma skipped_division_value:
  assumes "number_laws.valued 64 h (denotes 64) \<rho> r (Atom (lit ''1'') [])" "number_laws.valued 64 h (denotes 64) \<rho> r (Atom (lit ''0x0u'') [])"
    "number_laws.valued 64 h (denotes 64) \<rho> r (Atom (lit ''0'') [])" "good_reader 64 h r"
    "\<rho> (lit ''1'') [] = (False, 1)" "\<rho> (lit ''0x0u'') [] = (True, 0)" "\<rho> (lit ''0'') [] = (False, 0)" "keeps (r\<lparr>skip_eval := skip_eval R\<rparr>) R"
  shows "\<exists>v lo R'. eval (skipped_division ''0x0u'') R = Some (v, lo, R') \<and> denotes 64 v (False, 1)"
proof -
  let ?one = "Atom (lit ''1'') []" and ?neg = "Unary (punct CPP_MINUS) (Atom (lit ''1'') [])"
  have neg: "number_laws.valued 64 h (denotes 64) \<rho> r ?neg"
    using n64.valued_unary[OF assms(1,4)] by (simp add: unary_types_def)
  obtain x lx R1 c1 where x: "eval ?one R = Some (x, lx, R1)" "denotes 64 x c1" "\<And>d. cval 64 h \<rho> ?one = Some d \<Longrightarrow> denotes 64 x d"
    "keeps (r\<lparr>skip_eval := skip_eval R1\<rparr>) R1"
    by (rule n64.valuedE[OF assms(1,8)]) blast
  have xz: "\<not> num_zerop x"
    using n64.den_zero[OF x(3)] assms(5) by simp
  obtain v lv R2 c2 where v: "eval ?neg (skip_up (num_zerop x) R1) = Some (v, lv, R2)" "denotes 64 v c2"
    "\<And>d. cval 64 h \<rho> ?neg = Some d \<Longrightarrow> denotes 64 v d" "keeps (r\<lparr>skip_eval := skip_eval R2\<rparr>) R2"
    by (rule n64.valuedE[OF neg n64.keeps_env_skip(1)[OF x(4)]]) blast
  have vd: "denotes 64 v (False, -1)"
    using v(3) assms(5) by (simp add: cint_unary_def unary_op_def token_op_def wrap_def)
  obtain y ly R3 c3 where y: "eval ?one (skip_up True R2) = Some (y, ly, R3)" "denotes 64 y c3"
    "\<And>d. cval 64 h \<rho> ?one = Some d \<Longrightarrow> denotes 64 y d" "keeps (r\<lparr>skip_eval := skip_eval R3\<rparr>) R3"
    by (rule n64.valuedE[OF assms(1) n64.keeps_env_skip(1)[OF v(4)]]) blast
  obtain z lz R4 c4 where z: "eval (Atom (lit ''0x0u'') []) R3 = Some (z, lz, R4)" "denotes 64 z c4"
    "\<And>d. cval 64 h \<rho> (Atom (lit ''0x0u'') []) = Some d \<Longrightarrow> denotes 64 z d" "keeps (r\<lparr>skip_eval := skip_eval R4\<rparr>) R4"
    by (rule n64.valuedE[OF assms(2) y(4)]) blast
  obtain R5 where q: "binary_value R4 y z CPP_DIV (override 0 lz) = Some (y, R5)"
    using division_by_zero_type[of y 1 z R4] y(3) z(3) assms(4-6) z(4) by (auto simp: keeps_def good_reader_def)
  have k5: "keeps (r\<lparr>skip_eval := skip_eval R5\<rparr>) (overflow_diag y R5)" "skip_eval (overflow_diag y R5) = skip_eval R5"
    using n64.keeps_env[OF z(4) keeps_ops(2)[OF q]] keeps_ops(3)[where v = y and r = R5] by (auto simp: keeps_def)
  define w where "w = v\<lparr>unsignedp := False\<rparr>"
  have wd: "denotes 64 w (False, -1)"
    using vd by (auto simp: w_def denotes_def num_ival_def)
  have "\<not> unsignedp v" "\<not> unsignedp y"
    using n64.den_sign[OF vd] n64.den_sign[OF y(3)] assms(5) by simp_all
  then obtain lc where cond: "eval (Paren (punct CPP_OPEN_PAREN) (punct CPP_CLOSE_PAREN) (Cond (punct CPP_QUERY) (punct CPP_COLON) ?one ?neg
      (Binary (punct CPP_DIV) ?one (Atom (lit ''0x0u'') [])))) R = Some (w, lc, skip_down True (overflow_diag y R5))"
    using x(1) v(1) y(1) z(1) q xz by (simp add: w_def)
  obtain o0 lo R6 c6 where o0: "eval (Atom (lit ''0'') []) (skip_down True (overflow_diag y R5)) = Some (o0, lo, R6)" "denotes 64 o0 c6"
    "\<And>d. cval 64 h \<rho> (Atom (lit ''0'') []) = Some d \<Longrightarrow> denotes 64 o0 d" "keeps (r\<lparr>skip_eval := skip_eval R6\<rparr>) R6"
    using n64.valuedE[OF assms(3) n64.keeps_env_skip(2)] k5 by metis
  have "\<exists>v r'. binary_value R6 w o0 CPP_LESS (override 0 lo) = Some (v, r') \<and> denotes 64 v (False, 1)"
    using n64.den_binary[OF n64.good_env[OF assms(4) o0(4)] wd o0(3)] assms(7)
    by (simp add: binary_types_def cint_binary_def Let_def wrap_def)
  then show ?thesis
    using cond o0(1) by (auto simp: skipped_division_def)
qed

text \<open>
  C35: the type of a division by zero that is not evaluated. In \<^verbatim>\<open>(1 ? -1 : 1 / d) < 0\<close> the third
  operand is not evaluated and only its type matters: with \<^verbatim>\<open>0x1u\<close> for \<^verbatim>\<open>d\<close> the conditional is
  unsigned and the comparison false. With \<^verbatim>\<open>0x0u\<close>, which has the same type, the comparison is true:
  \<^verbatim>\<open>num_div_op\<close> returns its left operand as it is, and the unsigned divisor is forgotten.
\<close>

theorem skipped_division_defect:
  "(\<exists>r'. cpp_parse_expr (reader64\<lparr>tokens := toks (skipped_division ''0x1u'')\<rparr>) True = Returns (False, r'))
   \<and> (\<exists>r'. cpp_parse_expr (reader64\<lparr>tokens := toks (skipped_division ''0x0u'')\<rparr>) True = Returns (True, r'))"
proof
  define \<rho> where "\<rho> i is = constant_of (val_text (val (item_token i)))" for i :: pp_item and "is" :: "pp_item list"
  have rho: "\<rho> (lit s) [] = constant_of s" for s
    by (simp add: \<rho>_def)
  have m: "operands_mean 64 (reader64\<lparr>tokens := ts\<rparr>) \<rho> (skipped_division d)" if "d = ''0x1u'' \<or> d = ''0x0u''" for d ts
    using skipped_operands[OF that] by (simp add: \<rho>_def operands_mean_def)
  have "cval 64 (host reader64) \<rho> (skipped_division ''0x1u'') = Some (False, 0)"
    by (simp add: skipped_division_def rho constant_of_def cint_binary_def cint_unary_def unary_op_def token_op_def Let_def wrap_def
        signed_divide_int_def)
  then show "\<exists>r'. cpp_parse_expr (reader64\<lparr>tokens := toks (skipped_division ''0x1u'')\<rparr>) True = Returns (False, r')"
    using if_value[OF _ _ _ _ _ wf_skipped_division _ m[of "''0x1u''" "toks (skipped_division ''0x1u'')"], of True] reader64_options
    by (auto simp: width_ok_def)
  let ?r = "reader64\<lparr>tokens := toks (skipped_division ''0x0u'')\<rparr>" and ?h = "host reader64"
  let ?R = "strip (?r\<lparr>skip_eval := 0, mi_ind_cmacro := None\<rparr>)"
  have g: "good_reader 64 ?h ?r"
    using reader64_options by (simp add: good_reader_def)
  have "operand 64 ?r (lit s) [] (\<rho> (lit s) [])" if "s \<in> {''1'', ''0'', ''0x0u''}" for s
    using m[of "''0x0u''" "toks (skipped_division ''0x0u'')"] that by (auto simp: operands_mean_def skipped_division_def)
  then have v: "number_laws.valued 64 ?h (denotes 64) \<rho> ?r (Atom (lit s) [])" if "s \<in> {''1'', ''0'', ''0x0u''}" for s
    using that operand_stands[of 64 ?r "lit s" "[]"] reader64_options by (intro n64.eval_valued g) (auto simp: width_ok_def)
  have k: "keeps (?r\<lparr>skip_eval := skip_eval ?R\<rparr>) ?R"
    by (simp add: keeps_def strip_def)
  obtain w lo R' where e: "eval (skipped_division ''0x0u'') ?R = Some (w, lo, R')" "denotes 64 w (False, 1)"
    using skipped_division_value[OF v v v g _ _ _ k] by (auto simp: rho constant_of_def)
  then show "\<exists>r'. cpp_parse_expr ?r True = Returns (True, r')"
    using parse_expr_tree[OF wf_skipped_division _ _ e(1), of True] n64.den_zero[OF e(2)] reader64_options by auto
qed

end
