(* ===== verification/Cpp_Safe.thy ===== *)
theory Cpp_Safe
  imports Cpp_Operand
begin

text \<open>
  The parser on arbitrary lines, well-formed or not: it never reads a value that was not stored or
  below the bottom of its stack, never reports an internal error, and, where the arithmetic
  returns, returns.
\<close>

section \<open>What operands do to the reader\<close>

definition ices :: "cpp_reader \<Rightarrow> cpp_diag list" where
  "ices r = filter (\<lambda>d. diag_level d = CPP_DL_ICE) (diags r)"

text \<open>What the lexer promises of a number of one character: it is a digit.\<close>

definition lexed_item :: "pp_item \<Rightarrow> bool" where
  "lexed_item i \<longleftrightarrow> (item_type i = CPP_NUMBER \<and> length (val_text (val (item_token i))) = 1 \<longrightarrow>
     ISDIGIT (at (val_text (val (item_token i))) 0))"

definition lexed :: "cpp_reader \<Rightarrow> bool" where
  "lexed r \<longleftrightarrow> list_all lexed_item (tokens r) \<and> list_all lexed_item (token_run r)"

text \<open>
  What reading an operand or an expression leaves alone: of the identifiers what they are defined
  as, and the state of the conditional directives.
\<close>

definition node_state :: "cpp_hashnode \<Rightarrow> node_type \<times> bool \<times> bool \<times> directive_type option \<times> cpp_token list list" where
  "node_state n = (node_kind n, node_conditional n, node_poisoned n, directive_index n, answers n)"

definition dir_state ::
    "cpp_reader \<Rightarrow> if_entry list \<times> bool \<times> bool \<times> node_ref option \<times> lexer_state \<times> location_t" where
  "dir_state r = (if_stack r, skipping r, mi_valid r, mi_cmacro r, state r, directive_line r)"

definition calm :: "cpp_reader \<Rightarrow> cpp_reader \<Rightarrow> bool" where
  "calm r r' \<longleftrightarrow> opts r' = opts r \<and> host r' = host r \<and> charconst r' = charconst r \<and> ices r' = ices r
     \<and> dir_state r' = dir_state r \<and> node_state \<circ> nodes r' = node_state \<circ> nodes r \<and> (lexed r \<longrightarrow> lexed r')"

lemma node_state_macros [simp]:
  "node_state \<circ> nodes (mark_macro_used m r) = node_state \<circ> nodes r"
  "node_state \<circ> nodes (maybe_notify_macro_use m r) = node_state \<circ> nodes r"
  by (auto simp: node_state_def fun_eq_iff mark_macro_used_def maybe_notify_macro_use_def abort_reader_def Let_def)

lemma dir_state_macros [simp]:
  "dir_state (mark_macro_used m r) = dir_state r" "dir_state (maybe_notify_macro_use m r) = dir_state r"
  by (simp_all add: dir_state_def mark_macro_used_def maybe_notify_macro_use_def abort_reader_def Let_def)

lemma calm_parts:
  "ices (mark_macro_used m r) = ices r" "lexed (mark_macro_used m r) = lexed r"
  "ices (maybe_notify_macro_use m r) = ices r" "lexed (maybe_notify_macro_use m r) = lexed r"
  by (simp_all add: ices_def lexed_def mark_macro_used_def maybe_notify_macro_use_def abort_reader_def Let_def)

lemma calm_refl [simp]: "calm r r"
  by (simp add: calm_def)

lemma calm_trans [trans]: "calm a b \<Longrightarrow> calm b c \<Longrightarrow> calm a c"
  by (simp add: calm_def)

lemma lexed_eof [simp]: "lexed_item eof_item"
  by (simp add: lexed_item_def eof_item_def)

lemma calm_simps [simp]:
  "l \<noteq> CPP_DL_ICE \<Longrightarrow> calm a (cpp_diagnostic r l w x m) = calm a r" "calm a (abort_reader r) = calm a r"
  "calm a (r\<lparr>prevent_expansion := b\<rparr>) = calm a r" "calm a (r\<lparr>in_has_include := b\<rparr>) = calm a r"
  "calm a (r\<lparr>mi_ind_cmacro := n\<rparr>) = calm a r" "calm a (mark_macro_used m r) = calm a r"
  "calm a (maybe_notify_macro_use m r) = calm a r" "calm a (r\<lparr>skip_eval := k\<rparr>) = calm a r"
  by (simp_all add: calm_def calm_parts keeps_macros) (simp_all add: ices_def lexed_def dir_state_def cpp_diagnostic_def abort_reader_def)

lemma calm_diag_if [simp]: "(\<And>x. calm a (f x) = calm a x) \<Longrightarrow> calm a (diag_if c f r) = calm a r"
  by (simp add: diag_if_def)

lemma calm_left [simp]:
  "calm (r\<lparr>prevent_expansion := b\<rparr>) a = calm r a" "calm (r\<lparr>in_has_include := b'\<rparr>) a = calm r a"
  "l \<noteq> CPP_DL_ICE \<Longrightarrow> calm (cpp_diagnostic r l w x m) a = calm r a"
  by (auto simp: calm_def ices_def lexed_def cpp_diagnostic_def dir_state_def)

lemma calm_left_diag_if [simp]: "(\<And>x. calm (f x) a = calm x a) \<Longrightarrow> calm (diag_if c f r) a = calm r a"
  by (simp add: diag_if_def)

lemma calm_get: "cpp_get_token r = (t, r') \<Longrightarrow> calm r r'" "cpp_get_token_with_location r = (i, r') \<Longrightarrow> calm r r'"
  by (auto simp: cpp_get_token_def cpp_get_token_with_location_def calm_def ices_def lexed_def dir_state_def split: list.splits)

lemma calm_backup: "calm a r \<Longrightarrow> calm a (cpp_backup_token r)"
  by (auto simp: cpp_backup_token_def calm_def ices_def lexed_def dir_state_def abort_reader_def split: list.splits)

lemma calm_no_padding: "get_token_no_padding r = (t, r') \<Longrightarrow> calm r r'"
proof (induction r rule: get_token_no_padding.induct)
  case (1 r)
  then show ?case
    by (auto simp: get_token_no_padding.simps[of r] intro: calm_trans split: prod.splits if_splits dest!: calm_get)
qed

lemma calm_glue: "glue_header_name r b = (f, r') \<Longrightarrow> calm r r'"
proof (induction r b rule: glue_header_name.induct)
  case (1 r b)
  obtain t p where g: "get_token_no_padding r = (t, p)" by fastforce
  have "calm r p"
    by (rule calm_no_padding[OF g])
  with 1 g show ?case
    by (auto simp: glue_header_name.simps[of r] intro: calm_trans split: if_splits)
qed

lemma calm_read_answer: "read_answer r acc = (a, r') \<Longrightarrow> calm r r'"
proof (induction r acc rule: read_answer.induct)
  case (1 r acc)
  obtain t p where g: "cpp_get_token r = (t, p)" by fastforce
  have "calm r p"
    by (rule calm_get(1)[OF g])
  with 1 g show ?case
    by (auto simp: read_answer.simps[of r] intro: calm_trans split: if_splits)
qed

lemma calm_parse_answer: "parse_answer r typ loc = (ok, a, r') \<Longrightarrow> calm r r'"
  by (auto simp: parse_answer_def intro: calm_trans calm_backup split: if_splits prod.splits option.splits list.splits
      dest!: calm_get(1) calm_read_answer)

lemma calm_parse_assertion: "parse_assertion r typ = (n, a, r') \<Longrightarrow> calm r r'"
  by (auto simp: parse_assertion_def Let_def intro: calm_trans split: if_splits prod.splits
      dest!: calm_get(1) calm_parse_answer)

lemma calm_test_assertion: "cpp_test_assertion r = (e, v, r') \<Longrightarrow> calm r r'"
  by (auto simp: cpp_test_assertion_def intro: calm_backup split: prod.splits option.splits if_splits dest!: calm_parse_assertion)

lemma calm_parse_defined: "parse_defined r = (n, r') \<Longrightarrow> calm r r'"
proof -
  assume p: "parse_defined r = (n, r')"
  obtain t1 r1 where g1: "cpp_get_token (r\<lparr>prevent_expansion := prevent_expansion r + 1\<rparr>) = (t1, r1)" by fastforce
  obtain t2 r2 where g2: "(if type t1 = CPP_OPEN_PAREN then cpp_get_token r1 else (t1, r1)) = (t2, r2)" by fastforce
  have k: "calm r r2"
    using calm_get(1)[OF g1] g2 by (auto split: if_splits dest!: calm_get(1) intro: calm_trans)
  show ?thesis
    using p k unfolding parse_defined_def Let_def g1 prod.case g2
    by (auto split: prod.splits if_splits option.splits dest!: calm_get(1) intro: calm_trans)
qed

lemma calm_has_include: "parse_has_include r typ = (n, r') \<Longrightarrow> calm r r'"
proof -
  assume p: "parse_has_include r typ = (n, r')"
  obtain t1 r1 where g1: "cpp_get_token (r\<lparr>in_has_include := in_has_include r + 1\<rparr>) = (t1, r1)" by fastforce
  obtain t2 r2 where g2: "(if type t1 = CPP_OPEN_PAREN then cpp_get_token r1 else (t1, r1)) = (t2, r2)" by fastforce
  have k: "calm r r2"
    using calm_get(1)[OF g1] g2 by (auto split: if_splits dest!: calm_get(1) intro: calm_trans)
  show ?thesis
    using p k unfolding parse_has_include_def Let_def g1 prod.case g2
    by (auto split: prod.splits if_splits option.splits dest!: calm_get(1) calm_glue intro: calm_trans)
qed

lemma calm_pedwarn [simp]: "calm a (pedwarn_if c loc msg r) = calm a r"
  by (simp add: pedwarn_if_def)

lemma calm_classify_parts [simp]:
  "calm a (snd (snd (syntax_error_at r loc msg))) = calm a r"
  "calm a (snd (snd (classify_finish r loc radix res ud))) = calm a r"
  by (simp_all add: syntax_error_at_def classify_finish_def Let_def)

lemma calm_classify_kinds [simp]:
  "calm a (snd (snd (classify_float_suffix r loc radix str))) = calm a r" "calm a (snd (snd (classify_int r loc radix str))) = calm a r"
  unfolding classify_float_suffix_def classify_int_def Let_def by simp_all

lemma calm_classify_float [simp]: "calm a (snd (snd (classify_float r loc radix str st))) = calm a r"
  by (simp add: classify_float_def Let_def split: sum.split)

lemma calm_classify: "cpp_classify_number r tok loc = (t, ud, r') \<Longrightarrow> calm r r'"
proof -
  have "calm a (snd (snd (classify_scanned r loc radix str st))) = calm a r" for a radix str st
    by (simp add: classify_scanned_def Let_def)
  then have "calm r (snd (snd (cpp_classify_number r tok loc)))"
    by (simp add: cpp_classify_number_def Let_def split: sum.split)
  then show "cpp_classify_number r tok loc = (t, ud, r') \<Longrightarrow> calm r r'" by simp
qed

lemma calm_interpret: "cpp_interpret_integer r tok t = (v, r') \<Longrightarrow> calm r r'"
  by (auto simp: cpp_interpret_integer_def Let_def split: if_splits prod.splits)

lemma calm_eval_token: "eval_token r tok loc = (v, r') \<Longrightarrow> calm r r'"
proof -
  assume e: "eval_token r tok loc = (v, r')"
  have num: "calm r r'" if "eval_number r tok loc = (v, r')"
    using that by (auto simp: eval_number_def Let_def intro: calm_trans split: prod.splits if_splits dest!: calm_classify calm_interpret)
  have name: "calm r r'" if "eval_name r x loc = (v, r')" for x
    using that by (auto simp: eval_name_def split: if_splits dest!: calm_parse_defined calm_has_include)
  have ass: "calm r r'" if "eval_assertion r loc = (v, r')"
    using that by (auto simp: eval_assertion_def Let_def diag_if_def split: if_splits prod.splits dest!: calm_test_assertion)
  show ?thesis
    using e num name ass by (auto simp: eval_token_def split: if_splits prod.splits)
qed

section \<open>Operands are well formed\<close>

lemma scan_number_max: "scan_number str r radix st = Inr (rest, st') \<Longrightarrow> max_digit st \<le> max_digit st'"
  by (induction str arbitrary: st) (fastforce split: if_splits)+

lemma scan_digits_bound:
  "scan_number str r radix st = Inr (rest, st') \<Longrightarrow> sc_flag st' = NOT_FLOAT \<Longrightarrow> \<forall>d \<in> set (int_digits r radix str). d \<le> max_digit st'"
proof (induction str arbitrary: st)
  case (Cons c str)
  then show ?case
    using scan_number_max by (fastforce simp: int_digits_Cons split: if_splits)
qed simp

lemma flags_or:
  assumes "w AND 0xF0F = 0" "c = CPP_N_INTEGER \<or> c = CPP_N_FLOATING"
  shows "(w OR c OR radix_flag radix) AND CPP_N_RADIX = radix_flag radix" "(w OR c OR radix_flag radix) AND CPP_N_CATEGORY = c"
proof -
  have "w AND 0xF = 0" "w AND 0xF00 = 0"
    by (rule and_subfield[OF assms(1)]; simp)+
  then show "(w OR c OR radix_flag radix) AND CPP_N_RADIX = radix_flag radix" "(w OR c OR radix_flag radix) AND CPP_N_CATEGORY = c"
    using assms(2) by (auto simp: radix_flag_def N_defs bit.conj_disj_distrib2)
qed

lemma finish_flags: "radix \<in> {2, 8, 10, 16} \<Longrightarrow> fst (classify_finish r loc radix res ud) = res OR radix_flag radix"
  by (auto simp: classify_finish_def radix_flag_def Let_def)

lemma finish_floating:
  assumes "w AND 0xF0F = 0" "radix \<in> {2, 8, 10, 16}"
  shows "fst (classify_finish r loc radix (w OR CPP_N_FLOATING) ud) AND CPP_N_CATEGORY \<noteq> CPP_N_INTEGER"
  unfolding finish_flags[OF assms(2)] or.assoc flags_or(2)[OF assms(1) disjI2[OF refl]] by (simp add: flag_simps)

lemma syntax_not_integer: "fst (syntax_error_at r loc msg) AND CPP_N_CATEGORY \<noteq> CPP_N_INTEGER"
  by (simp add: syntax_error_at_def flag_simps)

lemma float_suffix_outer: "interpret_float_suffix r str AND 0xF0F = 0"
  using and_subfield[OF interpret_float_suffix_outer[of r str], of "0xF0F"] by simp

lemma float_suffix_not_integer:
  assumes "radix \<in> {2, 8, 10, 16}"
  shows "fst (classify_float_suffix r loc radix str) AND CPP_N_CATEGORY \<noteq> CPP_N_INTEGER"
proof -
  have "(if interpret_float_suffix r str = 0 then CPP_N_LARGE OR CPP_N_USERDEF else interpret_float_suffix r str) AND 0xF0F = 0"
    using float_suffix_outer[of r str] by (simp add: flag_simps)
  then show ?thesis
    using syntax_not_integer finish_floating[OF _ assms]
    by (auto simp: classify_float_suffix_def Let_def CPP_N_INVALID_def N_defs(1) flag_simps)
qed

lemma float_not_integer:
  assumes "radix \<in> {2, 8, 10, 16}"
  shows "fst (classify_float r loc radix str st) AND CPP_N_CATEGORY \<noteq> CPP_N_INTEGER"
proof -
  have "fst (case y of Inl msg \<Rightarrow> syntax_error_at r loc msg | Inr str \<Rightarrow> classify_float_suffix r loc radix str)
      AND CPP_N_CATEGORY \<noteq> CPP_N_INTEGER" for r y
    using syntax_not_integer float_suffix_not_integer[OF assms] by (cases y) simp_all
  then show ?thesis
    using syntax_not_integer unfolding classify_float_def Let_def by simp
qed

lemma int_radix:
  assumes "fst (classify_int r loc radix str) AND CPP_N_CATEGORY = CPP_N_INTEGER" "radix \<in> {2, 8, 10, 16}"
  shows "fst (classify_int r loc radix str) AND CPP_N_RADIX = radix_flag radix"
proof -
  define w where "w = (if interpret_int_suffix r str = 0 then CPP_N_UNSIGNED OR CPP_N_LARGE OR CPP_N_USERDEF else interpret_int_suffix r str)"
  have w: "w AND 0xF0F = 0"
    using and_subfield[OF interpret_int_suffix_outer[of r str], of "0xF0F"] by (simp add: w_def flag_simps)
  have "fst (classify_int r loc radix str) = w OR CPP_N_INTEGER OR radix_flag radix"
    using assms syntax_not_integer[of r loc] finish_flags[OF assms(2)]
    by (auto simp: classify_int_def Let_def w_def or.assoc split: if_splits)
  then show ?thesis
    using flags_or(1)[OF w] by simp
qed

text \<open>A number classified as an integer has digits of its radix only.\<close>

lemma scanned_integer:
  assumes "fst (classify_scanned r loc radix str st) AND CPP_N_CATEGORY = CPP_N_INTEGER" "radix \<in> {2, 8, 10, 16}"
  shows "sc_flag st = NOT_FLOAT \<and> max_digit st < radix \<and> fst (classify_scanned r loc radix str st) AND CPP_N_RADIX = radix_flag radix"
proof -
  have r: "(if radix = 8 then 10 else radix) \<in> {2, 8, 10, 16}" using assms(2) by auto
  show ?thesis
    using assms syntax_not_integer float_not_integer[OF assms(2)] float_not_integer[OF r] finish_floating[OF float_suffix_outer r] int_radix[OF _ assms(2)]
    unfolding classify_scanned_def Let_def by (auto split: if_splits)
qed

lemma radix_base:
  assumes "classify_radix r text = Inr (radix, str)" "t AND CPP_N_RADIX = radix_flag radix" "interpret_base t = (base, k)"
  shows "radix \<in> {2, 8, 10, 16}" "base = radix" "drop k text = str"
proof -
  show r: "radix \<in> {2, 8, 10, 16}"
    using assms(1) by (auto simp: classify_radix_def Let_def split: if_splits)
  then have b: "base = radix" "k = (if radix = 10 then 0 else if radix = 8 then 1 else 2)"
    using assms(2,3) by (auto simp: interpret_base_def radix_flag_def flag_simps)
  then show "base = radix" by simp
  show "drop k text = str"
    using assms(1) b by (auto simp: classify_radix_def Let_def drop_Suc numeral_2_eq_2 split: if_splits)
qed

lemma classify_integer:
  assumes "cpp_classify_number r tok loc = (t, ud, r')" "t AND CPP_N_CATEGORY = CPP_N_INTEGER"
    "interpret_base t = (base, k)" "length (val_text (val tok)) \<noteq> 1"
  shows "\<forall>d \<in> set (int_digits r base (drop k (val_text (val tok)))). d < base"
proof -
  have t: "fst (cpp_classify_number r tok loc) = t" using assms(1) by simp
  obtain radix str where c: "classify_radix r (val_text (val tok)) = Inr (radix, str)"
    using t assms(2,4) syntax_not_integer[of r loc] by (auto simp: cpp_classify_number_def split: sum.splits)
  obtain rest st where n: "scan_number str r radix scan_start = Inr (rest, st)"
    using t assms(2,4) syntax_not_integer[of r loc] c by (auto simp: cpp_classify_number_def split: sum.splits)
  have rx: "radix \<in> {2, 8, 10, 16}"
    using c by (auto simp: classify_radix_def Let_def split: if_splits)
  have "fst (classify_scanned r loc radix rest st) = t"
    using t assms(4) c n by (simp add: cpp_classify_number_def)
  then have s: "sc_flag st = NOT_FLOAT" "max_digit st < radix" "t AND CPP_N_RADIX = radix_flag radix"
    using scanned_integer[of r loc radix rest st] assms(2) rx by auto
  show ?thesis
    using scan_digits_bound[OF n s(1)] s(2) radix_base[OF c s(3) assms(3)] by auto
qed

section \<open>The stack\<close>

definition prefix_ops :: "cpp_ttype set" where
  "prefix_ops = {CPP_UPLUS, CPP_UMINUS, CPP_NOT, CPP_COMPL}"

definition shiftable :: "cpp_ttype \<Rightarrow> bool" where
  "shiftable op \<longleftrightarrow> op \<in> prefix_ops \<union> binary_types \<union> {CPP_OPEN_PAREN, CPP_QUERY, CPP_COLON}"

text \<open>
  The shape of the stack: a value is stored on the top exactly when none is wanted; below an
  operator there is a value exactly when it has a left operand, a colon stands on its query, and
  the entry at the bottom is the only one with the lowest priority. The values satisfy \<open>V\<close>.
\<close>

fun stack_ok :: "(cpp_num \<Rightarrow> bool) \<Rightarrow> bool \<Rightarrow> op list \<Rightarrow> bool" where
  "stack_ok V want [] = False"
| "stack_ok V want (t # rest) =
     ((case op_value t of None \<Rightarrow> want | Some v \<Rightarrow> \<not> want \<and> V v)
      \<and> (if op_op t = CPP_EOF then rest = []
         else shiftable (op_op t) \<and> stack_ok V (NO_L_OPERAND (optab_at (op_op t))) rest
              \<and> (op_op t = CPP_COLON \<longrightarrow> op_op (hd rest) = CPP_QUERY)))"

lemma stack_ok_store: "stack_ok V w (b # s) \<Longrightarrow> V v \<Longrightarrow> stack_ok V False (b\<lparr>op_value := Some v, op_loc := l\<rparr> # s)"
  "stack_ok V w (b # s) \<Longrightarrow> V v \<Longrightarrow> stack_ok V False (b\<lparr>op_value := Some v\<rparr> # s)"
  by auto

lemma stack_ok_value: "stack_ok V False (b # s) \<Longrightarrow> \<exists>v. op_value b = Some v \<and> V v"
  by (auto split: option.splits)

lemma stack_ok_below:
  assumes "stack_ok V w (t # rest)" "op_op t \<noteq> CPP_EOF"
  obtains b s where "rest = b # s" "stack_ok V (NO_L_OPERAND (optab_at (op_op t))) (b # s)"
  using assms that by (cases rest) (simp_all del: stack_ok.simps add: stack_ok.simps(2)[of V w] stack_ok.simps(1))

lemma stack_ok_op:
  "stack_ok V w (t # rest) \<Longrightarrow> op_op t \<noteq> CPP_EOF \<Longrightarrow> shiftable (op_op t)"
  "stack_ok V w (t # rest) \<Longrightarrow> op_op t = CPP_EOF \<Longrightarrow> rest = []"
  "stack_ok V w (t # q # rest) \<Longrightarrow> op_op t = CPP_COLON \<Longrightarrow> op_op q = CPP_QUERY"
  by simp_all

declare stack_ok.simps [simp del]

lemma stack_ok_stack_op: "stack_ok V w (t # rest) \<Longrightarrow> stack_op t"
  using stack_ok_op(1)[of V w t rest]
  by (cases "op_op t = CPP_EOF")
     (auto simp: stack_op_def shiftable_def prefix_ops_def binary_types_def less_cpp_ttype_def less_eq_cpp_ttype_def)

lemma shiftable_range: "shiftable op \<Longrightarrow> CPP_EQ < op \<and> op \<le> CPP_UMINUS \<and> op \<noteq> CPP_EOF \<and> op \<noteq> CPP_CLOSE_PAREN \<and> 0 < prio (optab_at op)"
  by (auto simp: shiftable_def prefix_ops_def binary_types_def optab_simps less_cpp_ttype_def less_eq_cpp_ttype_def)

lemma operator_shiftable:
  assumes "operator_error is_if t op tp want = None" "op = token_op t want" "op \<noteq> CPP_EOF" "op \<noteq> CPP_CLOSE_PAREN"
  shows "shiftable op" "NO_L_OPERAND (optab_at op) = want"
proof -
  have "t \<in> {CPP_NOT, CPP_PLUS, CPP_MINUS} \<or> CPP_EQ < op \<and> op < CPP_PLUS_EQ"
    using assms(1) by (auto simp: operator_error_def split: if_splits)
  then show "shiftable op"
    using assms(2-4) by (cases t) (auto simp: token_op_def shiftable_def prefix_ops_def binary_types_def less_cpp_ttype_def less_eq_cpp_ttype_def)
  show "NO_L_OPERAND (optab_at op) = want"
    using assms by (auto simp: operator_error_def split: if_splits)
qed

lemma calm_arith [simp]:
  "calm a (snd (num_unary_op r n op)) = calm a r" "calm a (snd (num_binary_op r x y op)) = calm a r"
  "calm a (check_promotion r t x y loc) = calm a r" "calm a (skip_up c r) = calm a r" "calm a (skip_down c r) = calm a r"
  by (simp_all add: num_unary_op_def num_binary_op_def check_promotion_def skip_up_def skip_down_def Let_def)

lemma calm_binary: "binary_value r x y op loc = Some (v, r') \<Longrightarrow> calm r r'"
proof -
  assume b: "binary_value r x y op loc = Some (v, r')"
  have "calm r r'" if "num_div_op r x y op loc = Some (v, r')"
    using that by (auto simp: num_div_op_def Let_def split: prod.splits if_splits option.splits)
  then show ?thesis
    using b by (auto simp: binary_value_def num_binary_op_def split: if_splits)
qed

text \<open>What a turn, a reduction and the parser promise of a stack of the right shape.\<close>

definition turn_ok :: "(cpp_num \<Rightarrow> bool) \<Rightarrow> bool \<Rightarrow> cpp_reader \<Rightarrow> cpp_ttype \<Rightarrow> reduction \<Rightarrow> bool" where
  "turn_ok V T r op res =
     (case res of
        Continue s r' \<Rightarrow> stack_ok V False s \<and> calm r r'
      | Leave None r' \<Rightarrow> calm r r'
      | Leave (Some s) r' \<Rightarrow> stack_ok V False s \<and> calm r r' \<and> op \<noteq> CPP_EOF
      | Stop_diverges \<Rightarrow> \<not> T
      | Stop_undefined \<Rightarrow> False)"

definition reduce_ok :: "(cpp_num \<Rightarrow> bool) \<Rightarrow> bool \<Rightarrow> bool \<Rightarrow> cpp_reader \<Rightarrow> cpp_ttype \<Rightarrow> (op list option \<times> cpp_reader) outcome \<Rightarrow> bool" where
  "reduce_ok V T want r op res =
     (case res of
        Returns (None, r') \<Rightarrow> calm r r'
      | Returns (Some s, r') \<Rightarrow> stack_ok V want s \<and> calm r r' \<and> (op = CPP_EOF \<longrightarrow> op_op (hd s) = CPP_EOF)
      | Diverges \<Rightarrow> \<not> T
      | Undefined \<Rightarrow> False)"

definition parse_ok :: "bool \<Rightarrow> cpp_reader \<Rightarrow> (bool \<times> cpp_reader) outcome \<Rightarrow> bool" where
  "parse_ok T r res = (case res of Returns (b, r') \<Rightarrow> calm r r' | Diverges \<Rightarrow> \<not> T | Undefined \<Rightarrow> False)"

lemma parse_ok_trans: "calm r q \<Longrightarrow> parse_ok T q res \<Longrightarrow> parse_ok T r res"
  by (auto simp: parse_ok_def intro: calm_trans split: outcome.splits)

lemma turn_ok_trans: "calm r q \<Longrightarrow> turn_ok V T q op res \<Longrightarrow> turn_ok V T r op res"
  by (auto simp: turn_ok_def intro: calm_trans split: reduction.splits option.splits)

lemma reduce_ok_trans: "calm r q \<Longrightarrow> reduce_ok V T want q op res \<Longrightarrow> reduce_ok V T want r op res"
  by (auto simp: reduce_ok_def intro: calm_trans split: outcome.splits option.splits)

section \<open>The parser keeps the shape of the stack\<close>

text \<open>What the parser relies on: the operands and operators give values in \<open>V\<close>, and under the
  condition \<open>T\<close> the operators return.\<close>

locale value_laws =
  fixes V :: "cpp_num \<Rightarrow> bool" and T :: bool and good :: "cpp_reader \<Rightarrow> bool"
  assumes V_bool: "V (num_of_bool x)"
    and V_sign: "V a \<Longrightarrow> V (a\<lparr>unsignedp := u\<rparr>)"
    and V_unary: "good r \<Longrightarrow> V a \<Longrightarrow> op \<in> prefix_ops \<Longrightarrow> V (fst (num_unary_op r a op))"
    and V_binary: "good r \<Longrightarrow> V a \<Longrightarrow> V b \<Longrightarrow> op \<in> binary_types - {CPP_OR_OR, CPP_AND_AND} \<Longrightarrow>
                   binary_value r a b op loc = Some (v, r') \<Longrightarrow> V v"
    and T_binary: "T \<Longrightarrow> good r \<Longrightarrow> V a \<Longrightarrow> V b \<Longrightarrow> op \<in> binary_types - {CPP_OR_OR, CPP_AND_AND} \<Longrightarrow>
                   binary_value r a b op loc \<noteq> None"
    and V_operand: "good r \<Longrightarrow> cpp_get_token_with_location r = (i, r') \<Longrightarrow> item_type i \<in> operand_types \<Longrightarrow>
                    eval_token r' (item_token i) (item_loc i) = (v, r'') \<Longrightarrow> V v"
    and good_calm: "good r \<Longrightarrow> calm r r' \<Longrightarrow> good r'"
begin

lemma promotion_ok:
  assumes "stack_ok V False (t # rest)" "op_op t \<noteq> CPP_EOF"
  obtains q where "promotion_checked r t rest = Some q" "calm r q"
proof -
  have "\<exists>x. op_value t = Some x"
    using stack_ok_value[OF assms(1)] by blast
  moreover have "\<exists>b s. rest = b # s \<and> (\<exists>y. op_value b = Some y)" if "CHECK_PROMOTION (optab_at (op_op t))"
  proof -
    have "\<not> NO_L_OPERAND (optab_at (op_op t))"
      using stack_ok_op(1)[OF assms] that by (auto simp: shiftable_def prefix_ops_def binary_types_def optab_simps)
    with stack_ok_below[OF assms] have "\<exists>b s. rest = b # s \<and> stack_ok V False (b # s)" by metis
    then show ?thesis
      using stack_ok_value by blast
  qed
  ultimately have "\<exists>q. promotion_checked r t rest = Some q \<and> calm r q"
    by (auto simp: promotion_checked_def)
  then show ?thesis using that by blast
qed

lemma turn_ok_unary:
  assumes "stack_ok V False (t # rest)" "op_op t \<in> prefix_ops" "good r"
  shows "turn_ok V T r op (reduce_unary r t rest)"
proof -
  obtain v where v: "op_value t = Some v" "V v"
    using stack_ok_value[OF assms(1)] by blast
  obtain b s where b: "rest = b # s" "stack_ok V (NO_L_OPERAND (optab_at (op_op t))) (b # s)"
    by (rule stack_ok_below[OF assms(1)]) (use assms(2) in \<open>auto simp: prefix_ops_def\<close>)
  have "V (fst (num_unary_op r v (op_op t)))"
    by (rule V_unary[OF assms(3) v(2) assms(2)])
  then show ?thesis
    using stack_ok_store(1)[OF b(2)] by (simp add: reduce_unary_def v b(1) split_beta turn_ok_def reduced_def)
qed

lemma left_operand:
  assumes "stack_ok V False (t # rest)" "op_op t \<noteq> CPP_EOF" "\<not> NO_L_OPERAND (optab_at (op_op t))"
  obtains x b s y where "op_value t = Some x" "V x" "rest = b # s" "op_value b = Some y" "V y" "stack_ok V False (b # s)"
proof -
  obtain b s where b: "rest = b # s" "stack_ok V False (b # s)"
    by (rule stack_ok_below[OF assms(1,2)]) (use assms(3) in simp)
  then show ?thesis
    using that stack_ok_value[OF assms(1)] stack_ok_value[OF b(2)] by blast
qed

lemma turn_ok_binary:
  assumes "stack_ok V False (t # rest)" "op_op t \<in> binary_types - {CPP_OR_OR, CPP_AND_AND}" "good r"
  shows "turn_ok V T r op (reduce_binary r t rest)"
proof -
  have "op_op t \<noteq> CPP_EOF" "\<not> NO_L_OPERAND (optab_at (op_op t))"
    using assms(2) binary_optab(3)[of "op_op t"] by (simp_all, auto simp: binary_types_def)
  from left_operand[OF assms(1) this] obtain x b s y where
    v: "op_value t = Some x" "V x" "rest = b # s" "op_value b = Some y" "V y" "stack_ok V False (b # s)" .
  show ?thesis
  proof (cases "binary_value r y x (op_op t) (op_loc t)")
    case None
    then have "\<not> T"
      using T_binary[OF _ assms(3) v(5,2) assms(2)] by blast
    with None show ?thesis by (simp add: reduce_binary_def v turn_ok_def)
  next
    case (Some vr)
    obtain w q where w: "vr = (w, q)" by fastforce
    have "V w" "calm r q"
      using V_binary[OF assms(3) v(5,2) assms(2)] calm_binary Some w by auto
    then show ?thesis
      using Some w stack_ok_store(1)[OF v(6)] by (simp add: reduce_binary_def v turn_ok_def reduced_def)
  qed
qed

lemma turn_ok_logical:
  assumes "stack_ok V False (t # rest)" "op_op t \<in> {CPP_OR_OR, CPP_AND_AND}"
  shows "turn_ok V T r op (reduce_logical r t rest)"
proof -
  have "op_op t \<noteq> CPP_EOF" "\<not> NO_L_OPERAND (optab_at (op_op t))"
    using assms(2) by (auto simp: optab_simps)
  from left_operand[OF assms(1) this] obtain x b s y where
    v: "op_value t = Some x" "V x" "rest = b # s" "op_value b = Some y" "V y" "stack_ok V False (b # s)" .
  show ?thesis
    using stack_ok_store(1)[OF v(6) V_bool] by (simp add: reduce_logical_def v turn_ok_def Let_def)
qed

lemma turn_ok_colon:
  assumes "stack_ok V False (t # rest)" "op_op t = CPP_COLON"
  shows "turn_ok V T r op (reduce_colon r t rest)"
proof -
  have t: "op_op t \<noteq> CPP_EOF" "\<not> NO_L_OPERAND (optab_at (op_op t))"
    using assms(2) by (simp_all add: optab_simps)
  obtain x q s y where v: "op_value t = Some x" "V x" "rest = q # s" "op_value q = Some y" "V y" "stack_ok V False (q # s)"
    by (rule left_operand[OF assms(1) t])
  then have "op_op q = CPP_QUERY"
    using assms stack_ok_op(3) by blast
  then have q: "op_op q \<noteq> CPP_EOF" "\<not> NO_L_OPERAND (optab_at (op_op q))"
    by (simp_all add: query_optab)
  obtain b s' z where w: "s = b # s'" "op_value b = Some z" "stack_ok V False (b # s')"
    by (rule left_operand[OF v(6) q]) blast
  show ?thesis
    using stack_ok_store(1)[OF w(3) V_sign[OF v(2)]] stack_ok_store(1)[OF w(3) V_sign[OF v(5)]]
    by (simp add: reduce_colon_def v w turn_ok_def Let_def)
qed

lemma turn_ok_paren:
  assumes "stack_ok V False (t # rest)" "op_op t = CPP_OPEN_PAREN"
  shows "turn_ok V T r op (reduce_paren r op t rest)"
proof -
  obtain v where v: "op_value t = Some v" "V v"
    using stack_ok_value[OF assms(1)] by blast
  obtain b s where b: "rest = b # s" "stack_ok V (NO_L_OPERAND (optab_at (op_op t))) (b # s)"
    by (rule stack_ok_below[OF assms(1)]) (use assms(2) in auto)
  show ?thesis
    using stack_ok_store(1)[OF b(2) v(2)] by (simp add: reduce_paren_def v b(1) turn_ok_def)
qed

lemma turn_ok:
  assumes "stack_ok V False (t # rest)" "op_op t \<noteq> CPP_EOF" "good r"
  shows "turn_ok V T r op (reduce_turn r op t rest)"
proof -
  obtain q where q: "promotion_checked r t rest = Some q" "calm r q"
    by (rule promotion_ok[OF assms(1,2)])
  have g: "good q" by (rule good_calm[OF assms(3) q(2)])
  have s: "shiftable (op_op t)" by (rule stack_ok_op(1)[OF assms(1,2)])
  have query: "turn_ok V T q op (if op = CPP_COMMA \<or> op = CPP_COLON then Leave (Some (t # rest)) q
      else Leave None (cpp_error q CPP_DL_ERROR m))" for m
    using assms(1) by (simp add: turn_ok_def)
  have "turn_ok V T q op (reduce_turn r op t rest)"
    using s turn_ok_unary[OF assms(1) _ g] turn_ok_binary[OF assms(1) _ g] turn_ok_logical[OF assms(1)] turn_ok_colon[OF assms(1)]
      turn_ok_paren[OF assms(1)] query
    unfolding reduce_turn_def q(1) option.case Let_def shiftable_def prefix_ops_def binary_types_def by auto
  then show ?thesis
    by (rule turn_ok_trans[OF q(2)])
qed

lemma reduce_loop_ok:
  "stack_ok V False s \<Longrightarrow> good r \<Longrightarrow> op = CPP_EOF \<longrightarrow> p = 0 \<Longrightarrow> reduce_ok V T False r op (reduce_loop p op r s)"
proof (induction p op r s rule: reduce_loop.induct)
  case (2 p op r t rest)
  show ?case
  proof (cases "p < prio (optab_at (op_op t))")
    case False
    have "op_op t = CPP_EOF" if "op = CPP_EOF"
      using that False 2(4) shiftable_range[of "op_op t"] stack_ok_op(1)[OF 2(2)] by fastforce
    with False 2(2) show ?thesis
      by (auto simp: reduce_loop.simps reduce_ok_def)
  next
    case True
    have "op_op t \<noteq> CPP_EOF"
      using True query_optab by auto
    from turn_ok[OF 2(2) this 2(3), of op] True show ?thesis
      using 2(1)[OF True] 2(4) good_calm[OF 2(3)]
      by (cases "reduce_turn r op t rest")
         (auto simp: reduce_loop.simps turn_ok_def reduce_ok_def[of V _ False r op "Returns _"] reduce_ok_def[of V _ False r op Diverges] intro: reduce_ok_trans split: option.splits)
  qed
qed (simp add: stack_ok.simps)

lemma prefix_no_reduction:
  assumes "stack_ok V True (t # rest)" "op \<in> prefix_ops \<union> {CPP_OPEN_PAREN}"
  shows "reduce r (t # rest) op = Returns (Some (t # rest), r)"
proof -
  have r: "stack_op t" by (rule stack_ok_stack_op[OF assms(1)])
  have "\<not> 16 < prio (optab_at (op_op t))"
    using optab_max[of "op_op t"] stack_ok_op(1)[OF assms(1)] shiftable_range[of "op_op t"] query_optab by (cases "op_op t = CPP_EOF") auto
  moreover have "prio (optab_at op) = 16 \<and> \<not> LEFT_ASSOC (optab_at op) \<and> op \<noteq> CPP_CLOSE_PAREN" if "op \<in> prefix_ops"
    using that by (auto simp: prefix_ops_def optab_simps)
  ultimately show ?thesis
    using assms(2) reduce_op(1)[OF r, of op] reduce_op(2)[OF r] by (cases "op = CPP_OPEN_PAREN") (auto simp: reduce_loop.simps)
qed

lemma closing_without_value:
  assumes "stack_ok V True (t # rest)" "op_op t \<in> {CPP_EOF, CPP_OPEN_PAREN}" "op \<in> {CPP_EOF, CPP_CLOSE_PAREN}"
    "op_op t = CPP_EOF \<longleftrightarrow> op = CPP_CLOSE_PAREN"
  shows "\<exists>r'. reduce r (t # rest) op = Returns (None, r') \<and> calm r r'"
  using assms by (auto simp: reduce_def reduce_loop.simps query_optab reduce_turn_def promotion_checked_def reduce_paren_def
      optab_simps less_cpp_ttype_def less_eq_cpp_ttype_def)

lemma reduce_ok:
  assumes "stack_ok V want (t # rest)" "good r" "operator_error is_if ty op (op_op t) want = None" "op = token_op ty want"
  shows "reduce_ok V T want r op (reduce r (t # rest) op) \<and> (want \<longrightarrow> op \<in> {CPP_EOF, CPP_CLOSE_PAREN} \<longrightarrow>
    (\<exists>r'. reduce r (t # rest) op = Returns (None, r')))"
proof (cases want)
  case False
  have r: "stack_op t" by (rule stack_ok_stack_op[OF assms(1)])
  have "op \<noteq> CPP_OPEN_PAREN"
    using assms(3) False by (auto simp: operator_error_def query_optab less_eq_cpp_ttype_def split: if_splits)
  then have "reduce r (t # rest) op = reduce_loop (prio (optab_at op) - of_bool (LEFT_ASSOC (optab_at op))) op r (t # rest)"
    using reduce_op(1)[OF r] by simp
  then show ?thesis
    using reduce_loop_ok[of "t # rest" r op] assms(1,2) False query_optab by simp
next
  case True
  show ?thesis
  proof (cases "op \<in> {CPP_EOF, CPP_CLOSE_PAREN}")
    case c: True
    have "op_op t \<in> {CPP_EOF, CPP_OPEN_PAREN}" "op_op t = CPP_EOF \<longleftrightarrow> op = CPP_CLOSE_PAREN"
      using assms(3) c True by (auto simp: operator_error_def query_optab split: if_splits)
    from closing_without_value[OF assms(1)[unfolded True[THEN eqTrueI]] this(1) c this(2), of r] show ?thesis
      by (auto simp: reduce_ok_def)
  next
    case False
    note sh = operator_shiftable[OF assms(3,4)]
    have "op \<in> prefix_ops \<union> {CPP_OPEN_PAREN}"
      using sh False True by (auto simp: shiftable_def binary_optab(3) query_optab)
    then show ?thesis
      using prefix_no_reduction[of t rest op r] assms(1) True False by (simp add: reduce_ok_def)
  qed
qed

lemma parse_ok_syntax: "parse_ok T r (syntax_error r loc msg)"
  by (simp add: parse_ok_def syntax_error_def)

lemma shift_ok:
  assumes "stack_ok V (NO_L_OPERAND (optab_at op)) s" "shiftable op"
  obtains msg where "shift_skip r s op = Some (Inl msg)"
  | q where "shift_skip r s op = Some (Inr q)" "calm r q" "frame r q"
      "stack_ok V True (\<lparr>op_token = tok, op_value = None, op_loc = loc, op_op = op\<rparr> # s)"
proof -
  obtain t rest where s: "s = t # rest"
    using assms(1) by (cases s) (simp_all add: stack_ok.simps)
  have new: "stack_ok V True (\<lparr>op_token = tok, op_value = None, op_loc = loc, op_op = op\<rparr> # s)"
    if "op = CPP_COLON \<longrightarrow> op_op t = CPP_QUERY"
    using assms that shiftable_range[OF assms(2)] s by (simp add: stack_ok.simps(2)[of _ _ "\<lparr>op_token = tok, op_value = None, op_loc = loc, op_op = op\<rparr>"])
  have val: "stack_ok V False (t # rest)" if "op \<in> {CPP_OR_OR, CPP_AND_AND, CPP_QUERY, CPP_COLON}"
    using assms(1) that s by (auto simp: optab_simps)
  have below: "\<exists>b s'. rest = b # s' \<and> (\<exists>v. op_value b = Some v)" if "op = CPP_COLON" "op_op t = CPP_QUERY"
  proof -
    have "stack_ok V False (t # rest)" and nz: "op_op t \<noteq> CPP_EOF" "\<not> NO_L_OPERAND (optab_at (op_op t))"
      using val that query_optab(3) by simp_all
    from stack_ok_below[OF this(1) nz(1)] obtain b s' where "rest = b # s'" "stack_ok V False (b # s')"
      using nz(2) by metis
    then show ?thesis using stack_ok_value by blast
  qed
  have "(\<exists>msg. shift_skip r s op = Some (Inl msg))
      \<or> (\<exists>q. shift_skip r s op = Some (Inr q) \<and> calm r q \<and> (op = CPP_COLON \<longrightarrow> op_op t = CPP_QUERY))"
    using stack_ok_value[OF val] below by (cases "op = CPP_COLON") (auto simp: shift_skip_def s split: if_splits)
  then show ?thesis
    using that new shift_skip_frame by blast
qed

lemma parse_end_ok:
  assumes "stack_ok V False s" "op_op (hd s) = CPP_EOF"
  shows "parse_ok T r (parse_end is_if r s n b)"
proof -
  obtain t where "s = [t]"
    using assms stack_ok_op(2) by (cases s) (auto simp: stack_ok.simps(1))
  then show ?thesis
    using assms(1) stack_ok_value by (fastforce simp: parse_end_def parse_ok_def Let_def)
qed

text \<open>One turn of the loop, given the parser on what is left of the line.\<close>

lemma operand_step:
  assumes IH: "\<And>r' s' n' b'. pending r' < pending r \<Longrightarrow> stack_ok V False s' \<Longrightarrow> good r' \<Longrightarrow> parse_ok T r' (parse_loop is_if r' s' False n' b')"
    and s: "stack_ok V want (t # rest)" "good r" and g: "cpp_get_token_with_location r = (i, r1)"
    and o: "item_type i \<in> operand_types"
  shows "parse_ok T r (parse_loop is_if r (t # rest) want n b)"
proof -
  have c1: "calm r r1" by (rule calm_get(2)[OF g])
  obtain v r2 where v: "eval_token r1 (item_token i) (item_loc i) = (v, r2)" by fastforce
  have c2: "calm r r2"
    using c1 calm_eval_token[OF v] by (rule calm_trans)
  have "pending r2 < pending r"
    using pending_get(1)[OF g] pending_eval_token[OF v] o by (auto simp: operand_types_def)
  moreover have "stack_ok V False (t\<lparr>op_value := Some v\<rparr> # rest)" if want
    using stack_ok_store(2)[OF s(1)] V_operand[OF s(2) g o v] by simp
  ultimately have "parse_ok T r2 (parse_loop is_if r2 (t\<lparr>op_value := Some v\<rparr> # rest) False (n + 1) b)" if want
    using IH[of r2] good_calm[OF s(2) c2] that by blast
  then show ?thesis
    using o v parse_ok_trans[OF c1 parse_ok_syntax] parse_ok_trans[OF c2] by (subst parse_loop.simps) (simp add: g Let_def)
qed

lemma operator_step:
  assumes IH: "\<And>r' s' w n' b'. pending r' < pending r \<Longrightarrow> stack_ok V w s' \<Longrightarrow> good r' \<Longrightarrow> parse_ok T r' (parse_loop is_if r' s' w n' b')"
    and s: "stack_ok V want s" "good r2" "calm r r2" and p: "op \<noteq> CPP_EOF \<Longrightarrow> pending r2 < pending r"
    and o: "op = token_op ty want" "operator_error is_if ty op tp want = None"
    and e: "op = CPP_EOF \<longrightarrow> op_op (hd s) = CPP_EOF" "op \<in> {CPP_EOF, CPP_CLOSE_PAREN} \<longrightarrow> \<not> want"
  shows "parse_ok T r
    (if op = CPP_EOF then parse_end is_if r2 s n b
     else if op = CPP_CLOSE_PAREN then parse_loop is_if r2 s want n b
     else (case shift_skip r2 s op of
             None \<Rightarrow> Undefined
           | Some (Inl msg) \<Rightarrow> syntax_error r2 loc msg
           | Some (Inr pfile) \<Rightarrow>
               parse_loop is_if pfile (\<lparr>op_token = tok, op_value = None, op_loc = loc, op_op = op\<rparr> # s) True n b))"
proof -
  consider "op = CPP_EOF" | "op = CPP_CLOSE_PAREN" | "op \<noteq> CPP_EOF" "op \<noteq> CPP_CLOSE_PAREN" by blast
  then show ?thesis
  proof cases
    case 1
    then show ?thesis
      using parse_end_ok[of s] parse_ok_trans[OF s(3)] s(1) e by simp
  next
    case 2
    then show ?thesis
      using IH[OF p s(1,2)] parse_ok_trans[OF s(3)] by simp
  next
    case 3
    note sh = operator_shiftable[OF o(2,1) 3]
    show ?thesis
    proof (rule shift_ok[OF s(1)[folded sh(2)] sh(1), where r = r2 and tok = tok and loc = loc])
      fix msg assume "shift_skip r2 s op = Some (Inl msg)"
      then show ?thesis
        using 3 parse_ok_trans[OF s(3) parse_ok_syntax] by simp
    next
      fix q assume q: "shift_skip r2 s op = Some (Inr q)" "calm r2 q" "frame r2 q"
        "stack_ok V True (\<lparr>op_token = tok, op_value = None, op_loc = loc, op_op = op\<rparr> # s)"
      have "pending q < pending r"
        using p 3 pending_frame[OF q(3)] by simp
      from parse_ok_trans[OF s(3) parse_ok_trans[OF q(2) IH[OF this q(4) good_calm[OF s(2) q(2)]]]] show ?thesis
        using 3 q(1) by simp
    qed
  qed
qed

lemma parse_loop_ok:
  "stack_ok V want s \<Longrightarrow> good r \<Longrightarrow> parse_ok T r (parse_loop is_if r s want n b)"
proof (induction "pending r" arbitrary: r s want n b rule: less_induct)
  case less
  obtain t rest where s: "s = t # rest"
    using less(2) by (cases s) (simp_all add: stack_ok.simps)
  obtain i r1 where g: "cpp_get_token_with_location r = (i, r1)" by fastforce
  have c1: "calm r r1" by (rule calm_get(2)[OF g])
  have g1: "good r1" by (rule good_calm[OF less(3) c1])
  define op where "op = token_op (item_type i) want"
  note loop = parse_loop.simps[of is_if r s want n b, unfolded s g prod.case list.case Let_def op_def[symmetric]]
  consider "item_type i \<in> operand_types"
    | msg where "item_type i \<notin> operand_types" "operator_error is_if (item_type i) op (op_op t) want = Some msg"
    | "item_type i \<notin> operand_types" "operator_error is_if (item_type i) op (op_op t) want = None"
    by fastforce
  then show ?case
  proof cases
    case 1
    then show ?thesis
      using operand_step[OF less(1) less(2)[unfolded s] less(3) g] s by simp
  next
    case 2
    then show ?thesis
      using parse_ok_trans[OF c1 parse_ok_syntax] unfolding s loop by simp
  next
    case 3
    note red = reduce_ok[OF less(2)[unfolded s] g1 3(2) op_def]
    show ?thesis
    proof (cases "\<exists>s' r2. reduce r1 (t # rest) op = Returns (Some s', r2)")
      case False
      then show ?thesis
        using red 3 unfolding s loop
        by (auto simp: parse_ok_def reduce_ok_def intro: calm_trans[OF c1] split: outcome.splits option.splits)
    next
      case True
      then obtain s' r2 where R: "reduce r1 (t # rest) op = Returns (Some s', r2)" by blast
      have k: "stack_ok V want s'" "calm r1 r2" "op = CPP_EOF \<longrightarrow> op_op (hd s') = CPP_EOF"
        "op \<in> {CPP_EOF, CPP_CLOSE_PAREN} \<longrightarrow> \<not> want"
        using red R by (auto simp: reduce_ok_def)
      have c2: "calm r r2" using c1 k(2) by (rule calm_trans)
      have "pending r2 < pending r" if "op \<noteq> CPP_EOF"
        using that pending_get(1)[OF g] token_op_eof pending_frame[OF reduce_frame[OF R]] by (auto simp: op_def)
      from operator_step[OF less(1) k(1) good_calm[OF less(3) c2] c2 this op_def 3(2) k(3,4)] show ?thesis
        using 3 R unfolding s loop by simp
    qed
  qed
qed

lemma parse_expr_ok: "good r \<Longrightarrow> parse_ok T r (cpp_parse_expr r is_if)"
proof -
  assume g: "good r"
  let ?r = "r\<lparr>skip_eval := 0, mi_ind_cmacro := None\<rparr>"
  have c: "calm r ?r" by simp
  have "stack_ok V True [\<lparr>op_token = item_token eof_item, op_value = None, op_loc = 0, op_op = CPP_EOF\<rparr>]"
    by (simp add: stack_ok.simps)
  from parse_ok_trans[OF c parse_loop_ok[OF this good_calm[OF g c]]] show ?thesis
    by (simp add: cpp_parse_expr_def)
qed

end

section \<open>Safety of the parser\<close>

interpretation any: value_laws "\<lambda>_. True" False "\<lambda>_. True"
  by unfold_locales simp_all

definition lexed_reader :: "nat \<Rightarrow> cpp_reader \<Rightarrow> bool" where
  "lexed_reader p r \<longleftrightarrow> precision (opts r) = p \<and> lexed r"

lemma wf_bool: "2 \<le> p \<Longrightarrow> num_wf p (num_of_bool b)"
  using power_increasing[of 1 p "2 :: nat"] by (cases b) (simp_all add: num_wf_def num_of_bool_def num_val_make)

lemma wf_charconst: "32 \<le> p \<Longrightarrow> p \<le> 128 \<Longrightarrow> num_wf p (num_of_charconst cc u p)"
proof -
  assume p: "32 \<le> p" "p \<le> 128"
  have "unat cc < 2 ^ 32" using unsigned_less[of cc] by simp
  also have "\<dots> \<le> (2 :: nat) ^ p" using p by (intro power_increasing) simp_all
  finally have "unat cc < 2 ^ p" .
  moreover have "unat (ucast cc :: 64 word) \<le> unat cc"
    by (simp add: unsigned_ucast_eq)
  ultimately have "num_wf p (\<lparr>high = 0, low = ucast cc, unsignedp = False, overflow = False\<rparr>)"
    by (simp add: num_wf_def num_val_make)
  then show ?thesis
    using p by (auto simp: num_of_charconst_def Let_def)
qed

lemma int_digits_opts: "opts q = opts r \<Longrightarrow> int_digits q base text = int_digits r base text"
  by (simp add: int_digits_def DIGIT_SEP_def)

lemma wf_integer:
  assumes "32 \<le> p" "p \<le> 128" "precision (opts r) = p" "cpp_classify_number r tok loc = (t, ud, r')"
    "t AND CPP_N_CATEGORY = CPP_N_INTEGER" "opts q = opts r" "cpp_interpret_integer q tok t = (v, q')"
    "length (val_text (val tok)) = 1 \<longrightarrow> ISDIGIT (at (val_text (val tok)) 0)"
  shows "num_wf p v"
proof -
  obtain base k where b: "interpret_base t = (base, k)" by fastforce
  have one: "base = 10 \<and> k = 0" if "length (val_text (val tok)) = 1"
    using assms(4) that b by (auto simp: cpp_classify_number_def interpret_base_def flag_simps)
  have "\<forall>d \<in> set (int_digits r base (drop k (val_text (val tok)))). d < base"
  proof (cases "length (val_text (val tok)) = 1")
    case True
    then obtain c where "val_text (val tok) = [c]" "ISDIGIT c"
      using assms(8) by (auto simp: length_Suc_conv)
    then show ?thesis
      using one[OF True] hex_value_digit[of c] by (simp add: int_digits_Cons)
  next
    case False
    then show ?thesis
      using classify_integer[OF assms(4,5) b] by simp
  qed
  then have "num_val v = digits_value base 0 (int_digits q base (drop k (val_text (val tok)))) mod 2 ^ p"
    using interpret_integer_cases[OF _ assms(2) _ b refl _ _ refl assms(7)] assms(1,3,6,8) one int_digits_opts[OF assms(6)] by auto
  then show ?thesis
    by (simp add: num_wf_def)
qed

lemma wf_number:
  assumes "32 \<le> p" "p \<le> 128" "precision (opts r) = p" "eval_number r tok loc = (v, r')"
    "length (val_text (val tok)) = 1 \<longrightarrow> ISDIGIT (at (val_text (val tok)) 0)"
  shows "num_wf p v"
proof -
  obtain t ud q where c: "cpp_classify_number r tok loc = (t, ud, q)" by (metis prod_cases3)
  have q: "opts (diag_if x (\<lambda>r. cpp_error r CPP_DL_ERROR m) q) = opts r" for x m
    using calm_classify[OF c] by (simp add: calm_def diag_if_def cpp_diagnostic_def)
  have "num_wf p (num_of_bool False)"
    using assms(1) by (intro wf_bool) simp
  then show ?thesis
    using assms(4) wf_integer[OF assms(1-3) c _ q _ assms(5)] by (auto simp: eval_number_def c Let_def split: if_splits)
qed

lemma wf_name: "2 \<le> p \<Longrightarrow> eval_name r node loc = (v, r') \<Longrightarrow> num_wf p v"
proof -
  have d: "\<exists>b. fst (parse_defined r) = num_of_bool b"
    unfolding parse_defined_def Let_def split_beta fst_conv by (rule exI, rule refl)
  have h: "\<exists>b. fst (parse_has_include r it) = num_of_bool b" for it
    unfolding parse_has_include_def Let_def split_beta fst_conv by (rule exI, rule refl)
  have b: "\<exists>b. num_of_bool x = num_of_bool b" for x
    by (rule exI, rule refl)
  have "\<exists>b. fst (eval_name r node loc) = num_of_bool b"
    unfolding eval_name_def by (simp add: d h b)
  then show "2 \<le> p \<Longrightarrow> eval_name r node loc = (v, r') \<Longrightarrow> num_wf p v"
    using wf_bool by auto
qed

lemma wf_operand:
  assumes "32 \<le> p" "p \<le> 128" "lexed_reader p r" "cpp_get_token_with_location r = (i, r')"
    "item_type i \<in> operand_types" "eval_token r' (item_token i) (item_loc i) = (v, r'')"
  shows "num_wf p v"
proof -
  have p: "precision (opts r') = p" "lexed r'" "2 \<le> p"
    using calm_get(2)[OF assms(4)] assms(1,3) by (auto simp: calm_def lexed_reader_def)
  have "i \<in> set (token_run r')"
    using pending_get(1)[OF assms(4)] by (cases "token_run r'") auto
  then have "lexed_item i"
    using p(2) by (auto simp: lexed_def list_all_iff)
  moreover have "num_wf p v" if "eval_assertion r' (item_loc i) = (v, r'')"
    using that p(3) by (auto simp: eval_assertion_def Let_def wf_bool split: if_splits prod.splits)
  ultimately show ?thesis
    using assms(1,2,6) p wf_number[OF assms(1,2) p(1)] wf_name[OF p(3)] wf_charconst[OF assms(1,2)] wf_bool[OF p(3)]
    by (auto simp: eval_token_def lexed_item_def split: if_splits prod.splits)
qed

lemma value_laws_hold: "width_ok p \<Longrightarrow> 32 \<le> p \<Longrightarrow> value_laws (num_wf p) True (lexed_reader p)"
proof (unfold_locales, goal_cases)
  case (1 x)
  then show ?case by (intro wf_bool) simp
next
  case (2 a u)
  then show ?case by simp
next
  case (3 r a op)
  then show ?case
    using denotes_unary[OF _ _ _ wf_denotes] by (auto simp: denotes_def lexed_reader_def width_ok_def prefix_ops_def)
next
  case (4 r a b op loc v r')
  then show ?case
    using denotes_binary[of p "host r" r a _ b _ op loc, OF _ _ wf_denotes wf_denotes] by (auto simp: good_reader_def lexed_reader_def)
next
  case (5 r a b op loc)
  then show ?case
    using denotes_binary[of p "host r" r a _ b _ op loc, OF _ _ wf_denotes wf_denotes] by (auto simp: good_reader_def lexed_reader_def)
next
  case (6 r i r' v r'')
  then show ?case
    using wf_operand by (auto simp: width_ok_def)
next
  case (7 r r')
  then show ?case by (simp add: lexed_reader_def calm_def)
qed

interpretation w64: value_laws "num_wf 64" True "lexed_reader 64"
  by (rule value_laws_hold) (simp_all add: width_ok_def)

lemma parse_expr_defined: "cpp_parse_expr r b \<noteq> Undefined"
  using any.parse_expr_ok[of r b] by (auto simp: parse_ok_def)

lemma parse_expr_returns:
  assumes "width_ok (precision (opts r))" "32 \<le> precision (opts r)" "lexed r"
  shows "\<exists>v r'. cpp_parse_expr r b = Returns (v, r')"
  using value_laws.parse_expr_ok[OF value_laws_hold[OF assms(1,2)], of r b] assms(3)
  by (auto simp: parse_ok_def lexed_reader_def split: outcome.splits)

text \<open>
  C3: safety of \<^verbatim>\<open>_cpp_parse_expr\<close> on every line, well-formed or not. It never reads a value that was
  not stored or an entry below the bottom of the stack, and never reports an internal error, such
  as an impossible operator or an unbalanced stack; and where the arithmetic is not wider than a
  part, or as wide as two, and the numbers on the line are those of the lexer, it returns.
\<close>

theorem parse_expr_safe:
  "cpp_parse_expr r is_if \<noteq> Undefined
   \<and> (\<forall>v r'. cpp_parse_expr r is_if = Returns (v, r') \<longrightarrow> ices r' = ices r)
   \<and> (width_ok (precision (opts r)) \<and> 32 \<le> precision (opts r) \<and> lexed r \<longrightarrow> (\<exists>v r'. cpp_parse_expr r is_if = Returns (v, r')))"
proof (intro conjI impI allI)
  show "cpp_parse_expr r is_if \<noteq> Undefined"
    by (rule parse_expr_defined)
  show "ices r' = ices r" if "cpp_parse_expr r is_if = Returns (v, r')" for v r'
    using any.parse_expr_ok[of r is_if] that by (simp add: parse_ok_def calm_def)
qed (use parse_expr_returns[of r is_if] in blast)

lemma reader64_run: "token_run reader64 = []"
  by (simp add: reader64_def create_reader_def)

theorem parse_expr_safe_witness:
  "\<exists>v r'. cpp_parse_expr (reader64\<lparr>tokens := [punct CPP_OPEN_PAREN, lit ''1'', punct CPP_QUERY, lit ''2'']\<rparr>) True = Returns (v, r')"
  using parse_expr_safe[of "reader64\<lparr>tokens := [punct CPP_OPEN_PAREN, lit ''1'', punct CPP_QUERY, lit ''2'']\<rparr>" True]
  by (simp add: width_ok_def lexed_def lexed_item_def char_simps reader64_run)

end
