(* ===== verification/Cpp_Conditional.thy ===== *)
theory Cpp_Conditional
  imports Cpp_Safe
begin

text \<open>
  Directives, \<^verbatim>\<open>libcpp/directives.c\<close>: the table of directives, \<^verbatim>\<open>_cpp_handle_directive\<close>, the
  conditional directives and their stack, and the part of \<^verbatim>\<open>libcpp/files.c\<close> that notes the macro
  controlling a file. The handlers of the other directives (macro definitions, inclusion, pragmas,
  line control) and the scanner of traditional C are arguments.
\<close>

section \<open>The table of directives\<close>

datatype dir_origin = KANDR | STDC89 | EXTENSION

datatype dir_flag = COND | IF_COND | INCL | IN_I | EXPAND | DEPRECATED

text \<open>A directive is an entry of \<^verbatim>\<open>dtable\<close> or \<^verbatim>\<open>linemarker_dir\<close>.\<close>

datatype directive = Dir directive_type | Linemarker

primrec dtable :: "directive_type \<Rightarrow> dir_origin \<times> dir_flag list" where
  "dtable T_DEFINE = (KANDR, [IN_I])"
| "dtable T_INCLUDE = (KANDR, [INCL, EXPAND])"
| "dtable T_ENDIF = (KANDR, [COND])"
| "dtable T_IFDEF = (KANDR, [COND, IF_COND])"
| "dtable T_IF = (KANDR, [COND, IF_COND, EXPAND])"
| "dtable T_ELSE = (KANDR, [COND])"
| "dtable T_IFNDEF = (KANDR, [COND, IF_COND])"
| "dtable T_UNDEF = (KANDR, [IN_I])"
| "dtable T_LINE = (KANDR, [EXPAND])"
| "dtable T_ELIF = (STDC89, [COND, EXPAND])"
| "dtable T_ERROR = (STDC89, [])"
| "dtable T_PRAGMA = (STDC89, [IN_I])"
| "dtable T_WARNING = (EXTENSION, [])"
| "dtable T_INCLUDE_NEXT = (EXTENSION, [INCL, EXPAND])"
| "dtable T_IDENT = (EXTENSION, [IN_I])"
| "dtable T_IMPORT = (EXTENSION, [INCL, EXPAND])"
| "dtable T_ASSERT = (EXTENSION, [DEPRECATED])"
| "dtable T_UNASSERT = (EXTENSION, [DEPRECATED])"
| "dtable T_SCCS = (EXTENSION, [IN_I])"

primrec dir_entry :: "directive \<Rightarrow> dir_origin \<times> dir_flag list" where
  "dir_entry (Dir t) = dtable t"
| "dir_entry Linemarker = (KANDR, [IN_I])"

definition origin :: "directive \<Rightarrow> dir_origin" where
  "origin d = fst (dir_entry d)"

definition has_flag :: "directive \<Rightarrow> dir_flag \<Rightarrow> bool" where
  "has_flag d f \<longleftrightarrow> f \<in> set (snd (dir_entry d))"

lemma if_cond_cond: "has_flag d IF_COND \<Longrightarrow> has_flag d COND"
proof (cases d)
  case (Dir t)
  then show "has_flag d IF_COND \<Longrightarrow> has_flag d COND" by (cases t) (simp_all add: has_flag_def)
qed (simp add: has_flag_def)

section \<open>The conditional directives\<close>

text \<open>The macro name of \<^verbatim>\<open>#define\<close>, \<^verbatim>\<open>#undef\<close>, \<^verbatim>\<open>#ifdef\<close> and \<^verbatim>\<open>#ifndef\<close>.\<close>

definition lex_macro_node :: "cpp_reader \<Rightarrow> bool \<Rightarrow> node_ref option \<times> cpp_reader" where
  "lex_macro_node pfile is_def_or_undef =
     (let (token, pfile) = cpp_get_token pfile in
      if type token = CPP_NAME then
        (case val_node (val token) of
           None \<Rightarrow> (None, pfile)
         | Some node \<Rightarrow>
             if is_def_or_undef \<and> node = ''defined''
             then (None, cpp_error pfile CPP_DL_ERROR ''defined cannot be used as a macro name'')
             else if is_def_or_undef \<and> (node = ''__has_include__'' \<or> node = ''__has_include_next__'')
             then (None, cpp_error pfile CPP_DL_ERROR ''__has_include__ cannot be used as a macro name'')
             else if \<not> node_poisoned (nodes pfile node) then (Some node, pfile)
             else (None, pfile))
      else if flags token AND NAMED_OP \<noteq> 0
      then (None, cpp_error pfile CPP_DL_ERROR ''cannot be used as a macro name as it is an operator in C++'')
      else if type token = CPP_EOF then (None, cpp_error pfile CPP_DL_ERROR ''no macro name given in directive'')
      else (None, cpp_error pfile CPP_DL_ERROR ''macro names must be identifiers''))"

definition push_conditional :: "cpp_reader \<Rightarrow> bool \<Rightarrow> directive_type \<Rightarrow> node_ref option \<Rightarrow> cpp_reader" where
  "push_conditional pfile skip typ cmacro =
     (let ifs = \<lparr>ifs_line = directive_line pfile,
                 ifs_mi_cmacro = (if mi_valid pfile \<and> mi_cmacro pfile = None then cmacro else None),
                 skip_elses = (skipping pfile \<or> \<not> skip), was_skipping = skipping pfile, ifs_type = typ\<rparr>
      in pfile\<lparr>skipping := skip, if_stack := ifs # if_stack pfile\<rparr>)"

text \<open>What \<^verbatim>\<open>#ifdef\<close> and \<^verbatim>\<open>#ifndef\<close> take for a definition: a conditional macro is none.\<close>

definition is_defined :: "cpp_hashnode \<Rightarrow> bool" where
  "is_defined node \<longleftrightarrow> cpp_macro_p node \<and> \<not> node_conditional node"

definition note_macro_use :: "node_ref \<Rightarrow> cpp_reader \<Rightarrow> cpp_reader" where
  "note_macro_use node pfile = check_eol (maybe_notify_macro_use node (mark_macro_used node pfile))"

definition do_ifdef :: "cpp_reader \<Rightarrow> cpp_reader" where
  "do_ifdef pfile =
     (let (skip, pfile) =
        (if \<not> skipping pfile then
           (case lex_macro_node pfile False of
              (None, pfile) \<Rightarrow> (True, pfile)
            | (Some node, pfile) \<Rightarrow> (\<not> is_defined (nodes pfile node), note_macro_use node pfile))
         else (True, pfile))
      in push_conditional pfile skip T_IFDEF None)"

definition do_ifndef :: "cpp_reader \<Rightarrow> cpp_reader" where
  "do_ifndef pfile =
     (let (skip, node, pfile) =
        (if \<not> skipping pfile then
           (case lex_macro_node pfile False of
              (None, pfile) \<Rightarrow> (True, None, pfile)
            | (Some node, pfile) \<Rightarrow> (is_defined (nodes pfile node), Some node, note_macro_use node pfile))
         else (True, None, pfile))
      in push_conditional pfile skip T_IFNDEF node)"

definition do_if :: "cpp_reader \<Rightarrow> cpp_reader outcome" where
  "do_if pfile =
     map_outcome (\<lambda>(skip, pfile). push_conditional pfile skip T_IF (mi_ind_cmacro pfile))
       (if \<not> skipping pfile then map_outcome (map_prod Not id) (cpp_parse_expr pfile True)
        else Returns (True, pfile))"

definition after_else :: "string \<Rightarrow> if_entry \<Rightarrow> cpp_reader \<Rightarrow> cpp_reader" where
  "after_else msg ifs pfile =
     diag_if (ifs_type ifs = T_ELSE)
       (\<lambda>r. cpp_error_with_line (cpp_error r CPP_DL_ERROR msg) CPP_DL_ERROR (ifs_line ifs) ''the conditional began here'')
       pfile"

definition do_else :: "cpp_reader \<Rightarrow> cpp_reader" where
  "do_else pfile =
     (case if_stack pfile of
        [] \<Rightarrow> cpp_error pfile CPP_DL_ERROR ''#else without #if''
      | ifs # rest \<Rightarrow>
          (let pfile = after_else ''#else after #else'' ifs pfile;
               pfile = pfile\<lparr>skipping := skip_elses ifs,
                             if_stack := ifs\<lparr>ifs_type := T_ELSE, skip_elses := True, ifs_mi_cmacro := None\<rparr> # rest\<rparr>
           in if \<not> was_skipping ifs \<and> warn_endif_labels (opts pfile) then check_eol_endif_labels pfile else pfile))"

definition do_elif :: "cpp_reader \<Rightarrow> cpp_reader outcome" where
  "do_elif pfile =
     (case if_stack pfile of
        [] \<Rightarrow> Returns (cpp_error pfile CPP_DL_ERROR ''#elif without #if'')
      | ifs # rest \<Rightarrow>
          (let pfile = after_else ''#elif after #else'' ifs pfile;
               ifs = ifs\<lparr>ifs_type := T_ELIF, ifs_mi_cmacro := None\<rparr>
           in if skip_elses ifs then Returns (pfile\<lparr>skipping := True, if_stack := ifs # rest\<rparr>)
              else map_outcome
                     (\<lambda>(value, pfile). pfile\<lparr>skipping := \<not> value, if_stack := ifs\<lparr>skip_elses := value\<rparr> # rest\<rparr>)
                     (cpp_parse_expr pfile False)))"

definition do_endif :: "cpp_reader \<Rightarrow> cpp_reader" where
  "do_endif pfile =
     (case if_stack pfile of
        [] \<Rightarrow> cpp_error pfile CPP_DL_ERROR ''#endif without #if''
      | ifs # rest \<Rightarrow>
          (let pfile = (if \<not> was_skipping ifs \<and> warn_endif_labels (opts pfile)
                        then check_eol_endif_labels pfile else pfile);
               pfile = (if rest = [] \<and> ifs_mi_cmacro ifs \<noteq> None
                        then pfile\<lparr>mi_valid := True, mi_cmacro := ifs_mi_cmacro ifs\<rparr> else pfile)
           in pfile\<lparr>if_stack := rest, skipping := was_skipping ifs\<rparr>))"

section \<open>Handling a directive\<close>

text \<open>
  What is not modelled: the other handlers, and of the traditional preprocessor the scan of the
  line into an overlay buffer and its removal.
\<close>

record hooks =
  other_handler :: "directive \<Rightarrow> cpp_reader \<Rightarrow> cpp_reader"
  scan_out_logical_line :: "cpp_reader \<Rightarrow> cpp_reader"
  remove_overlay :: "cpp_reader \<Rightarrow> cpp_reader"

definition start_directive :: "cpp_reader \<Rightarrow> cpp_reader" where
  "start_directive pfile =
     pfile\<lparr>in_directive := True, state := (state pfile)\<lparr>save_comments := False\<rparr>,
           directive_line := highest_line (state pfile)\<rparr>"

definition end_directive :: "hooks \<Rightarrow> directive option \<Rightarrow> cpp_reader \<Rightarrow> bool \<Rightarrow> cpp_reader" where
  "end_directive h dir pfile skip_line =
     (let pfile =
        (if traditional (opts pfile) then
           (let pfile = (if \<not> in_deferred_pragma (state pfile)
                         then pfile\<lparr>prevent_expansion := prevent_expansion pfile - 1\<rparr> else pfile)
            in if dir \<noteq> Some (Dir T_DEFINE) then remove_overlay h pfile else pfile)
         else if in_deferred_pragma (state pfile) then pfile
         else if skip_line then skip_rest_of_line pfile
         else pfile)
      in pfile\<lparr>in_directive := False,
               state := (state pfile)\<lparr>save_comments := \<not> discard_comments (opts pfile), in_expression := False,
                                        angled_headers := False\<rparr>\<rparr>)"

definition prepare_directive_trad :: "hooks \<Rightarrow> directive option \<Rightarrow> cpp_reader \<Rightarrow> cpp_reader" where
  "prepare_directive_trad h dir pfile =
     (let pfile =
        (if dir \<noteq> Some (Dir T_DEFINE) then
           (let no_expand = (case dir of None \<Rightarrow> False | Some d \<Rightarrow> \<not> has_flag d EXPAND);
                was = skipping pfile;
                expr = (dir = Some (Dir T_IF) \<or> dir = Some (Dir T_ELIF));
                pfile = pfile\<lparr>state := (state pfile)\<lparr>in_expression := expr\<rparr>\<rparr>;
                pfile = (if expr then pfile\<lparr>skipping := False\<rparr> else pfile);
                pfile = (if no_expand then pfile\<lparr>prevent_expansion := prevent_expansion pfile + 1\<rparr> else pfile);
                pfile = scan_out_logical_line h pfile;
                pfile = (if no_expand then pfile\<lparr>prevent_expansion := prevent_expansion pfile - 1\<rparr> else pfile)
            in pfile\<lparr>skipping := was\<rparr>)
         else pfile)
      in pfile\<lparr>prevent_expansion := prevent_expansion pfile + 1\<rparr>)"

definition directive_diagnostics :: "cpp_reader \<Rightarrow> directive \<Rightarrow> bool \<Rightarrow> cpp_reader" where
  "directive_diagnostics pfile dir indented =
     (let o' = opts pfile;
          pfile =
            (if \<not> skipping pfile then
               (if origin dir = EXTENSION \<and> \<not> (dir = Dir T_IMPORT \<and> objc o') \<and> cpp_pedantic o'
                then cpp_error pfile CPP_DL_PEDWARN ''is a GCC extension''
                else diag_if ((has_flag dir DEPRECATED \<or> (dir = Dir T_IMPORT \<and> \<not> objc o')) \<and> cpp_warn_deprecated o')
                       (\<lambda>r. cpp_warning r CPP_W_DEPRECATED ''is a deprecated GCC extension'') pfile)
             else pfile)
      in if cpp_warn_traditional o' then
           (if dir = Dir T_ELIF then cpp_warning pfile CPP_W_TRADITIONAL ''suggest not using #elif in traditional C''
            else if indented \<and> origin dir = KANDR
            then cpp_warning pfile CPP_W_TRADITIONAL ''traditional C ignores the directive with the # indented''
            else diag_if (\<not> indented \<and> origin dir \<noteq> KANDR)
                   (\<lambda>r. cpp_warning r CPP_W_TRADITIONAL ''suggest hiding the directive from traditional C'') pfile)
         else pfile)"

definition run_handler :: "hooks \<Rightarrow> directive \<Rightarrow> cpp_reader \<Rightarrow> cpp_reader outcome" where
  "run_handler h dir pfile =
     (case dir of
        Dir T_IFDEF \<Rightarrow> Returns (do_ifdef pfile)
      | Dir T_IFNDEF \<Rightarrow> Returns (do_ifndef pfile)
      | Dir T_IF \<Rightarrow> do_if pfile
      | Dir T_ELSE \<Rightarrow> Returns (do_else pfile)
      | Dir T_ELIF \<Rightarrow> do_elif pfile
      | Dir T_ENDIF \<Rightarrow> Returns (do_endif pfile)
      | Dir T_ASSERT \<Rightarrow> Returns (do_assert pfile)
      | Dir T_UNASSERT \<Rightarrow> Returns (do_unassert pfile)
      | _ \<Rightarrow> Returns (other_handler h dir pfile))"

text \<open>The directive that a name, or a number, after the \<^verbatim>\<open>#\<close> stands for.\<close>

definition find_directive :: "cpp_reader \<Rightarrow> cpp_token \<Rightarrow> directive option" where
  "find_directive pfile dname =
     (if type dname = CPP_NAME then
        (case val_node (val dname) of
           None \<Rightarrow> None
         | Some n \<Rightarrow> map_option Dir (directive_index (nodes pfile n)))
      else if type dname = CPP_NUMBER \<and> lang (opts pfile) \<noteq> CLK_ASM then Some Linemarker
      else None)"

text \<open>
  What is decided before a handler is called: the directive to handle, if any, and whether the
  rest of the line is to be skipped.
\<close>

definition select_directive :: "cpp_reader \<Rightarrow> cpp_token \<Rightarrow> bool \<Rightarrow> directive option \<times> bool \<times> cpp_reader" where
  "select_directive pfile dname indented =
     (case find_directive pfile dname of
        Some dir \<Rightarrow>
          (let pfile = diag_if (dir = Linemarker \<and> cpp_pedantic (opts pfile) \<and> \<not> preprocessed (opts pfile) \<and> \<not> skipping pfile)
                         (\<lambda>r. cpp_error r CPP_DL_PEDWARN ''style of line directive is a GCC extension'') pfile;
               pfile = (if \<not> has_flag dir IF_COND then pfile\<lparr>mi_valid := False\<rparr> else pfile)
           in if preprocessed (opts pfile) \<and> \<not> directives_only (opts pfile) \<and> (indented \<or> \<not> has_flag dir IN_I)
              then (None, False, pfile)
              else
                (let pfile = pfile\<lparr>state := (state pfile)\<lparr>angled_headers := has_flag dir INCL,
                                                      directive_wants_padding := has_flag dir INCL\<rparr>\<rparr>;
                     pfile = (if \<not> preprocessed (opts pfile) then directive_diagnostics pfile dir indented else pfile)
                 in (if skipping pfile \<and> \<not> has_flag dir COND then None else Some dir, True, pfile)))
      | None \<Rightarrow>
          if type dname = CPP_EOF then (None, True, pfile)
          else if lang (opts pfile) = CLK_ASM then (None, False, pfile)
          else (None, True, diag_if (\<not> skipping pfile)
                              (\<lambda>r. cpp_error r CPP_DL_ERROR ''invalid preprocessing directive'') pfile))"

text \<open>The result is whether the line has been handled.\<close>

definition handle_directive :: "hooks \<Rightarrow> cpp_reader \<Rightarrow> bool \<Rightarrow> (bool \<times> cpp_reader) outcome" where
  "handle_directive h pfile indented =
     (let was_parsing_args = (parsing_args (state pfile) \<noteq> 0);
          was_discarding_output = discarding_output (state pfile);
          pfile = (if was_discarding_output then pfile\<lparr>prevent_expansion := 0\<rparr> else pfile);
          pfile = (if was_parsing_args
                   then (diag_if (cpp_pedantic (opts pfile))
                           (\<lambda>r. cpp_error r CPP_DL_PEDWARN ''embedding a directive within macro arguments is not portable'')
                           pfile)\<lparr>state := (state pfile)\<lparr>parsing_args := 0\<rparr>, prevent_expansion := 0\<rparr>
                   else pfile);
          (dname, pfile) = cpp_get_token (start_directive pfile);
          (dir, skip, pfile) = select_directive pfile dname indented;
          pfile = (if traditional (opts pfile) then prepare_directive_trad h dir pfile else pfile)
      in map_outcome
           (\<lambda>pfile.
              (let pfile = end_directive h dir pfile skip;
                   pfile = (if was_parsing_args \<and> \<not> in_deferred_pragma (state pfile)
                            then pfile\<lparr>state := (state pfile)\<lparr>parsing_args := 2\<rparr>, prevent_expansion := 1\<rparr> else pfile)
               in (skip, if was_discarding_output then pfile\<lparr>prevent_expansion := 1\<rparr> else pfile)))
           (case dir of
              Some d \<Rightarrow> run_handler h d pfile
            | None \<Rightarrow> Returns (if \<not> skip then cpp_backup_token pfile else pfile)))"

section \<open>A file\<close>

text \<open>
  A line as the lexer delivers it in a given state: whether it starts with a \<^verbatim>\<open>#\<close>, which is then
  not among the items, whether that is indented, and whether a macro was expanded
  on the line, which \<^verbatim>\<open>enter_macro_context\<close> marks by clearing \<open>mi_valid\<close>.
\<close>

record lexed_line =
  line_hash :: bool
  line_indented :: bool
  line_expanded :: bool
  line_items :: "pp_item list"

text \<open>
  One line of \<^verbatim>\<open>_cpp_lex_token\<close>: a directive is handled, anything else invalidates the controlling
  macro and is delivered unless it is skipped. The result says whether the line is delivered.
\<close>

definition deliver_line :: "cpp_reader \<Rightarrow> bool \<times> cpp_reader" where
  "deliver_line pfile = (\<not> skipping pfile, pfile\<lparr>mi_valid := False\<rparr>)"

definition lex_line :: "hooks \<Rightarrow> ('l \<Rightarrow> cpp_reader \<Rightarrow> lexed_line) \<Rightarrow> 'l \<Rightarrow> cpp_reader \<Rightarrow> (bool \<times> cpp_reader) outcome" where
  "lex_line h lexer l pfile =
     (let ll = lexer l pfile;
          pfile = pfile\<lparr>tokens := line_items ll, token_run := [], mi_valid := mi_valid pfile \<and> \<not> line_expanded ll\<rparr>
      in if line_hash ll \<and> parsing_args (state pfile) \<noteq> 1
         then map_outcome (\<lambda>(handled, pfile). if handled then (False, pfile) else deliver_line pfile)
                (handle_directive h pfile (line_indented ll))
         else Returns (deliver_line pfile))"

text \<open>The lines of a file, and which of them are delivered.\<close>

fun lex_lines :: "hooks \<Rightarrow> ('l \<Rightarrow> cpp_reader \<Rightarrow> lexed_line) \<Rightarrow> 'l list \<Rightarrow> cpp_reader \<Rightarrow> ('l list \<times> cpp_reader) outcome" where
  "lex_lines h lexer [] pfile = Returns ([], pfile)"
| "lex_lines h lexer (l # ls) pfile =
     (case lex_line h lexer l pfile of
        Returns (d, pfile) \<Rightarrow>
          map_outcome (\<lambda>(out, pfile). (if d then l # out else out, pfile)) (lex_lines h lexer ls pfile)
      | Diverges \<Rightarrow> Diverges
      | Undefined \<Rightarrow> Undefined)"

text \<open>
  \<^verbatim>\<open>cpp_push_buffer\<close> and \<^verbatim>\<open>_cpp_stack_file\<close> for the state of conditionals, and \<^verbatim>\<open>_cpp_pop_buffer\<close>
  with \<^verbatim>\<open>_cpp_pop_file_buffer\<close>, which return to the stack of the including file and
  say which macro controls the file.
\<close>

definition stack_file :: "cpp_reader \<Rightarrow> cpp_reader" where
  "stack_file pfile = pfile\<lparr>if_stack := [], mi_valid := True, mi_cmacro := None\<rparr>"

definition unterminated :: "if_entry \<Rightarrow> cpp_reader \<Rightarrow> cpp_reader" where
  "unterminated ifs pfile = cpp_error_with_line pfile CPP_DL_ERROR (ifs_line ifs) ''unterminated conditional''"

definition pop_buffer :: "if_entry list \<Rightarrow> node_ref option \<Rightarrow> cpp_reader \<Rightarrow> node_ref option \<times> cpp_reader" where
  "pop_buffer prev cmacro pfile =
     (let pfile = (fold unterminated (if_stack pfile) pfile)\<lparr>skipping := False, if_stack := prev\<rparr>
      in (if mi_valid pfile \<and> cmacro = None then mi_cmacro pfile else cmacro, pfile\<lparr>mi_valid := False\<rparr>))"

text \<open>The test of \<^verbatim>\<open>should_stack_file\<close> for a file that a macro controls.\<close>

definition guard_skips :: "cpp_reader \<Rightarrow> node_ref option \<Rightarrow> bool" where
  "guard_skips pfile cmacro = (case cmacro of None \<Rightarrow> False | Some n \<Rightarrow> cpp_macro_p (nodes pfile n))"

section \<open>What the handlers leave alone\<close>

lemma map_outcome_returns:
  "map_outcome f x = Returns y \<longleftrightarrow> (\<exists>z. x = Returns z \<and> y = f z)" "Returns y = map_outcome f x \<longleftrightarrow> (\<exists>z. x = Returns z \<and> y = f z)"
  by (cases x; auto)+

definition soft :: "cpp_reader \<Rightarrow> cpp_reader \<Rightarrow> bool" where
  "soft r r' \<longleftrightarrow> opts r' = opts r \<and> if_stack r' = if_stack r \<and> skipping r' = skipping r \<and> mi_cmacro r' = mi_cmacro r
     \<and> node_state \<circ> nodes r' = node_state \<circ> nodes r \<and> parsing_args (state r') = parsing_args (state r)
     \<and> in_deferred_pragma (state r') = in_deferred_pragma (state r) \<and> discarding_output (state r') = discarding_output (state r)"

lemma soft_refl [simp]: "soft r r"
  by (simp add: soft_def)

lemma soft_trans [trans]: "soft a b \<Longrightarrow> soft b c \<Longrightarrow> soft a c"
  by (simp add: soft_def)

lemma calm_soft: "calm r r' \<Longrightarrow> soft r r' \<and> mi_valid r' = mi_valid r"
  by (simp add: calm_def soft_def dir_state_def)

lemma soft_simps [simp]:
  "soft a (cpp_diagnostic r l w x m) = soft a r" "soft a (r\<lparr>prevent_expansion := b\<rparr>) = soft a r"
  "soft a (r\<lparr>in_directive := t\<rparr>) = soft a r" "soft a (r\<lparr>directive_line := ln\<rparr>) = soft a r"
  "soft a (r\<lparr>mi_valid := t\<rparr>) = soft a r" "soft a (r\<lparr>cpp_context := c\<rparr>) = soft a r"
  "soft a (r\<lparr>tokens := ts\<rparr>) = soft a r" "soft a (r\<lparr>token_run := ts\<rparr>) = soft a r"
  by (simp_all add: soft_def cpp_diagnostic_def)

lemma soft_diag_if [simp]: "(\<And>x. soft a (f x) = soft a x) \<Longrightarrow> soft a (diag_if c f r) = soft a r"
  by (simp add: diag_if_def)

lemma mi_valid_simps [simp]:
  "mi_valid (cpp_diagnostic r l w x m) = mi_valid r"
  by (simp add: cpp_diagnostic_def)

lemma mi_valid_diag_if [simp]: "(\<And>x. mi_valid (f x) = mi_valid x) \<Longrightarrow> mi_valid (diag_if c f r) = mi_valid r"
  by (simp add: diag_if_def)

lemma calm_skip_tokens: "calm r (skip_tokens r)"
proof (induction r rule: skip_tokens.induct)
  case (1 r)
  obtain t q where g: "cpp_get_token r = (t, q)" by fastforce
  have "calm r q" by (rule calm_get(1)[OF g])
  with 1 g show ?case
    by (subst skip_tokens.simps) (auto intro: calm_trans)
qed

lemma calm_context [simp]: "calm a (r\<lparr>cpp_context := c\<rparr>) = calm a r"
  by (simp add: calm_def ices_def lexed_def dir_state_def)

lemma calm_skip_rest: "calm r (skip_rest_of_line r)"
  unfolding skip_rest_of_line_def Let_def
  using calm_skip_tokens[of "r\<lparr>cpp_context := 0\<rparr>"] calm_trans[of r "r\<lparr>cpp_context := 0\<rparr>"] by simp

lemma calm_check_eol: "calm r (check_eol_1 r reason)"
  by (auto simp: check_eol_1_def split: prod.splits dest!: calm_get(1))

lemma calm_lex_macro: "lex_macro_node r b = (n, r') \<Longrightarrow> calm r r'"
  by (auto simp: lex_macro_node_def split: prod.splits if_splits option.splits dest!: calm_get(1))

lemma calm_note_use: "calm r (note_macro_use n r)"
  unfolding note_macro_use_def check_eol_def by (rule calm_trans[OF _ calm_check_eol]) simp

lemma calm_parse_expr: "cpp_parse_expr r b = Returns (v, r') \<Longrightarrow> calm r r'"
  using any.parse_expr_ok[of r b] by (simp add: parse_ok_def)

section \<open>One line\<close>

text \<open>
  The usual mode: not traditional C, not preprocessed input, not assembler, and not inside the
  arguments of a macro or a deferred pragma.
\<close>

definition plain :: "cpp_reader \<Rightarrow> bool" where
  "plain r \<longleftrightarrow> \<not> traditional (opts r) \<and> \<not> preprocessed (opts r) \<and> lang (opts r) \<noteq> CLK_ASM
     \<and> parsing_args (state r) = 0 \<and> \<not> in_deferred_pragma (state r)"

text \<open>The directive a line is.\<close>

definition line_directive :: "cpp_reader \<Rightarrow> lexed_line \<Rightarrow> directive option" where
  "line_directive r ll = find_directive r (fst (cpp_get_token (r\<lparr>tokens := line_items ll\<rparr>)))"

lemma soft_plain: "soft r q \<Longrightarrow> plain r \<Longrightarrow> plain q"
  by (simp add: soft_def plain_def)

lemma soft_node: "soft r q \<Longrightarrow> node_state (nodes q n) = node_state (nodes r n)"
  by (simp add: soft_def fun_eq_iff)

lemma soft_directive_index: "soft r q \<Longrightarrow> directive_index (nodes q n) = directive_index (nodes r n)"
  using soft_node[of r q n] by (simp add: node_state_def)

lemma find_directive_soft: "soft r q \<Longrightarrow> find_directive q t = find_directive r t"
  using soft_directive_index[of r q] by (simp add: find_directive_def soft_def split: option.split)

lemma soft_diagnostics:
  "soft a (directive_diagnostics r d ind) = soft a r" "mi_valid (directive_diagnostics r d ind) = mi_valid r"
  "tokens (directive_diagnostics r d ind) = tokens r" "token_run (directive_diagnostics r d ind) = token_run r"
  by (simp_all add: directive_diagnostics_def Let_def diag_if_def)

lemma select_plain:
  assumes "plain r" "find_directive r t = Some d"
  obtains q where "select_directive r t ind = (if skipping r \<and> \<not> has_flag d COND then None else Some d, True, q)"
    "soft r q" "mi_valid q = (mi_valid r \<and> has_flag d IF_COND)" "tokens q = tokens r" "token_run q = token_run r"
proof -
  define a where "a = diag_if (d = Linemarker \<and> cpp_pedantic (opts r) \<and> \<not> preprocessed (opts r) \<and> \<not> skipping r)
                         (\<lambda>r. cpp_error r CPP_DL_PEDWARN ''style of line directive is a GCC extension'') r"
  define b where "b = (if \<not> has_flag d IF_COND then a\<lparr>mi_valid := False\<rparr> else a)"
  define c where "c = b\<lparr>state := (state b)\<lparr>angled_headers := has_flag d INCL, directive_wants_padding := has_flag d INCL\<rparr>\<rparr>"
  define q where "q = directive_diagnostics c d ind"
  have a: "soft r a" "mi_valid a = mi_valid r" "tokens a = tokens r" "token_run a = token_run r"
    by (simp_all add: a_def diag_if_def)
  have b: "soft r b" "mi_valid b = (mi_valid r \<and> has_flag d IF_COND)" "tokens b = tokens r" "token_run b = token_run r"
    using a by (auto simp: b_def)
  have c: "soft r c"
    using b(1) by (simp add: c_def soft_def)
  have q: "soft r q" "mi_valid q = (mi_valid r \<and> has_flag d IF_COND)" "tokens q = tokens r" "token_run q = token_run r"
    using b c by (simp_all add: q_def soft_diagnostics c_def)
  have np: "\<not> preprocessed (opts r)" "opts b = opts r" "opts c = opts r" "skipping q = skipping r"
    using assms(1) b(1) c q(1) by (simp_all add: plain_def soft_def)
  have "select_directive r t ind = (if skipping r \<and> \<not> has_flag d COND then None else Some d, True, q)"
    unfolding select_directive_def assms(2) option.case Let_def a_def[symmetric] b_def[symmetric] c_def[symmetric]
    using np by (simp add: q_def)
  with q show ?thesis using that by blast
qed

lemma select_none:
  assumes "plain r" "find_directive r t = None"
  obtains q where "select_directive r t ind = (None, True, q)" "soft r q" "mi_valid q = mi_valid r"
  using assms that[of r] that[of "diag_if (\<not> skipping r) (\<lambda>r. cpp_error r CPP_DL_ERROR ''invalid preprocessing directive'') r"]
  by (cases "type t = CPP_EOF") (simp_all add: select_directive_def plain_def)

definition close_line :: "hooks \<Rightarrow> directive option \<Rightarrow> bool \<Rightarrow> cpp_reader \<Rightarrow> cpp_reader" where
  "close_line h d disc p =
     (let p = end_directive h d p True in if disc then p\<lparr>prevent_expansion := 1\<rparr> else p)"

lemma close_line_soft:
  assumes "\<not> traditional (opts p)"
  shows "soft p (close_line h d disc p)" "mi_valid (close_line h d disc p) = mi_valid p"
proof -
  define q where "q = (if in_deferred_pragma (state p) then p else skip_rest_of_line p)"
  have q: "soft p q" "mi_valid q = mi_valid p"
    using calm_soft[OF calm_skip_rest[of p]] by (simp_all add: q_def)
  have e: "end_directive h d p True =
      q\<lparr>in_directive := False, state := (state q)\<lparr>save_comments := \<not> discard_comments (opts q), in_expression := False, angled_headers := False\<rparr>\<rparr>"
    using assms by (simp add: end_directive_def q_def Let_def)
  show "soft p (close_line h d disc p)" "mi_valid (close_line h d disc p) = mi_valid p"
    using q unfolding close_line_def e Let_def by (simp_all add: soft_def)
qed

lemma start_soft [simp]: "soft a (start_directive r) = soft a r" "mi_valid (start_directive r) = mi_valid r"
  "tokens (start_directive r) = tokens r" "token_run (start_directive r) = token_run r"
  by (simp_all add: start_directive_def soft_def)

lemma handle_plain:
  assumes "plain r" "q = start_directive (if discarding_output (state r) then r\<lparr>prevent_expansion := 0\<rparr> else r)"
    "cpp_get_token q = (t, q1)" "select_directive q1 t ind = (dir, True, q2)" "soft q1 q2"
  shows "handle_directive h r ind = map_outcome (\<lambda>p. (True, close_line h dir (discarding_output (state r)) p))
    (case dir of Some d \<Rightarrow> run_handler h d q2 | None \<Rightarrow> Returns q2)"
proof -
  have p: "parsing_args (state r) = 0" "\<not> traditional (opts r)"
    using assms(1) by (simp_all add: plain_def)
  have s1: "soft q q1"
    using calm_soft[OF calm_get(1)[OF assms(3)]] by simp
  have "opts q2 = opts r"
    using s1 assms(5) by (simp add: soft_def assms(2) start_directive_def)
  then have t: "\<not> traditional (opts q2)" using p(2) by simp
  show ?thesis
    unfolding handle_directive_def Let_def p(1) close_line_def simp_thms if_False assms(2)[symmetric] assms(3,4) prod.case
    using t by (cases dir) simp_all
qed

text \<open>What a line does, by the directive it is.\<close>

lemma lex_line_form:
  assumes "plain r" "ll = lexer l r"
  shows "\<not> line_hash ll \<Longrightarrow> \<exists>r'. lex_line h lexer l r = Returns (\<not> skipping r, r') \<and> soft r r' \<and> \<not> mi_valid r'"
    and "line_hash ll \<Longrightarrow> line_directive r ll = None \<Longrightarrow>
      \<exists>r'. lex_line h lexer l r = Returns (False, r') \<and> soft r r' \<and> mi_valid r' = (mi_valid r \<and> \<not> line_expanded ll)"
    and "line_hash ll \<Longrightarrow> line_directive r ll = Some dir \<Longrightarrow> skipping r \<and> \<not> has_flag dir COND \<Longrightarrow>
      \<exists>r'. lex_line h lexer l r = Returns (False, r') \<and> soft r r' \<and> \<not> mi_valid r'"
    and "line_hash ll \<Longrightarrow> line_directive r ll = Some dir \<Longrightarrow> \<not> (skipping r \<and> \<not> has_flag dir COND) \<Longrightarrow>
      \<exists>q. soft r q \<and> mi_valid q = (mi_valid r \<and> \<not> line_expanded ll \<and> has_flag dir IF_COND) \<and> tokens q = tl (line_items ll)
        \<and> set (token_run q) \<subseteq> insert eof_item (set (line_items ll))
        \<and> lex_line h lexer l r = map_outcome (\<lambda>p. (False, close_line h (Some dir) (discarding_output (state r)) p)) (run_handler h dir q)"
proof -
  define a where "a = r\<lparr>tokens := line_items ll, token_run := [], mi_valid := mi_valid r \<and> \<not> line_expanded ll\<rparr>"
  define b where "b = start_directive (if discarding_output (state a) then a\<lparr>prevent_expansion := 0\<rparr> else a)"
  obtain t q1 where g: "cpp_get_token b = (t, q1)" by fastforce
  have a: "soft r a" "plain a" "mi_valid a = (mi_valid r \<and> \<not> line_expanded ll)" "discarding_output (state a) = discarding_output (state r)"
    using assms(1) by (simp_all add: a_def soft_def plain_def)
  have b: "soft r b" "mi_valid b = mi_valid a" "tokens b = line_items ll" "token_run b = []"
    using a(1) by (simp_all add: b_def, simp_all add: a_def)
  have q1: "soft r q1" "mi_valid q1 = mi_valid a" "tokens q1 = tl (line_items ll)" "set (token_run q1) \<subseteq> insert eof_item (set (line_items ll))"
    using soft_trans[OF b(1)] calm_soft[OF calm_get(1)[OF g]] b g
    by (auto simp: cpp_get_token_def cpp_get_token_with_location_def split: list.splits)
  have pq: "plain q1" by (rule soft_plain[OF q1(1) assms(1)])
  have t: "line_directive r ll = find_directive q1 t"
    using g b(3) find_directive_soft[OF q1(1)]
    by (auto simp: line_directive_def cpp_get_token_def cpp_get_token_with_location_def split: list.splits)
  have l: "lex_line h lexer l r = (if line_hash ll
      then map_outcome (\<lambda>(handled, p). if handled then (False, p) else deliver_line p) (handle_directive h a (line_indented ll))
      else Returns (deliver_line a))"
    using assms(1,2) a(2) by (simp add: lex_line_def a_def Let_def plain_def)
  then show "\<exists>r'. lex_line h lexer l r = Returns (\<not> skipping r, r') \<and> soft r r' \<and> \<not> mi_valid r'" if "\<not> line_hash ll"
    using that a(1) by (auto simp: deliver_line_def soft_def)
  have sel: "lex_line h lexer l r = map_outcome (\<lambda>p. (False, close_line h dir' (discarding_output (state r)) p))
      (case dir' of Some d \<Rightarrow> run_handler h d q2 | None \<Rightarrow> Returns q2)"
    if "line_hash ll" "select_directive q1 t (line_indented ll) = (dir', True, q2)" "soft q1 q2" for dir' q2
    using l handle_plain[OF a(2) b_def g that(2,3)] that(1) a(4) by (simp add: outcome.map_comp o_def)
  have idle: "\<exists>r'. lex_line h lexer l r = Returns (False, r') \<and> soft r r' \<and> mi_valid r' = mi_valid q2"
    if "line_hash ll" "select_directive q1 t (line_indented ll) = (None, True, q2)" "soft q1 q2" for q2
  proof -
    have q2: "soft r q2" using q1(1) that(3) by (rule soft_trans)
    have "\<not> traditional (opts q2)"
      using soft_plain[OF q2 assms(1)] by (simp add: plain_def)
    then show ?thesis
      using sel[OF that] close_line_soft soft_trans[OF q2] by auto
  qed
  show "\<exists>r'. lex_line h lexer l r = Returns (False, r') \<and> soft r r' \<and> mi_valid r' = (mi_valid r \<and> \<not> line_expanded ll)"
    if h: "line_hash ll" "line_directive r ll = None"
  proof -
    obtain q where q: "select_directive q1 t (line_indented ll) = (None, True, q)" "soft q1 q" "mi_valid q = mi_valid q1"
      by (rule select_none[OF pq t[symmetric, unfolded h(2)]])
    show ?thesis
      using idle[OF h(1) q(1,2)] q(3) q1(2) a(3) by simp
  qed
  show "\<exists>r'. lex_line h lexer l r = Returns (False, r') \<and> soft r r' \<and> \<not> mi_valid r'"
    if h: "line_hash ll" "line_directive r ll = Some dir" "skipping r \<and> \<not> has_flag dir COND"
  proof -
    have n: "\<not> has_flag dir IF_COND" "skipping q1"
      using h(3) q1(1) if_cond_cond[of dir] by (auto simp: soft_def)
    obtain q where q: "select_directive q1 t (line_indented ll) = (if skipping q1 \<and> \<not> has_flag dir COND then None else Some dir, True, q)"
      "soft q1 q" "mi_valid q = (mi_valid q1 \<and> has_flag dir IF_COND)"
      by (rule select_plain[OF pq t[symmetric, unfolded h(2)]])
    have "select_directive q1 t (line_indented ll) = (None, True, q)"
      using q(1) n(2) h(3) by simp
    from idle[OF h(1) this q(2)] show ?thesis
      using q(3) n(1) by simp
  qed
  show "\<exists>q. soft r q \<and> mi_valid q = (mi_valid r \<and> \<not> line_expanded ll \<and> has_flag dir IF_COND) \<and> tokens q = tl (line_items ll)
        \<and> set (token_run q) \<subseteq> insert eof_item (set (line_items ll))
        \<and> lex_line h lexer l r = map_outcome (\<lambda>p. (False, close_line h (Some dir) (discarding_output (state r)) p)) (run_handler h dir q)"
    if h: "line_hash ll" "line_directive r ll = Some dir" "\<not> (skipping r \<and> \<not> has_flag dir COND)"
  proof (rule select_plain[OF pq t[symmetric, unfolded h(2)], of "line_indented ll"])
    fix q assume q: "select_directive q1 t (line_indented ll) = (if skipping q1 \<and> \<not> has_flag dir COND then None else Some dir, True, q)"
      "soft q1 q" "mi_valid q = (mi_valid q1 \<and> has_flag dir IF_COND)" "tokens q = tokens q1" "token_run q = token_run q1"
    have "skipping q1 = skipping r" using q1(1) by (simp add: soft_def)
    then have "lex_line h lexer l r = map_outcome (\<lambda>p. (False, close_line h (Some dir) (discarding_output (state r)) p)) (run_handler h dir q)"
      using sel[OF h(1) q(1,2)] h(3) by simp
    then show ?thesis
      using soft_trans[OF q1(1) q(2)] q(3-5) q1(2-4) a(3) by (intro exI[of _ q]) simp
  qed
qed

lemma lex_line_plain:
  assumes "plain r" "ll = lexer l r" "lex_line h lexer l r = Returns (d, r')"
  shows "\<not> line_hash ll \<Longrightarrow> d = (\<not> skipping r) \<and> soft r r' \<and> \<not> mi_valid r'"
    and "line_hash ll \<Longrightarrow> line_directive r ll = None \<Longrightarrow> \<not> d \<and> soft r r' \<and> mi_valid r' = (mi_valid r \<and> \<not> line_expanded ll)"
    and "line_hash ll \<Longrightarrow> line_directive r ll = Some dir \<Longrightarrow> skipping r \<and> \<not> has_flag dir COND \<Longrightarrow> \<not> d \<and> soft r r' \<and> \<not> mi_valid r'"
    and "line_hash ll \<Longrightarrow> line_directive r ll = Some dir \<Longrightarrow> \<not> (skipping r \<and> \<not> has_flag dir COND) \<Longrightarrow>
      \<exists>q p. soft r q \<and> mi_valid q = (mi_valid r \<and> \<not> line_expanded ll \<and> has_flag dir IF_COND) \<and> tokens q = tl (line_items ll)
        \<and> run_handler h dir q = Returns p \<and> \<not> d \<and> r' = close_line h (Some dir) (discarding_output (state r)) p"
  using lex_line_form(1,2)[where lexer = lexer and l = l and h = h, OF assms(1,2)]
    lex_line_form(3,4)[where lexer = lexer and l = l and h = h and dir = dir, OF assms(1,2)] assms(3)
  by (auto simp: map_outcome_returns)

section \<open>The stack of conditionals as a state machine\<close>

text \<open>
  The state is whether lines are skipped and the stack. A line is seen as the directive it is, if
  any; what an opening conditional or a \<^verbatim>\<open>#elif\<close> that is evaluated finds is left open.
\<close>

type_synonym cond_state = "bool \<times> if_entry list"

definition is_opening :: "directive option \<Rightarrow> bool" where
  "is_opening k \<longleftrightarrow> k \<in> {Some (Dir T_IF), Some (Dir T_IFDEF), Some (Dir T_IFNDEF)}"

definition conditional :: "directive option \<Rightarrow> bool" where
  "conditional k \<longleftrightarrow> is_opening k \<or> k \<in> {Some (Dir T_ELSE), Some (Dir T_ELIF), Some (Dir T_ENDIF)}"

inductive cond_step :: "directive option \<Rightarrow> cond_state \<Rightarrow> cond_state \<Rightarrow> bool" where
  Other: "\<not> conditional k \<Longrightarrow> cond_step k s s"
| Stray: "conditional k \<Longrightarrow> \<not> is_opening k \<Longrightarrow> cond_step k (sk, []) (sk, [])"
| Open: "\<lbrakk>is_opening k; sk \<longrightarrow> sk'; was_skipping e = sk; skip_elses e = (sk \<or> \<not> sk')\<rbrakk> \<Longrightarrow>
    cond_step k (sk, st) (sk', e # st)"
| Else: "cond_step (Some (Dir T_ELSE)) (sk, e # st)
    (skip_elses e, e\<lparr>ifs_type := T_ELSE, skip_elses := True, ifs_mi_cmacro := None\<rparr> # st)"
| Elif_skipped: "skip_elses e \<Longrightarrow> cond_step (Some (Dir T_ELIF)) (sk, e # st)
    (True, e\<lparr>ifs_type := T_ELIF, ifs_mi_cmacro := None\<rparr> # st)"
| Elif: "\<not> skip_elses e \<Longrightarrow> cond_step (Some (Dir T_ELIF)) (sk, e # st)
    (\<not> v, e\<lparr>ifs_type := T_ELIF, ifs_mi_cmacro := None, skip_elses := v\<rparr> # st)"
| Endif: "cond_step (Some (Dir T_ENDIF)) (sk, e # st) (was_skipping e, st)"

lemma opening_flag: "is_opening (Some d) \<longleftrightarrow> has_flag d IF_COND"
proof (cases d)
  case (Dir t)
  then show ?thesis by (cases t) (simp_all add: has_flag_def is_opening_def)
qed (simp add: has_flag_def is_opening_def)

lemma conditional_flag: "conditional (Some d) \<longleftrightarrow> has_flag d COND"
proof (cases d)
  case (Dir t)
  then show ?thesis by (cases t) (simp_all add: has_flag_def conditional_def is_opening_def)
qed (simp add: has_flag_def conditional_def is_opening_def)

lemma not_conditional_None [simp]: "\<not> conditional None" "\<not> is_opening None"
  by (simp_all add: conditional_def is_opening_def)

text \<open>
  A stack in order: within a skipped group everything is skipped, and outside at most one group of a
  conditional is not; once one is taken the others are skipped.
\<close>

fun cond_inv :: "bool \<Rightarrow> if_entry list \<Rightarrow> bool" where
  "cond_inv sk [] = (\<not> sk)"
| "cond_inv sk (e # st) =
     ((was_skipping e \<longrightarrow> sk \<and> skip_elses e) \<and> (\<not> sk \<longrightarrow> skip_elses e) \<and> cond_inv (was_skipping e) st)"

lemma cond_inv_step: "cond_step k s s' \<Longrightarrow> cond_inv (fst s) (snd s) \<Longrightarrow> cond_inv (fst s') (snd s')"
  by (induction rule: cond_step.induct) auto

section \<open>The handlers implement the state machine\<close>

text \<open>What every handler of another directive leaves alone.\<close>

definition level :: "cpp_reader \<Rightarrow> cpp_reader \<Rightarrow> bool" where
  "level r r' \<longleftrightarrow> if_stack r' = if_stack r \<and> skipping r' = skipping r \<and> (plain r \<longrightarrow> plain r')
     \<and> precision (opts r') = precision (opts r)
     \<and> directive_index \<circ> nodes r' = directive_index \<circ> nodes r \<and> (mi_valid r' \<longrightarrow> mi_valid r)"

definition hooks_ok :: "hooks \<Rightarrow> bool" where
  "hooks_ok h \<longleftrightarrow> (\<forall>d r. level r (other_handler h d r))"

lemma level_refl [simp]: "level r r"
  by (simp add: level_def)

lemma level_trans: "level a b \<Longrightarrow> level b c \<Longrightarrow> level a c"
  by (simp add: level_def)

lemma soft_level: "soft r r' \<Longrightarrow> (mi_valid r' \<longrightarrow> mi_valid r) \<Longrightarrow> level r r'"
  using soft_directive_index[of r r'] soft_plain[of r r'] by (auto simp: level_def soft_def fun_eq_iff)

lemma calm_level: "calm r r' \<Longrightarrow> level r r'"
  using calm_soft soft_level by blast

lemma level_answers: "level a r \<Longrightarrow> level a (set_answers n as r)" "level a r \<Longrightarrow> level a (cpp_free_definition n r)"
  by (auto simp: level_def set_answers_def cpp_free_definition_def plain_def fun_eq_iff)

lemma level_asserts: "level r (do_assert r)" "level r (do_unassert r)"
proof -
  have c: "level r q \<Longrightarrow> level r (check_eol q)" for q
    using calm_level[OF calm_check_eol] level_trans by (auto simp: check_eol_def)
  have d: "level r q \<Longrightarrow> level r (cpp_diagnostic q l w x m)" for q l w x m
    using level_trans[OF _ soft_level, of r q "cpp_diagnostic q l w x m"] by simp
  note p = calm_level[OF calm_parse_assertion]
  show "level r (do_assert r)"
    unfolding do_assert_def by (auto intro!: c d level_answers split: prod.splits option.splits dest: p)
  show "level r (do_unassert r)"
    unfolding do_unassert_def by (auto intro!: c level_answers split: prod.splits option.splits dest: p)
qed

text \<open>What an opening conditional pushes.\<close>

lemma ifdef_pushes:
  "\<exists>q' s. calm q q' \<and> do_ifdef q = push_conditional q' s T_IFDEF None \<and> (skipping q \<longrightarrow> s)"
  "\<exists>q' s c. calm q q' \<and> do_ifndef q = push_conditional q' s T_IFNDEF c \<and> (skipping q \<longrightarrow> s)"
proof -
  obtain n q1 where l: "lex_macro_node q False = (n, q1)" by fastforce
  have c: "calm q q1" by (rule calm_lex_macro[OF l])
  define q' where "q' = (if skipping q then q else case n of None \<Rightarrow> q1 | Some m \<Rightarrow> note_macro_use m q1)"
  define s where "s = (case n of None \<Rightarrow> True | Some m \<Rightarrow> is_defined (nodes q1 m))"
  have q': "calm q q'"
    using c calm_trans[OF c calm_note_use] by (simp add: q'_def split: option.split)
  have "do_ifdef q = push_conditional q' (skipping q \<or> n = None \<or> \<not> s) T_IFDEF None"
    unfolding do_ifdef_def Let_def l q'_def s_def by (simp split: option.split)
  with q' show "\<exists>q' s. calm q q' \<and> do_ifdef q = push_conditional q' s T_IFDEF None \<and> (skipping q \<longrightarrow> s)"
    by blast
  have "do_ifndef q = push_conditional q' (skipping q \<or> s) T_IFNDEF (if skipping q then None else n)"
    unfolding do_ifndef_def Let_def l q'_def s_def by (simp split: option.split)
  with q' show "\<exists>q' s c. calm q q' \<and> do_ifndef q = push_conditional q' s T_IFNDEF c \<and> (skipping q \<longrightarrow> s)"
    by blast
qed

lemma if_pushes:
  assumes "do_if q = Returns p"
  shows "\<exists>q' s c. calm q q' \<and> p = push_conditional q' s T_IF c \<and> (skipping q \<longrightarrow> s)"
proof (cases "skipping q")
  case True
  then have "p = push_conditional q True T_IF (mi_ind_cmacro q)"
    using assms by (simp add: do_if_def)
  then show ?thesis using calm_refl by blast
next
  case False
  then obtain v q' where e: "cpp_parse_expr q True = Returns (v, q')" "p = push_conditional q' (\<not> v) T_IF (mi_ind_cmacro q')"
    using assms by (auto simp: do_if_def map_outcome_returns)
  then show ?thesis using calm_parse_expr False by blast
qed

lemma run_open:
  assumes "has_flag d IF_COND" "run_handler h d q = Returns p"
  shows "\<exists>q' s t c. calm q q' \<and> p = push_conditional q' s t c \<and> (skipping q \<longrightarrow> s)"
proof -
  have "is_opening (Some d)" using assms(1) by (simp add: opening_flag)
  then consider "d = Dir T_IFDEF" | "d = Dir T_IFNDEF" | "d = Dir T_IF"
    by (auto simp: is_opening_def)
  then show ?thesis
  proof cases
    case 1
    then have "p = do_ifdef q" using assms(2) by (simp add: run_handler_def)
    then show ?thesis using ifdef_pushes(1)[of q] by metis
  next
    case 2
    then have "p = do_ifndef q" using assms(2) by (simp add: run_handler_def)
    then show ?thesis using ifdef_pushes(2)[of q] by metis
  next
    case 3
    then have "do_if q = Returns p" using assms(2) by (simp add: run_handler_def)
    then show ?thesis using if_pushes by blast
  qed
qed

text \<open>The macros and modes a conditional leaves alone.\<close>

definition mild :: "cpp_reader \<Rightarrow> cpp_reader \<Rightarrow> bool" where
  "mild r r' \<longleftrightarrow> opts r' = opts r \<and> node_state \<circ> nodes r' = node_state \<circ> nodes r \<and> state r' = state r"

lemma calm_mild: "calm r r' \<Longrightarrow> mild r r'"
  by (simp add: calm_def mild_def dir_state_def)

lemma open_step:
  assumes "has_flag d IF_COND" "run_handler h d q = Returns p"
  shows "cond_step (Some d) (skipping q, if_stack q) (skipping p, if_stack p) \<and> mild q p"
proof -
  obtain q' s t c where q: "calm q q'" "p = push_conditional q' s t c" "skipping q \<longrightarrow> s"
    using run_open[OF assms] by blast
  have "if_stack q' = if_stack q" "skipping q' = skipping q"
    using calm_soft[OF q(1)] by (simp_all add: soft_def)
  then show ?thesis
    using q calm_mild[OF q(1)] opening_flag[of d] assms(1)
    by (auto simp: push_conditional_def Let_def mild_def intro!: cond_step.Open)
qed

lemma after_else_simps [simp]:
  "opts (after_else m e r) = opts r" "nodes (after_else m e r) = nodes r" "state (after_else m e r) = state r"
  "if_stack (after_else m e r) = if_stack r" "mi_valid (after_else m e r) = mi_valid r"
  by (simp_all add: after_else_def diag_if_def cpp_diagnostic_def)

lemma check_eol_endif_simps:
  "skipping (check_eol_endif_labels r) = skipping r" "if_stack (check_eol_endif_labels r) = if_stack r" "mild r (check_eol_endif_labels r)"
  "mi_valid (check_eol_endif_labels r) = mi_valid r"
  using calm_check_eol[of r CPP_W_ENDIF_LABELS] calm_mild by (auto simp: check_eol_endif_labels_def calm_def dir_state_def)

lemma stray_step: "k \<in> {Some (Dir T_ELSE), Some (Dir T_ELIF), Some (Dir T_ENDIF)} \<Longrightarrow> cond_step k (sk, []) (sk, [])"
  by (rule cond_step.Stray) (auto simp: conditional_def is_opening_def)

lemma mild_trans [trans]: "mild a b \<Longrightarrow> mild b c \<Longrightarrow> mild a c"
  by (simp add: mild_def)

lemma mild_simps [simp]: "mild r r" "mild a (cpp_diagnostic r l w x m) = mild a r" "mild a (r\<lparr>skipping := t\<rparr>) = mild a r"
  "mild a (r\<lparr>if_stack := st\<rparr>) = mild a r" "mild a (r\<lparr>mi_valid := t\<rparr>) = mild a r" "mild a (r\<lparr>mi_cmacro := c\<rparr>) = mild a r"
  "mild a (after_else msg e r) = mild a r"
  by (simp_all add: mild_def cpp_diagnostic_def)

lemma else_step: "cond_step (Some (Dir T_ELSE)) (skipping q, if_stack q) (skipping (do_else q), if_stack (do_else q)) \<and> mild q (do_else q)"
proof (cases "if_stack q")
  case Nil
  then show ?thesis
    using stray_step by (simp add: do_else_def cpp_diagnostic_def mild_def)
next
  case (Cons e st)
  define p where "p = (after_else ''#else after #else'' e q)\<lparr>skipping := skip_elses e,
      if_stack := e\<lparr>ifs_type := T_ELSE, skip_elses := True, ifs_mi_cmacro := None\<rparr> # st\<rparr>"
  have "do_else q = (if \<not> was_skipping e \<and> warn_endif_labels (opts p) then check_eol_endif_labels p else p)"
    unfolding do_else_def Cons list.case Let_def p_def by (rule refl)
  moreover have "mild q p" "skipping p = skip_elses e" "if_stack p = e\<lparr>ifs_type := T_ELSE, skip_elses := True, ifs_mi_cmacro := None\<rparr> # st"
    by (simp_all add: p_def)
  ultimately show ?thesis
    using check_eol_endif_simps[of p] mild_trans cond_step.Else[of "skipping q" e st] Cons by auto
qed

lemma elif_step:
  assumes "do_elif q = Returns p"
  shows "cond_step (Some (Dir T_ELIF)) (skipping q, if_stack q) (skipping p, if_stack p) \<and> mild q p"
proof (cases "if_stack q")
  case Nil
  then have "p = cpp_error q CPP_DL_ERROR ''#elif without #if''"
    using assms by (simp add: do_elif_def)
  then show ?thesis
    using stray_step[of "Some (Dir T_ELIF)"] Nil by (simp add: cpp_diagnostic_def mild_def)
next
  case (Cons e st)
  define q1 where "q1 = after_else ''#elif after #else'' e q"
  have q1: "mild q q1" by (simp add: q1_def)
  show ?thesis
  proof (cases "skip_elses e")
    case True
    then have "p = q1\<lparr>skipping := True, if_stack := e\<lparr>ifs_type := T_ELIF, ifs_mi_cmacro := None\<rparr> # st\<rparr>"
      using assms Cons by (simp add: do_elif_def Let_def q1_def)
    then show ?thesis
      using Cons cond_step.Elif_skipped[OF True, of "skipping q" st] q1 by simp
  next
    case False
    then obtain v q2 where v: "cpp_parse_expr q1 False = Returns (v, q2)"
      "p = q2\<lparr>skipping := \<not> v, if_stack := e\<lparr>ifs_type := T_ELIF, ifs_mi_cmacro := None, skip_elses := v\<rparr> # st\<rparr>"
      using assms Cons by (auto simp: do_elif_def Let_def q1_def map_outcome_returns)
    then show ?thesis
      using Cons mild_trans[OF q1 calm_mild[OF calm_parse_expr[OF v(1)]]] cond_step.Elif[OF False, of "skipping q" st v] by simp
  qed
qed

lemma endif_step: "cond_step (Some (Dir T_ENDIF)) (skipping q, if_stack q) (skipping (do_endif q), if_stack (do_endif q)) \<and> mild q (do_endif q)"
proof (cases "if_stack q")
  case Nil
  then show ?thesis
    using stray_step by (simp add: do_endif_def cpp_diagnostic_def mild_def)
next
  case (Cons e st)
  define p where "p = (if \<not> was_skipping e \<and> warn_endif_labels (opts q) then check_eol_endif_labels q else q)"
  define p' where "p' = (if st = [] \<and> ifs_mi_cmacro e \<noteq> None then p\<lparr>mi_valid := True, mi_cmacro := ifs_mi_cmacro e\<rparr> else p)"
  have "mild q p" by (simp add: p_def check_eol_endif_simps)
  then have "mild q p'" by (simp add: p'_def)
  moreover have "do_endif q = p'\<lparr>if_stack := st, skipping := was_skipping e\<rparr>"
    unfolding do_endif_def Cons list.case Let_def p_def p'_def by (rule refl)
  ultimately show ?thesis
    using cond_step.Endif[of "skipping q" e st] Cons by simp
qed

lemma handler_step:
  assumes "run_handler h d q = Returns p" "has_flag d COND"
  shows "cond_step (Some d) (skipping q, if_stack q) (skipping p, if_stack p) \<and> mild q p"
proof -
  have "conditional (Some d)" using assms(2) by (simp add: conditional_flag)
  then consider "has_flag d IF_COND" | "d = Dir T_ELSE" | "d = Dir T_ELIF" | "d = Dir T_ENDIF"
    by (auto simp: conditional_def opening_flag)
  then show ?thesis
  proof cases
    case 1
    then show ?thesis by (rule open_step[OF _ assms(1)])
  qed (use assms(1) else_step[of q] elif_step[of q p] endif_step[of q] in \<open>auto simp: run_handler_def\<close>)
qed

text \<open>What a line is taken for.\<close>

definition line_kind :: "('l \<Rightarrow> cpp_reader \<Rightarrow> lexed_line) \<Rightarrow> 'l \<Rightarrow> cpp_reader \<Rightarrow> directive option" where
  "line_kind lexer l r = (if line_hash (lexer l r) then line_directive r (lexer l r) else None)"

lemma soft_state: "soft r q \<Longrightarrow> skipping q = skipping r \<and> if_stack q = if_stack r"
  by (simp add: soft_def)

text \<open>
  A line makes a step of the state machine; if it is skipped or is a conditional it defines
  nothing and is not delivered.
\<close>

lemma line_idle:
  assumes "plain r" "soft r r'" "\<not> conditional (line_kind lexer l r)"
  shows "cond_step (line_kind lexer l r) (skipping r, if_stack r) (skipping r', if_stack r')"
    "plain r'" "directive_index \<circ> nodes r' = directive_index \<circ> nodes r" "node_state \<circ> nodes r' = node_state \<circ> nodes r \<and> opts r' = opts r"
  using assms soft_state[OF assms(2)] soft_plain[OF assms(2,1)] soft_directive_index[OF assms(2)]
  by (auto simp: fun_eq_iff soft_def intro: cond_step.Other)

lemma run_other:
  assumes "\<not> has_flag d COND" "run_handler h d q = Returns p"
  shows "p \<in> {do_assert q, do_unassert q, other_handler h d q}"
proof (cases d)
  case (Dir t)
  then show ?thesis using assms by (cases t) (simp_all add: run_handler_def has_flag_def)
qed (use assms in \<open>simp add: run_handler_def\<close>)

lemma other_level: "hooks_ok h \<Longrightarrow> \<not> has_flag d COND \<Longrightarrow> run_handler h d q = Returns p \<Longrightarrow> level q p"
  using run_other[of d h q p] level_asserts[of q] by (auto simp: hooks_ok_def)

lemma line_step:
  assumes "plain r" "hooks_ok h" "lex_line h lexer l r = Returns (d, r')"
  shows "cond_step (line_kind lexer l r) (skipping r, if_stack r) (skipping r', if_stack r')"
    and "plain r'" "directive_index \<circ> nodes r' = directive_index \<circ> nodes r" "precision (opts r') = precision (opts r)"
    and "skipping r \<or> conditional (line_kind lexer l r) \<Longrightarrow> \<not> d \<and> node_state \<circ> nodes r' = node_state \<circ> nodes r \<and> opts r' = opts r"
proof -
  define ll where "ll = lexer l r"
  note lp = lex_line_plain[OF assms(1) ll_def assms(3)]
  have all: "cond_step (line_kind lexer l r) (skipping r, if_stack r) (skipping r', if_stack r') \<and> plain r'
      \<and> precision (opts r') = precision (opts r) \<and> directive_index \<circ> nodes r' = directive_index \<circ> nodes r
      \<and> (skipping r \<or> conditional (line_kind lexer l r) \<longrightarrow> \<not> d \<and> node_state \<circ> nodes r' = node_state \<circ> nodes r \<and> opts r' = opts r)"
  proof (cases "line_hash ll \<and> (\<exists>dir. line_directive r ll = Some dir \<and> \<not> (skipping r \<and> \<not> has_flag dir COND))")
    case False
    have s: "soft r r' \<and> (d \<longrightarrow> \<not> skipping r)" "\<not> conditional (line_kind lexer l r)"
      using False lp(1-3) conditional_flag by (cases "line_directive r ll"; auto simp: line_kind_def ll_def[symmetric])+
    then show ?thesis
      using line_idle[OF assms(1) conjunct1[OF s(1)] s(2)] by metis
  next
    case True
    then obtain dir where dir: "line_hash ll" "line_directive r ll = Some dir" "\<not> (skipping r \<and> \<not> has_flag dir COND)" by blast
    obtain q p where q: "soft r q" "run_handler h dir q = Returns p" "\<not> d"
      "r' = close_line h (Some dir) (discarding_output (state r)) p"
      using lp(4)[OF dir] by blast
    have k: "line_kind lexer l r = Some dir"
      using dir by (simp add: line_kind_def ll_def)
    show ?thesis
    proof (cases "has_flag dir COND")
      case c: True
      have st: "cond_step (Some dir) (skipping r, if_stack r) (skipping p, if_stack p)" and m: "mild q p"
        using handler_step[OF q(2) c] soft_state[OF q(1)] by simp_all
      have t: "soft p r'" "plain p"
        using close_line_soft(1)[of p] soft_plain[OF q(1) assms(1)] m q(4) by (auto simp: mild_def plain_def)
      have n: "node_state \<circ> nodes r' = node_state \<circ> nodes r" "opts r' = opts r"
        using t(1) m q(1) by (simp_all add: soft_def mild_def)
      have "directive_index (nodes r' x) = directive_index (nodes r x)" for x
        using fun_cong[OF n(1), of x] by (simp add: node_state_def)
      then show ?thesis
        using st n soft_state[OF t(1)] soft_plain[OF t] q(3) k by (auto simp: fun_eq_iff)
    next
      case nc: False
      then have ns: "\<not> skipping r" "\<not> conditional (Some dir)"
        using dir(3) conditional_flag by auto
      have l: "level q p"
        by (rule other_level[OF assms(2) nc q(2)])
      have pq: "plain q" by (rule soft_plain[OF q(1) assms(1)])
      then have "plain p" using l by (simp add: level_def)
      then have t: "soft p r'"
        using close_line_soft(1)[of p] q(4) by (simp add: plain_def)
      have "skipping r' = skipping r" "if_stack r' = if_stack r" "precision (opts r') = precision (opts r)"
        using soft_state[OF q(1)] soft_state[OF t] l q(1) t by (simp_all add: level_def soft_def)
      moreover have "directive_index (nodes r' x) = directive_index (nodes r x)" for x
        using soft_directive_index[OF q(1), of x] soft_directive_index[OF t, of x] l by (simp add: level_def fun_eq_iff)
      ultimately show ?thesis
        using soft_plain[OF t \<open>plain p\<close>] ns k cond_step.Other[OF ns(2)] by (auto simp: fun_eq_iff)
    qed
  qed
  then show "cond_step (line_kind lexer l r) (skipping r, if_stack r) (skipping r', if_stack r')" "plain r'"
    "directive_index \<circ> nodes r' = directive_index \<circ> nodes r" "precision (opts r') = precision (opts r)"
    "skipping r \<or> conditional (line_kind lexer l r) \<Longrightarrow> \<not> d \<and> node_state \<circ> nodes r' = node_state \<circ> nodes r \<and> opts r' = opts r"
    by blast+
qed

section \<open>Lines return\<close>

lemma map_outcome_undefined: "map_outcome f x = Undefined \<longleftrightarrow> x = Undefined"
  by (cases x) simp_all

lemma lexed_after_else [simp]: "lexed (after_else m e r) = lexed r"
  by (simp add: lexed_def after_else_def diag_if_def cpp_diagnostic_def)

lemma handler_defined: "run_handler h d q \<noteq> Undefined"
proof -
  have "do_if q \<noteq> Undefined"
    by (simp add: do_if_def map_outcome_undefined parse_expr_defined)
  moreover have "do_elif q \<noteq> Undefined"
    by (simp add: do_elif_def map_outcome_undefined parse_expr_defined Let_def split: list.split)
  ultimately show ?thesis
  proof (cases d)
    case (Dir t)
    assume "do_if q \<noteq> Undefined" "do_elif q \<noteq> Undefined"
    with Dir show ?thesis by (cases t) (simp_all add: run_handler_def)
  qed (simp add: run_handler_def)
qed

lemma handler_returns:
  assumes "width_ok (precision (opts q))" "32 \<le> precision (opts q)" "lexed q"
  shows "\<exists>p. run_handler h d q = Returns p"
proof -
  have a: "\<exists>v r'. cpp_parse_expr (after_else m e q) b = Returns (v, r')" for m e b
    using assms by (intro parse_expr_returns) simp_all
  have "\<exists>p. do_if q = Returns p"
    using parse_expr_returns[OF assms, of True] by (auto simp: do_if_def)
  moreover have "\<exists>p. do_elif q = Returns p"
    using a[of "''#elif after #else''" "hd (if_stack q)" False] by (cases "if_stack q") (auto simp: do_elif_def Let_def)
  ultimately show ?thesis
  proof (cases d)
    case (Dir t)
    assume "\<exists>p. do_if q = Returns p" "\<exists>p. do_elif q = Returns p"
    with Dir show ?thesis by (cases t) (simp_all add: run_handler_def)
  qed (simp add: run_handler_def)
qed

lemma line_returns:
  assumes "plain r" "width_ok (precision (opts r))" "32 \<le> precision (opts r)" "list_all lexed_item (line_items (lexer l r))"
  shows "\<exists>d r'. lex_line h lexer l r = Returns (d, r')"
proof -
  define ll where "ll = lexer l r"
  note f = lex_line_form(1,2)[where lexer = lexer and l = l and h = h, OF assms(1) ll_def]
    lex_line_form(3,4)[where lexer = lexer and l = l and h = h, OF assms(1) ll_def]
  show ?thesis
  proof (cases "line_hash ll \<and> (\<exists>dir. line_directive r ll = Some dir \<and> \<not> (skipping r \<and> \<not> has_flag dir COND))")
    case False
    then show ?thesis
      using f(1-3) by (cases "line_directive r ll") blast+
  next
    case True
    then obtain dir q where q: "soft r q" "tokens q = tl (line_items ll)" "set (token_run q) \<subseteq> insert eof_item (set (line_items ll))"
      "lex_line h lexer l r = map_outcome (\<lambda>p. (False, close_line h (Some dir) (discarding_output (state r)) p)) (run_handler h dir q)"
      using f(4) by blast
    have all: "\<forall>x \<in> insert eof_item (set (line_items ll)). lexed_item x"
      using assms(4) by (simp add: ll_def list_all_iff)
    have "\<forall>x \<in> set (tl (line_items ll)). lexed_item x"
      using all by (cases "line_items ll") simp_all
    moreover have "\<forall>x \<in> set (token_run q). lexed_item x"
      using all q(3) by (meson subsetD)
    ultimately have "lexed q"
      using q(2) by (simp add: lexed_def list_all_iff)
    moreover have "opts q = opts r" using q(1) by (simp add: soft_def)
    ultimately obtain p where "run_handler h dir q = Returns p"
      using handler_returns[of q h dir] assms(2,3) by auto
    with q(4) have "lex_line h lexer l r = Returns (False, close_line h (Some dir) (discarding_output (state r)) p)" by simp
    then show ?thesis by blast
  qed
qed

end
