(* ===== verification/Cpp_Group.thy ===== *)
theory Cpp_Group
  imports Cpp_Conditional
begin

text \<open>
  Conditional groups: the lines of a file as the C standard structures them, what it means
  to process them, and that the stack of \<^verbatim>\<open>directives.c\<close> implements it. A line is whatever the
  lexer, an argument, can read in a given state of the reader.
\<close>

section \<open>The structure of a file\<close>

datatype 'l group = Done | Line 'l "'l group" | Section 'l "'l group" "'l clauses" "'l group"
  and 'l clauses = Endif 'l | Elif 'l "'l group" "'l clauses" | Else 'l "'l group" 'l

primrec group_lines :: "'l group \<Rightarrow> 'l list" and clause_lines :: "'l clauses \<Rightarrow> 'l list" where
  "group_lines Done = []"
| "group_lines (Line l g) = l # group_lines g"
| "group_lines (Section l b cs g) = l # group_lines b @ clause_lines cs @ group_lines g"
| "clause_lines (Endif l) = [l]"
| "clause_lines (Elif l b cs) = l # group_lines b @ clause_lines cs"
| "clause_lines (Else l b e) = l # group_lines b @ [e]"

text \<open>The lines are the directives that the structure says.\<close>

primrec wf_group :: "('l \<Rightarrow> directive option) \<Rightarrow> 'l group \<Rightarrow> bool"
  and wf_clauses :: "('l \<Rightarrow> directive option) \<Rightarrow> 'l clauses \<Rightarrow> bool" where
  "wf_group k Done = True"
| "wf_group k (Line l g) = (\<not> conditional (k l) \<and> wf_group k g)"
| "wf_group k (Section l b cs g) = (is_opening (k l) \<and> wf_group k b \<and> wf_clauses k cs \<and> wf_group k g)"
| "wf_clauses k (Endif l) = (k l = Some (Dir T_ENDIF))"
| "wf_clauses k (Elif l b cs) = (k l = Some (Dir T_ELIF) \<and> wf_group k b \<and> wf_clauses k cs)"
| "wf_clauses k (Else l b e) = (k l = Some (Dir T_ELSE) \<and> wf_group k b \<and> k e = Some (Dir T_ENDIF))"

text \<open>
  The first word of a line is not subject to macro expansion, so which directive it is depends on
  the table of directives only.
\<close>

definition kinds_fixed :: "('l \<Rightarrow> cpp_reader \<Rightarrow> lexed_line) \<Rightarrow> (node_ref \<Rightarrow> directive_type option) \<Rightarrow> ('l \<Rightarrow> directive option) \<Rightarrow> bool" where
  "kinds_fixed lexer D k \<longleftrightarrow> (\<forall>l r. directive_index \<circ> nodes r = D \<longrightarrow> line_kind lexer l r = k l)"

text \<open>Lines that are passed over define nothing.\<close>

definition passed :: "cpp_reader \<Rightarrow> cpp_reader \<Rightarrow> bool" where
  "passed r r' \<longleftrightarrow> node_state \<circ> nodes r' = node_state \<circ> nodes r \<and> opts r' = opts r"

text \<open>
  Processing a group. Of a section the first group whose condition holds is processed, or
  that of \<^verbatim>\<open>#else\<close>; the others are passed over, and no condition after the first that holds is
  evaluated.
\<close>

inductive process :: "hooks \<Rightarrow> ('l \<Rightarrow> cpp_reader \<Rightarrow> lexed_line) \<Rightarrow> 'l group \<Rightarrow> cpp_reader \<Rightarrow> 'l list \<Rightarrow> cpp_reader \<Rightarrow> bool"
  and select :: "hooks \<Rightarrow> ('l \<Rightarrow> cpp_reader \<Rightarrow> lexed_line) \<Rightarrow> 'l clauses \<Rightarrow> cpp_reader \<Rightarrow> 'l list \<Rightarrow> cpp_reader \<Rightarrow> bool"
  for h :: hooks and lexer :: "'l \<Rightarrow> cpp_reader \<Rightarrow> lexed_line"
where
  process_done: "process h lexer Done r [] r"
| process_line: "\<lbrakk>\<not> skipping r; lex_line h lexer l r = Returns (d, r1); process h lexer g r1 out r'\<rbrakk> \<Longrightarrow>
    process h lexer (Line l g) r (if d then l # out else out) r'"
| process_taken: "\<lbrakk>lex_line h lexer l r = Returns (d, r1); \<not> skipping r1; process h lexer b r1 out1 r2; passed r2 r3;
    process h lexer g r3 out2 r'\<rbrakk> \<Longrightarrow> process h lexer (Section l b cs g) r (out1 @ out2) r'"
| process_select: "\<lbrakk>lex_line h lexer l r = Returns (d, r1); skipping r1; passed r1 r2; select h lexer cs r2 out1 r3;
    process h lexer g r3 out2 r'\<rbrakk> \<Longrightarrow> process h lexer (Section l b cs g) r (out1 @ out2) r'"
| select_endif: "lex_line h lexer l r = Returns (d, r') \<Longrightarrow> select h lexer (Endif l) r [] r'"
| select_taken: "\<lbrakk>lex_line h lexer l r = Returns (d, r1); \<not> skipping r1; process h lexer b r1 out r2; passed r2 r'\<rbrakk> \<Longrightarrow>
    select h lexer (Elif l b cs) r out r'"
| select_next: "\<lbrakk>lex_line h lexer l r = Returns (d, r1); skipping r1; passed r1 r2; select h lexer cs r2 out r'\<rbrakk> \<Longrightarrow>
    select h lexer (Elif l b cs) r out r'"
| select_else: "\<lbrakk>lex_line h lexer l r = Returns (d, r1); \<not> skipping r1; process h lexer b r1 out r2;
    lex_line h lexer e r2 = Returns (d', r')\<rbrakk> \<Longrightarrow> select h lexer (Else l b e) r out r'"

section \<open>Sequences of lines\<close>

lemma lex_lines_Cons:
  "lex_lines h lexer (l # ls) r = Returns (out, r') \<longleftrightarrow>
   (\<exists>d r1 out'. lex_line h lexer l r = Returns (d, r1) \<and> lex_lines h lexer ls r1 = Returns (out', r')
      \<and> out = (if d then l # out' else out'))"
  by (auto simp: map_outcome_returns split: outcome.splits)

lemma lex_lines_append:
  "lex_lines h lexer (xs @ ys) r = Returns (out, r') \<longleftrightarrow>
   (\<exists>o1 r1 o2. lex_lines h lexer xs r = Returns (o1, r1) \<and> lex_lines h lexer ys r1 = Returns (o2, r') \<and> out = o1 @ o2)"
proof (induction xs arbitrary: r out)
  case (Cons x xs)
  show ?case
    unfolding append_Cons lex_lines_Cons Cons.IH by (auto split: if_splits) (metis append_Cons)+
qed auto

declare lex_lines.simps(2) [simp del]

lemma passed_refl [simp]: "passed r r"
  by (simp add: passed_def)

lemma passed_trans [trans]: "passed a b \<Longrightarrow> passed b c \<Longrightarrow> passed a c"
  by (simp add: passed_def)

text \<open>The readers that a file is read with.\<close>

definition ready :: "(node_ref \<Rightarrow> directive_type option) \<Rightarrow> cpp_reader \<Rightarrow> bool" where
  "ready D r \<longleftrightarrow> plain r \<and> directive_index \<circ> nodes r = D"

inductive_cases cond_stepE: "cond_step k (sk, st) (sk', st')"

lemma step_open:
  assumes "cond_step k (sk, st) (sk', st')" "is_opening k"
  obtains e where "st' = e # st" "was_skipping e = sk" "skip_elses e = (sk \<or> \<not> sk')" "sk \<longrightarrow> sk'"
  using assms by (elim cond_stepE) (auto simp: conditional_def is_opening_def)

lemma step_other: "cond_step k (sk, st) (sk', st') \<Longrightarrow> \<not> conditional k \<Longrightarrow> sk' = sk \<and> st' = st"
  by (erule cond_stepE) (auto simp: conditional_def is_opening_def)

lemma step_endif: "cond_step (Some (Dir T_ENDIF)) (sk, e # st) (sk', st') \<Longrightarrow> sk' = was_skipping e \<and> st' = st"
  by (erule cond_stepE) (auto simp: conditional_def is_opening_def)

lemma step_else: "cond_step (Some (Dir T_ELSE)) (sk, e # st) (sk', st') \<Longrightarrow>
  sk' = skip_elses e \<and> (\<exists>e'. st' = e' # st \<and> was_skipping e' = was_skipping e \<and> skip_elses e')"
  by (erule cond_stepE) (auto simp: conditional_def is_opening_def)

lemma step_elif: "cond_step (Some (Dir T_ELIF)) (sk, e # st) (sk', st') \<Longrightarrow>
  (\<exists>e'. st' = e' # st \<and> was_skipping e' = was_skipping e \<and> skip_elses e' = (skip_elses e \<or> \<not> sk')) \<and> (skip_elses e \<longrightarrow> sk')"
  by (erule cond_stepE) (auto simp: conditional_def is_opening_def)

section \<open>Skipped groups\<close>

lemma line_ready:
  assumes "hooks_ok h" "kinds_fixed lexer D k" "ready D r" "lex_line h lexer l r = Returns (d, r')"
  shows "ready D r'" "cond_step (k l) (skipping r, if_stack r) (skipping r', if_stack r')"
    "skipping r \<or> conditional (k l) \<Longrightarrow> \<not> d \<and> passed r r'"
proof -
  have k: "line_kind lexer l r = k l"
    using assms(2,3) by (simp add: kinds_fixed_def ready_def)
  have p: "plain r" using assms(3) by (simp add: ready_def)
  note st = line_step[OF p assms(1,4)]
  show "ready D r'" "cond_step (k l) (skipping r, if_stack r) (skipping r', if_stack r')"
    "skipping r \<or> conditional (k l) \<Longrightarrow> \<not> d \<and> passed r r'"
    using st assms(3) k by (auto simp: ready_def passed_def)
qed

lemma opening_conditional: "is_opening k \<Longrightarrow> conditional k"
  by (simp add: conditional_def)

lemma clause_conditional [simp]:
  "conditional (Some (Dir T_ENDIF))" "conditional (Some (Dir T_ELIF))" "conditional (Some (Dir T_ELSE))"
  by (simp_all add: conditional_def)

text \<open>
  A group that is skipped delivers and defines nothing and leaves the stack as it was; so do the
  clauses of a conditional of which a group has been taken, or that is itself skipped.
\<close>

lemma lex_head:
  assumes "lex_lines h lexer (l # group_lines b @ rest) r = Returns (out, r')"
  obtains d r1 o1 r2 o2 where "lex_line h lexer l r = Returns (d, r1)" "lex_lines h lexer (group_lines b) r1 = Returns (o1, r2)"
    "lex_lines h lexer rest r2 = Returns (o2, r')" "out = (if d then [l] else []) @ o1 @ o2"
  using assms unfolding lex_lines_Cons lex_lines_append by (auto split: if_splits)

lemma lex_one: "lex_lines h lexer [l] r = Returns (out, r') \<Longrightarrow> \<exists>d. lex_line h lexer l r = Returns (d, r') \<and> out = (if d then [l] else [])"
  by (auto simp: lex_lines_Cons)

lemma skipped_lines:
  assumes h: "hooks_ok h" "kinds_fixed lexer D k"
  shows "wf_group k g \<Longrightarrow> ready D r \<Longrightarrow> skipping r \<Longrightarrow> lex_lines h lexer (group_lines g) r = Returns (out, r') \<Longrightarrow>
      out = [] \<and> ready D r' \<and> skipping r' \<and> if_stack r' = if_stack r \<and> passed r r'"
    and "wf_clauses k cs \<Longrightarrow> ready D r \<Longrightarrow> if_stack r = e # st \<Longrightarrow> skip_elses e \<Longrightarrow>
      lex_lines h lexer (clause_lines cs) r = Returns (out, r') \<Longrightarrow>
      out = [] \<and> ready D r' \<and> skipping r' = was_skipping e \<and> if_stack r' = st \<and> passed r r'"
proof (induction g and cs arbitrary: r out r' and r e st out r')
  case (Line l g)
  obtain d r1 out' where l: "lex_line h lexer l r = Returns (d, r1)"
    "lex_lines h lexer (group_lines g) r1 = Returns (out', r')" "out = (if d then l # out' else out')"
    using Line.prems(4) unfolding group_lines.simps lex_lines_Cons by blast
  note s = line_ready[OF h Line.prems(2) l(1)]
  show ?case
    using step_other[OF s(2)] s(3) Line.IH[OF _ s(1) _ l(2)] Line.prems l(3) by (auto simp: passed_def)
next
  case (Section l b cs g)
  obtain d r1 o1 r2 o2 where l: "lex_line h lexer l r = Returns (d, r1)" "lex_lines h lexer (group_lines b) r1 = Returns (o1, r2)"
    "lex_lines h lexer (clause_lines cs @ group_lines g) r2 = Returns (o2, r')" "out = (if d then [l] else []) @ o1 @ o2"
    using Section.prems(4) unfolding group_lines.simps by (rule lex_head)
  then obtain o3 r3 o4 where m: "lex_lines h lexer (clause_lines cs) r2 = Returns (o3, r3)"
    "lex_lines h lexer (group_lines g) r3 = Returns (o4, r')" "o2 = o3 @ o4"
    unfolding lex_lines_append by blast
  have wf: "is_opening (k l)" "wf_group k b" "wf_clauses k cs" "wf_group k g"
    using Section.prems(1) by auto
  note s = line_ready[OF h Section.prems(2) l(1)]
  obtain e where e: "if_stack r1 = e # if_stack r" "was_skipping e" "skip_elses e" "skipping r1"
    using step_open[OF s(2) wf(1)] Section.prems(3) by auto
  note b = Section.IH(1)[OF wf(2) s(1) e(4) l(2)]
  have c: "o3 = [] \<and> ready D r3 \<and> skipping r3 \<and> if_stack r3 = if_stack r \<and> passed r2 r3"
    using Section.IH(2)[OF wf(3) _ _ e(3) m(1), of "if_stack r"] b e by simp
  show ?case
    using Section.IH(3)[OF wf(4) _ _ m(2)] b c s(3) opening_conditional[OF wf(1)] l(4) m(3) by (simp add: passed_def)
next
  case (Endif l)
  then obtain d where l: "lex_line h lexer l r = Returns (d, r')" "out = (if d then [l] else [])"
    using lex_one by (metis clause_lines.simps(1))
  show ?case
    using line_ready[OF h Endif.prems(2) l(1)] l(2) step_endif[of "skipping r" e st] Endif.prems by auto
next
  case (Elif l b cs)
  obtain d r1 o1 r2 o2 where l: "lex_line h lexer l r = Returns (d, r1)" "lex_lines h lexer (group_lines b) r1 = Returns (o1, r2)"
    "lex_lines h lexer (clause_lines cs) r2 = Returns (o2, r')" "out = (if d then [l] else []) @ o1 @ o2"
    using Elif.prems(5) unfolding clause_lines.simps by (rule lex_head)
  have wf: "k l = Some (Dir T_ELIF)" "wf_group k b" "wf_clauses k cs"
    using Elif.prems(1) by auto
  note s = line_ready[OF h Elif.prems(2) l(1)]
  obtain e' where e: "if_stack r1 = e' # st" "was_skipping e' = was_skipping e" "skip_elses e'" "skipping r1"
    using step_elif[of "skipping r" e st] s(2) wf(1) Elif.prems(3,4) by auto
  note b = Elif.IH(1)[OF wf(2) s(1) e(4) l(2)]
  show ?case
    using Elif.IH(2)[OF wf(3) _ _ e(3) l(3)] b e(1,2) s(3) wf(1) l(4) by (simp add: passed_def)
next
  case (Else l b f)
  obtain d r1 o1 r2 o2 where l: "lex_line h lexer l r = Returns (d, r1)" "lex_lines h lexer (group_lines b) r1 = Returns (o1, r2)"
    "lex_lines h lexer [f] r2 = Returns (o2, r')" "out = (if d then [l] else []) @ o1 @ o2"
    using Else.prems(5) unfolding clause_lines.simps by (rule lex_head)
  obtain d' where m: "lex_line h lexer f r2 = Returns (d', r')" "o2 = (if d' then [f] else [])"
    using lex_one[OF l(3)] by blast
  have wf: "k l = Some (Dir T_ELSE)" "wf_group k b" "k f = Some (Dir T_ENDIF)"
    using Else.prems(1) by auto
  note s = line_ready[OF h Else.prems(2) l(1)]
  obtain e' where e: "if_stack r1 = e' # st" "was_skipping e' = was_skipping e" "skipping r1"
    using step_else[of "skipping r" e st] s(2) wf(1) Else.prems(3,4) by auto
  show ?case
    using line_ready[OF h _ m(1)] Else.IH[OF wf(2) s(1) e(3) l(2)] s(3) wf(1,3) l(4) m(2) e step_endif[of "skipping r2" e' st]
    by (simp add: passed_def)
qed simp

section \<open>Groups that are processed\<close>

lemma processed_lines:
  assumes h: "hooks_ok h" "kinds_fixed lexer D k"
  shows "wf_group k g \<Longrightarrow> ready D r \<Longrightarrow> \<not> skipping r \<Longrightarrow> lex_lines h lexer (group_lines g) r = Returns (out, r') \<Longrightarrow>
      process h lexer g r out r' \<and> ready D r' \<and> \<not> skipping r' \<and> if_stack r' = if_stack r"
    and "wf_clauses k cs \<Longrightarrow> ready D r \<Longrightarrow> if_stack r = e # st \<Longrightarrow> \<not> skip_elses e \<Longrightarrow> \<not> was_skipping e \<Longrightarrow>
      lex_lines h lexer (clause_lines cs) r = Returns (out, r') \<Longrightarrow>
      select h lexer cs r out r' \<and> ready D r' \<and> \<not> skipping r' \<and> if_stack r' = st"
proof (induction g and cs arbitrary: r out r' and r e st out r')
  case Done
  then show ?case by (auto intro: process_done)
next
  case (Line l g)
  obtain d r1 out' where l: "lex_line h lexer l r = Returns (d, r1)"
    "lex_lines h lexer (group_lines g) r1 = Returns (out', r')" "out = (if d then l # out' else out')"
    using Line.prems(4) unfolding group_lines.simps lex_lines_Cons by blast
  note s = line_ready[OF h Line.prems(2) l(1)]
  have "skipping r1 = skipping r" "if_stack r1 = if_stack r"
    using step_other[OF s(2)] Line.prems(1) by auto
  then show ?case
    using Line.IH[OF _ s(1) _ l(2)] Line.prems(1,3) process_line[OF Line.prems(3) l(1)] l(3) by simp
next
  case (Section l b cs g)
  obtain d r1 o1 r2 o2 where l: "lex_line h lexer l r = Returns (d, r1)" "lex_lines h lexer (group_lines b) r1 = Returns (o1, r2)"
    "lex_lines h lexer (clause_lines cs @ group_lines g) r2 = Returns (o2, r')" "out = (if d then [l] else []) @ o1 @ o2"
    using Section.prems(4) unfolding group_lines.simps by (rule lex_head)
  then obtain o3 r3 o4 where m: "lex_lines h lexer (clause_lines cs) r2 = Returns (o3, r3)"
    "lex_lines h lexer (group_lines g) r3 = Returns (o4, r')" "o2 = o3 @ o4"
    unfolding lex_lines_append by blast
  have wf: "is_opening (k l)" "wf_group k b" "wf_clauses k cs" "wf_group k g"
    using Section.prems(1) by auto
  note s = line_ready[OF h Section.prems(2) l(1)]
  obtain e where e: "if_stack r1 = e # if_stack r" "\<not> was_skipping e" "skip_elses e = (\<not> skipping r1)"
    using step_open[OF s(2) wf(1)] Section.prems(3) by auto
  have d: "\<not> d" using s(3) opening_conditional[OF wf(1)] by blast
  show ?case
  proof (cases "skipping r1")
    case True
    note b = skipped_lines(1)[OF h wf(2) s(1) True l(2)]
    have c: "select h lexer cs r2 o3 r3 \<and> ready D r3 \<and> \<not> skipping r3 \<and> if_stack r3 = if_stack r"
      using Section.IH(2)[OF wf(3) _ _ _ e(2) m(1)] b e True by simp
    then have "process h lexer g r3 o4 r' \<and> ready D r' \<and> \<not> skipping r' \<and> if_stack r' = if_stack r"
      using Section.IH(3)[OF wf(4) _ _ m(2)] by simp
    then show ?thesis
      using process_select[OF l(1) True _ conjunct1[OF c]] b l(4) m(3) d by simp
  next
    case False
    note b = Section.IH(1)[OF wf(2) s(1) False l(2)]
    have c: "o3 = [] \<and> ready D r3 \<and> \<not> skipping r3 \<and> if_stack r3 = if_stack r \<and> passed r2 r3"
      using skipped_lines(2)[OF h wf(3) _ _ _ m(1)] b e False by simp
    then have "process h lexer g r3 o4 r' \<and> ready D r' \<and> \<not> skipping r' \<and> if_stack r' = if_stack r"
      using Section.IH(3)[OF wf(4) _ _ m(2)] by simp
    then show ?thesis
      using process_taken[OF l(1) False conjunct1[OF b], of r3 g o4 r' cs] c l(4) m(3) d by simp
  qed
next
  case (Endif l)
  then obtain d where l: "lex_line h lexer l r = Returns (d, r')" "out = (if d then [l] else [])"
    using lex_one by (metis clause_lines.simps(1))
  show ?case
    using line_ready[OF h Endif.prems(2) l(1)] l(2) step_endif[of "skipping r" e st] Endif.prems select_endif[OF l(1)] by auto
next
  case (Elif l b cs)
  obtain d r1 o1 r2 o2 where l: "lex_line h lexer l r = Returns (d, r1)" "lex_lines h lexer (group_lines b) r1 = Returns (o1, r2)"
    "lex_lines h lexer (clause_lines cs) r2 = Returns (o2, r')" "out = (if d then [l] else []) @ o1 @ o2"
    using Elif.prems(6) unfolding clause_lines.simps by (rule lex_head)
  have wf: "k l = Some (Dir T_ELIF)" "wf_group k b" "wf_clauses k cs"
    using Elif.prems(1) by auto
  note s = line_ready[OF h Elif.prems(2) l(1)]
  obtain e' where e: "if_stack r1 = e' # st" "\<not> was_skipping e'" "skip_elses e' = (\<not> skipping r1)"
    using step_elif[of "skipping r" e st] s(2) wf(1) Elif.prems(3-5) by auto
  have d: "\<not> d" using s(3) wf(1) by simp
  show ?case
  proof (cases "skipping r1")
    case True
    note b = skipped_lines(1)[OF h wf(2) s(1) True l(2)]
    have "select h lexer cs r2 o2 r' \<and> ready D r' \<and> \<not> skipping r' \<and> if_stack r' = st"
      using Elif.IH(2)[OF wf(3) _ _ _ e(2) l(3)] b e True by simp
    then show ?thesis
      using select_next[OF l(1) True, of r2 cs o2 r' b] b l(4) d by simp
  next
    case False
    note b = Elif.IH(1)[OF wf(2) s(1) False l(2)]
    have "o2 = [] \<and> ready D r' \<and> \<not> skipping r' \<and> if_stack r' = st \<and> passed r2 r'"
      using skipped_lines(2)[OF h wf(3) _ _ _ l(3)] b e False by simp
    then show ?thesis
      using select_taken[OF l(1) False conjunct1[OF b], of r' cs] l(4) d by simp
  qed
next
  case (Else l b f)
  obtain d r1 o1 r2 o2 where l: "lex_line h lexer l r = Returns (d, r1)" "lex_lines h lexer (group_lines b) r1 = Returns (o1, r2)"
    "lex_lines h lexer [f] r2 = Returns (o2, r')" "out = (if d then [l] else []) @ o1 @ o2"
    using Else.prems(6) unfolding clause_lines.simps by (rule lex_head)
  obtain d' where m: "lex_line h lexer f r2 = Returns (d', r')" "o2 = (if d' then [f] else [])"
    using lex_one[OF l(3)] by blast
  have wf: "k l = Some (Dir T_ELSE)" "wf_group k b" "k f = Some (Dir T_ENDIF)"
    using Else.prems(1) by auto
  note s = line_ready[OF h Else.prems(2) l(1)]
  obtain e' where e: "if_stack r1 = e' # st" "\<not> was_skipping e'" "\<not> skipping r1"
    using step_else[of "skipping r" e st] s(2) wf(1) Else.prems(3-5) by auto
  note b = Else.IH[OF wf(2) s(1) e(3) l(2)]
  have t: "ready D r'" "\<not> d'" "\<not> skipping r'" "if_stack r' = st"
    using line_ready[OF h _ m(1)] b wf(3) e step_endif[of "skipping r2" e' st] by auto
  show ?case
    using select_else[OF l(1) e(3) conjunct1[OF b] m(1)] t s(3) wf(1) l(4) m(2) by simp
qed

lemma lines_return_from:
  assumes "hooks_ok h" "width_ok p" "32 \<le> p" "\<forall>l q. list_all lexed_item (line_items (lexer l q))"
  shows "plain r \<Longrightarrow> precision (opts r) = p \<Longrightarrow> \<exists>out r'. lex_lines h lexer ls r = Returns (out, r')"
proof (induction ls arbitrary: r)
  case (Cons l ls)
  obtain d r1 where l: "lex_line h lexer l r = Returns (d, r1)"
    using line_returns[where lexer = lexer and h = h, OF Cons.prems(1)] assms(4) Cons.prems(2) assms(2,3) by blast
  obtain out r' where "lex_lines h lexer ls r1 = Returns (out, r')"
    using Cons.IH[of r1] line_step(2,4)[OF Cons.prems(1) assms(1) l] Cons.prems(2) by metis
  with l show ?case
    unfolding lex_lines_Cons by blast
qed simp

section \<open>A file\<close>

datatype sample = L_ifdef | L_one | L_else | L_two | L_endif

definition name_item :: "string \<Rightarrow> pp_item" where
  "name_item n = \<lparr>item_token = name_token n, item_loc = 0, item_context = 0\<rparr>"

definition a_line :: "bool \<Rightarrow> pp_item list \<Rightarrow> lexed_line" where
  "a_line hash its = \<lparr>line_hash = hash, line_indented = False, line_expanded = False, line_items = its\<rparr>"

primrec sample_lexer :: "sample \<Rightarrow> cpp_reader \<Rightarrow> lexed_line" where
  "sample_lexer L_ifdef r = a_line True [name_item ''ifdef'', name_item ''X'']"
| "sample_lexer L_one r = a_line False [lit ''1'']"
| "sample_lexer L_else r = a_line True [name_item ''else'']"
| "sample_lexer L_two r = a_line False [lit ''2'']"
| "sample_lexer L_endif r = a_line True [name_item ''endif'']"

primrec sample_kind :: "sample \<Rightarrow> directive option" where
  "sample_kind L_ifdef = Some (Dir T_IFDEF)"
| "sample_kind L_one = None"
| "sample_kind L_else = Some (Dir T_ELSE)"
| "sample_kind L_two = None"
| "sample_kind L_endif = Some (Dir T_ENDIF)"

definition no_hooks :: hooks where
  "no_hooks = \<lparr>other_handler = \<lambda>d r. r, scan_out_logical_line = \<lambda>r. r, remove_overlay = \<lambda>r. r\<rparr>"

lemma no_hooks_ok: "hooks_ok no_hooks"
  by (simp add: hooks_ok_def no_hooks_def)

lemma reader64_plain [simp]: "plain reader64" "\<not> skipping reader64"
  by (simp_all add: plain_def reader64_def create_reader_def create_options_def cpp_set_lang_def Let_def)

lemma reader64_directives: "directive_index \<circ> nodes reader64 = map_of directive_names"
  by (simp add: fun_eq_iff reader64_def create_reader_def)

lemma sample_kinds: "kinds_fixed sample_lexer (map_of directive_names) sample_kind"
proof -
  have "line_kind sample_lexer l r = sample_kind l" if D: "directive_index \<circ> nodes r = map_of directive_names" for l r
  proof -
    have "directive_index (nodes r n) = map_of directive_names n" for n
      using fun_cong[OF D, of n] by simp
    then show ?thesis
      by (cases l) (simp_all add: line_kind_def line_directive_def find_directive_def a_line_def name_item_def name_token_def
          cpp_get_token_def cpp_get_token_with_location_def directive_names_def)
  qed
  then show ?thesis by (simp add: kinds_fixed_def)
qed

lemma sample_lexed: "\<forall>l q. list_all lexed_item (line_items (sample_lexer l q))"
proof (intro allI)
  fix l q
  show "list_all lexed_item (line_items (sample_lexer l q))"
    by (cases l) (simp_all add: a_line_def lexed_item_def name_item_def name_token_def char_simps)
qed

lemma sample_returns:
  "\<exists>out r'. lex_lines no_hooks sample_lexer ls reader64 = Returns (out, r')"
  "\<exists>out r'. lex_lines no_hooks sample_lexer ls (stack_file reader64) = Returns (out, r')"
proof -
  have "plain (stack_file reader64)" "precision (opts (stack_file reader64)) = 64"
    using reader64_plain(1) by (simp_all add: stack_file_def plain_def)
  then show "\<exists>out r'. lex_lines no_hooks sample_lexer ls reader64 = Returns (out, r')"
    "\<exists>out r'. lex_lines no_hooks sample_lexer ls (stack_file reader64) = Returns (out, r')"
    by (auto intro!: lines_return_from[OF no_hooks_ok _ _ sample_lexed, of 64] simp: width_ok_def)
qed





text \<open>
  C5: reading a file comes to an end. With an arithmetic of 32 to 64 or of 128 bits and tokens as
  the lexer makes them, every line is read: no expression of a \<^verbatim>\<open>#if\<close> or \<^verbatim>\<open>#elif\<close>, however
  malformed, keeps the reader from going on, or makes it read a value that is not there.
\<close>

theorem file_is_read:
  assumes "hooks_ok h" "plain r" "width_ok (precision (opts r))" "32 \<le> precision (opts r)"
    "\<forall>l q. list_all lexed_item (line_items (lexer l q))"
  shows "\<exists>out r'. lex_lines h lexer ls (stack_file r) = Returns (out, r')"
  using lines_return_from[where lexer = lexer and r = "stack_file r" and ls = ls, OF assms(1,3,4,5)] assms(2)
  by (simp add: stack_file_def plain_def)

theorem file_is_read_witness:
  "\<exists>out r'. lex_lines no_hooks sample_lexer [L_else, L_endif, L_ifdef] (stack_file reader64) = Returns (out, r')"
  by (rule file_is_read[OF no_hooks_ok _ _ _ sample_lexed]) (simp_all add: width_ok_def)

end
