(* ===== verification/Cpp_Ucnid.thy ===== *)
theory Cpp_Ucnid
  imports Prelude
begin

text \<open>
  The tables of \<^verbatim>\<open>libcpp/ucnid.h\<close>, which say of every Unicode character whether it may stand in an
  identifier and how it combines with the character before it. An entry of \<open>ucnranges\<close> holds the
  flags of a range of characters (C99 = 1, N99 = 2, CXX = 4, C11 = 8, N11 = 16, CID = 32,
  NFC = 64, NKC = 128, CTX = 256), their combining class, and the last character of the range.
  \<open>nfc_cases\<close> lists the cases of the function \<^verbatim>\<open>check_nfc\<close>: for a character \<^verbatim>\<open>c\<close> the characters \<^verbatim>\<open>p\<close> for
  which it returns \<^verbatim>\<open>false\<close>.
\<close>

datatype ucnrange = UCN (ucn_flags: "16 word") (ucn_combine: "8 word") (ucn_end: cppchar_t)

definition ucnranges_0 :: "ucnrange list" where
  "ucnranges_0 =
    [UCN 224 0 0xa7, UCN 104 0 0xa8, UCN 224 0 0xa9, UCN 105 0 0xaa, UCN 224 0 0xac,
     UCN 232 0 0xad, UCN 224 0 0xae, UCN 104 0 0xaf, UCN 224 0 0xb1, UCN 104 0 0xb4,
     UCN 105 0 0xb5, UCN 224 0 0xb6, UCN 233 0 0xb7, UCN 104 0 0xb9, UCN 105 0 0xba,
     UCN 224 0 0xbb, UCN 104 0 0xbe, UCN 224 0 0xbf, UCN 237 0 0xd6, UCN 224 0 0xd7,
     UCN 237 0 0xf6, UCN 224 0 0xf7, UCN 237 0 0x131, UCN 109 0 0x133, UCN 237 0 0x13e,
     UCN 109 0 0x140, UCN 237 0 0x148, UCN 109 0 0x149, UCN 237 0 0x17e, UCN 109 0 0x17f,
     UCN 237 0 0x1c3, UCN 109 0 0x1cc, UCN 237 0 0x1d4, UCN 205 0 0x1dc, UCN 237 0 0x1dd,
     UCN 205 0 0x1e3, UCN 237 0 0x1eb, UCN 205 0 0x1ef, UCN 237 0 0x1f0, UCN 109 0 0x1f3,
     UCN 237 0 0x1f5, UCN 232 0 0x1f9, UCN 205 0 0x1ff, UCN 237 0 0x217, UCN 232 0 0x229,
     UCN 200 0 0x22d, UCN 232 0 0x22f, UCN 200 0 0x231, UCN 232 0 0x24f, UCN 237 0 0x2a8,
     UCN 232 0 0x2af, UCN 105 0 0x2b8, UCN 232 0 0x2ba, UCN 233 0 0x2bb, UCN 232 0 0x2bc,
     UCN 233 0 0x2c1, UCN 232 0 0x2cf, UCN 233 0 0x2d1, UCN 232 0 0x2d7, UCN 104 0 0x2dd,
     UCN 232 0 0x2df, UCN 105 0 0x2e4, UCN 232 0 0x2ff, UCN 504 230 0x300, UCN 504 230 0x301,
     UCN 504 230 0x302, UCN 504 230 0x303, UCN 504 230 0x304, UCN 248 230 0x305, UCN 504 230 0x306,
     UCN 504 230 0x307, UCN 504 230 0x308, UCN 504 230 0x309, UCN 504 230 0x30a, UCN 504 230 0x30b,
     UCN 504 230 0x30c, UCN 248 230 0x30d, UCN 248 230 0x30e, UCN 504 230 0x30f, UCN 248 230 0x310,
     UCN 504 230 0x311, UCN 248 230 0x312, UCN 504 230 0x313, UCN 504 230 0x314, UCN 248 232 0x315,
     UCN 248 220 0x316, UCN 248 220 0x317, UCN 248 220 0x318, UCN 248 220 0x319, UCN 248 232 0x31a,
     UCN 504 216 0x31b, UCN 248 220 0x31c, UCN 248 220 0x31d, UCN 248 220 0x31e, UCN 248 220 0x31f,
     UCN 248 220 0x320, UCN 248 202 0x321, UCN 248 202 0x322, UCN 504 220 0x323, UCN 504 220 0x324,
     UCN 504 220 0x325, UCN 504 220 0x326, UCN 504 202 0x327, UCN 504 202 0x328, UCN 248 220 0x329,
     UCN 248 220 0x32a, UCN 248 220 0x32b, UCN 248 220 0x32c, UCN 504 220 0x32d, UCN 504 220 0x32e,
     UCN 248 220 0x32f, UCN 504 220 0x330, UCN 504 220 0x331, UCN 248 220 0x332, UCN 248 220 0x333,
     UCN 248 1 0x334, UCN 248 1 0x335, UCN 248 1 0x336, UCN 248 1 0x337, UCN 504 1 0x338,
     UCN 248 220 0x339, UCN 248 220 0x33a, UCN 248 220 0x33b, UCN 248 220 0x33c, UCN 248 230 0x33d,
     UCN 248 230 0x33e, UCN 248 230 0x33f, UCN 24 230 0x340, UCN 24 230 0x341, UCN 504 230 0x342,
     UCN 24 230 0x343, UCN 24 230 0x344, UCN 504 240 0x345, UCN 248 230 0x346, UCN 248 220 0x347,
     UCN 248 220 0x348, UCN 248 220 0x349, UCN 248 230 0x34a, UCN 248 230 0x34b, UCN 248 230 0x34c,
     UCN 248 220 0x34d, UCN 248 0 0x34f, UCN 248 230 0x350, UCN 248 230 0x351, UCN 248 230 0x352,
     UCN 248 220 0x353, UCN 248 220 0x354, UCN 248 220 0x355, UCN 248 220 0x356, UCN 248 230 0x357,
     UCN 248 232 0x358, UCN 248 220 0x359, UCN 248 220 0x35a, UCN 248 230 0x35b, UCN 248 233 0x35c,
     UCN 248 234 0x35d, UCN 248 234 0x35e, UCN 248 233 0x35f, UCN 248 234 0x360, UCN 248 234 0x361,
     UCN 248 233 0x362, UCN 248 230 0x363, UCN 248 230 0x364, UCN 248 230 0x365, UCN 248 230 0x366,
     UCN 248 230 0x367, UCN 248 230 0x368, UCN 248 230 0x369, UCN 248 230 0x36a, UCN 248 230 0x36b,
     UCN 248 230 0x36c, UCN 248 230 0x36d, UCN 248 230 0x36e, UCN 248 230 0x36f, UCN 232 0 0x373,
     UCN 8 0 0x374, UCN 232 0 0x379, UCN 105 0 0x37a, UCN 232 0 0x37d, UCN 40 0 0x37e,
     UCN 232 0 0x383, UCN 108 0 0x384, UCN 72 0 0x385, UCN 201 0 0x386, UCN 8 0 0x387,
     UCN 205 0 0x38a, UCN 232 0 0x38b, UCN 205 0 0x38c, UCN 232 0 0x38d, UCN 205 0 0x390,
     UCN 237 0 0x3a1, UCN 232 0 0x3a2, UCN 237 0 0x3a9, UCN 205 0 0x3b0, UCN 237 0 0x3c9,
     UCN 205 0 0x3ce, UCN 232 0 0x3cf, UCN 109 0 0x3d2, UCN 77 0 0x3d4, UCN 109 0 0x3d6,
     UCN 232 0 0x3d9, UCN 237 0 0x3da, UCN 232 0 0x3db, UCN 237 0 0x3dc, UCN 232 0 0x3dd,
     UCN 237 0 0x3de, UCN 232 0 0x3df, UCN 237 0 0x3e0, UCN 232 0 0x3e1, UCN 237 0 0x3ef,
     UCN 109 0 0x3f2, UCN 237 0 0x3f3, UCN 104 0 0x3f5, UCN 232 0 0x3f8, UCN 104 0 0x3f9,
     UCN 232 0 0x3ff, UCN 200 0 0x400, UCN 205 0 0x401, UCN 237 0 0x402, UCN 205 0 0x403,
     UCN 237 0 0x406, UCN 205 0 0x407, UCN 237 0 0x40b, UCN 205 0 0x40c, UCN 204 0 0x40d,
     UCN 201 0 0x40e, UCN 237 0 0x418, UCN 205 0 0x419, UCN 237 0 0x438, UCN 205 0 0x439,
     UCN 237 0 0x44f, UCN 200 0 0x450, UCN 205 0 0x451, UCN 237 0 0x452, UCN 205 0 0x453,
     UCN 237 0 0x456, UCN 205 0 0x457, UCN 237 0 0x45b, UCN 205 0 0x45c, UCN 200 0 0x45d,
     UCN 205 0 0x45e, UCN 237 0 0x475, UCN 205 0 0x477, UCN 237 0 0x481, UCN 232 0 0x482,
     UCN 232 230 0x483, UCN 232 230 0x484, UCN 232 230 0x485, UCN 232 230 0x486, UCN 232 0 0x48f,
     UCN 237 0 0x4c0, UCN 205 0 0x4c2, UCN 237 0 0x4c4, UCN 232 0 0x4c6, UCN 237 0 0x4c8,
     UCN 232 0 0x4ca, UCN 237 0 0x4cc, UCN 232 0 0x4cf, UCN 205 0 0x4d3, UCN 237 0 0x4d5,
     UCN 205 0 0x4d7, UCN 237 0 0x4d9, UCN 205 0 0x4df, UCN 237 0 0x4e1, UCN 205 0 0x4e7,
     UCN 237 0 0x4e9, UCN 205 0 0x4eb, UCN 200 0 0x4ed, UCN 205 0 0x4f5, UCN 232 0 0x4f7,
     UCN 205 0 0x4f9, UCN 232 0 0x530, UCN 237 0 0x556, UCN 232 0 0x558, UCN 233 0 0x559,
     UCN 232 0 0x560, UCN 237 0 0x586, UCN 109 0 0x587, UCN 232 0 0x590, UCN 232 220 0x591,
     UCN 232 230 0x592, UCN 232 230 0x593, UCN 232 230 0x594, UCN 232 230 0x595, UCN 232 220 0x596,
     UCN 232 230 0x597, UCN 232 230 0x598, UCN 232 230 0x599, UCN 232 222 0x59a, UCN 232 220 0x59b,
     UCN 232 230 0x59c, UCN 232 230 0x59d, UCN 232 230 0x59e, UCN 232 230 0x59f, UCN 232 230 0x5a0,
     UCN 232 230 0x5a1, UCN 232 220 0x5a2, UCN 232 220 0x5a3, UCN 232 220 0x5a4, UCN 232 220 0x5a5,
     UCN 232 220 0x5a6, UCN 232 220 0x5a7, UCN 232 230 0x5a8, UCN 232 230 0x5a9, UCN 232 220 0x5aa,
     UCN 232 230 0x5ab, UCN 232 230 0x5ac, UCN 232 222 0x5ad, UCN 232 228 0x5ae, UCN 232 230 0x5af]"

definition ucnranges_1 :: "ucnrange list" where
  "ucnranges_1 =
    [UCN 233 10 0x5b0, UCN 233 11 0x5b1, UCN 233 12 0x5b2, UCN 233 13 0x5b3, UCN 233 14 0x5b4,
     UCN 233 15 0x5b5, UCN 233 16 0x5b6, UCN 233 17 0x5b7, UCN 233 18 0x5b8, UCN 233 19 0x5b9,
     UCN 232 19 0x5ba, UCN 233 20 0x5bb, UCN 233 21 0x5bc, UCN 233 22 0x5bd, UCN 232 0 0x5be,
     UCN 233 23 0x5bf, UCN 232 0 0x5c0, UCN 233 24 0x5c1, UCN 233 25 0x5c2, UCN 232 0 0x5c3,
     UCN 232 230 0x5c4, UCN 232 0 0x5c6, UCN 232 0 0x5cf, UCN 237 0 0x5ea, UCN 232 0 0x5ef,
     UCN 237 0 0x5f2, UCN 236 0 0x5f4, UCN 232 0 0x60f, UCN 232 230 0x610, UCN 232 230 0x611,
     UCN 232 230 0x612, UCN 232 230 0x613, UCN 232 230 0x614, UCN 232 230 0x615, UCN 232 230 0x616,
     UCN 232 230 0x617, UCN 232 30 0x618, UCN 232 31 0x619, UCN 232 0 0x620, UCN 237 0 0x621,
     UCN 205 0 0x626, UCN 237 0 0x63a, UCN 232 0 0x63f, UCN 237 0 0x64a, UCN 237 27 0x64b,
     UCN 237 28 0x64c, UCN 237 29 0x64d, UCN 237 30 0x64e, UCN 237 31 0x64f, UCN 237 32 0x650,
     UCN 237 33 0x651, UCN 237 34 0x652, UCN 488 230 0x653, UCN 488 230 0x654, UCN 488 220 0x655,
     UCN 232 220 0x656, UCN 232 230 0x657, UCN 232 230 0x658, UCN 232 230 0x659, UCN 232 230 0x65a,
     UCN 232 230 0x65b, UCN 232 220 0x65c, UCN 232 230 0x65d, UCN 232 230 0x65e, UCN 232 220 0x65f,
     UCN 235 0 0x669, UCN 232 0 0x66f, UCN 237 0 0x674, UCN 109 0 0x678, UCN 237 0 0x6b7,
     UCN 232 0 0x6b9, UCN 237 0 0x6be, UCN 232 0 0x6bf, UCN 205 0 0x6c0, UCN 237 0 0x6c1,
     UCN 205 0 0x6c2, UCN 237 0 0x6ce, UCN 232 0 0x6cf, UCN 233 0 0x6d2, UCN 201 0 0x6d3,
     UCN 233 0 0x6d5, UCN 233 230 0x6d6, UCN 233 230 0x6d7, UCN 233 230 0x6d8, UCN 233 230 0x6d9,
     UCN 233 230 0x6da, UCN 233 230 0x6db, UCN 233 230 0x6dc, UCN 232 0 0x6de, UCN 232 230 0x6df,
     UCN 232 230 0x6e0, UCN 232 230 0x6e1, UCN 232 230 0x6e2, UCN 232 220 0x6e3, UCN 232 230 0x6e4,
     UCN 237 0 0x6e6, UCN 237 230 0x6e7, UCN 233 230 0x6e8, UCN 232 0 0x6e9, UCN 233 220 0x6ea,
     UCN 233 230 0x6eb, UCN 233 230 0x6ec, UCN 233 220 0x6ed, UCN 232 0 0x6ef, UCN 235 0 0x6f9,
     UCN 232 0 0x710, UCN 232 0 0x72f, UCN 232 230 0x730, UCN 232 220 0x731, UCN 232 230 0x732,
     UCN 232 230 0x733, UCN 232 220 0x734, UCN 232 230 0x735, UCN 232 230 0x736, UCN 232 220 0x737,
     UCN 232 220 0x738, UCN 232 220 0x739, UCN 232 230 0x73a, UCN 232 220 0x73b, UCN 232 220 0x73c,
     UCN 232 230 0x73d, UCN 232 220 0x73e, UCN 232 230 0x73f, UCN 232 230 0x740, UCN 232 230 0x741,
     UCN 232 220 0x742, UCN 232 230 0x743, UCN 232 220 0x744, UCN 232 230 0x745, UCN 232 220 0x746,
     UCN 232 230 0x747, UCN 232 220 0x748, UCN 232 230 0x749, UCN 232 0 0x7ea, UCN 232 230 0x7eb,
     UCN 232 230 0x7ec, UCN 232 230 0x7ed, UCN 232 230 0x7ee, UCN 232 230 0x7ef, UCN 232 230 0x7f0,
     UCN 232 230 0x7f1, UCN 232 220 0x7f2, UCN 232 0 0x815, UCN 232 230 0x816, UCN 232 230 0x817,
     UCN 232 230 0x818, UCN 232 0 0x81a, UCN 232 230 0x81b, UCN 232 230 0x81c, UCN 232 230 0x81d,
     UCN 232 230 0x81e, UCN 232 230 0x81f, UCN 232 230 0x820, UCN 232 230 0x821, UCN 232 230 0x822,
     UCN 232 0 0x824, UCN 232 230 0x825, UCN 232 230 0x826, UCN 232 0 0x828, UCN 232 230 0x829,
     UCN 232 230 0x82a, UCN 232 230 0x82b, UCN 232 230 0x82c, UCN 232 0 0x858, UCN 232 220 0x859,
     UCN 232 220 0x85a, UCN 232 0 0x8e3, UCN 232 230 0x8e4, UCN 232 230 0x8e5, UCN 232 220 0x8e6,
     UCN 232 230 0x8e7, UCN 232 230 0x8e8, UCN 232 220 0x8e9, UCN 232 230 0x8ea, UCN 232 230 0x8eb,
     UCN 232 230 0x8ec, UCN 232 220 0x8ed, UCN 232 220 0x8ee, UCN 232 220 0x8ef, UCN 232 27 0x8f0,
     UCN 232 28 0x8f1, UCN 232 29 0x8f2, UCN 232 230 0x8f3, UCN 232 230 0x8f4, UCN 232 230 0x8f5,
     UCN 232 220 0x8f6, UCN 232 230 0x8f7, UCN 232 230 0x8f8, UCN 232 220 0x8f9, UCN 232 220 0x8fa,
     UCN 232 230 0x8fb, UCN 232 230 0x8fc, UCN 232 230 0x8fd, UCN 232 0 0x900, UCN 233 0 0x903,
     UCN 232 0 0x904, UCN 237 0 0x928, UCN 205 0 0x929, UCN 237 0 0x930, UCN 205 0 0x931,
     UCN 237 0 0x933, UCN 205 0 0x934, UCN 237 0 0x939, UCN 232 0 0x93b, UCN 488 7 0x93c,
     UCN 233 0 0x94c, UCN 233 9 0x94d, UCN 232 0 0x94f, UCN 233 0 0x950, UCN 233 230 0x951,
     UCN 233 220 0x952, UCN 232 230 0x953, UCN 232 0 0x957, UCN 13 0 0x95f, UCN 237 0 0x962,
     UCN 233 0 0x963, UCN 232 0 0x965, UCN 235 0 0x96f, UCN 232 0 0x980, UCN 233 0 0x983,
     UCN 232 0 0x984, UCN 237 0 0x98c, UCN 232 0 0x98e, UCN 237 0 0x990, UCN 232 0 0x992,
     UCN 237 0 0x9a8, UCN 232 0 0x9a9, UCN 237 0 0x9b0, UCN 232 0 0x9b1, UCN 237 0 0x9b2,
     UCN 232 0 0x9b5, UCN 237 0 0x9b9, UCN 232 0 0x9bb, UCN 232 0 0x9bd, UCN 489 0 0x9be,
     UCN 233 0 0x9c4, UCN 232 0 0x9c6, UCN 233 0 0x9c8, UCN 232 0 0x9ca, UCN 201 0 0x9cc,
     UCN 233 9 0x9cd, UCN 232 0 0x9d6, UCN 488 0 0x9d7, UCN 232 0 0x9db, UCN 13 0 0x9dd,
     UCN 232 0 0x9de, UCN 13 0 0x9df, UCN 237 0 0x9e1, UCN 233 0 0x9e3, UCN 232 0 0x9e5,
     UCN 235 0 0x9ef, UCN 237 0 0x9f1, UCN 232 0 0xa01, UCN 233 0 0xa02, UCN 232 0 0xa04,
     UCN 237 0 0xa0a, UCN 232 0 0xa0e, UCN 237 0 0xa10, UCN 232 0 0xa12, UCN 237 0 0xa28,
     UCN 232 0 0xa29, UCN 237 0 0xa30, UCN 232 0 0xa31, UCN 237 0 0xa32, UCN 13 0 0xa33,
     UCN 232 0 0xa34, UCN 237 0 0xa35, UCN 13 0 0xa36, UCN 232 0 0xa37, UCN 237 0 0xa39,
     UCN 232 0 0xa3b, UCN 232 0 0xa3d, UCN 233 0 0xa42, UCN 232 0 0xa46, UCN 233 0 0xa48,
     UCN 232 0 0xa4a, UCN 233 0 0xa4c, UCN 233 9 0xa4d, UCN 232 0 0xa58, UCN 13 0 0xa5b,
     UCN 237 0 0xa5c, UCN 232 0 0xa5d, UCN 13 0 0xa5e, UCN 232 0 0xa65, UCN 235 0 0xa6f,
     UCN 232 0 0xa73, UCN 233 0 0xa74, UCN 232 0 0xa80, UCN 233 0 0xa83, UCN 232 0 0xa84,
     UCN 237 0 0xa8b, UCN 232 0 0xa8c, UCN 237 0 0xa8d, UCN 232 0 0xa8e, UCN 237 0 0xa91,
     UCN 232 0 0xa92, UCN 237 0 0xaa8, UCN 232 0 0xaa9, UCN 237 0 0xab0, UCN 232 0 0xab1,
     UCN 237 0 0xab3, UCN 232 0 0xab4, UCN 237 0 0xab9, UCN 232 0 0xabb, UCN 232 7 0xabc,
     UCN 233 0 0xac5, UCN 232 0 0xac6, UCN 233 0 0xac9, UCN 232 0 0xaca, UCN 233 0 0xacc]"

definition ucnranges_2 :: "ucnrange list" where
  "ucnranges_2 =
    [UCN 233 9 0xacd, UCN 232 0 0xacf, UCN 233 0 0xad0, UCN 232 0 0xadf, UCN 237 0 0xae0,
     UCN 232 0 0xae5, UCN 235 0 0xaef, UCN 232 0 0xb00, UCN 233 0 0xb03, UCN 232 0 0xb04,
     UCN 237 0 0xb0c, UCN 232 0 0xb0e, UCN 237 0 0xb10, UCN 232 0 0xb12, UCN 237 0 0xb28,
     UCN 232 0 0xb29, UCN 237 0 0xb30, UCN 232 0 0xb31, UCN 237 0 0xb33, UCN 232 0 0xb35,
     UCN 237 0 0xb39, UCN 232 0 0xb3b, UCN 232 7 0xb3c, UCN 233 0 0xb3d, UCN 489 0 0xb3e,
     UCN 233 0 0xb43, UCN 232 0 0xb46, UCN 233 0 0xb47, UCN 201 0 0xb48, UCN 232 0 0xb4a,
     UCN 201 0 0xb4c, UCN 233 9 0xb4d, UCN 232 0 0xb55, UCN 488 0 0xb57, UCN 232 0 0xb5b,
     UCN 13 0 0xb5d, UCN 232 0 0xb5e, UCN 237 0 0xb61, UCN 232 0 0xb65, UCN 235 0 0xb6f,
     UCN 232 0 0xb81, UCN 233 0 0xb83, UCN 232 0 0xb84, UCN 237 0 0xb8a, UCN 232 0 0xb8d,
     UCN 237 0 0xb90, UCN 232 0 0xb91, UCN 237 0 0xb93, UCN 205 0 0xb94, UCN 237 0 0xb95,
     UCN 232 0 0xb98, UCN 237 0 0xb9a, UCN 232 0 0xb9b, UCN 237 0 0xb9c, UCN 232 0 0xb9d,
     UCN 237 0 0xb9f, UCN 232 0 0xba2, UCN 237 0 0xba4, UCN 232 0 0xba7, UCN 237 0 0xbaa,
     UCN 232 0 0xbad, UCN 237 0 0xbb5, UCN 232 0 0xbb6, UCN 237 0 0xbb9, UCN 232 0 0xbbd,
     UCN 489 0 0xbbe, UCN 233 0 0xbc2, UCN 232 0 0xbc5, UCN 233 0 0xbc8, UCN 232 0 0xbc9,
     UCN 201 0 0xbcc, UCN 233 9 0xbcd, UCN 232 0 0xbd6, UCN 488 0 0xbd7, UCN 232 0 0xbe6,
     UCN 235 0 0xbef, UCN 232 0 0xc00, UCN 233 0 0xc03, UCN 232 0 0xc04, UCN 237 0 0xc0c,
     UCN 232 0 0xc0d, UCN 237 0 0xc10, UCN 232 0 0xc11, UCN 237 0 0xc28, UCN 232 0 0xc29,
     UCN 237 0 0xc33, UCN 232 0 0xc34, UCN 237 0 0xc39, UCN 232 0 0xc3d, UCN 233 0 0xc44,
     UCN 232 0 0xc45, UCN 233 0 0xc47, UCN 201 0 0xc48, UCN 232 0 0xc49, UCN 233 0 0xc4c,
     UCN 233 9 0xc4d, UCN 232 0 0xc54, UCN 232 84 0xc55, UCN 488 91 0xc56, UCN 232 0 0xc5f,
     UCN 237 0 0xc61, UCN 232 0 0xc65, UCN 235 0 0xc6f, UCN 232 0 0xc81, UCN 233 0 0xc83,
     UCN 232 0 0xc84, UCN 237 0 0xc8c, UCN 232 0 0xc8d, UCN 237 0 0xc90, UCN 232 0 0xc91,
     UCN 237 0 0xca8, UCN 232 0 0xca9, UCN 237 0 0xcb3, UCN 232 0 0xcb4, UCN 237 0 0xcb9,
     UCN 232 0 0xcbb, UCN 232 0 0xcbd, UCN 233 0 0xcbf, UCN 201 0 0xcc0, UCN 233 0 0xcc1,
     UCN 489 0 0xcc2, UCN 233 0 0xcc4, UCN 232 0 0xcc5, UCN 233 0 0xcc6, UCN 201 0 0xcc8,
     UCN 232 0 0xcc9, UCN 201 0 0xccb, UCN 233 0 0xccc, UCN 233 9 0xccd, UCN 232 0 0xcd4,
     UCN 488 0 0xcd6, UCN 232 0 0xcdd, UCN 233 0 0xcde, UCN 232 0 0xcdf, UCN 237 0 0xce1,
     UCN 232 0 0xce5, UCN 235 0 0xcef, UCN 232 0 0xd01, UCN 233 0 0xd03, UCN 232 0 0xd04,
     UCN 237 0 0xd0c, UCN 232 0 0xd0d, UCN 237 0 0xd10, UCN 232 0 0xd11, UCN 237 0 0xd28,
     UCN 232 0 0xd29, UCN 237 0 0xd39, UCN 232 0 0xd3d, UCN 489 0 0xd3e, UCN 233 0 0xd43,
     UCN 232 0 0xd45, UCN 233 0 0xd48, UCN 232 0 0xd49, UCN 201 0 0xd4c, UCN 233 9 0xd4d,
     UCN 232 0 0xd56, UCN 488 0 0xd57, UCN 232 0 0xd5f, UCN 237 0 0xd61, UCN 232 0 0xd65,
     UCN 235 0 0xd6f, UCN 232 0 0xdc9, UCN 488 9 0xdca, UCN 232 0 0xdce, UCN 488 0 0xdcf,
     UCN 232 0 0xdd9, UCN 200 0 0xdda, UCN 232 0 0xddb, UCN 200 0 0xdde, UCN 488 0 0xddf,
     UCN 232 0 0xe00, UCN 237 0 0xe30, UCN 233 0 0xe31, UCN 237 0 0xe32, UCN 109 0 0xe33,
     UCN 233 0 0xe37, UCN 233 103 0xe38, UCN 233 103 0xe39, UCN 233 9 0xe3a, UCN 232 0 0xe3f,
     UCN 237 0 0xe46, UCN 233 0 0xe47, UCN 233 107 0xe48, UCN 233 107 0xe49, UCN 232 107 0xe4a,
     UCN 232 0 0xe4e, UCN 236 0 0xe4f, UCN 239 0 0xe59, UCN 237 0 0xe5b, UCN 232 0 0xe80,
     UCN 237 0 0xe82, UCN 232 0 0xe83, UCN 237 0 0xe84, UCN 232 0 0xe86, UCN 237 0 0xe88,
     UCN 232 0 0xe89, UCN 237 0 0xe8a, UCN 232 0 0xe8c, UCN 237 0 0xe8d, UCN 232 0 0xe93,
     UCN 237 0 0xe97, UCN 232 0 0xe98, UCN 237 0 0xe9f, UCN 232 0 0xea0, UCN 237 0 0xea3,
     UCN 232 0 0xea4, UCN 237 0 0xea5, UCN 232 0 0xea6, UCN 237 0 0xea7, UCN 232 0 0xea9,
     UCN 237 0 0xeab, UCN 232 0 0xeac, UCN 237 0 0xeae, UCN 236 0 0xeaf, UCN 237 0 0xeb0,
     UCN 233 0 0xeb1, UCN 237 0 0xeb2, UCN 109 0 0xeb3, UCN 233 0 0xeb7, UCN 233 118 0xeb8,
     UCN 233 118 0xeb9, UCN 232 0 0xeba, UCN 233 0 0xebc, UCN 237 0 0xebd, UCN 232 0 0xebf,
     UCN 237 0 0xec4, UCN 232 0 0xec5, UCN 237 0 0xec6, UCN 232 0 0xec7, UCN 233 122 0xec8,
     UCN 233 122 0xec9, UCN 233 122 0xeca, UCN 233 0 0xecd, UCN 232 0 0xecf, UCN 235 0 0xed9,
     UCN 232 0 0xedb, UCN 105 0 0xedd, UCN 232 0 0xeff, UCN 233 0 0xf00, UCN 232 0 0xf0b,
     UCN 104 0 0xf0c, UCN 232 0 0xf17, UCN 233 220 0xf18, UCN 233 220 0xf19, UCN 232 0 0xf1f,
     UCN 235 0 0xf33, UCN 232 0 0xf34, UCN 233 220 0xf35, UCN 232 0 0xf36, UCN 233 220 0xf37,
     UCN 232 0 0xf38, UCN 233 216 0xf39, UCN 232 0 0xf3d, UCN 233 0 0xf42, UCN 9 0 0xf43,
     UCN 233 0 0xf47, UCN 232 0 0xf48, UCN 233 0 0xf4c, UCN 9 0 0xf4d, UCN 233 0 0xf51,
     UCN 9 0 0xf52, UCN 233 0 0xf56, UCN 9 0 0xf57, UCN 233 0 0xf5b, UCN 9 0 0xf5c,
     UCN 233 0 0xf68, UCN 9 0 0xf69, UCN 232 0 0xf70, UCN 233 129 0xf71, UCN 233 130 0xf72,
     UCN 9 0 0xf73, UCN 233 132 0xf74, UCN 9 0 0xf76, UCN 105 0 0xf77, UCN 9 0 0xf78,
     UCN 105 0 0xf79, UCN 233 130 0xf7a, UCN 233 130 0xf7b, UCN 233 130 0xf7c, UCN 233 0 0xf7f,
     UCN 233 130 0xf80, UCN 9 0 0xf81, UCN 233 230 0xf82, UCN 233 230 0xf83, UCN 233 9 0xf84,
     UCN 232 0 0xf85, UCN 233 230 0xf86, UCN 233 0 0xf8b, UCN 232 0 0xf8f, UCN 233 0 0xf92,
     UCN 9 0 0xf93, UCN 233 0 0xf95, UCN 232 0 0xf96, UCN 233 0 0xf97, UCN 232 0 0xf98,
     UCN 233 0 0xf9c, UCN 9 0 0xf9d, UCN 233 0 0xfa1, UCN 9 0 0xfa2, UCN 233 0 0xfa6,
     UCN 9 0 0xfa7, UCN 233 0 0xfab, UCN 9 0 0xfac, UCN 233 0 0xfad, UCN 232 0 0xfb0,
     UCN 233 0 0xfb7, UCN 232 0 0xfb8, UCN 9 0 0xfb9, UCN 232 0 0xfc5, UCN 232 0 0x1025]"

definition ucnranges_3 :: "ucnrange list" where
  "ucnranges_3 =
    [UCN 200 0 0x1026, UCN 232 0 0x102d, UCN 488 0 0x102e, UCN 232 0 0x1036, UCN 232 0 0x1038,
     UCN 232 9 0x1039, UCN 232 0 0x108c, UCN 232 0 0x109f, UCN 237 0 0x10c5, UCN 232 0 0x10cf,
     UCN 237 0 0x10f6, UCN 232 0 0x10fb, UCN 104 0 0x10fc, UCN 232 0 0x10ff, UCN 236 0 0x1159,
     UCN 232 0 0x1160, UCN 492 0 0x1175, UCN 236 0 0x11a2, UCN 232 0 0x11a7, UCN 492 0 0x11c2,
     UCN 236 0 0x11f9, UCN 232 0 0x135c, UCN 232 230 0x135d, UCN 232 230 0x135e, UCN 232 0 0x167f,
     UCN 224 0 0x1680, UCN 232 0 0x1713, UCN 232 0 0x1733, UCN 232 0 0x17d1, UCN 232 0 0x17dc,
     UCN 232 0 0x180d, UCN 224 0 0x180e, UCN 232 0 0x18a8, UCN 232 0 0x1938, UCN 232 222 0x1939,
     UCN 232 230 0x193a, UCN 232 0 0x1a16, UCN 232 230 0x1a17, UCN 232 0 0x1a5f, UCN 232 0 0x1a74,
     UCN 232 230 0x1a75, UCN 232 230 0x1a76, UCN 232 230 0x1a77, UCN 232 230 0x1a78, UCN 232 230 0x1a79,
     UCN 232 230 0x1a7a, UCN 232 230 0x1a7b, UCN 232 0 0x1a7e, UCN 232 0 0x1b05, UCN 200 0 0x1b06,
     UCN 232 0 0x1b07, UCN 200 0 0x1b08, UCN 232 0 0x1b09, UCN 200 0 0x1b0a, UCN 232 0 0x1b0b,
     UCN 200 0 0x1b0c, UCN 232 0 0x1b0d, UCN 200 0 0x1b0e, UCN 232 0 0x1b11, UCN 200 0 0x1b12,
     UCN 232 0 0x1b33, UCN 232 7 0x1b34, UCN 488 0 0x1b35, UCN 232 0 0x1b3a, UCN 200 0 0x1b3b,
     UCN 232 0 0x1b3c, UCN 200 0 0x1b3d, UCN 232 0 0x1b3f, UCN 200 0 0x1b41, UCN 232 0 0x1b42,
     UCN 200 0 0x1b43, UCN 232 0 0x1b6a, UCN 232 230 0x1b6b, UCN 232 220 0x1b6c, UCN 232 230 0x1b6d,
     UCN 232 230 0x1b6e, UCN 232 230 0x1b6f, UCN 232 230 0x1b70, UCN 232 230 0x1b71, UCN 232 230 0x1b72,
     UCN 232 0 0x1ba9, UCN 232 9 0x1baa, UCN 232 0 0x1be5, UCN 232 0 0x1bf1, UCN 232 9 0x1bf2,
     UCN 232 0 0x1c36, UCN 232 0 0x1ccf, UCN 232 230 0x1cd0, UCN 232 230 0x1cd1, UCN 232 0 0x1cd3,
     UCN 232 1 0x1cd4, UCN 232 220 0x1cd5, UCN 232 220 0x1cd6, UCN 232 220 0x1cd7, UCN 232 220 0x1cd8,
     UCN 232 220 0x1cd9, UCN 232 230 0x1cda, UCN 232 230 0x1cdb, UCN 232 220 0x1cdc, UCN 232 220 0x1cdd,
     UCN 232 220 0x1cde, UCN 232 220 0x1cdf, UCN 232 0 0x1ce1, UCN 232 1 0x1ce2, UCN 232 1 0x1ce3,
     UCN 232 1 0x1ce4, UCN 232 1 0x1ce5, UCN 232 1 0x1ce6, UCN 232 1 0x1ce7, UCN 232 0 0x1cec,
     UCN 232 0 0x1cf3, UCN 232 0 0x1d2b, UCN 104 0 0x1d2e, UCN 232 0 0x1d2f, UCN 104 0 0x1d3a,
     UCN 232 0 0x1d3b, UCN 104 0 0x1d4d, UCN 232 0 0x1d4e, UCN 104 0 0x1d6a, UCN 232 0 0x1d77,
     UCN 104 0 0x1d78, UCN 232 0 0x1d9a, UCN 104 0 0x1dbf, UCN 248 230 0x1dc0, UCN 248 230 0x1dc1,
     UCN 248 220 0x1dc2, UCN 248 230 0x1dc3, UCN 248 230 0x1dc4, UCN 248 230 0x1dc5, UCN 248 230 0x1dc6,
     UCN 248 230 0x1dc7, UCN 248 230 0x1dc8, UCN 248 230 0x1dc9, UCN 248 220 0x1dca, UCN 248 230 0x1dcb,
     UCN 248 230 0x1dcc, UCN 248 234 0x1dcd, UCN 248 214 0x1dce, UCN 248 220 0x1dcf, UCN 248 202 0x1dd0,
     UCN 248 230 0x1dd1, UCN 248 230 0x1dd2, UCN 248 230 0x1dd3, UCN 248 230 0x1dd4, UCN 248 230 0x1dd5,
     UCN 248 230 0x1dd6, UCN 248 230 0x1dd7, UCN 248 230 0x1dd8, UCN 248 230 0x1dd9, UCN 248 230 0x1dda,
     UCN 248 230 0x1ddb, UCN 248 230 0x1ddc, UCN 248 230 0x1ddd, UCN 248 230 0x1dde, UCN 248 230 0x1ddf,
     UCN 248 230 0x1de0, UCN 248 230 0x1de1, UCN 248 230 0x1de2, UCN 248 230 0x1de3, UCN 248 230 0x1de4,
     UCN 248 230 0x1de5, UCN 248 0 0x1dfb, UCN 248 233 0x1dfc, UCN 248 220 0x1dfd, UCN 248 230 0x1dfe,
     UCN 248 220 0x1dff, UCN 237 0 0x1e07, UCN 205 0 0x1e09, UCN 237 0 0x1e13, UCN 205 0 0x1e17,
     UCN 237 0 0x1e1b, UCN 205 0 0x1e1d, UCN 237 0 0x1e2d, UCN 205 0 0x1e2f, UCN 237 0 0x1e37,
     UCN 205 0 0x1e39, UCN 237 0 0x1e4b, UCN 205 0 0x1e53, UCN 237 0 0x1e5b, UCN 205 0 0x1e5d,
     UCN 237 0 0x1e63, UCN 205 0 0x1e69, UCN 237 0 0x1e77, UCN 205 0 0x1e7b, UCN 237 0 0x1e99,
     UCN 109 0 0x1e9a, UCN 73 0 0x1e9b, UCN 232 0 0x1e9f, UCN 237 0 0x1ea3, UCN 205 0 0x1eb7,
     UCN 237 0 0x1ebd, UCN 205 0 0x1ec7, UCN 237 0 0x1ecf, UCN 205 0 0x1ee3, UCN 237 0 0x1ee7,
     UCN 205 0 0x1ef1, UCN 237 0 0x1ef9, UCN 232 0 0x1eff, UCN 205 0 0x1f15, UCN 232 0 0x1f17,
     UCN 205 0 0x1f1d, UCN 232 0 0x1f1f, UCN 205 0 0x1f45, UCN 232 0 0x1f47, UCN 205 0 0x1f4d,
     UCN 232 0 0x1f4f, UCN 205 0 0x1f57, UCN 232 0 0x1f58, UCN 205 0 0x1f59, UCN 232 0 0x1f5a,
     UCN 205 0 0x1f5b, UCN 232 0 0x1f5c, UCN 205 0 0x1f5d, UCN 232 0 0x1f5e, UCN 205 0 0x1f70,
     UCN 13 0 0x1f71, UCN 205 0 0x1f72, UCN 13 0 0x1f73, UCN 205 0 0x1f74, UCN 13 0 0x1f75,
     UCN 205 0 0x1f76, UCN 13 0 0x1f77, UCN 205 0 0x1f78, UCN 13 0 0x1f79, UCN 205 0 0x1f7a,
     UCN 13 0 0x1f7b, UCN 205 0 0x1f7c, UCN 13 0 0x1f7d, UCN 232 0 0x1f7f, UCN 205 0 0x1fb4,
     UCN 232 0 0x1fb5, UCN 205 0 0x1fba, UCN 13 0 0x1fbb, UCN 205 0 0x1fbc, UCN 104 0 0x1fbd,
     UCN 9 0 0x1fbe, UCN 104 0 0x1fc0, UCN 72 0 0x1fc1, UCN 205 0 0x1fc4, UCN 232 0 0x1fc5,
     UCN 205 0 0x1fc8, UCN 13 0 0x1fc9, UCN 205 0 0x1fca, UCN 13 0 0x1fcb, UCN 205 0 0x1fcc,
     UCN 72 0 0x1fcf, UCN 205 0 0x1fd2, UCN 13 0 0x1fd3, UCN 232 0 0x1fd5, UCN 205 0 0x1fda,
     UCN 13 0 0x1fdb, UCN 232 0 0x1fdc, UCN 72 0 0x1fdf, UCN 205 0 0x1fe2, UCN 13 0 0x1fe3,
     UCN 205 0 0x1fea, UCN 13 0 0x1feb, UCN 205 0 0x1fec, UCN 72 0 0x1fed, UCN 8 0 0x1fee,
     UCN 40 0 0x1fef, UCN 232 0 0x1ff1, UCN 205 0 0x1ff4, UCN 232 0 0x1ff5, UCN 205 0 0x1ff8,
     UCN 13 0 0x1ff9, UCN 205 0 0x1ffa, UCN 13 0 0x1ffb, UCN 205 0 0x1ffc, UCN 8 0 0x1ffd,
     UCN 104 0 0x1ffe, UCN 232 0 0x1fff, UCN 32 0 0x200a, UCN 232 0 0x200d, UCN 224 0 0x2029,
     UCN 232 0 0x202e, UCN 96 0 0x203e, UCN 233 0 0x2040, UCN 224 0 0x2053, UCN 232 0 0x2054,
     UCN 224 0 0x205f, UCN 232 0 0x206f, UCN 104 0 0x2071, UCN 232 0 0x2073, UCN 104 0 0x207e,
     UCN 105 0 0x207f, UCN 104 0 0x208e, UCN 232 0 0x208f, UCN 104 0 0x209c, UCN 232 0 0x20a7,
     UCN 104 0 0x20a8, UCN 232 0 0x20cf, UCN 248 230 0x20d0, UCN 248 230 0x20d1, UCN 248 1 0x20d2,
     UCN 248 1 0x20d3, UCN 248 230 0x20d4, UCN 248 230 0x20d5, UCN 248 230 0x20d6, UCN 248 230 0x20d7,
     UCN 248 1 0x20d8, UCN 248 1 0x20d9, UCN 248 1 0x20da, UCN 248 230 0x20db, UCN 248 0 0x20e0,
     UCN 248 0 0x20e4, UCN 248 1 0x20e5, UCN 248 1 0x20e6, UCN 248 230 0x20e7, UCN 248 220 0x20e8]"

definition ucnranges_4 :: "ucnrange list" where
  "ucnranges_4 =
    [UCN 248 230 0x20e9, UCN 248 1 0x20ea, UCN 248 1 0x20eb, UCN 248 220 0x20ec, UCN 248 220 0x20ed,
     UCN 248 220 0x20ee, UCN 248 220 0x20ef, UCN 248 0 0x20ff, UCN 104 0 0x2101, UCN 105 0 0x2102,
     UCN 104 0 0x2103, UCN 232 0 0x2104, UCN 104 0 0x2106, UCN 105 0 0x2107, UCN 232 0 0x2108,
     UCN 104 0 0x2109, UCN 105 0 0x2113, UCN 232 0 0x2114, UCN 105 0 0x2115, UCN 104 0 0x2116,
     UCN 232 0 0x2117, UCN 233 0 0x2118, UCN 105 0 0x211d, UCN 232 0 0x211f, UCN 104 0 0x2122,
     UCN 232 0 0x2123, UCN 105 0 0x2124, UCN 232 0 0x2125, UCN 9 0 0x2126, UCN 232 0 0x2127,
     UCN 105 0 0x2128, UCN 232 0 0x2129, UCN 41 0 0x212a, UCN 9 0 0x212b, UCN 105 0 0x212d,
     UCN 233 0 0x212e, UCN 105 0 0x2131, UCN 232 0 0x2132, UCN 105 0 0x2138, UCN 104 0 0x2139,
     UCN 232 0 0x213a, UCN 104 0 0x2140, UCN 232 0 0x2144, UCN 104 0 0x2149, UCN 232 0 0x214f,
     UCN 104 0 0x215f, UCN 105 0 0x217f, UCN 233 0 0x2182, UCN 232 0 0x2188, UCN 104 0 0x2189,
     UCN 232 0 0x218f, UCN 224 0 0x245f, UCN 104 0 0x24ea, UCN 232 0 0x24ff, UCN 224 0 0x2775,
     UCN 232 0 0x2793, UCN 224 0 0x2bff, UCN 232 0 0x2c7b, UCN 104 0 0x2c7d, UCN 232 0 0x2cee,
     UCN 232 230 0x2cef, UCN 232 230 0x2cf0, UCN 232 0 0x2d6e, UCN 104 0 0x2d6f, UCN 232 0 0x2d7e,
     UCN 232 0 0x2ddf, UCN 232 230 0x2de0, UCN 232 230 0x2de1, UCN 232 230 0x2de2, UCN 232 230 0x2de3,
     UCN 232 230 0x2de4, UCN 232 230 0x2de5, UCN 232 230 0x2de6, UCN 232 230 0x2de7, UCN 232 230 0x2de8,
     UCN 232 230 0x2de9, UCN 232 230 0x2dea, UCN 232 230 0x2deb, UCN 232 230 0x2dec, UCN 232 230 0x2ded,
     UCN 232 230 0x2dee, UCN 232 230 0x2def, UCN 232 230 0x2df0, UCN 232 230 0x2df1, UCN 232 230 0x2df2,
     UCN 232 230 0x2df3, UCN 232 230 0x2df4, UCN 232 230 0x2df5, UCN 232 230 0x2df6, UCN 232 230 0x2df7,
     UCN 232 230 0x2df8, UCN 232 230 0x2df9, UCN 232 230 0x2dfa, UCN 232 230 0x2dfb, UCN 232 230 0x2dfc,
     UCN 232 230 0x2dfd, UCN 232 230 0x2dfe, UCN 232 230 0x2dff, UCN 224 0 0x2e7f, UCN 232 0 0x2e9e,
     UCN 104 0 0x2e9f, UCN 232 0 0x2ef2, UCN 104 0 0x2ef3, UCN 232 0 0x2eff, UCN 104 0 0x2fd5,
     UCN 232 0 0x2fff, UCN 96 0 0x3003, UCN 232 0 0x3004, UCN 233 0 0x3007, UCN 224 0 0x3020,
     UCN 233 0 0x3029, UCN 232 218 0x302a, UCN 232 228 0x302b, UCN 232 232 0x302c, UCN 232 222 0x302d,
     UCN 232 224 0x302e, UCN 232 224 0x302f, UCN 224 0 0x3030, UCN 232 0 0x3035, UCN 104 0 0x3036,
     UCN 232 0 0x3037, UCN 104 0 0x303a, UCN 232 0 0x3040, UCN 237 0 0x304b, UCN 205 0 0x304c,
     UCN 237 0 0x304d, UCN 205 0 0x304e, UCN 237 0 0x304f, UCN 205 0 0x3050, UCN 237 0 0x3051,
     UCN 205 0 0x3052, UCN 237 0 0x3053, UCN 205 0 0x3054, UCN 237 0 0x3055, UCN 205 0 0x3056,
     UCN 237 0 0x3057, UCN 205 0 0x3058, UCN 237 0 0x3059, UCN 205 0 0x305a, UCN 237 0 0x305b,
     UCN 205 0 0x305c, UCN 237 0 0x305d, UCN 205 0 0x305e, UCN 237 0 0x305f, UCN 205 0 0x3060,
     UCN 237 0 0x3061, UCN 205 0 0x3062, UCN 237 0 0x3064, UCN 205 0 0x3065, UCN 237 0 0x3066,
     UCN 205 0 0x3067, UCN 237 0 0x3068, UCN 205 0 0x3069, UCN 237 0 0x306f, UCN 205 0 0x3071,
     UCN 237 0 0x3072, UCN 205 0 0x3074, UCN 237 0 0x3075, UCN 205 0 0x3077, UCN 237 0 0x3078,
     UCN 205 0 0x307a, UCN 237 0 0x307b, UCN 205 0 0x307d, UCN 237 0 0x3093, UCN 204 0 0x3094,
     UCN 232 0 0x3098, UCN 488 8 0x3099, UCN 488 8 0x309a, UCN 109 0 0x309c, UCN 236 0 0x309d,
     UCN 204 0 0x309e, UCN 104 0 0x309f, UCN 232 0 0x30a0, UCN 237 0 0x30ab, UCN 205 0 0x30ac,
     UCN 237 0 0x30ad, UCN 205 0 0x30ae, UCN 237 0 0x30af, UCN 205 0 0x30b0, UCN 237 0 0x30b1,
     UCN 205 0 0x30b2, UCN 237 0 0x30b3, UCN 205 0 0x30b4, UCN 237 0 0x30b5, UCN 205 0 0x30b6,
     UCN 237 0 0x30b7, UCN 205 0 0x30b8, UCN 237 0 0x30b9, UCN 205 0 0x30ba, UCN 237 0 0x30bb,
     UCN 205 0 0x30bc, UCN 237 0 0x30bd, UCN 205 0 0x30be, UCN 237 0 0x30bf, UCN 205 0 0x30c0,
     UCN 237 0 0x30c1, UCN 205 0 0x30c2, UCN 237 0 0x30c4, UCN 205 0 0x30c5, UCN 237 0 0x30c6,
     UCN 205 0 0x30c7, UCN 237 0 0x30c8, UCN 205 0 0x30c9, UCN 237 0 0x30cf, UCN 205 0 0x30d1,
     UCN 237 0 0x30d2, UCN 205 0 0x30d4, UCN 237 0 0x30d5, UCN 205 0 0x30d7, UCN 237 0 0x30d8,
     UCN 205 0 0x30da, UCN 237 0 0x30db, UCN 205 0 0x30dd, UCN 237 0 0x30f3, UCN 205 0 0x30f4,
     UCN 237 0 0x30f6, UCN 204 0 0x30fa, UCN 237 0 0x30fc, UCN 236 0 0x30fd, UCN 204 0 0x30fe,
     UCN 104 0 0x30ff, UCN 232 0 0x3104, UCN 237 0 0x312c, UCN 232 0 0x3130, UCN 104 0 0x318e,
     UCN 232 0 0x3191, UCN 104 0 0x319f, UCN 232 0 0x31ff, UCN 104 0 0x321e, UCN 232 0 0x321f,
     UCN 104 0 0x3247, UCN 232 0 0x324f, UCN 104 0 0x327e, UCN 232 0 0x327f, UCN 104 0 0x32fe,
     UCN 232 0 0x32ff, UCN 104 0 0x33ff, UCN 232 0 0x4dff, UCN 237 0 0x9fa5, UCN 232 0 0xa66e,
     UCN 232 0 0xa673, UCN 232 230 0xa674, UCN 232 230 0xa675, UCN 232 230 0xa676, UCN 232 230 0xa677,
     UCN 232 230 0xa678, UCN 232 230 0xa679, UCN 232 230 0xa67a, UCN 232 230 0xa67b, UCN 232 230 0xa67c,
     UCN 232 0 0xa69e, UCN 232 0 0xa6ef, UCN 232 230 0xa6f0, UCN 232 0 0xa76f, UCN 104 0 0xa770,
     UCN 232 0 0xa7f7, UCN 104 0 0xa7f9, UCN 232 0 0xa805, UCN 232 0 0xa8c3, UCN 232 0 0xa8df,
     UCN 232 230 0xa8e0, UCN 232 230 0xa8e1, UCN 232 230 0xa8e2, UCN 232 230 0xa8e3, UCN 232 230 0xa8e4,
     UCN 232 230 0xa8e5, UCN 232 230 0xa8e6, UCN 232 230 0xa8e7, UCN 232 230 0xa8e8, UCN 232 230 0xa8e9,
     UCN 232 230 0xa8ea, UCN 232 230 0xa8eb, UCN 232 230 0xa8ec, UCN 232 230 0xa8ed, UCN 232 230 0xa8ee,
     UCN 232 230 0xa8ef, UCN 232 230 0xa8f0, UCN 232 0 0xa92a, UCN 232 220 0xa92b, UCN 232 220 0xa92c,
     UCN 232 0 0xa952, UCN 232 0 0xa9b2, UCN 232 0 0xa9bf, UCN 232 0 0xaaaf, UCN 232 0 0xaab1,
     UCN 232 230 0xaab2, UCN 232 230 0xaab3, UCN 232 0 0xaab6, UCN 232 230 0xaab7, UCN 232 0 0xaabd,
     UCN 232 230 0xaabe, UCN 232 0 0xaac0, UCN 232 0 0xaaf5, UCN 232 0 0xabec, UCN 232 0 0xabff,
     UCN 233 0 0xd7a3, UCN 232 0 0xd7ff, UCN 224 0 0xf8ff, UCN 12 0 0xfa0d, UCN 236 0 0xfa0f,
     UCN 12 0 0xfa10, UCN 236 0 0xfa11, UCN 12 0 0xfa12, UCN 236 0 0xfa14, UCN 12 0 0xfa1e,
     UCN 236 0 0xfa1f, UCN 12 0 0xfa20, UCN 236 0 0xfa21, UCN 12 0 0xfa22, UCN 236 0 0xfa24]"

definition ucnranges_5 :: "ucnrange list" where
  "ucnranges_5 =
    [UCN 12 0 0xfa26, UCN 236 0 0xfa29, UCN 12 0 0xfa2d, UCN 8 0 0xfa6d, UCN 232 0 0xfa6f,
     UCN 8 0 0xfad9, UCN 232 0 0xfaff, UCN 104 0 0xfb06, UCN 232 0 0xfb12, UCN 104 0 0xfb17,
     UCN 232 0 0xfb1c, UCN 8 0 0xfb1d, UCN 232 26 0xfb1e, UCN 12 0 0xfb1f, UCN 108 0 0xfb29,
     UCN 12 0 0xfb36, UCN 232 0 0xfb37, UCN 12 0 0xfb3c, UCN 232 0 0xfb3d, UCN 12 0 0xfb3e,
     UCN 232 0 0xfb3f, UCN 12 0 0xfb41, UCN 236 0 0xfb42, UCN 12 0 0xfb44, UCN 232 0 0xfb45,
     UCN 12 0 0xfb4e, UCN 108 0 0xfbb1, UCN 232 0 0xfbd2, UCN 108 0 0xfd3d, UCN 228 0 0xfd3f,
     UCN 232 0 0xfd4f, UCN 108 0 0xfd8f, UCN 232 0 0xfd91, UCN 108 0 0xfdc7, UCN 232 0 0xfdcf,
     UCN 224 0 0xfdef, UCN 108 0 0xfdfb, UCN 104 0 0xfdfc, UCN 232 0 0xfe0f, UCN 104 0 0xfe19,
     UCN 232 0 0xfe1f, UCN 248 230 0xfe20, UCN 248 230 0xfe21, UCN 248 230 0xfe22, UCN 248 230 0xfe23,
     UCN 248 230 0xfe24, UCN 248 230 0xfe25, UCN 248 0 0xfe2f, UCN 104 0 0xfe44, UCN 224 0 0xfe46,
     UCN 104 0 0xfe52, UCN 232 0 0xfe53, UCN 104 0 0xfe66, UCN 232 0 0xfe67, UCN 104 0 0xfe6b,
     UCN 232 0 0xfe6f, UCN 108 0 0xfe72, UCN 232 0 0xfe73, UCN 108 0 0xfe74, UCN 232 0 0xfe75,
     UCN 108 0 0xfefc, UCN 232 0 0xff00, UCN 104 0 0xff20, UCN 108 0 0xff3a, UCN 104 0 0xff40,
     UCN 108 0 0xff5a, UCN 104 0 0xff65, UCN 108 0 0xffbe, UCN 232 0 0xffc1, UCN 108 0 0xffc7,
     UCN 232 0 0xffc9, UCN 108 0 0xffcf, UCN 232 0 0xffd1, UCN 108 0 0xffd7, UCN 232 0 0xffd9,
     UCN 108 0 0xffdc, UCN 232 0 0xffdf, UCN 104 0 0xffe6, UCN 232 0 0xffe7, UCN 104 0 0xffee,
     UCN 232 0 0xfffd, UCN 224 0 0xffff, UCN 232 0 0x101fc, UCN 232 0 0x10a0c, UCN 232 0 0x10a0e,
     UCN 232 0 0x10a37, UCN 232 230 0x10a38, UCN 232 1 0x10a39, UCN 232 0 0x10a3e, UCN 232 0 0x11045,
     UCN 232 0 0x11099, UCN 200 0 0x1109a, UCN 232 0 0x1109b, UCN 200 0 0x1109c, UCN 232 0 0x110aa,
     UCN 200 0 0x110ab, UCN 232 0 0x110b8, UCN 232 9 0x110b9, UCN 488 7 0x110ba, UCN 232 0 0x110ff,
     UCN 232 230 0x11100, UCN 232 230 0x11101, UCN 232 0 0x11126, UCN 488 0 0x11127, UCN 232 0 0x1112d,
     UCN 200 0 0x1112f, UCN 232 0 0x11132, UCN 232 9 0x11133, UCN 232 0 0x111bf, UCN 232 0 0x116b5,
     UCN 232 9 0x116b6, UCN 232 0 0x1d15d, UCN 8 0 0x1d164, UCN 232 216 0x1d165, UCN 232 216 0x1d166,
     UCN 232 1 0x1d167, UCN 232 1 0x1d168, UCN 232 0 0x1d16c, UCN 232 226 0x1d16d, UCN 232 216 0x1d16e,
     UCN 232 216 0x1d16f, UCN 232 216 0x1d170, UCN 232 216 0x1d171, UCN 232 0 0x1d17a, UCN 232 220 0x1d17b,
     UCN 232 220 0x1d17c, UCN 232 220 0x1d17d, UCN 232 220 0x1d17e, UCN 232 220 0x1d17f, UCN 232 220 0x1d180,
     UCN 232 220 0x1d181, UCN 232 0 0x1d184, UCN 232 230 0x1d185, UCN 232 230 0x1d186, UCN 232 230 0x1d187,
     UCN 232 230 0x1d188, UCN 232 230 0x1d189, UCN 232 220 0x1d18a, UCN 232 0 0x1d1a9, UCN 232 230 0x1d1aa,
     UCN 232 230 0x1d1ab, UCN 232 230 0x1d1ac, UCN 232 0 0x1d1ba, UCN 8 0 0x1d1c0, UCN 232 0 0x1d241,
     UCN 232 230 0x1d242, UCN 232 230 0x1d243, UCN 232 0 0x1d3ff, UCN 104 0 0x1d454, UCN 232 0 0x1d455,
     UCN 104 0 0x1d49c, UCN 232 0 0x1d49d, UCN 104 0 0x1d49f, UCN 232 0 0x1d4a1, UCN 104 0 0x1d4a2,
     UCN 232 0 0x1d4a4, UCN 104 0 0x1d4a6, UCN 232 0 0x1d4a8, UCN 104 0 0x1d4ac, UCN 232 0 0x1d4ad,
     UCN 104 0 0x1d4b9, UCN 232 0 0x1d4ba, UCN 104 0 0x1d4bb, UCN 232 0 0x1d4bc, UCN 104 0 0x1d4c3,
     UCN 232 0 0x1d4c4, UCN 104 0 0x1d505, UCN 232 0 0x1d506, UCN 104 0 0x1d50a, UCN 232 0 0x1d50c,
     UCN 104 0 0x1d514, UCN 232 0 0x1d515, UCN 104 0 0x1d51c, UCN 232 0 0x1d51d, UCN 104 0 0x1d539,
     UCN 232 0 0x1d53a, UCN 104 0 0x1d53e, UCN 232 0 0x1d53f, UCN 104 0 0x1d544, UCN 232 0 0x1d545,
     UCN 104 0 0x1d546, UCN 232 0 0x1d549, UCN 104 0 0x1d550, UCN 232 0 0x1d551, UCN 104 0 0x1d6a5,
     UCN 232 0 0x1d6a7, UCN 104 0 0x1d7cb, UCN 232 0 0x1d7cd, UCN 104 0 0x1d7ff, UCN 232 0 0x1edff,
     UCN 104 0 0x1ee03, UCN 232 0 0x1ee04, UCN 104 0 0x1ee1f, UCN 232 0 0x1ee20, UCN 104 0 0x1ee22,
     UCN 232 0 0x1ee23, UCN 104 0 0x1ee24, UCN 232 0 0x1ee26, UCN 104 0 0x1ee27, UCN 232 0 0x1ee28,
     UCN 104 0 0x1ee32, UCN 232 0 0x1ee33, UCN 104 0 0x1ee37, UCN 232 0 0x1ee38, UCN 104 0 0x1ee39,
     UCN 232 0 0x1ee3a, UCN 104 0 0x1ee3b, UCN 232 0 0x1ee41, UCN 104 0 0x1ee42, UCN 232 0 0x1ee46,
     UCN 104 0 0x1ee47, UCN 232 0 0x1ee48, UCN 104 0 0x1ee49, UCN 232 0 0x1ee4a, UCN 104 0 0x1ee4b,
     UCN 232 0 0x1ee4c, UCN 104 0 0x1ee4f, UCN 232 0 0x1ee50, UCN 104 0 0x1ee52, UCN 232 0 0x1ee53,
     UCN 104 0 0x1ee54, UCN 232 0 0x1ee56, UCN 104 0 0x1ee57, UCN 232 0 0x1ee58, UCN 104 0 0x1ee59,
     UCN 232 0 0x1ee5a, UCN 104 0 0x1ee5b, UCN 232 0 0x1ee5c, UCN 104 0 0x1ee5d, UCN 232 0 0x1ee5e,
     UCN 104 0 0x1ee5f, UCN 232 0 0x1ee60, UCN 104 0 0x1ee62, UCN 232 0 0x1ee63, UCN 104 0 0x1ee64,
     UCN 232 0 0x1ee66, UCN 104 0 0x1ee6a, UCN 232 0 0x1ee6b, UCN 104 0 0x1ee72, UCN 232 0 0x1ee73,
     UCN 104 0 0x1ee77, UCN 232 0 0x1ee78, UCN 104 0 0x1ee7c, UCN 232 0 0x1ee7d, UCN 104 0 0x1ee7e,
     UCN 232 0 0x1ee7f, UCN 104 0 0x1ee89, UCN 232 0 0x1ee8a, UCN 104 0 0x1ee9b, UCN 232 0 0x1eea0,
     UCN 104 0 0x1eea3, UCN 232 0 0x1eea4, UCN 104 0 0x1eea9, UCN 232 0 0x1eeaa, UCN 104 0 0x1eebb,
     UCN 232 0 0x1f0ff, UCN 104 0 0x1f10a, UCN 232 0 0x1f10f, UCN 104 0 0x1f12e, UCN 232 0 0x1f12f,
     UCN 104 0 0x1f14f, UCN 232 0 0x1f169, UCN 104 0 0x1f16b, UCN 232 0 0x1f18f, UCN 104 0 0x1f190,
     UCN 232 0 0x1f1ff, UCN 104 0 0x1f202, UCN 232 0 0x1f20f, UCN 104 0 0x1f23a, UCN 232 0 0x1f23f,
     UCN 104 0 0x1f248, UCN 232 0 0x1f24f, UCN 104 0 0x1f251, UCN 232 0 0x1fffd, UCN 224 0 0x1ffff,
     UCN 232 0 0x2f7ff, UCN 8 0 0x2fa1d, UCN 232 0 0x2fffd, UCN 224 0 0x2ffff, UCN 232 0 0x3fffd,
     UCN 224 0 0x3ffff, UCN 232 0 0x4fffd, UCN 224 0 0x4ffff, UCN 232 0 0x5fffd, UCN 224 0 0x5ffff,
     UCN 232 0 0x6fffd, UCN 224 0 0x6ffff, UCN 232 0 0x7fffd, UCN 224 0 0x7ffff, UCN 232 0 0x8fffd,
     UCN 224 0 0x8ffff, UCN 232 0 0x9fffd, UCN 224 0 0x9ffff, UCN 232 0 0xafffd, UCN 224 0 0xaffff,
     UCN 232 0 0xbfffd, UCN 224 0 0xbffff, UCN 232 0 0xcfffd, UCN 224 0 0xcffff, UCN 232 0 0xdfffd,
     UCN 224 0 0xdffff, UCN 232 0 0xefffd, UCN 224 0 0x10ffff]"

definition ucnranges :: "ucnrange list" where
  "ucnranges = ucnranges_0 @ ucnranges_1 @ ucnranges_2 @ ucnranges_3 @ ucnranges_4 @ ucnranges_5"

definition nfc_cases :: "(cppchar_t \<times> cppchar_t list) list" where
  "nfc_cases =
    [(0x300, [0x41, 0x45, 0x49, 0x4f, 0x55, 0x61, 0x65, 0x69, 0x6f, 0x75, 0xdc, 0xfc, 0x4e, 0x6e,
        0x415, 0x418, 0x435, 0x438, 0x112, 0x113, 0x14c, 0x14d, 0x57, 0x77, 0xc2, 0xe2, 0x102, 0x103,
        0xca, 0xea, 0xd4, 0xf4, 0x1a0, 0x1a1, 0x1af, 0x1b0, 0x59, 0x79, 0x1f00, 0x1f80, 0x1f01, 0x1f81,
        0x1f08, 0x1f88, 0x1f09, 0x1f89, 0x1f10, 0x1f11, 0x1f18, 0x1f19, 0x1f20, 0x1f90, 0x1f21, 0x1f91, 0x1f28, 0x1f98,
        0x1f29, 0x1f99, 0x1f30, 0x1f31, 0x1f38, 0x1f39, 0x1f40, 0x1f41, 0x1f48, 0x1f49, 0x1f50, 0x1f51, 0x1f59, 0x1f60,
        0x1fa0, 0x1f61, 0x1fa1, 0x1f68, 0x1fa8, 0x1f69, 0x1fa9, 0x3b1, 0x1fb3, 0x3b5, 0x3b7, 0x1fc3, 0x3b9, 0x3bf,
        0x3c5, 0x3c9, 0x1ff3, 0x391, 0x1fbc, 0x395, 0x397, 0x1fcc, 0x1fbf, 0x3ca, 0x399, 0x1ffe, 0x3cb, 0x3a5,
        0xa8, 0x39f, 0x3a9, 0x1ffc]),
     (0x301, [0x41, 0x45, 0x49, 0x4f, 0x55, 0x59, 0x61, 0x65, 0x69, 0x6f, 0x75, 0x79, 0x43, 0x63,
        0x4c, 0x6c, 0x4e, 0x6e, 0x52, 0x72, 0x53, 0x73, 0x5a, 0x7a, 0xdc, 0xfc, 0x47, 0x67,
        0xc5, 0xe5, 0xc6, 0xe6, 0xd8, 0xf8, 0xa8, 0x391, 0x1fbc, 0x395, 0x397, 0x1fcc, 0x399, 0x39f,
        0x3a5, 0x3a9, 0x1ffc, 0x3ca, 0x3b1, 0x1fb3, 0x3b5, 0x3b7, 0x1fc3, 0x3b9, 0x3cb, 0x3bf, 0x3c5, 0x3c9,
        0x1ff3, 0x3d2, 0x413, 0x41a, 0x433, 0x43a, 0xc7, 0xe7, 0x112, 0x113, 0xcf, 0xef, 0x4b, 0x6b,
        0x4d, 0x6d, 0xd5, 0xf5, 0x14c, 0x14d, 0x50, 0x70, 0x168, 0x169, 0x57, 0x77, 0xc2, 0xe2,
        0x102, 0x103, 0xca, 0xea, 0xd4, 0xf4, 0x1a0, 0x1a1, 0x1af, 0x1b0, 0x1f00, 0x1f80, 0x1f01, 0x1f81,
        0x1f08, 0x1f88, 0x1f09, 0x1f89, 0x1f10, 0x1f11, 0x1f18, 0x1f19, 0x1f20, 0x1f90, 0x1f21, 0x1f91, 0x1f28, 0x1f98,
        0x1f29, 0x1f99, 0x1f30, 0x1f31, 0x1f38, 0x1f39, 0x1f40, 0x1f41, 0x1f48, 0x1f49, 0x1f50, 0x1f51, 0x1f59, 0x1f60,
        0x1fa0, 0x1f61, 0x1fa1, 0x1f68, 0x1fa8, 0x1f69, 0x1fa9, 0x1fbf, 0x1ffe]),
     (0x302, [0x41, 0x45, 0x49, 0x4f, 0x55, 0x61, 0x65, 0x69, 0x6f, 0x75, 0x43, 0x63, 0x47, 0x67,
        0x48, 0x68, 0x4a, 0x6a, 0x53, 0x73, 0x57, 0x77, 0x59, 0x79, 0x5a, 0x7a, 0x1ea0, 0x1ea1,
        0x1eb8, 0x1eb9, 0x1ecc, 0x1ecd]),
     (0x303, [0x41, 0x4e, 0x4f, 0x61, 0x6e, 0x6f, 0x49, 0x69, 0x55, 0x75, 0x56, 0x76, 0xc2, 0xe2,
        0x102, 0x103, 0x45, 0x65, 0xca, 0xea, 0xd4, 0xf4, 0x1a0, 0x1a1, 0x1af, 0x1b0, 0x59, 0x79]),
     (0x304, [0x41, 0x61, 0x45, 0x65, 0x49, 0x69, 0x4f, 0x6f, 0x55, 0x75, 0xdc, 0xfc, 0xc4, 0xe4,
        0x226, 0x227, 0xc6, 0xe6, 0x1ea, 0x1eb, 0xd6, 0xf6, 0xd5, 0xf5, 0x22e, 0x22f, 0x59, 0x79,
        0x418, 0x438, 0x423, 0x443, 0x47, 0x67, 0x1e36, 0x1e37, 0x1e5a, 0x1e5b, 0x3b1, 0x1fb3, 0x391, 0x1fbc,
        0x3b9, 0x399, 0x3c5, 0x3a5]),
     (0x306, [0x41, 0x61, 0x45, 0x65, 0x47, 0x67, 0x49, 0x69, 0x4f, 0x6f, 0x55, 0x75, 0x423, 0x418,
        0x438, 0x443, 0x416, 0x436, 0x410, 0x430, 0x415, 0x435, 0x228, 0x229, 0x1ea0, 0x1ea1, 0x3b1, 0x1fb3,
        0x391, 0x1fbc, 0x3b9, 0x399, 0x3c5, 0x3a5]),
     (0x307, [0x43, 0x63, 0x45, 0x65, 0x47, 0x67, 0x49, 0x5a, 0x7a, 0x41, 0x61, 0x4f, 0x6f, 0x42,
        0x62, 0x44, 0x64, 0x46, 0x66, 0x48, 0x68, 0x4d, 0x6d, 0x4e, 0x6e, 0x50, 0x70, 0x52,
        0x72, 0x53, 0x73, 0x15a, 0x15b, 0x160, 0x161, 0x1e62, 0x1e63, 0x54, 0x74, 0x57, 0x77, 0x58,
        0x78, 0x59, 0x79, 0x17f]),
     (0x308, [0x41, 0x45, 0x49, 0x4f, 0x55, 0x61, 0x65, 0x69, 0x6f, 0x75, 0x79, 0x59, 0x399, 0x3a5,
        0x3b9, 0x3c5, 0x3d2, 0x415, 0x406, 0x435, 0x456, 0x410, 0x430, 0x4d8, 0x4d9, 0x416, 0x436, 0x417,
        0x437, 0x418, 0x438, 0x41e, 0x43e, 0x4e8, 0x4e9, 0x42d, 0x44d, 0x423, 0x443, 0x427, 0x447, 0x42b,
        0x44b, 0x48, 0x68, 0xd5, 0xf5, 0x16a, 0x16b, 0x57, 0x77, 0x58, 0x78, 0x74]),
     (0x309, [0x41, 0x61, 0xc2, 0xe2, 0x102, 0x103, 0x45, 0x65, 0xca, 0xea, 0x49, 0x69, 0x4f, 0x6f,
        0xd4, 0xf4, 0x1a0, 0x1a1, 0x55, 0x75, 0x1af, 0x1b0, 0x59, 0x79]),
     (0x30a, [0x41, 0x61, 0x55, 0x75, 0x77, 0x79]),
     (0x30b, [0x4f, 0x6f, 0x55, 0x75, 0x423, 0x443]),
     (0x30c, [0x43, 0x63, 0x44, 0x64, 0x45, 0x65, 0x4c, 0x6c, 0x4e, 0x6e, 0x52, 0x72, 0x53, 0x73,
        0x54, 0x74, 0x5a, 0x7a, 0x41, 0x61, 0x49, 0x69, 0x4f, 0x6f, 0x55, 0x75, 0xdc, 0xfc,
        0x47, 0x67, 0x4b, 0x6b, 0x1b7, 0x292, 0x6a, 0x48, 0x68]),
     (0x30f, [0x41, 0x61, 0x45, 0x65, 0x49, 0x69, 0x4f, 0x6f, 0x52, 0x72, 0x55, 0x75, 0x474, 0x475]),
     (0x311, [0x41, 0x61, 0x45, 0x65, 0x49, 0x69, 0x4f, 0x6f, 0x52, 0x72, 0x55, 0x75]),
     (0x313, [0x3b1, 0x1fb3, 0x391, 0x1fbc, 0x3b5, 0x395, 0x3b7, 0x1fc3, 0x397, 0x1fcc, 0x3b9, 0x399, 0x3bf, 0x39f,
        0x3c5, 0x3c9, 0x1ff3, 0x3a9, 0x1ffc, 0x3c1]),
     (0x314, [0x3b1, 0x1fb3, 0x391, 0x1fbc, 0x3b5, 0x395, 0x3b7, 0x1fc3, 0x397, 0x1fcc, 0x3b9, 0x399, 0x3bf, 0x39f,
        0x3c5, 0x3a5, 0x3c9, 0x1ff3, 0x3a9, 0x1ffc, 0x3c1, 0x3a1]),
     (0x31b, [0x4f, 0xd2, 0xd3, 0xd4, 0xd5, 0xd6, 0x14c, 0x14e, 0x150, 0x1d1, 0x20c, 0x20e, 0x22a, 0x22c,
        0x22e, 0x230, 0x1e4c, 0x1e4e, 0x1e50, 0x1e52, 0x1ecc, 0x1ece, 0x1ed0, 0x1ed2, 0x1ed4, 0x1ed6, 0x1ed8, 0x6f,
        0xf2, 0xf3, 0xf4, 0xf5, 0xf6, 0x14d, 0x14f, 0x151, 0x1d2, 0x20d, 0x20f, 0x22b, 0x22d, 0x22f,
        0x231, 0x1e4d, 0x1e4f, 0x1e51, 0x1e53, 0x1ecd, 0x1ecf, 0x1ed1, 0x1ed3, 0x1ed5, 0x1ed7, 0x1ed9, 0x55, 0xd9,
        0xda, 0xdb, 0xdc, 0x168, 0x16a, 0x16c, 0x16e, 0x170, 0x1d3, 0x1d5, 0x1d7, 0x1d9, 0x1db, 0x214,
        0x216, 0x1e72, 0x1e74, 0x1e76, 0x1e78, 0x1e7a, 0x1ee4, 0x1ee6, 0x75, 0xf9, 0xfa, 0xfb, 0xfc, 0x169,
        0x16b, 0x16d, 0x16f, 0x171, 0x1d4, 0x1d6, 0x1d8, 0x1da, 0x1dc, 0x215, 0x217, 0x1e73, 0x1e75, 0x1e77,
        0x1e79, 0x1e7b, 0x1ee5, 0x1ee7]),
     (0x323, [0x42, 0x1e02, 0x62, 0x1e03, 0x44, 0x10e, 0x1e0a, 0x64, 0x10f, 0x1e0b, 0x48, 0x124, 0x21e, 0x1e22,
        0x1e26, 0x68, 0x125, 0x21f, 0x1e23, 0x1e27, 0x4b, 0x1e8, 0x1e30, 0x6b, 0x1e9, 0x1e31, 0x4c, 0x139,
        0x13d, 0x6c, 0x13a, 0x13e, 0x4d, 0x1e3e, 0x1e40, 0x6d, 0x1e3f, 0x1e41, 0x4e, 0xd1, 0x143, 0x147,
        0x1f8, 0x1e44, 0x6e, 0xf1, 0x144, 0x148, 0x1f9, 0x1e45, 0x52, 0x154, 0x158, 0x210, 0x212, 0x1e58,
        0x72, 0x155, 0x159, 0x211, 0x213, 0x1e59, 0x53, 0x15a, 0x15c, 0x160, 0x1e60, 0x1e64, 0x1e66, 0x73,
        0x15b, 0x15d, 0x161, 0x1e61, 0x1e65, 0x1e67, 0x54, 0x164, 0x1e6a, 0x74, 0x165, 0x1e6b, 0x1e97, 0x56,
        0x1e7c, 0x76, 0x1e7d, 0x57, 0x174, 0x1e80, 0x1e82, 0x1e84, 0x1e86, 0x77, 0x175, 0x1e81, 0x1e83, 0x1e85,
        0x1e87, 0x1e98, 0x5a, 0x179, 0x17b, 0x17d, 0x1e90, 0x7a, 0x17a, 0x17c, 0x17e, 0x1e91, 0x41, 0xc0,
        0xc1, 0xc2, 0xc3, 0xc4, 0xc5, 0x100, 0x102, 0x1cd, 0x1de, 0x1e0, 0x1fa, 0x200, 0x202, 0x226,
        0x1ea2, 0x1ea4, 0x1ea6, 0x1ea8, 0x1eaa, 0x1eae, 0x1eb0, 0x1eb2, 0x1eb4, 0x61, 0xe0, 0xe1, 0xe2, 0xe3,
        0xe4, 0xe5, 0x101, 0x103, 0x1ce, 0x1df, 0x1e1, 0x1fb, 0x201, 0x203, 0x227, 0x1ea3, 0x1ea5, 0x1ea7,
        0x1ea9, 0x1eab, 0x1eaf, 0x1eb1, 0x1eb3, 0x1eb5, 0x45, 0xc8, 0xc9, 0xca, 0xcb, 0x112, 0x114, 0x116,
        0x11a, 0x204, 0x206, 0x1e14, 0x1e16, 0x1eba, 0x1ebc, 0x1ebe, 0x1ec0, 0x1ec2, 0x1ec4, 0x65, 0xe8, 0xe9,
        0xea, 0xeb, 0x113, 0x115, 0x117, 0x11b, 0x205, 0x207, 0x1e15, 0x1e17, 0x1ebb, 0x1ebd, 0x1ebf, 0x1ec1,
        0x1ec3, 0x1ec5, 0x49, 0xcc, 0xcd, 0xce, 0xcf, 0x128, 0x12a, 0x12c, 0x130, 0x1cf, 0x208, 0x20a,
        0x1e2e, 0x1ec8, 0x69, 0xec, 0xed, 0xee, 0xef, 0x129, 0x12b, 0x12d, 0x1d0, 0x209, 0x20b, 0x1e2f,
        0x1ec9, 0x4f, 0xd2, 0xd3, 0xd4, 0xd5, 0xd6, 0x14c, 0x14e, 0x150, 0x1d1, 0x20c, 0x20e, 0x22a,
        0x22c, 0x22e, 0x230, 0x1e4c, 0x1e4e, 0x1e50, 0x1e52, 0x1ece, 0x1ed0, 0x1ed2, 0x1ed4, 0x1ed6, 0x6f, 0xf2,
        0xf3, 0xf4, 0xf5, 0xf6, 0x14d, 0x14f, 0x151, 0x1d2, 0x20d, 0x20f, 0x22b, 0x22d, 0x22f, 0x231,
        0x1e4d, 0x1e4f, 0x1e51, 0x1e53, 0x1ecf, 0x1ed1, 0x1ed3, 0x1ed5, 0x1ed7, 0x1a0, 0x1eda, 0x1edc, 0x1ede, 0x1ee0,
        0x1a1, 0x1edb, 0x1edd, 0x1edf, 0x1ee1, 0x55, 0xd9, 0xda, 0xdb, 0xdc, 0x168, 0x16a, 0x16c, 0x16e,
        0x170, 0x1d3, 0x1d5, 0x1d7, 0x1d9, 0x1db, 0x214, 0x216, 0x1e78, 0x1e7a, 0x1ee6, 0x75, 0xf9, 0xfa,
        0xfb, 0xfc, 0x169, 0x16b, 0x16d, 0x16f, 0x171, 0x1d4, 0x1d6, 0x1d8, 0x1da, 0x1dc, 0x215, 0x217,
        0x1e79, 0x1e7b, 0x1ee7, 0x1af, 0x1ee8, 0x1eea, 0x1eec, 0x1eee, 0x1b0, 0x1ee9, 0x1eeb, 0x1eed, 0x1eef, 0x59,
        0xdd, 0x176, 0x178, 0x232, 0x1e8e, 0x1ef2, 0x1ef6, 0x1ef8, 0x79, 0xfd, 0xff, 0x177, 0x233, 0x1e8f,
        0x1e99, 0x1ef3, 0x1ef7, 0x1ef9]),
     (0x324, [0x55, 0xd9, 0xda, 0xdb, 0xdc, 0x168, 0x16a, 0x16c, 0x16e, 0x170, 0x1d3, 0x1d5, 0x1d7, 0x1d9,
        0x1db, 0x214, 0x216, 0x1e78, 0x1e7a, 0x1ee6, 0x75, 0xf9, 0xfa, 0xfb, 0xfc, 0x169, 0x16b, 0x16d,
        0x16f, 0x171, 0x1d4, 0x1d6, 0x1d8, 0x1da, 0x1dc, 0x215, 0x217, 0x1e79, 0x1e7b, 0x1ee7]),
     (0x325, [0x41, 0xc0, 0xc1, 0xc2, 0xc3, 0xc4, 0xc5, 0x100, 0x102, 0x1cd, 0x1de, 0x1e0, 0x1fa, 0x200,
        0x202, 0x226, 0x1ea2, 0x1ea4, 0x1ea6, 0x1ea8, 0x1eaa, 0x1eae, 0x1eb0, 0x1eb2, 0x1eb4, 0x61, 0xe0, 0xe1,
        0xe2, 0xe3, 0xe4, 0xe5, 0x101, 0x103, 0x1ce, 0x1df, 0x1e1, 0x1fb, 0x201, 0x203, 0x227, 0x1ea3,
        0x1ea5, 0x1ea7, 0x1ea9, 0x1eab, 0x1eaf, 0x1eb1, 0x1eb3, 0x1eb5]),
     (0x326, [0x53, 0x15a, 0x15c, 0x160, 0x1e60, 0x1e64, 0x1e66, 0x73, 0x15b, 0x15d, 0x161, 0x1e61, 0x1e65, 0x1e67,
        0x54, 0x164, 0x1e6a, 0x74, 0x165, 0x1e6b, 0x1e97]),
     (0x327, [0x43, 0x106, 0x108, 0x10a, 0x10c, 0x63, 0x107, 0x109, 0x10b, 0x10d, 0x47, 0x11c, 0x11e, 0x120,
        0x1e6, 0x1f4, 0x1e20, 0x67, 0x11d, 0x11f, 0x121, 0x1e7, 0x1f5, 0x1e21, 0x4b, 0x1e8, 0x1e30, 0x1e32,
        0x1e34, 0x6b, 0x1e9, 0x1e31, 0x1e33, 0x1e35, 0x4c, 0x139, 0x13d, 0x1e36, 0x1e38, 0x1e3a, 0x1e3c, 0x6c,
        0x13a, 0x13e, 0x1e37, 0x1e39, 0x1e3b, 0x1e3d, 0x4e, 0xd1, 0x143, 0x147, 0x1f8, 0x1e44, 0x1e46, 0x1e48,
        0x1e4a, 0x6e, 0xf1, 0x144, 0x148, 0x1f9, 0x1e45, 0x1e47, 0x1e49, 0x1e4b, 0x52, 0x154, 0x158, 0x210,
        0x212, 0x1e58, 0x1e5a, 0x1e5c, 0x1e5e, 0x72, 0x155, 0x159, 0x211, 0x213, 0x1e59, 0x1e5b, 0x1e5d, 0x1e5f,
        0x53, 0x15a, 0x15c, 0x160, 0x218, 0x1e60, 0x1e62, 0x1e64, 0x1e66, 0x1e68, 0x73, 0x15b, 0x15d, 0x161,
        0x219, 0x1e61, 0x1e63, 0x1e65, 0x1e67, 0x1e69, 0x54, 0x164, 0x21a, 0x1e6a, 0x1e6c, 0x1e6e, 0x1e70, 0x74,
        0x165, 0x21b, 0x1e6b, 0x1e6d, 0x1e6f, 0x1e71, 0x1e97, 0x45, 0xc8, 0xc9, 0xca, 0xcb, 0x112, 0x114,
        0x116, 0x11a, 0x204, 0x206, 0x1e14, 0x1e16, 0x1e18, 0x1e1a, 0x1eb8, 0x1eba, 0x1ebc, 0x1ebe, 0x1ec0, 0x1ec2,
        0x1ec4, 0x1ec6, 0x65, 0xe8, 0xe9, 0xea, 0xeb, 0x113, 0x115, 0x117, 0x11b, 0x205, 0x207, 0x1e15,
        0x1e17, 0x1e19, 0x1e1b, 0x1eb9, 0x1ebb, 0x1ebd, 0x1ebf, 0x1ec1, 0x1ec3, 0x1ec5, 0x1ec7, 0x44, 0x10e, 0x1e0a,
        0x1e0c, 0x1e0e, 0x1e12, 0x64, 0x10f, 0x1e0b, 0x1e0d, 0x1e0f, 0x1e13, 0x48, 0x124, 0x21e, 0x1e22, 0x1e24,
        0x1e26, 0x1e2a, 0x68, 0x125, 0x21f, 0x1e23, 0x1e25, 0x1e27, 0x1e2b, 0x1e96]),
     (0x328, [0x41, 0xc0, 0xc1, 0xc2, 0xc3, 0xc4, 0xc5, 0x100, 0x102, 0x1cd, 0x1de, 0x1e0, 0x1fa, 0x200,
        0x202, 0x226, 0x1e00, 0x1ea0, 0x1ea2, 0x1ea4, 0x1ea6, 0x1ea8, 0x1eaa, 0x1eac, 0x1eae, 0x1eb0, 0x1eb2, 0x1eb4,
        0x1eb6, 0x61, 0xe0, 0xe1, 0xe2, 0xe3, 0xe4, 0xe5, 0x101, 0x103, 0x1ce, 0x1df, 0x1e1, 0x1fb,
        0x201, 0x203, 0x227, 0x1e01, 0x1ea1, 0x1ea3, 0x1ea5, 0x1ea7, 0x1ea9, 0x1eab, 0x1ead, 0x1eaf, 0x1eb1, 0x1eb3,
        0x1eb5, 0x1eb7, 0x45, 0xc8, 0xc9, 0xca, 0xcb, 0x112, 0x114, 0x116, 0x11a, 0x204, 0x206, 0x1e14,
        0x1e16, 0x1e18, 0x1e1a, 0x1eb8, 0x1eba, 0x1ebc, 0x1ebe, 0x1ec0, 0x1ec2, 0x1ec4, 0x1ec6, 0x65, 0xe8, 0xe9,
        0xea, 0xeb, 0x113, 0x115, 0x117, 0x11b, 0x205, 0x207, 0x1e15, 0x1e17, 0x1e19, 0x1e1b, 0x1eb9, 0x1ebb,
        0x1ebd, 0x1ebf, 0x1ec1, 0x1ec3, 0x1ec5, 0x1ec7, 0x49, 0xcc, 0xcd, 0xce, 0xcf, 0x128, 0x12a, 0x12c,
        0x130, 0x1cf, 0x208, 0x20a, 0x1e2c, 0x1e2e, 0x1ec8, 0x1eca, 0x69, 0xec, 0xed, 0xee, 0xef, 0x129,
        0x12b, 0x12d, 0x1d0, 0x209, 0x20b, 0x1e2d, 0x1e2f, 0x1ec9, 0x1ecb, 0x55, 0xd9, 0xda, 0xdb, 0xdc,
        0x168, 0x16a, 0x16c, 0x16e, 0x170, 0x1af, 0x1d3, 0x1d5, 0x1d7, 0x1d9, 0x1db, 0x214, 0x216, 0x1e72,
        0x1e74, 0x1e76, 0x1e78, 0x1e7a, 0x1ee4, 0x1ee6, 0x1ee8, 0x1eea, 0x1eec, 0x1eee, 0x1ef0, 0x75, 0xf9, 0xfa,
        0xfb, 0xfc, 0x169, 0x16b, 0x16d, 0x16f, 0x171, 0x1b0, 0x1d4, 0x1d6, 0x1d8, 0x1da, 0x1dc, 0x215,
        0x217, 0x1e73, 0x1e75, 0x1e77, 0x1e79, 0x1e7b, 0x1ee5, 0x1ee7, 0x1ee9, 0x1eeb, 0x1eed, 0x1eef, 0x1ef1, 0x4f,
        0xd2, 0xd3, 0xd4, 0xd5, 0xd6, 0x14c, 0x14e, 0x150, 0x1a0, 0x1d1, 0x20c, 0x20e, 0x22a, 0x22c,
        0x22e, 0x230, 0x1e4c, 0x1e4e, 0x1e50, 0x1e52, 0x1ecc, 0x1ece, 0x1ed0, 0x1ed2, 0x1ed4, 0x1ed6, 0x1ed8, 0x1eda,
        0x1edc, 0x1ede, 0x1ee0, 0x1ee2, 0x6f, 0xf2, 0xf3, 0xf4, 0xf5, 0xf6, 0x14d, 0x14f, 0x151, 0x1a1,
        0x1d2, 0x20d, 0x20f, 0x22b, 0x22d, 0x22f, 0x231, 0x1e4d, 0x1e4f, 0x1e51, 0x1e53, 0x1ecd, 0x1ecf, 0x1ed1,
        0x1ed3, 0x1ed5, 0x1ed7, 0x1ed9, 0x1edb, 0x1edd, 0x1edf, 0x1ee1, 0x1ee3]),
     (0x32d, [0x44, 0x10e, 0x1e0a, 0x64, 0x10f, 0x1e0b, 0x45, 0xc8, 0xc9, 0xca, 0xcb, 0x112, 0x114, 0x116,
        0x11a, 0x204, 0x206, 0x1e14, 0x1e16, 0x1eba, 0x1ebc, 0x1ebe, 0x1ec0, 0x1ec2, 0x1ec4, 0x65, 0xe8, 0xe9,
        0xea, 0xeb, 0x113, 0x115, 0x117, 0x11b, 0x205, 0x207, 0x1e15, 0x1e17, 0x1ebb, 0x1ebd, 0x1ebf, 0x1ec1,
        0x1ec3, 0x1ec5, 0x4c, 0x139, 0x13d, 0x6c, 0x13a, 0x13e, 0x4e, 0xd1, 0x143, 0x147, 0x1f8, 0x1e44,
        0x6e, 0xf1, 0x144, 0x148, 0x1f9, 0x1e45, 0x54, 0x164, 0x1e6a, 0x74, 0x165, 0x1e6b, 0x1e97, 0x55,
        0xd9, 0xda, 0xdb, 0xdc, 0x168, 0x16a, 0x16c, 0x16e, 0x170, 0x1d3, 0x1d5, 0x1d7, 0x1d9, 0x1db,
        0x214, 0x216, 0x1e78, 0x1e7a, 0x1ee6, 0x75, 0xf9, 0xfa, 0xfb, 0xfc, 0x169, 0x16b, 0x16d, 0x16f,
        0x171, 0x1d4, 0x1d6, 0x1d8, 0x1da, 0x1dc, 0x215, 0x217, 0x1e79, 0x1e7b, 0x1ee7]),
     (0x32e, [0x48, 0x124, 0x21e, 0x1e22, 0x1e26, 0x68, 0x125, 0x21f, 0x1e23, 0x1e27]),
     (0x330, [0x45, 0xc8, 0xc9, 0xca, 0xcb, 0x112, 0x114, 0x116, 0x11a, 0x204, 0x206, 0x1e14, 0x1e16, 0x1eba,
        0x1ebc, 0x1ebe, 0x1ec0, 0x1ec2, 0x1ec4, 0x65, 0xe8, 0xe9, 0xea, 0xeb, 0x113, 0x115, 0x117, 0x11b,
        0x205, 0x207, 0x1e15, 0x1e17, 0x1ebb, 0x1ebd, 0x1ebf, 0x1ec1, 0x1ec3, 0x1ec5, 0x49, 0xcc, 0xcd, 0xce,
        0xcf, 0x128, 0x12a, 0x12c, 0x130, 0x1cf, 0x208, 0x20a, 0x1e2e, 0x1ec8, 0x69, 0xec, 0xed, 0xee,
        0xef, 0x129, 0x12b, 0x12d, 0x1d0, 0x209, 0x20b, 0x1e2f, 0x1ec9, 0x55, 0xd9, 0xda, 0xdb, 0xdc,
        0x168, 0x16a, 0x16c, 0x16e, 0x170, 0x1d3, 0x1d5, 0x1d7, 0x1d9, 0x1db, 0x214, 0x216, 0x1e78, 0x1e7a,
        0x1ee6, 0x75, 0xf9, 0xfa, 0xfb, 0xfc, 0x169, 0x16b, 0x16d, 0x16f, 0x171, 0x1d4, 0x1d6, 0x1d8,
        0x1da, 0x1dc, 0x215, 0x217, 0x1e79, 0x1e7b, 0x1ee7]),
     (0x331, [0x42, 0x1e02, 0x62, 0x1e03, 0x44, 0x10e, 0x1e0a, 0x64, 0x10f, 0x1e0b, 0x4b, 0x1e8, 0x1e30, 0x6b,
        0x1e9, 0x1e31, 0x4c, 0x139, 0x13d, 0x6c, 0x13a, 0x13e, 0x4e, 0xd1, 0x143, 0x147, 0x1f8, 0x1e44,
        0x6e, 0xf1, 0x144, 0x148, 0x1f9, 0x1e45, 0x52, 0x154, 0x158, 0x210, 0x212, 0x1e58, 0x72, 0x155,
        0x159, 0x211, 0x213, 0x1e59, 0x54, 0x164, 0x1e6a, 0x74, 0x165, 0x1e6b, 0x1e97, 0x5a, 0x179, 0x17b,
        0x17d, 0x1e90, 0x7a, 0x17a, 0x17c, 0x17e, 0x1e91, 0x68, 0x125, 0x21f, 0x1e23, 0x1e27]),
     (0x338, []),
     (0x342, [0x1f00, 0x1f80, 0x1f01, 0x1f81, 0x1f08, 0x1f88, 0x1f09, 0x1f89, 0x1f20, 0x1f90, 0x1f21, 0x1f91, 0x1f28, 0x1f98,
        0x1f29, 0x1f99, 0x1f30, 0x1f31, 0x1f38, 0x1f39, 0x1f50, 0x1f51, 0x1f59, 0x1f60, 0x1fa0, 0x1f61, 0x1fa1, 0x1f68,
        0x1fa8, 0x1f69, 0x1fa9, 0x3b1, 0x1fb3, 0xa8, 0x3b7, 0x1fc3, 0x1fbf, 0x3b9, 0x3ca, 0x1ffe, 0x3c5, 0x3cb,
        0x3c9, 0x1ff3]),
     (0x345, [0x1f00, 0x1f01, 0x1f02, 0x1f03, 0x1f04, 0x1f05, 0x1f06, 0x1f07, 0x1f08, 0x1f09, 0x1f0a, 0x1f0b, 0x1f0c, 0x1f0d,
        0x1f0e, 0x1f0f, 0x1f20, 0x1f21, 0x1f22, 0x1f23, 0x1f24, 0x1f25, 0x1f26, 0x1f27, 0x1f28, 0x1f29, 0x1f2a, 0x1f2b,
        0x1f2c, 0x1f2d, 0x1f2e, 0x1f2f, 0x1f60, 0x1f61, 0x1f62, 0x1f63, 0x1f64, 0x1f65, 0x1f66, 0x1f67, 0x1f68, 0x1f69,
        0x1f6a, 0x1f6b, 0x1f6c, 0x1f6d, 0x1f6e, 0x1f6f, 0x1f70, 0x3b1, 0x3ac, 0x1fb6, 0x391, 0x1f74, 0x3b7, 0x3ae,
        0x1fc6, 0x397, 0x1f7c, 0x3c9, 0x3ce, 0x1ff6, 0x3a9]),
     (0x653, [0x627]),
     (0x654, [0x627, 0x648, 0x64a, 0x6d5, 0x6c1, 0x6d2]),
     (0x655, [0x627, 0x622, 0x623]),
     (0x93c, [0x928, 0x930, 0x933, 0x915, 0x916, 0x917, 0x91c, 0x921, 0x922, 0x92b, 0x92f]),
     (0x9be, [0x9c7]),
     (0x9d7, [0x9c7]),
     (0xb3e, [0xb47]),
     (0xb56, [0xb47]),
     (0xb57, [0xb47]),
     (0xbbe, [0xbc6, 0xbc7]),
     (0xbd7, [0xb92, 0xbc6]),
     (0xc56, [0xc46]),
     (0xcc2, [0xcc6]),
     (0xcd5, [0xcbf, 0xcc6, 0xcca]),
     (0xcd6, [0xcc6]),
     (0xd3e, [0xd46, 0xd47]),
     (0xd57, [0xd46]),
     (0xdca, [0xdd9, 0xddc]),
     (0xdcf, [0xdd9, 0xdda]),
     (0xddf, [0xdd9, 0xdda]),
     (0x102e, [0x1025]),
     (0x1b35, [0x1b05, 0x1b07, 0x1b09, 0x1b0b, 0x1b0d, 0x1b11, 0x1b3a, 0x1b3c, 0x1b3e, 0x1b3f, 0x1b42]),
     (0x3099, [0x304b, 0x304d, 0x304f, 0x3051, 0x3053, 0x3055, 0x3057, 0x3059, 0x305b, 0x305d, 0x305f, 0x3061, 0x3064, 0x3066,
        0x3068, 0x306f, 0x3072, 0x3075, 0x3078, 0x307b, 0x3046, 0x309d, 0x30ab, 0x30ad, 0x30af, 0x30b1, 0x30b3, 0x30b5,
        0x30b7, 0x30b9, 0x30bb, 0x30bd, 0x30bf, 0x30c1, 0x30c4, 0x30c6, 0x30c8, 0x30cf, 0x30d2, 0x30d5, 0x30d8, 0x30db,
        0x30a6, 0x30ef, 0x30f0, 0x30f1, 0x30f2, 0x30fd]),
     (0x309a, [0x306f, 0x3072, 0x3075, 0x3078, 0x307b, 0x30cf, 0x30d2, 0x30d5, 0x30d8, 0x30db]),
     (0x110ba, [0x11099, 0x1109b, 0x110a5]),
     (0x11127, [0x11131, 0x11132])]"

section \<open>The order of the table\<close>

fun ascending :: "cppchar_t list \<Rightarrow> bool" where
  "ascending (x # y # zs) \<longleftrightarrow> x < y \<and> ascending (y # zs)"
| "ascending _ \<longleftrightarrow> True"

lemma ascending_Cons: "ascending (x # xs) \<longleftrightarrow> (xs = [] \<or> x < hd xs) \<and> ascending xs"
  by (cases xs) auto

lemma ascending_append:
  "ascending (xs @ ys) \<longleftrightarrow> ascending xs \<and> ascending ys \<and> (xs = [] \<or> ys = [] \<or> last xs < hd ys)"
  by (induction xs) (auto simp: ascending_Cons)

lemma part_0: "ascending (map ucn_end ucnranges_0)" "length ucnranges_0 = 310"
    "hd (map ucn_end ucnranges_0) = 0xa7" "last (map ucn_end ucnranges_0) = 0x5af" "ucnranges_0 \<noteq> []"
  by (simp_all add: ucnranges_0_def)

lemma part_1: "ascending (map ucn_end ucnranges_1)" "length ucnranges_1 = 310"
    "hd (map ucn_end ucnranges_1) = 0x5b0" "last (map ucn_end ucnranges_1) = 0xacc" "ucnranges_1 \<noteq> []"
  by (simp_all add: ucnranges_1_def)

lemma part_2: "ascending (map ucn_end ucnranges_2)" "length ucnranges_2 = 310"
    "hd (map ucn_end ucnranges_2) = 0xacd" "last (map ucn_end ucnranges_2) = 0x1025" "ucnranges_2 \<noteq> []"
  by (simp_all add: ucnranges_2_def)

lemma part_3: "ascending (map ucn_end ucnranges_3)" "length ucnranges_3 = 310"
    "hd (map ucn_end ucnranges_3) = 0x1026" "last (map ucn_end ucnranges_3) = 0x20e8" "ucnranges_3 \<noteq> []"
  by (simp_all add: ucnranges_3_def)

lemma part_4: "ascending (map ucn_end ucnranges_4)" "length ucnranges_4 = 310"
    "hd (map ucn_end ucnranges_4) = 0x20e9" "last (map ucn_end ucnranges_4) = 0xfa24" "ucnranges_4 \<noteq> []"
  by (simp_all add: ucnranges_4_def)

lemma part_5: "ascending (map ucn_end ucnranges_5)" "length ucnranges_5 = 303"
    "hd (map ucn_end ucnranges_5) = 0xfa26" "last (map ucn_end ucnranges_5) = 0x10ffff" "ucnranges_5 \<noteq> []"
  by (simp_all add: ucnranges_5_def)

lemma ucnranges_ascending: "ascending (map ucn_end ucnranges)"
  by (simp add: ucnranges_def ascending_append hd_append2 last_append part_0 part_1 part_2 part_3 part_4 part_5)

lemma ucnranges_length: "length ucnranges = 1853"
  by (simp add: ucnranges_def part_0 part_1 part_2 part_3 part_4 part_5)

lemma ucnranges_last: "last (map ucn_end ucnranges) = 0x10FFFF"
  by (simp add: ucnranges_def last_append part_5)

end
