(* ===== verification/Cpp_Utf.thy ===== *)
theory Cpp_Utf
  imports Prelude "HOL-Library.Monad_Syntax"
begin

text \<open>
  The conversions between UTF-8, UTF-16 and UTF-32 of \<^verbatim>\<open>libcpp/charset.c\<close>. A buffer with the number of
  bytes left in it is the list of these bytes; an output pointer with the room left is that number,
  and what is written is returned. A conversion of one character returns \<^verbatim>\<open>0\<close> with what it has
  consumed and written, or an error code; \<open>None\<close> is a read or a write outside an array, which has
  no defined result in C.
\<close>

section \<open>One character\<close>

datatype errno = E2BIG | EILSEQ | EINVAL

type_synonym 'a conv = "(errno + 'a) option"

definition in_masks :: "cppchar_t list" where
  "in_masks = [0x7F, 0x1F, 0x0F, 0x07, 0x03, 0x01]"

definition in_patns :: "cppchar_t list" where
  "in_patns = [0x00, 0xC0, 0xE0, 0xF0, 0xF8, 0xFC]"

definition out_masks :: "cppchar_t list" where
  "out_masks = [0x00, 0xC0, 0xE0, 0xF0, 0xF8, 0xFC]"

definition out_limits :: "cppchar_t list" where
  "out_limits = [0x80, 0xE0, 0xF0, 0xF8, 0xFC, 0xFE]"

text \<open>The search for the length that the first byte announces: 7 when there is none.\<close>

function lead_length :: "cppchar_t \<Rightarrow> nat \<Rightarrow> nat option" where
  "lead_length c nbytes =
     (if nbytes < 7 then
        do { m \<leftarrow> elem in_masks (nbytes - 1);
             p \<leftarrow> elem in_patns (nbytes - 1);
             if c AND NOT m = p then Some nbytes else lead_length c (Suc nbytes) }
      else Some nbytes)"
  by pat_completeness auto
termination
  by (relation "measure (\<lambda>(c, n). 7 - n)") auto

text \<open>The loop over the \<open>k\<close> continuation bytes.\<close>

fun continuation :: "nat \<Rightarrow> cppchar_t \<Rightarrow> byte list \<Rightarrow> (cppchar_t \<times> byte list) conv" where
  "continuation 0 c inbuf = Some (Inr (c, inbuf))"
| "continuation (Suc k) c inbuf =
     (case inbuf of
        [] \<Rightarrow> None
      | b # inbuf \<Rightarrow>
          (let n = ucast b in
           if n AND 0xC0 \<noteq> 0x80 then Some (Inl EILSEQ)
           else continuation k (push_bit 6 c + (n AND 0x3F)) inbuf))"

text \<open>The tests that make sure that the shortest encoding was used and that the character is valid.\<close>

definition not_shortest :: "cppchar_t \<Rightarrow> nat \<Rightarrow> bool" where
  "not_shortest c nbytes \<longleftrightarrow>
     (c \<le> 0x7F \<and> nbytes > 1) \<or> (c \<le> 0x7FF \<and> nbytes > 2) \<or> (c \<le> 0xFFFF \<and> nbytes > 3) \<or>
     (c \<le> 0x1FFFFF \<and> nbytes > 4) \<or> (c \<le> 0x3FFFFFF \<and> nbytes > 5)"

definition not_valid :: "cppchar_t \<Rightarrow> bool" where
  "not_valid c \<longleftrightarrow> c > 0x7FFFFFFF \<or> (c \<ge> 0xD800 \<and> c \<le> 0xDFFF)"

definition one_utf8_to_cppchar :: "byte list \<Rightarrow> (cppchar_t \<times> byte list) conv" where
  "one_utf8_to_cppchar inbuf =
     (case inbuf of
        [] \<Rightarrow> Some (Inl EINVAL)
      | b # inbuf1 \<Rightarrow>
          (let c = ucast b in
           if c < 0x80 then Some (Inr (c, inbuf1))
           else
             do { nbytes \<leftarrow> lead_length c 2;
                  if nbytes = 7 then Some (Inl EILSEQ)
                  else if length inbuf < nbytes then Some (Inl EINVAL)
                  else
                    do { m \<leftarrow> elem in_masks (nbytes - 1);
                         r \<leftarrow> continuation (nbytes - 1) (c AND m) inbuf1;
                         Some (case r of
                                 Inl e \<Rightarrow> Inl e
                               | Inr (c, rest) \<Rightarrow>
                                   if not_shortest c nbytes \<or> not_valid c then Inl EILSEQ
                                   else Inr (c, rest)) } }))"

text \<open>
  The loop that fills the buffer of six bytes from its end: \<open>p\<close> is what has been stored so far.
\<close>

function utf8_tail :: "cppchar_t \<Rightarrow> nat \<Rightarrow> byte list \<Rightarrow> (cppchar_t \<times> nat \<times> byte list) option" where
  "utf8_tail c nbytes p =
     (if 6 \<le> length p then None
      else
        (let p = ucast ((c AND 0x3F) OR 0x80) # p; c = drop_bit 6 c; nbytes = Suc nbytes in
         if c \<ge> 0x3F then utf8_tail c nbytes p
         else do { l \<leftarrow> elem out_limits (nbytes - 1);
                   if c AND l \<noteq> 0 then utf8_tail c nbytes p else Some (c, nbytes, p) }))"
  by pat_completeness auto
termination
  by (relation "measure (\<lambda>(c, n, p). 6 - length p)") auto

definition one_cppchar_to_utf8 :: "cppchar_t \<Rightarrow> nat \<Rightarrow> (byte list) conv" where
  "one_cppchar_to_utf8 c outbytesleft =
     do { (nbytes, p) \<leftarrow>
            (if c < 0x80 then Some (1, [ucast c])
             else
               do { (c, nbytes, p) \<leftarrow> utf8_tail c 1 [];
                    m \<leftarrow> elem out_masks (nbytes - 1);
                    if 6 \<le> length p then None else Some (nbytes, ucast (c OR m) # p) });
          Some (if outbytesleft < nbytes then Inl E2BIG else Inr p) }"

declare lead_length.simps [simp del] utf8_tail.simps [simp del]

text \<open>The byte at index \<open>i\<close> of the bytes left, which the code has compared with the bytes it reads.\<close>

definition byte_at :: "byte list \<Rightarrow> nat \<Rightarrow> cppchar_t option" where
  "byte_at s i = map_option ucast (elem s i)"

definition one_utf8_to_utf32 :: "bool \<Rightarrow> byte list \<Rightarrow> nat \<Rightarrow> (byte list \<times> byte list) conv" where
  "one_utf8_to_utf32 bigend inbuf outbytesleft =
     (if outbytesleft < 4 then Some (Inl E2BIG)
      else
        do { r \<leftarrow> one_utf8_to_cppchar inbuf;
             Some (case r of
                     Inl e \<Rightarrow> Inl e
                   | Inr (s, rest) \<Rightarrow>
                       (let b0 = ucast (s AND 0x000000FF); b1 = ucast (drop_bit 8 (s AND 0x0000FF00));
                            b2 = ucast (drop_bit 16 (s AND 0x00FF0000)); b3 = ucast (drop_bit 24 (s AND 0xFF000000))
                        in Inr (rest, if bigend then [b3, b2, b1, b0] else [b0, b1, b2, b3]))) })"

definition one_utf32_to_utf8 :: "bool \<Rightarrow> byte list \<Rightarrow> nat \<Rightarrow> (byte list \<times> byte list) conv" where
  "one_utf32_to_utf8 bigend inbuf outbytesleft =
     (if length inbuf < 4 then Some (Inl EINVAL)
      else
        do { b3 \<leftarrow> byte_at inbuf (if bigend then 0 else 3);
             b2 \<leftarrow> byte_at inbuf (if bigend then 1 else 2);
             b1 \<leftarrow> byte_at inbuf (if bigend then 2 else 1);
             b0 \<leftarrow> byte_at inbuf (if bigend then 3 else 0);
             let s = push_bit 24 b3 + push_bit 16 b2 + push_bit 8 b1 + b0;
             if s \<ge> 0x7FFFFFFF \<or> (s \<ge> 0xD800 \<and> s \<le> 0xDFFF) then Some (Inl EILSEQ)
             else
               do { r \<leftarrow> one_cppchar_to_utf8 s outbytesleft;
                    Some (case r of Inl e \<Rightarrow> Inl e | Inr out \<Rightarrow> Inr (drop 4 inbuf, out)) } })"

definition two_bytes :: "bool \<Rightarrow> cppchar_t \<Rightarrow> byte list" where
  "two_bytes bigend s =
     (let lo = ucast (s AND 0x00FF); hi = ucast (drop_bit 8 (s AND 0xFF00))
      in if bigend then [hi, lo] else [lo, hi])"

definition one_utf8_to_utf16 :: "bool \<Rightarrow> byte list \<Rightarrow> nat \<Rightarrow> (byte list \<times> byte list) conv" where
  "one_utf8_to_utf16 bigend inbuf outbytesleft =
     do { r \<leftarrow> one_utf8_to_cppchar inbuf;
          Some (case r of
                  Inl e \<Rightarrow> Inl e
                | Inr (s, rest) \<Rightarrow>
                    if s > 0x0010FFFF then Inl EILSEQ
                    else if s \<le> 0xFFFF then
                      (if outbytesleft < 2 then Inl E2BIG else Inr (rest, two_bytes bigend s))
                    else if outbytesleft < 4 then Inl E2BIG
                    else
                      (let hi = (s - 0x10000) div 0x400 + 0xD800; lo = (s - 0x10000) mod 0x400 + 0xDC00
                       in Inr (rest, two_bytes bigend hi @ two_bytes bigend lo))) }"

text \<open>The two bytes at \<open>i\<close> as a number, and the character that two surrogates stand for.\<close>

definition utf16_unit :: "bool \<Rightarrow> byte list \<Rightarrow> nat \<Rightarrow> cppchar_t option" where
  "utf16_unit bigend inbuf i =
     do { hi \<leftarrow> byte_at inbuf (if bigend then i else i + 1);
          lo \<leftarrow> byte_at inbuf (if bigend then i + 1 else i);
          Some (push_bit 8 hi + lo) }"

definition surrogate_value :: "cppchar_t \<Rightarrow> cppchar_t \<Rightarrow> cppchar_t" where
  "surrogate_value hi lo = (hi - 0xD800) * 0x400 + (lo - 0xDC00) + 0x10000"

definition one_utf16_to_utf8 :: "bool \<Rightarrow> byte list \<Rightarrow> nat \<Rightarrow> (byte list \<times> byte list) conv" where
  "one_utf16_to_utf8 bigend inbuf outbytesleft =
     (if length inbuf < 2 then Some (Inl EINVAL)
      else
        do { s \<leftarrow> utf16_unit bigend inbuf 0;
             r \<leftarrow> (if s \<ge> 0xDC00 \<and> s \<le> 0xDFFF then Some (Inl EILSEQ)
                  else if s \<ge> 0xD800 \<and> s \<le> 0xDBFF then
                    (if length inbuf < 4 then Some (Inl EINVAL)
                     else
                       do { lo \<leftarrow> utf16_unit bigend inbuf 2;
                            Some (if lo < 0xDC00 \<or> lo > 0xDFFF then Inl EILSEQ else Inr (surrogate_value s lo)) })
                  else Some (Inr s));
             (case r of
                Inl e \<Rightarrow> Some (Inl e)
              | Inr s \<Rightarrow>
                  do { r \<leftarrow> one_cppchar_to_utf8 s outbytesleft;
                       Some (case r of
                               Inl e \<Rightarrow> Inl e
                             | Inr out \<Rightarrow> Inr (drop (if s \<le> 0xFFFF then 2 else 4) inbuf, out)) }) })"

section \<open>The reference encoding\<close>

text \<open>
  UTF-8 with up to six bytes, as a function of the code point: the byte that announces the length and
  the high bits, then six bits per byte.
\<close>

definition u8_nat :: "nat \<Rightarrow> nat list" where
  "u8_nat n =
     (if n < 0x80 then [n]
      else if n < 0x800 then [0xC0 + n div 64, 0x80 + n mod 64]
      else if n < 0x10000 then [0xE0 + n div 4096, 0x80 + n div 64 mod 64, 0x80 + n mod 64]
      else if n < 0x200000 then
        [0xF0 + n div 262144, 0x80 + n div 4096 mod 64, 0x80 + n div 64 mod 64, 0x80 + n mod 64]
      else if n < 0x4000000 then
        [0xF8 + n div 16777216, 0x80 + n div 262144 mod 64,
         0x80 + n div 4096 mod 64, 0x80 + n div 64 mod 64, 0x80 + n mod 64]
      else
        [0xFC + n div 1073741824, 0x80 + n div 16777216 mod 64,
         0x80 + n div 262144 mod 64, 0x80 + n div 4096 mod 64, 0x80 + n div 64 mod 64,
         0x80 + n mod 64])"

definition u8 :: "cppchar_t \<Rightarrow> byte list" where
  "u8 c = map word_of_nat (u8_nat (unat c))"

text \<open>The code points the code accepts: 31 bits, no surrogates.\<close>

definition scalar :: "cppchar_t \<Rightarrow> bool" where
  "scalar c \<longleftrightarrow> c \<le> 0x7FFFFFFF \<and> \<not> (0xD800 \<le> c \<and> c \<le> 0xDFFF)"

lemma u8_length: "length (u8 c) \<le> 6" "0 < length (u8 c)"
  by (simp_all add: u8_def u8_nat_def)

subsection \<open>Words as numbers\<close>

lemma nat_and_high: "(n :: nat) AND push_bit j m = push_bit j (drop_bit j n AND m)"
  by (rule bit_eqI) (auto simp: bit_simps)

lemma unat_and_63: "unat ((c :: 32 word) AND 0x3F) = unat c mod 64"
proof -
  have "c AND 0x3F = take_bit 6 c"
    by (simp add: take_bit_eq_mask mask_eq_exp_minus_1)
  then show ?thesis
    by (simp add: unsigned_take_bit_eq take_bit_eq_mod unat_mod_distrib)
qed

lemma unat_drop: "unat (drop_bit k (c :: 32 word)) = unat c div 2 ^ k"
  by (metis drop_bit_eq_div of_nat_drop_bit unsigned_drop_bit_eq take_bit_word_eq_self unsigned_take_bit_eq order_refl)

lemma and_limit:
  assumes "unat (c :: 32 word) < 63" "l \<in> {5, 4, 3, 2, 1}"
  shows "c AND word_of_nat (256 - 2 ^ l) = 0 \<longleftrightarrow> unat c < 2 ^ l"
proof -
  have e: "256 - 2 ^ l = push_bit l (2 ^ (8 - l) - 1 :: nat)"
    using assms(2) by (auto simp: push_bit_eq_mult)
  have "unat (c AND word_of_nat (256 - 2 ^ l)) = unat c AND (256 - 2 ^ l)"
    using assms(2) by (auto simp: unsigned_and_eq unat_of_nat)
  also have "\<dots> = push_bit l (drop_bit l (unat c) AND mask (8 - l))"
    by (simp only: e nat_and_high mask_eq_exp_minus_1)
  also have "drop_bit l (unat c) AND mask (8 - l) = drop_bit l (unat c)"
  proof -
    have "unat c div 2 ^ l < 2 ^ (8 - l)"
      using assms by (auto simp: less_mult_imp_div_less)
    then show ?thesis
      by (simp add: drop_bit_eq_div flip: take_bit_eq_mask) (simp add: take_bit_nat_eq_self)
  qed
  finally have "unat (c AND word_of_nat (256 - 2 ^ l)) = push_bit l (unat c div 2 ^ l)"
    by (simp add: drop_bit_eq_div)
  then show ?thesis
    by (simp add: push_bit_eq_mult unat_eq_zero[symmetric] div_eq_0_iff del: unat_eq_zero)
qed

lemma ucast_of_nat_byte: "ucast (word_of_nat x :: 32 word) = (word_of_nat x :: byte)"
  by (rule bit_word_eqI) (simp add: bit_simps)

lemma or_add:
  assumes "unat (c :: 32 word) < 2 ^ k" "m mod 2 ^ k = 0" "m < 256" "k \<le> 8"
  shows "ucast (c OR word_of_nat m) = (word_of_nat (m + unat c) :: byte)"
proof -
  have "c AND word_of_nat m = 0"
  proof (rule bit_word_eqI)
    fix n assume "n < LENGTH(32)"
    have "\<not> bit m n" if "n < k"
      using bit_take_bit_iff[of k m n] assms(2) that by (simp add: take_bit_eq_mod)
    moreover have "\<not> bit c n" if "\<not> n < k"
      using bit_less_exp[of "unat c" n k] assms(1) that by (auto simp: bit_unsigned_iff)
    ultimately show "bit (c AND word_of_nat m) n = bit (0 :: 32 word) n"
      by (auto simp: bit_simps)
  qed
  then have "c OR word_of_nat m = c + word_of_nat m"
    by (simp add: disjunctive_add_eq_or)
  moreover have "c + word_of_nat m = word_of_nat (m + unat c)"
    by simp
  ultimately show ?thesis
    by (simp only: ucast_of_nat_byte)
qed

lemma utf8_tail_step:
  "utf8_tail c nbytes p =
     (if 6 \<le> length p then None
      else
        (let p' = word_of_nat (0x80 + unat c mod 64) # p; c' = drop_bit 6 c in
         if 63 \<le> unat c' then utf8_tail c' (Suc nbytes) p'
         else do { l \<leftarrow> elem out_limits nbytes;
                   if c' AND l \<noteq> 0 then utf8_tail c' (Suc nbytes) p' else Some (c', Suc nbytes, p') }))"
proof -
  have "ucast ((c AND 0x3F) OR 0x80) = (word_of_nat (0x80 + unat c mod 64) :: byte)"
    using or_add[of "c AND 0x3F" 7 128] by (simp add: unat_and_63)
  moreover have "c' \<ge> 0x3F \<longleftrightarrow> 63 \<le> unat c'" for c' :: cppchar_t
    by (simp add: word_le_nat_alt)
  ultimately show ?thesis
    by (subst utf8_tail.simps) (simp add: Let_def)
qed

text \<open>
  The condition at the end of the loop, read as a bound: after \<open>k\<close> rounds the loop goes on exactly
  when what is left does not fit the first byte.
\<close>

lemma utf8_tail_round:
  assumes "length p < 6" "nbytes \<in> {1, 2, 3, 4, 5}"
  shows "utf8_tail c nbytes p =
           (if unat c div 64 < 2 ^ (6 - nbytes)
            then Some (drop_bit 6 c, Suc nbytes, word_of_nat (0x80 + unat c mod 64) # p)
            else utf8_tail (drop_bit 6 c) (Suc nbytes) (word_of_nat (0x80 + unat c mod 64) # p))"
proof -
  have l: "elem out_limits nbytes = Some (word_of_nat (256 - 2 ^ (6 - nbytes)))"
    using assms(2) by (auto simp: elem_def out_limits_def)
  have "6 - nbytes \<in> {5, 4, 3, 2, 1}"
    using assms(2) by auto
  then have "unat (drop_bit 6 c) < 63 \<Longrightarrow>
      drop_bit 6 c AND word_of_nat (256 - 2 ^ (6 - nbytes)) = 0 \<longleftrightarrow> unat (drop_bit 6 c) < 2 ^ (6 - nbytes)"
    by (rule and_limit[rotated])
  moreover have "2 ^ (6 - nbytes) \<le> (63 :: nat)"
    using assms(2) by auto
  ultimately show ?thesis
    using assms(1) by (subst utf8_tail_step) (auto simp: l Let_def unat_drop)
qed

lemma elem_out_masks: "n \<in> {1, 2, 3, 4, 5} \<Longrightarrow> elem out_masks n = Some (word_of_nat (256 - 2 ^ (7 - n)))"
  by (auto simp: elem_def out_masks_def)

lemma first_byte:
  assumes "unat (c :: 32 word) < 2 ^ (6 - n)" "n \<in> {1, 2, 3, 4, 5}"
  shows "ucast (c OR word_of_nat (256 - 2 ^ (7 - n))) = (word_of_nat (256 - 2 ^ (7 - n) + unat c) :: byte)"
  by (rule or_add[where k = "6 - n"]) (use assms in auto)

lemma unat_32_num: "unat (c :: 32 word) < 4294967296"
  using unsigned_less[where ?'a = nat, of c] by simp

lemmas encode_simps = one_cppchar_to_utf8_def word_less_nat_alt u8_def u8_nat_def utf8_tail_round unat_drop
  elem_out_masks div_less_iff_less_mult

lemma to_utf8_overflow:
  assumes "0x80000000 \<le> unat c" shows "one_cppchar_to_utf8 c n = None"
proof -
  have "utf8_tail c 1 [] = None"
    using assms unat_32_num[of c]
    by (simp add: utf8_tail_round unat_drop div_less_iff_less_mult)
      (simp add: utf8_tail_step elem_def out_limits_def Let_def unat_drop)
  then show ?thesis
    using assms by (simp add: one_cppchar_to_utf8_def word_less_nat_alt)
qed

lemma to_utf8_encodes:
  assumes "unat c < 0x80000000"
  shows "one_cppchar_to_utf8 c n = Some (if n < length (u8 c) then Inl E2BIG else Inr (u8 c))"
proof -
  let ?v = "unat c"
  consider "?v < 0x80" | "0x80 \<le> ?v" "?v < 0x800" | "0x800 \<le> ?v" "?v < 0x10000" | "0x10000 \<le> ?v" "?v < 0x200000"
    | "0x200000 \<le> ?v" "?v < 0x4000000" | "0x4000000 \<le> ?v" "?v < 0x80000000"
    using assms by linarith
  then show ?thesis
  proof cases
    case 1
    then show ?thesis
      by (simp add: one_cppchar_to_utf8_def word_less_nat_alt u8_def u8_nat_def flip: ucast_of_nat_byte)
  next
    case 2
    then show ?thesis
      using first_byte[of "drop_bit 6 c" 1]
      by (simp add: encode_simps)
  next
    case 3
    then show ?thesis
      using first_byte[of "drop_bit 12 c" 2]
      by (simp add: encode_simps)
  next
    case 4
    then show ?thesis
      using first_byte[of "drop_bit 18 c" 3]
      by (simp add: encode_simps)
  next
    case 5
    then show ?thesis
      using first_byte[of "drop_bit 24 c" 4]
      by (simp add: encode_simps)
  next
    case 6
    then show ?thesis
      using first_byte[of "drop_bit 30 c" 5]
      by (simp add: encode_simps)
  qed
qed

subsection \<open>Decoding\<close>

text \<open>The length announced by a first byte, as a table of intervals.\<close>

definition announced :: "nat \<Rightarrow> nat" where
  "announced v =
     (if v < 0xC0 then 7 else if v < 0xE0 then 2 else if v < 0xF0 then 3 else if v < 0xF8 then 4
      else if v < 0xFC then 5 else if v < 0xFE then 6 else 7)"

lemma unat_and_not_mask: "unat ((c :: 32 word) AND NOT (mask j)) = unat c div 2 ^ j * 2 ^ j"
proof -
  have "unat (c AND NOT (mask j)) = push_bit j (drop_bit j (unat c))"
    by (rule bit_eqI) (auto simp: bit_simps dest: bit_imp_le_length)
  then show ?thesis
    by (simp add: push_bit_eq_mult drop_bit_eq_div)
qed

lemma lead_test:
  assumes "j \<le> 5" "p < 4294967296"
  shows "(c :: 32 word) AND NOT (mask j) = word_of_nat p \<longleftrightarrow> unat c div 2 ^ j * 2 ^ j = p"
  using assms by (simp add: word_unat_eq_iff unat_and_not_mask unat_of_nat)

lemma div_block: "0 < k \<Longrightarrow> (v :: nat) div k * k = m * k \<longleftrightarrow> m * k \<le> v \<and> v < m * k + k"
proof
  assume "0 < k" "v div k * k = m * k"
  then show "m * k \<le> v \<and> v < m * k + k"
    using div_mult_mod_eq[of v k] mod_less_divisor[of k v] by linarith
next
  assume "0 < k" "m * k \<le> v \<and> v < m * k + k"
  then show "v div k * k = m * k"
    using div_nat_eqI[of k m v] by (simp add: mult.commute)
qed

lemma mod_block: "m * k \<le> (v :: nat) \<Longrightarrow> v < m * k + k \<Longrightarrow> v mod k = v - m * k"
proof -
  assume "m * k \<le> v" "v < m * k + k"
  then obtain d where "v = m * k + d" "d < k"
    using le_Suc_ex[of "m * k" v] by auto
  then show ?thesis
    by simp
qed

lemma lead_length_announced:
  assumes "0x80 \<le> unat c" "unat c < 0x100" shows "lead_length c 2 = Some (announced (unat c))"
proof -
  have t: "c AND NOT 0x1F = 0xC0 \<longleftrightarrow> unat c div 32 * 32 = 0xC0"
          "c AND NOT 0x0F = 0xE0 \<longleftrightarrow> unat c div 16 * 16 = 0xE0"
          "c AND NOT 0x07 = 0xF0 \<longleftrightarrow> unat c div 8 * 8 = 0xF0"
          "c AND NOT 0x03 = 0xF8 \<longleftrightarrow> unat c div 4 * 4 = 0xF8"
          "c AND NOT 0x01 = 0xFC \<longleftrightarrow> unat c div 2 * 2 = 0xFC"
    using lead_test[of 5 "0xC0" c] lead_test[of 4 "0xE0" c] lead_test[of 3 "0xF0" c] lead_test[of 2 "0xF8" c]
      lead_test[of 1 "0xFC" c]
    by (simp_all add: mask_eq_exp_minus_1)
  have l: "lead_length c 2 =
      Some (if c AND NOT 0x1F = 0xC0 then 2 else if c AND NOT 0x0F = 0xE0 then 3
            else if c AND NOT 0x07 = 0xF0 then 4 else if c AND NOT 0x03 = 0xF8 then 5
            else if c AND NOT 0x01 = 0xFC then 6 else 7)"
    by (simp add: lead_length.simps elem_def in_masks_def in_patns_def)
  have "v div 32 * 32 = 0xC0 \<longleftrightarrow> 0xC0 \<le> v \<and> v < 0xE0" "v div 16 * 16 = 0xE0 \<longleftrightarrow> 0xE0 \<le> v \<and> v < 0xF0"
       "v div 8 * 8 = 0xF0 \<longleftrightarrow> 0xF0 \<le> v \<and> v < 0xF8" "v div 4 * 4 = 0xF8 \<longleftrightarrow> 0xF8 \<le> v \<and> v < 0xFC"
       "v div 2 * 2 = 0xFC \<longleftrightarrow> 0xFC \<le> v \<and> v < 0xFE" for v :: nat
    using div_block[of 32 v 6] div_block[of 16 v 14] div_block[of 8 v 30] div_block[of 4 v 62] div_block[of 2 v 126]
    by simp_all
  then show ?thesis
    unfolding l t announced_def using assms by simp
qed

text \<open>The continuation bytes hold digits to the base 64.\<close>

abbreviation sextet :: "nat \<Rightarrow> byte" where
  "sextet d \<equiv> word_of_nat (0x80 + d)"

fun sixes :: "nat \<Rightarrow> nat \<Rightarrow> nat list" where
  "sixes 0 v = []"
| "sixes (Suc k) v = sixes k (v div 64) @ [v mod 64]"

abbreviation read_sixes :: "nat \<Rightarrow> nat list \<Rightarrow> nat" where
  "read_sixes \<equiv> foldl (\<lambda>a d. 64 * a + d)"

lemma sixes_props: "length (sixes k v) = k" "\<forall>d \<in> set (sixes k v). d < 64"
  by (induction k v rule: sixes.induct) auto

lemma read_sixes_sixes: "read_sixes (v div 64 ^ k) (sixes k v) = v"
  by (induction k v rule: sixes.induct) (simp_all add: div_mult2_eq mult.commute)

lemma sixes_read: "\<forall>d \<in> set ds. d < 64 \<Longrightarrow> sixes (length ds) (read_sixes a ds) = ds \<and> read_sixes a ds div 64 ^ length ds = a"
proof (induction ds rule: rev_induct)
  case (snoc d ds)
  then show ?case
    by (simp add: div_mult2_eq[of _ 64, symmetric] power_Suc) (simp add: div_mult2_eq)
qed simp

lemma unat_ucast_byte [simp]: "unat (ucast (b :: byte) :: cppchar_t) = unat b"
  by (simp add: unsigned_ucast_eq take_bit_nat_eq_self order.strict_trans[OF unsigned_less])

lemma unat_sextet: "d < 64 \<Longrightarrow> unat (sextet d) = 128 + d"
  by (simp add: unat_of_nat del: of_nat_add)

lemma is_sextet: "(ucast (b :: byte) :: cppchar_t) AND 0xC0 = 0x80 \<longleftrightarrow> (\<exists>d < 64. b = sextet d)"
proof -
  have b: "unat b < 256"
    using unsigned_less[where ?'a = nat, of b] by simp
  have "unat ((ucast b :: cppchar_t) AND 0xC0) = unat b AND push_bit 6 3"
    by (simp add: unsigned_and_eq push_bit_eq_mult)
  also have "\<dots> = push_bit 6 (unat b div 64 AND mask 2)"
    by (simp only: nat_and_high drop_bit_eq_div) (simp add: mask_eq_exp_minus_1)
  also have "unat b div 64 AND mask 2 = unat b div 64"
    using b by (simp add: take_bit_nat_eq_self less_mult_imp_div_less flip: take_bit_eq_mask)
  finally have "unat ((ucast b :: cppchar_t) AND 0xC0) = 64 * (unat b div 64)"
    by (simp add: push_bit_eq_mult)
  then have "(ucast b :: cppchar_t) AND 0xC0 = 0x80 \<longleftrightarrow> 64 * (unat b div 64) = 128"
    by (simp add: word_unat_eq_iff)
  also have "\<dots> \<longleftrightarrow> 128 \<le> unat b \<and> unat b < 192"
    using div_block[of 64 "unat b" 2] by (simp add: mult.commute)
  also have "\<dots> \<longleftrightarrow> (\<exists>d < 64. unat b = 128 + d)"
    by (auto dest: le_Suc_ex)
  also have "\<dots> \<longleftrightarrow> (\<exists>d < 64. b = sextet d)"
    by (auto simp: word_unat_eq_iff unat_sextet simp del: of_nat_add)
  finally show ?thesis .
qed

lemma sextet_value: "d < 64 \<Longrightarrow> (ucast (sextet d) :: cppchar_t) AND 0x3F = word_of_nat d"
  by (simp add: word_unat_eq_iff unat_and_63 unat_sextet unat_of_nat mod_block[of 2 64] del: of_nat_add)

lemma continuation_total:
  "k \<le> length s \<Longrightarrow> (\<exists>r. continuation k c s = Some (Inr r)) \<or> continuation k c s = Some (Inl EILSEQ)"
proof (induction k c s rule: continuation.induct)
  case (2 k c inbuf)
  then show ?case
    by (cases inbuf) (auto simp: Let_def)
qed simp

definition sextets :: "nat \<Rightarrow> byte list \<Rightarrow> byte list \<Rightarrow> nat list \<Rightarrow> bool" where
  "sextets k s rest ds \<longleftrightarrow> length ds = k \<and> (\<forall>d \<in> set ds. d < 64) \<and> s = map sextet ds @ rest"

lemma sextets_simps [simp]:
  "sextets 0 s rest ds \<longleftrightarrow> ds = [] \<and> s = rest"
  "\<not> sextets (Suc k) [] rest ds"
  "sextets (Suc k) (b # t) rest ds \<longleftrightarrow> (\<exists>d es. ds = d # es \<and> d < 64 \<and> b = sextet d \<and> sextets k t rest es)"
  by (cases ds; auto simp: sextets_def simp del: of_nat_add)+

lemma continuation_sextet:
  assumes "d < 64" shows "continuation (Suc k) c (sextet d # t) = continuation k (push_bit 6 c + word_of_nat d) t"
  using assms is_sextet[of "sextet d"] sextet_value[of d] by (auto simp: Let_def simp del: of_nat_add)

lemma unat_shift_add:
  assumes "(unat c + 1) * 64 ^ Suc k \<le> 2 ^ 32" "d < 64"
  shows "unat (push_bit 6 c + word_of_nat d :: cppchar_t) = 64 * unat c + d"
    "(64 * unat c + d + 1) * 64 ^ k \<le> 2 ^ 32"
proof -
  have "(unat c + 1) * 64 * 1 \<le> (unat c + 1) * 64 * 64 ^ k"
    by (rule mult_le_mono2) simp
  also have "\<dots> = (unat c + 1) * 64 ^ Suc k"
    by (simp only: power_Suc mult.assoc)
  also note assms(1)
  finally have "(unat c + 1) * 64 \<le> 2 ^ 32"
    by (simp only: mult_1_right)
  then show "unat (push_bit 6 c + word_of_nat d :: cppchar_t) = 64 * unat c + d"
    using assms(2) by (simp add: push_bit_eq_mult unat_word_ariths unat_of_nat)
  have "(64 * unat c + d + 1) * 64 ^ k \<le> ((unat c + 1) * 64) * 64 ^ k"
    by (rule mult_le_mono1) (use assms(2) in simp)
  also have "\<dots> = (unat c + 1) * 64 ^ Suc k"
    by (simp only: power_Suc mult.assoc)
  also note assms(1)
  finally show "(64 * unat c + d + 1) * 64 ^ k \<le> 2 ^ 32" .
qed

lemma sextet_inject: "d < 64 \<Longrightarrow> e < 64 \<Longrightarrow> sextet d = sextet e \<longleftrightarrow> d = e"
  using unat_sextet[of d] unat_sextet[of e] by (metis add_left_cancel)

lemma sextets_sextet:
  "d < 64 \<Longrightarrow> sextets (Suc k) (sextet d # t) rest ds \<longleftrightarrow> (\<exists>es. ds = d # es \<and> sextets k t rest es)"
  by (auto simp: sextet_inject simp del: of_nat_add)

lemma continuation_iff:
  assumes "(unat c + 1) * 64 ^ k \<le> 2 ^ 32"
  shows "continuation k c s = Some (Inr (c', rest)) \<longleftrightarrow> (\<exists>ds. sextets k s rest ds \<and> unat c' = read_sixes (unat c) ds)"
  using assms
proof (induction k arbitrary: c s)
  case 0
  then show ?case
    by (auto simp: word_unat_eq_iff)
next
  case (Suc k)
  show ?case
  proof (cases s)
    case (Cons b t)
    show ?thesis
    proof (cases "\<exists>d < 64. b = sextet d")
      case True
      then obtain d where d: "d < 64" "b = sextet d"
        by blast
      note u = unat_shift_add[OF Suc.prems d(1)]
      have "continuation (Suc k) c s = Some (Inr (c', rest)) \<longleftrightarrow>
          (\<exists>ds. sextets k t rest ds \<and> unat c' = read_sixes (64 * unat c + d) ds)"
        using Suc.IH[of "push_bit 6 c + word_of_nat d" t] u Cons d(2) by (simp add: continuation_sextet[OF d(1)] del: continuation.simps of_nat_add)
      then show ?thesis
        using Cons d by (auto simp: sextets_sextet simp del: of_nat_add continuation.simps sextets_simps)
    next
      case False
      then show ?thesis
        using Cons is_sextet[of b] by (auto simp: Let_def simp del: of_nat_add)
    qed
  qed simp
qed

text \<open>The code points that take \<open>n\<close> bytes, and their encoding in terms of the digits.\<close>

definition least_of :: "nat \<Rightarrow> nat" where
  "least_of n = (if n = 2 then 0x80 else 2 ^ (5 * n - 4))"

lemma least_of_simps:
  "least_of 2 = 0x80" "least_of 3 = 0x800" "least_of 4 = 0x10000" "least_of 5 = 0x200000" "least_of 6 = 0x4000000"
  "least_of 7 = 0x80000000"
  by (simp_all add: least_of_def)

definition lead_base :: "nat \<Rightarrow> nat" where
  "lead_base n = 256 - 2 ^ (8 - n)"

lemma sixes_numeral: "sixes (numeral k) v = sixes (pred_numeral k) (v div 64) @ [v mod 64]"
  by (simp only: numeral_eq_Suc sixes.simps)

lemma sixes_num:
  "sixes (Suc 0) v = [v mod 64]" "sixes 2 v = [v div 64 mod 64, v mod 64]"
  "sixes 3 v = [v div 4096 mod 64, v div 64 mod 64, v mod 64]"
  "sixes 4 v = [v div 262144 mod 64, v div 4096 mod 64, v div 64 mod 64, v mod 64]"
  "sixes 5 v = [v div 16777216 mod 64, v div 262144 mod 64, v div 4096 mod 64, v div 64 mod 64, v mod 64]"
  by (simp_all add: sixes_numeral div_mult2_eq[symmetric])

lemma u8_multi:
  assumes "n \<in> {2, 3, 4, 5, 6}" "least_of n \<le> unat c" "unat c < least_of (Suc n)"
  shows "u8 c = word_of_nat (lead_base n + unat c div 64 ^ (n - 1)) # map sextet (sixes (n - 1) (unat c))"
  using assms by (elim insertE emptyE) (simp_all add: u8_def u8_nat_def least_of_simps lead_base_def sixes_num)

lemma announced_lead:
  assumes "n \<in> {2, 3, 4, 5, 6}"
  shows "announced v = n \<longleftrightarrow> lead_base n \<le> v \<and> v < lead_base (Suc n)"
  using assms by (auto simp: announced_def lead_base_def)

lemma unat_lead_bits:
  assumes "n \<in> {2, 3, 4, 5, 6}" "announced (unat b) = n"
  shows "unat ((ucast (b :: byte) :: cppchar_t) AND in_masks ! (n - 1)) = unat b - lead_base n"
proof -
  have "in_masks ! (n - 1) = mask (7 - n)"
    using assms(1) by (auto simp: in_masks_def mask_eq_exp_minus_1)
  then have "unat ((ucast b :: cppchar_t) AND in_masks ! (n - 1)) = unat b mod 2 ^ (7 - n)"
    by (simp add: unsigned_take_bit_eq flip: take_bit_eq_mask) (simp add: take_bit_eq_mod)
  also have "\<dots> = unat b - lead_base n"
    using assms(1) assms(2)[unfolded announced_lead[OF assms(1)]]
    by (elim insertE emptyE)
      (simp_all add: lead_base_def mod_block[of 6 32] mod_block[of 14 16] mod_block[of 30 8] mod_block[of 62 4]
        mod_block[of 126 2])
  finally show ?thesis .
qed

lemma overlong_checks: "n \<in> {2, 3, 4, 5, 6} \<Longrightarrow> not_shortest c n \<longleftrightarrow> \<not> least_of n \<le> unat c"
  by (elim insertE emptyE) (auto simp: not_shortest_def least_of_simps word_le_nat_alt)

lemma not_valid_scalar: "not_valid c \<longleftrightarrow> \<not> scalar c"
  by (auto simp: not_valid_def scalar_def)

lemma decode_multi:
  assumes "0x80 \<le> unat b"
  shows "one_utf8_to_cppchar (b # t) = Some (Inr (c, rest)) \<longleftrightarrow>
           announced (unat b) \<noteq> 7 \<and> least_of (announced (unat b)) \<le> unat c \<and> scalar c \<and>
           (\<exists>ds. sextets (announced (unat b) - 1) t rest ds \<and>
                  unat c = read_sixes (unat b - lead_base (announced (unat b))) ds)"
proof -
  define n where "n = announced (unat b)"
  have b: "unat b < 0x100"
    using unsigned_less[where ?'a = nat, of b] by simp
  have l: "lead_length (ucast b) 2 = Some n"
    using lead_length_announced[of "ucast b"] assms b by (simp add: n_def)
  show ?thesis
  proof (cases "n = 7")
    case True
    then show ?thesis
      using l assms by (simp add: one_utf8_to_cppchar_def Let_def word_less_nat_alt n_def)
  next
    case False
    then have n: "n \<in> {2, 3, 4, 5, 6}"
      by (auto simp: n_def announced_def split: if_splits)
    let ?m = "ucast b AND in_masks ! (n - 1) :: cppchar_t"
    have u: "unat ?m = unat b - lead_base n"
      by (rule unat_lead_bits[OF n n_def[symmetric]])
    have "(unat ?m + 1) * 64 ^ (n - 1) \<le> 2 ^ 32"
      using n n_def[symmetric, unfolded announced_lead[OF n]] unfolding u
      by (elim insertE emptyE; simp add: lead_base_def; arith)
    note c = continuation_iff[OF this, of t c rest, unfolded u]
    have e: "elem in_masks (n - 1) = Some (in_masks ! (n - 1))" "\<not> (ucast b :: cppchar_t) < 0x80"
      using n assms by (auto simp: elem_def in_masks_def word_less_nat_alt)
    consider "Suc (length t) < n" | c0 r0 where "n \<le> Suc (length t)" "continuation (n - 1) ?m t = Some (Inr (c0, r0))"
      | "n \<le> Suc (length t)" "continuation (n - 1) ?m t = Some (Inl EILSEQ)"
      using continuation_total[of "n - 1" t ?m] by fastforce
    then have "one_utf8_to_cppchar (b # t) = Some (Inr (c, rest)) \<longleftrightarrow>
        n \<le> Suc (length t) \<and> continuation (n - 1) ?m t = Some (Inr (c, rest)) \<and> least_of n \<le> unat c \<and> scalar c"
      by cases (use l e False in \<open>auto simp: one_utf8_to_cppchar_def overlong_checks[OF n] not_valid_scalar
          simp del: One_nat_def\<close>)
    moreover have "n \<le> Suc (length t)" if "sextets (n - 1) t rest ds" for ds
      using that by (auto simp: sextets_def)
    ultimately show ?thesis
      using False c unfolding n_def[symmetric] by blast
  qed
qed

lemma scalar_less: "scalar c \<Longrightarrow> unat c < 0x80000000"
  by (simp add: scalar_def word_le_nat_alt)

lemma u8_class:
  assumes "0x80 \<le> unat c" "unat c < 0x80000000"
  obtains n where "n \<in> {2, 3, 4, 5, 6}" "least_of n \<le> unat c" "unat c < least_of (Suc n)"
proof -
  let ?v = "unat c"
  consider "?v < 0x800" | "0x800 \<le> ?v" "?v < 0x10000" | "0x10000 \<le> ?v" "?v < 0x200000"
    | "0x200000 \<le> ?v" "?v < 0x4000000" | "0x4000000 \<le> ?v"
    by linarith
  then show thesis
    using that[of 2] that[of 3] that[of 4] that[of 5] that[of 6] assms by cases (simp_all add: least_of_simps)
qed

lemma class_bound:
  assumes "n \<in> {2, 3, 4, 5, 6}"
  shows "v < least_of (Suc n) \<longleftrightarrow> v div 64 ^ (n - 1) < 2 ^ (7 - n)" "lead_base (Suc n) = lead_base n + 2 ^ (7 - n)"
    "0xC0 \<le> lead_base n" "lead_base (Suc n) \<le> 256"
  using assms by (auto simp: least_of_simps lead_base_def div_less_iff_less_mult)

text \<open>The first byte of an encoding announces its length.\<close>

lemma lead_byte:
  assumes "n \<in> {2, 3, 4, 5, 6}" "unat c < least_of (Suc n)"
  shows "unat (word_of_nat (lead_base n + unat c div 64 ^ (n - 1)) :: byte) = lead_base n + unat c div 64 ^ (n - 1)"
    "announced (lead_base n + unat c div 64 ^ (n - 1)) = n"
proof -
  have "unat c div 64 ^ (n - 1) < 2 ^ (7 - n)"
    using assms class_bound(1) by blast
  then have *: "lead_base n + unat c div 64 ^ (n - 1) < lead_base (Suc n)"
    using class_bound(2)[OF assms(1)] by linarith
  then show "announced (lead_base n + unat c div 64 ^ (n - 1)) = n"
    by (simp add: announced_lead[OF assms(1)])
  show "unat (word_of_nat (lead_base n + unat c div 64 ^ (n - 1)) :: byte) = lead_base n + unat c div 64 ^ (n - 1)"
    using * class_bound(4)[OF assms(1)] by (simp add: unat_of_nat del: of_nat_add)
qed

lemma ucast_byte_back: "ucast (ucast (b :: byte) :: cppchar_t) = b"
  by (rule bit_word_eqI) (simp add: bit_simps)

lemma ucast_single: "unat c < 0x80 \<Longrightarrow> ucast (ucast (c :: cppchar_t) :: byte) = c"
  by (simp add: word_unat_eq_iff unsigned_ucast_eq take_bit_nat_eq_self unsigned_take_bit_eq)

lemma u8_single: "unat c < 0x80 \<Longrightarrow> u8 c = [ucast c]"
  by (simp add: u8_def u8_nat_def flip: ucast_of_nat_byte)

lemma decode_iff: "one_utf8_to_cppchar s = Some (Inr (c, rest)) \<longleftrightarrow> scalar c \<and> s = u8 c @ rest"
proof (cases s)
  case Nil
  then show ?thesis
    using u8_length(2)[of c] by (auto simp: one_utf8_to_cppchar_def)
next
  case (Cons b t)
  show ?thesis
  proof
    assume d: "one_utf8_to_cppchar s = Some (Inr (c, rest))"
    show "scalar c \<and> s = u8 c @ rest"
    proof (cases "unat b < 0x80")
      case True
      then show ?thesis
        using d Cons by (auto simp: one_utf8_to_cppchar_def word_less_nat_alt word_le_nat_alt scalar_def u8_single
            ucast_byte_back)
    next
      case False
      define n where "n = announced (unat b)"
      obtain ds where *: "n \<noteq> 7" "least_of n \<le> unat c" "scalar c" "sextets (n - 1) t rest ds"
          "unat c = read_sixes (unat b - lead_base n) ds"
        using d False unfolding Cons n_def by (auto simp: decode_multi)
      have n: "n \<in> {2, 3, 4, 5, 6}"
        using *(1) by (auto simp: n_def announced_def split: if_splits)
      have ds: "sixes (n - 1) (unat c) = ds" "unat c div 64 ^ (n - 1) = unat b - lead_base n"
        using sixes_read[of ds "unat b - lead_base n"] *(4,5) by (auto simp: sextets_def)
      have b: "lead_base n \<le> unat b" "unat b < lead_base (Suc n)"
        using announced_lead[OF n] n_def by auto
      then have "unat c < least_of (Suc n)"
        using class_bound(1,2)[OF n] ds(2) by simp
      then show ?thesis
        using u8_multi[OF n *(2)] ds b(1) *(3,4) Cons by (simp add: sextets_def)
    qed
  next
    assume u: "scalar c \<and> s = u8 c @ rest"
    show "one_utf8_to_cppchar s = Some (Inr (c, rest))"
    proof (cases "unat c < 0x80")
      case True
      then show ?thesis
        using u by (simp add: u8_single one_utf8_to_cppchar_def word_less_nat_alt ucast_single)
    next
      case False
      then obtain n where n: "n \<in> {2, 3, 4, 5, 6}" "least_of n \<le> unat c" "unat c < least_of (Suc n)"
        using u8_class[of c] u scalar_less by auto
      note l = lead_byte[OF n(1,3)]
      have b: "b = word_of_nat (lead_base n + unat c div 64 ^ (n - 1))" "t = map sextet (sixes (n - 1) (unat c)) @ rest"
        using u Cons u8_multi[OF n] by simp_all
      then have "sextets (n - 1) t rest (sixes (n - 1) (unat c))"
        by (simp add: sextets_def sixes_props)
      then show ?thesis
        unfolding Cons using u n(2) b(1) l class_bound(3)[OF n(1)] n(1) read_sixes_sixes[of "unat c" "n - 1"]
        by (subst decode_multi) (auto simp del: of_nat_add intro!: exI[of _ "sixes (n - 1) (unat c)"])
    qed
  qed
qed

lemma decode_total: "\<exists>r. one_utf8_to_cppchar s = Some r \<and> r \<noteq> Inl E2BIG"
proof (cases s)
  case (Cons b t)
  define n where "n = announced (unat b)"
  show ?thesis
  proof (cases "unat b < 0x80")
    case False
    have "unat b < 0x100"
      using unsigned_less[where ?'a = nat, of b] by simp
    then have l: "lead_length (ucast b) 2 = Some n"
      using lead_length_announced[of "ucast b"] False by (simp add: n_def)
    have "n \<in> {2, 3, 4, 5, 6} \<or> n = 7"
      by (auto simp: n_def announced_def)
    then have m: "n = 7 \<or> elem in_masks (n - 1) = Some (in_masks ! (n - 1))"
      by (auto simp: elem_def in_masks_def)
    consider "Suc (length t) < n"
      | "n \<le> Suc (length t)" "\<exists>c r. continuation (n - 1) (ucast b AND in_masks ! (n - 1)) t = Some (Inr (c, r))"
      | "n \<le> Suc (length t)" "continuation (n - 1) (ucast b AND in_masks ! (n - 1)) t = Some (Inl EILSEQ)"
      using continuation_total[of "n - 1" t "ucast b AND in_masks ! (n - 1)"] by fastforce
    then show ?thesis
      by cases (use m Cons False l in \<open>auto simp: one_utf8_to_cppchar_def word_less_nat_alt simp del: One_nat_def\<close>)
  qed (use Cons in \<open>simp add: one_utf8_to_cppchar_def word_less_nat_alt\<close>)
qed (simp add: one_utf8_to_cppchar_def)

section \<open>UTF-16 and UTF-32\<close>

definition u16 :: "bool \<Rightarrow> cppchar_t \<Rightarrow> byte list" where
  "u16 bigend c =
     (if c \<le> 0xFFFF then two_bytes bigend c
      else two_bytes bigend ((c - 0x10000) div 0x400 + 0xD800) @ two_bytes bigend ((c - 0x10000) mod 0x400 + 0xDC00))"

definition four_bytes :: "bool \<Rightarrow> cppchar_t \<Rightarrow> byte list" where
  "four_bytes bigend c =
     (let bs = map word_of_nat [unat c div 2 ^ 24, unat c div 2 ^ 16, unat c div 2 ^ 8, unat c]
      in if bigend then bs else rev bs)"

definition pair_val :: "bool \<Rightarrow> byte \<Rightarrow> byte \<Rightarrow> cppchar_t" where
  "pair_val bigend x y = (let hi = (if bigend then x else y); lo = (if bigend then y else x) in push_bit 8 (ucast hi) + ucast lo)"

lemma low_byte: "ucast ((s :: cppchar_t) AND 0x00FF) = (ucast s :: byte)"
proof -
  have e: "0x00FF = (mask 8 :: cppchar_t)"
    by (simp add: mask_eq_exp_minus_1)
  show ?thesis
    unfolding e by (rule bit_word_eqI) (simp add: bit_simps)
qed

lemma high_byte:
  assumes "m = push_bit k (mask 8)" "k \<le> 24"
  shows "ucast (drop_bit k ((s :: cppchar_t) AND m)) = (ucast (drop_bit k s) :: byte)"
  unfolding assms(1) by (rule bit_word_eqI) (use assms(2) in \<open>auto simp: bit_simps\<close>)

lemma shift_add_byte: "push_bit 8 (ucast (h :: byte)) + (ucast (l :: byte)) = (push_bit 8 (ucast h) OR ucast l :: cppchar_t)"
  by (rule disjunctive_add_eq_or) (rule bit_word_eqI, auto simp: bit_simps dest: bit_imp_le_length)

lemma two_bytes_eq: "two_bytes be s = (if be then [ucast (drop_bit 8 s), ucast s] else [ucast s, ucast (drop_bit 8 s)])"
  by (simp add: two_bytes_def low_byte high_byte[where k = 8] mask_eq_exp_minus_1 Let_def)

lemma split_bytes:
  assumes "s \<le> 0xFFFF"
  shows "ucast (drop_bit 8 s) = h \<and> ucast s = l \<longleftrightarrow> push_bit 8 (ucast (h :: byte)) + (ucast (l :: byte)) = (s :: cppchar_t)"
proof -
  have "n < 16" if "bit s n" for n
    using bit_less_exp[of "unat s" n 16] assms that by (simp add: word_le_nat_alt bit_unsigned_iff)
  then have "push_bit 8 (ucast (ucast (drop_bit 8 s) :: byte)) OR ucast (ucast s :: byte) = s"
    by (intro bit_word_eqI) (fastforce simp: bit_simps not_le)
  moreover have "ucast (drop_bit 8 (push_bit 8 (ucast h) OR ucast l :: cppchar_t)) = h" "ucast (push_bit 8 (ucast h) OR ucast l :: cppchar_t) = l"
    by (rule bit_word_eqI; auto simp: bit_simps dest: bit_imp_le_length)+
  ultimately show ?thesis
    unfolding shift_add_byte by blast
qed

lemma pair_val_two_bytes: "s \<le> 0xFFFF \<Longrightarrow> two_bytes be s = [x, y] \<longleftrightarrow> pair_val be x y = s"
  using split_bytes[of s x y] split_bytes[of s y x] by (auto simp: two_bytes_eq pair_val_def Let_def)

lemma unat_byte: "unat (b :: byte) < 256"
  using unsigned_less[where ?'a = nat, of b] by simp

lemma unat_two_bytes: "unat (push_bit 8 (ucast (h :: byte)) + (ucast (l :: byte)) :: cppchar_t) = 256 * unat h + unat l"
  using unat_byte[of h] unat_byte[of l] by (simp add: push_bit_eq_mult unat_word_ariths)

lemma pair_val_le: "pair_val be x y \<le> 0xFFFF"
  using unat_byte[of x] unat_byte[of y] by (simp add: pair_val_def Let_def word_le_nat_alt unat_two_bytes)

lemma two_bytes_pair: "s \<le> 0xFFFF \<Longrightarrow> \<exists>x y. two_bytes be s = [x, y] \<and> pair_val be x y = s"
  using pair_val_two_bytes[of s be, THEN iffD1] by (cases be) (auto simp: two_bytes_eq)

text \<open>The code points of UTF-16, and the two halves of a surrogate pair.\<close>

definition scalar16 :: "cppchar_t \<Rightarrow> bool" where
  "scalar16 c \<longleftrightarrow> c \<le> 0x10FFFF \<and> \<not> (0xD800 \<le> c \<and> c \<le> 0xDFFF)"

lemma unat_sub_le: "(b :: 32 word) \<le> a \<Longrightarrow> unat (a - b) = unat a - unat b"
  by (simp add: unat_sub_if_size word_le_nat_alt)

lemma surrogate_halves:
  assumes "\<not> c \<le> 0xFFFF" "c \<le> (0x10FFFF :: cppchar_t)"
  shows "unat ((c - 0x10000) div 0x400 + 0xD800) = (unat c - 0x10000) div 0x400 + 0xD800"
    "unat ((c - 0x10000) mod 0x400 + 0xDC00) = (unat c - 0x10000) mod 0x400 + 0xDC00"
proof -
  have c: "0x10000 \<le> c" "unat c \<le> 0x10FFFF"
    using assms by (simp_all add: word_le_nat_alt)
  have "(unat c - 0x10000) div 0x400 < 0x400"
    using c(2) by (simp add: div_less_iff_less_mult)
  then show "unat ((c - 0x10000) div 0x400 + 0xD800) = (unat c - 0x10000) div 0x400 + 0xD800"
    using c(1) by (simp add: unat_word_ariths unat_div_distrib unat_sub_le)
  have "(unat c - 0x10000) mod 0x400 < 0x400"
    by simp
  then show "unat ((c - 0x10000) mod 0x400 + 0xDC00) = (unat c - 0x10000) mod 0x400 + 0xDC00"
    using c(1) by (simp add: unat_word_ariths unat_mod_distrib unat_sub_le)
qed

lemma surrogate_join:
  assumes "0xD800 \<le> hi" "hi \<le> 0xDBFF" "0xDC00 \<le> lo" "lo \<le> (0xDFFF :: cppchar_t)"
  shows "unat (surrogate_value hi lo) = (unat hi - 0xD800) * 0x400 + (unat lo - 0xDC00) + 0x10000"
  using assms by (simp add: surrogate_value_def unat_word_ariths unat_sub_le word_le_nat_alt)

lemma surrogate_pair:
  assumes "hi \<le> 0xFFFF" "lo \<le> 0xFFFF"
  shows "0xD800 \<le> hi \<and> hi \<le> 0xDBFF \<and> 0xDC00 \<le> lo \<and> lo \<le> 0xDFFF \<and> c = surrogate_value hi lo
     \<longleftrightarrow> \<not> c \<le> 0xFFFF \<and> c \<le> (0x10FFFF :: cppchar_t) \<and> hi = (c - 0x10000) div 0x400 + 0xD800 \<and> lo = (c - 0x10000) mod 0x400 + 0xDC00"
  (is "?L \<longleftrightarrow> ?R")
proof
  assume l: ?L
  note u = surrogate_join[of hi lo]
  have c: "unat c = (unat hi - 0xD800) * 0x400 + (unat lo - 0xDC00) + 0x10000"
    using u l by simp
  then have r: "\<not> c \<le> 0xFFFF" "c \<le> 0x10FFFF"
    using l by (auto simp: word_le_nat_alt)
  obtain h k where "unat hi = 0xD800 + h" "unat lo = 0xDC00 + k" "k < 0x400"
    using l le_Suc_ex[of "0xD800" "unat hi"] le_Suc_ex[of "0xDC00" "unat lo"] by (auto simp: word_le_nat_alt)
  then show ?R
    using r by (simp add: word_unat_eq_iff[of hi] word_unat_eq_iff[of lo] surrogate_halves[OF r] c)
next
  assume r: ?R
  have c: "unat hi = (unat c - 0x10000) div 0x400 + 0xD800" "unat lo = (unat c - 0x10000) mod 0x400 + 0xDC00"
    using surrogate_halves[of c] r by simp_all
  have "(unat c - 0x10000) div 0x400 < 0x400" "(unat c - 0x10000) mod 0x400 < 0x400" "0x10000 \<le> unat c"
    using r by (auto simp: div_less_iff_less_mult word_le_nat_alt)
  then have l: "0xD800 \<le> hi" "hi \<le> 0xDBFF" "0xDC00 \<le> lo" "lo \<le> 0xDFFF"
    by (simp_all add: word_le_nat_alt c)
  then show ?L
    using \<open>0x10000 \<le> unat c\<close> by (simp add: word_unat_eq_iff[of c] surrogate_join c)
qed

text \<open>The character that the code reads from UTF-16, before it is written as UTF-8.\<close>

definition utf16_char :: "bool \<Rightarrow> byte list \<Rightarrow> errno + cppchar_t \<times> byte list" where
  "utf16_char be s =
     (case s of
        x # y # t \<Rightarrow>
          (let u = pair_val be x y in
           if 0xDC00 \<le> u \<and> u \<le> 0xDFFF then Inl EILSEQ
           else if 0xD800 \<le> u \<and> u \<le> 0xDBFF then
             (case t of
                x' # y' # t' \<Rightarrow>
                  (let lo = pair_val be x' y' in
                   if lo < 0xDC00 \<or> lo > 0xDFFF then Inl EILSEQ
                   else Inr (surrogate_value u lo, t'))
              | _ \<Rightarrow> Inl EINVAL)
           else Inr (u, t))
      | _ \<Rightarrow> Inl EINVAL)"

lemma byte_at_simps:
  "byte_at (x # s) 0 = Some (ucast x)" "byte_at (x # s) (Suc i) = byte_at s i"
  "byte_at (x # s) (numeral k) = byte_at s (pred_numeral k)"
  by (simp_all add: byte_at_def elem_def numeral_eq_Suc)

lemma utf16_unit_simps:
  "utf16_unit be (x # y # t) 0 = Some (pair_val be x y)"
  "utf16_unit be (x # y # x' # y' # t) 2 = Some (pair_val be x' y')"
  by (simp_all add: utf16_unit_def byte_at_simps pair_val_def)

lemma surrogate_value_big:
  assumes "0xD800 \<le> hi" "hi \<le> 0xDBFF" "0xDC00 \<le> lo" "lo \<le> 0xDFFF"
  shows "\<not> surrogate_value hi lo \<le> 0xFFFF"
  using surrogate_join[OF assms] by (simp add: word_le_nat_alt)

lemma utf16_step:
  "one_utf16_to_utf8 be s n =
     (case utf16_char be s of
        Inl e \<Rightarrow> Some (Inl e)
      | Inr (c, rest) \<Rightarrow> map_option (map_sum id (\<lambda>out. (rest, out))) (one_cppchar_to_utf8 c n))"
proof -
  have m: "Option.bind (one_cppchar_to_utf8 c n) (\<lambda>r. Some (case r of Inl e \<Rightarrow> Inl e | Inr out \<Rightarrow> Inr (rest, out)))
      = map_option (map_sum id (\<lambda>out. (rest, out))) (one_cppchar_to_utf8 c n)" for c and rest :: "byte list"
    by (auto split: bind_split sum.splits)
  consider "s = []" | x where "s = [x]" | x y where "s = [x, y]" | x y z where "s = [x, y, z]"
    | x y x' y' t where "s = x # y # x' # y' # t"
    by (metis list.exhaust)
  then show ?thesis
    by cases (auto simp: one_utf16_to_utf8_def utf16_char_def utf16_unit_simps pair_val_le surrogate_value_big m
        Let_def not_less)
qed

lemma utf16_char_read: "scalar16 c \<Longrightarrow> utf16_char be (u16 be c @ rest) = Inr (c, rest)"
proof (cases "c \<le> 0xFFFF")
  case True
  assume "scalar16 c"
  moreover obtain x y where "two_bytes be c = [x, y]" "pair_val be x y = c"
    using two_bytes_pair[OF True] by blast
  ultimately show ?thesis
    using True by (auto simp: utf16_char_def u16_def scalar16_def Let_def word_le_nat_alt)
next
  case False
  assume "scalar16 c"
  let ?hi = "(c - 0x10000) div 0x400 + 0xD800" and ?lo = "(c - 0x10000) mod 0x400 + 0xDC00"
  have c: "c \<le> 0x10FFFF"
    using \<open>scalar16 c\<close> by (simp add: scalar16_def)
  then have "(unat c - 0x10000) div 0x400 < 0x400" "(unat c - 0x10000) mod 0x400 < 0x400"
    by (simp_all add: div_less_iff_less_mult word_le_nat_alt)
  then have l: "?hi \<le> 0xFFFF" "?lo \<le> 0xFFFF" "c \<le> 0x10FFFF"
    using surrogate_halves[OF False c] c by (simp_all add: word_le_nat_alt)
  obtain x y x' y' where "two_bytes be ?hi = [x, y]" "pair_val be x y = ?hi"
      "two_bytes be ?lo = [x', y']" "pair_val be x' y' = ?lo"
    using two_bytes_pair[OF l(1)] two_bytes_pair[OF l(2)] by blast
  moreover have "0xD800 \<le> ?hi" "?hi \<le> 0xDBFF" "0xDC00 \<le> ?lo" "?lo \<le> 0xDFFF" "surrogate_value ?hi ?lo = c"
    using False surrogate_pair[OF l(1,2), of c] l(3) by metis+
  moreover then have "\<not> 0xDC00 \<le> ?hi" "\<not> ?lo < 0xDC00" "\<not> 0xDFFF < ?lo"
    by (simp_all only: word_le_nat_alt word_less_nat_alt) simp_all
  ultimately show ?thesis
    using False by (simp add: utf16_char_def u16_def)
qed

lemma utf16_char_iff: "utf16_char be s = Inr (c, rest) \<longleftrightarrow> scalar16 c \<and> s = u16 be c @ rest"
proof
  assume d: "utf16_char be s = Inr (c, rest)"
  then obtain x y t where s: "s = x # y # t"
    by (auto simp: utf16_char_def split: list.splits)
  let ?u = "pair_val be x y"
  show "scalar16 c \<and> s = u16 be c @ rest"
  proof (cases "0xD800 \<le> ?u \<and> ?u \<le> 0xDBFF")
    case True
    then obtain x' y' where t: "t = x' # y' # rest" "c = surrogate_value ?u (pair_val be x' y')"
        "0xDC00 \<le> pair_val be x' y'" "pair_val be x' y' \<le> 0xDFFF"
      using d s by (auto simp: utf16_char_def Let_def not_less split: list.splits if_splits)
    let ?v = "pair_val be x' y'"
    have r: "\<not> c \<le> 0xFFFF" "c \<le> 0x10FFFF" "?u = (c - 0x10000) div 0x400 + 0xD800" "?v = (c - 0x10000) mod 0x400 + 0xDC00"
      using surrogate_pair[OF pair_val_le pair_val_le, of be x y be x' y' c] True t by auto
    have "two_bytes be ?u = [x, y]" "two_bytes be ?v = [x', y']"
      by (simp_all add: pair_val_two_bytes pair_val_le)
    then show ?thesis
      using r s t(1) by (auto simp: u16_def scalar16_def word_le_nat_alt)
  next
    case False
    then have "c = ?u" "rest = t" "\<not> (0xD800 \<le> ?u \<and> ?u \<le> 0xDFFF)"
      using d s by (auto simp: utf16_char_def Let_def word_le_nat_alt split: if_splits)
    moreover have "two_bytes be ?u = [x, y]"
      by (simp add: pair_val_two_bytes pair_val_le)
    ultimately show ?thesis
      using pair_val_le[of be x y] s by (auto simp: u16_def scalar16_def word_le_nat_alt)
  qed
qed (auto simp: utf16_char_read)

lemma utf16_char_error: "utf16_char be s \<noteq> Inl E2BIG"
  by (auto simp: utf16_char_def Let_def split: list.splits)

text \<open>UTF-32.\<close>

definition scalar32 :: "cppchar_t \<Rightarrow> bool" where
  "scalar32 c \<longleftrightarrow> scalar c \<and> c \<noteq> 0x7FFFFFFF"

definition utf32_val :: "bool \<Rightarrow> byte \<Rightarrow> byte \<Rightarrow> byte \<Rightarrow> byte \<Rightarrow> cppchar_t" where
  "utf32_val be w x y z =
     (if be then push_bit 24 (ucast w) + push_bit 16 (ucast x) + push_bit 8 (ucast y) + ucast z
      else push_bit 24 (ucast z) + push_bit 16 (ucast y) + push_bit 8 (ucast x) + ucast w)"

lemma unat_four_bytes:
  "unat (push_bit 24 (ucast (w :: byte)) + push_bit 16 (ucast (x :: byte)) + push_bit 8 (ucast (y :: byte)) + ucast (z :: byte) :: cppchar_t)
     = 2 ^ 24 * unat w + 2 ^ 16 * unat x + 2 ^ 8 * unat y + unat z"
  using unat_byte[of w] unat_byte[of x] unat_byte[of y] unat_byte[of z]
  by (simp add: push_bit_eq_mult unat_word_ariths)

lemma bytes_of_four:
  assumes "w < 256" "x < 256" "y < 256" "z < (256 :: nat)"
  shows "(2 ^ 24 * w + 2 ^ 16 * x + 2 ^ 8 * y + z) div 2 ^ 24 mod 256 = w"
    "(2 ^ 24 * w + 2 ^ 16 * x + 2 ^ 8 * y + z) div 2 ^ 16 mod 256 = x"
    "(2 ^ 24 * w + 2 ^ 16 * x + 2 ^ 8 * y + z) div 2 ^ 8 mod 256 = y"
    "(2 ^ 24 * w + 2 ^ 16 * x + 2 ^ 8 * y + z) mod 256 = z"
proof -
  have v: "2 ^ 24 * w + 2 ^ 16 * x + 2 ^ 8 * y + z = ((w * 256 + x) * 256 + y) * 256 + z"
    by simp
  have e: "(a * 256 + b) div 256 = a" "(a * 256 + b) mod 256 = b" if "b < 256" for a b :: nat
    using that by simp_all
  have p: "(2 :: nat) ^ 8 = 256" "n div 2 ^ 16 = n div 256 div 256" "n div 2 ^ 24 = n div 256 div 256 div 256" for n :: nat
    by (simp_all add: div_mult2_eq[symmetric])
  show "(2 ^ 24 * w + 2 ^ 16 * x + 2 ^ 8 * y + z) div 2 ^ 24 mod 256 = w"
    "(2 ^ 24 * w + 2 ^ 16 * x + 2 ^ 8 * y + z) div 2 ^ 16 mod 256 = x"
    unfolding v unfolding p by (simp_all only: e assms) (use assms in simp)
  show "(2 ^ 24 * w + 2 ^ 16 * x + 2 ^ 8 * y + z) div 2 ^ 8 mod 256 = y"
    "(2 ^ 24 * w + 2 ^ 16 * x + 2 ^ 8 * y + z) mod 256 = z"
    unfolding v unfolding p by (simp_all only: e assms)
qed

lemma four_split:
  fixes c :: cppchar_t and w x y z :: byte
  shows "unat w = unat c div 2 ^ 24 mod 256 \<and> unat x = unat c div 2 ^ 16 mod 256 \<and>
         unat y = unat c div 2 ^ 8 mod 256 \<and> unat z = unat c mod 256
     \<longleftrightarrow> unat c = 2 ^ 24 * unat w + 2 ^ 16 * unat x + 2 ^ 8 * unat y + unat z" (is "?L \<longleftrightarrow> ?R")
proof
  assume l: ?L
  have e: "a = 2 ^ 24 * w' + 2 ^ 16 * x' + 2 ^ 8 * y' + z'"
    if "256 * b + z' = a" "256 * d + y' = b" "256 * w' + x' = d" for a b d w' x' y' z' :: nat
    using that by simp
  have "unat c div 2 ^ 24 mod 256 = unat c div 2 ^ 24"
    using unat_32_num[of c] by (simp add: div_less_iff_less_mult)
  moreover have "256 * (unat c div 2 ^ 8) + unat c mod 256 = unat c"
    "256 * (unat c div 2 ^ 16) + unat c div 2 ^ 8 mod 256 = unat c div 2 ^ 8"
    "256 * (unat c div 2 ^ 24) + unat c div 2 ^ 16 mod 256 = unat c div 2 ^ 16"
    using mult_div_mod_eq[of 256 "unat c"] mult_div_mod_eq[of 256 "unat c div 2 ^ 8"]
      mult_div_mod_eq[of 256 "unat c div 2 ^ 16"]
    by (simp_all add: div_mult2_eq[symmetric])
  ultimately show ?R
    using l e by metis
next
  assume r: ?R
  show ?L
    unfolding r using bytes_of_four[OF unat_byte unat_byte unat_byte unat_byte, of w x y z] by simp
qed

lemma byte_of_nat_iff: "(word_of_nat n :: byte) = b \<longleftrightarrow> unat b = n mod 256"
  by (auto simp: word_unat_eq_iff unat_of_nat)

lemma ucast_byte_iff: "ucast (c :: cppchar_t) = (b :: byte) \<longleftrightarrow> unat b = unat c mod 256"
  using byte_of_nat_iff[of "unat c" b] by simp

lemma four_bytes_val: "four_bytes be c = [w, x, y, z] \<longleftrightarrow> utf32_val be w x y z = c"
proof (cases be)
  case True
  then have "four_bytes be c = [w, x, y, z] \<longleftrightarrow>
      unat w = unat c div 2 ^ 24 mod 256 \<and> unat x = unat c div 2 ^ 16 mod 256 \<and> unat y = unat c div 2 ^ 8 mod 256 \<and> unat z = unat c mod 256"
    by (simp add: four_bytes_def byte_of_nat_iff ucast_byte_iff)
  then show ?thesis
    using True unfolding four_split by (simp only: utf32_val_def if_True word_unat_eq_iff[of _ c] unat_four_bytes) metis
next
  case False
  then have "four_bytes be c = [w, x, y, z] \<longleftrightarrow>
      unat z = unat c div 2 ^ 24 mod 256 \<and> unat y = unat c div 2 ^ 16 mod 256 \<and> unat x = unat c div 2 ^ 8 mod 256 \<and> unat w = unat c mod 256"
    by (auto simp: four_bytes_def byte_of_nat_iff ucast_byte_iff)
  then show ?thesis
    using False unfolding four_split by (simp only: utf32_val_def if_False word_unat_eq_iff[of _ c] unat_four_bytes) metis
qed

section \<open>Properties\<close>

text \<open>
  C22: The decoder and the encoder of UTF-8 are inverse to each other. \<^verbatim>\<open>one_utf8_to_cppchar\<close> delivers a
  character exactly when it has 31 bits, is not a surrogate, and the input begins with the bytes
  that \<^verbatim>\<open>one_cppchar_to_utf8\<close> writes for it; it then consumes these bytes. In particular no longer
  encoding of a character is accepted.
\<close>

theorem utf8_roundtrip:
  "one_utf8_to_cppchar s = Some (Inr (c, rest)) \<longleftrightarrow>
     c \<le> 0x7FFFFFFF \<and> \<not> (0xD800 \<le> c \<and> c \<le> 0xDFFF) \<and>
     (\<exists>bs. one_cppchar_to_utf8 c 6 = Some (Inr bs) \<and> s = bs @ rest)"
proof (cases "c \<le> 0x7FFFFFFF")
  case True
  then have "one_cppchar_to_utf8 c 6 = Some (Inr (u8 c))"
    using u8_length(1)[of c] by (simp add: to_utf8_encodes word_le_nat_alt)
  then show ?thesis
    by (auto simp: decode_iff scalar_def True)
qed (simp add: decode_iff scalar_def)

text \<open>
  C23: The bounds of the arrays. Reading UTF-8 never leaves the input or the tables. Writing it stays
  inside the buffer of six bytes and the tables exactly for characters of at most 31 bits; what
  it writes is between one and six bytes and never more than the room it was given.
\<close>

theorem utf8_bounds:
  "one_utf8_to_cppchar s \<noteq> None \<and>
   (one_cppchar_to_utf8 c n = None \<longleftrightarrow> 0x80000000 \<le> c) \<and>
   (\<forall>bs. one_cppchar_to_utf8 c n = Some (Inr bs) \<longrightarrow> 1 \<le> length bs \<and> length bs \<le> 6 \<and> length bs \<le> n)"
  using decode_total[of s] to_utf8_overflow[of c n] to_utf8_encodes[of c n] u8_length[of c]
  by (cases "unat c < 0x80000000") (auto simp: word_le_nat_alt Suc_le_eq)

theorem utf8_bounds_witness:
  "one_utf8_to_cppchar [0xC3] \<noteq> None \<and> one_cppchar_to_utf8 0x80000000 6 = None \<and>
   1 \<le> length [0xE2, 0x82, 0xAC :: byte] \<and> length [0xE2, 0x82, 0xAC :: byte] \<le> 3"
proof -
  have "one_cppchar_to_utf8 0x20AC 3 = Some (Inr [0xE2, 0x82, 0xAC])"
    by code_simp
  then show ?thesis
    using utf8_bounds[of "[0xC3]" "0x80000000" 6] utf8_bounds[of "[]" "0x20AC" 3] by simp
qed

end
