(* ===== verification/Cpp_Ucn.thy ===== *)
theory Cpp_Ucn
  imports Cpp_Ucnid Cpp_Utf Cpp_Reader
begin

text \<open>
  Universal character names, from \<^verbatim>\<open>libcpp/charset.c\<close>: the search in the table of characters, the
  test whether a character may stand in an identifier together with the state that tracks
  normalization, and \<^verbatim>\<open>_cpp_valid_ucn\<close>, which reads the digits of a name. The bytes of a
  spelling are a list and a pointer into them is an index.
\<close>

section \<open>Characters in identifiers\<close>

definition C99 :: "16 word" where "C99 = 1"
definition N99 :: "16 word" where "N99 = 2"
definition CXX :: "16 word" where "CXX = 4"
definition C11 :: "16 word" where "C11 = 8"
definition N11 :: "16 word" where "N11 = 16"
definition CID :: "16 word" where "CID = 32"
definition NFC :: "16 word" where "NFC = 64"
definition NKC :: "16 word" where "NKC = 128"
definition CTX :: "16 word" where "CTX = 256"

datatype cpp_normalize_level = normalized_KC | normalized_C | normalized_identifier_C | normalized_none

primrec level_ord :: "cpp_normalize_level \<Rightarrow> nat" where
  "level_ord normalized_KC = 0"
| "level_ord normalized_C = 1"
| "level_ord normalized_identifier_C = 2"
| "level_ord normalized_none = 3"

definition MAX_level :: "cpp_normalize_level \<Rightarrow> cpp_normalize_level \<Rightarrow> cpp_normalize_level" where
  "MAX_level a b = (if level_ord a > level_ord b then a else b)"

record normalize_state =
  previous :: cppchar_t
  prev_class :: "8 word"
  level :: cpp_normalize_level

definition INITIAL_NORMALIZE_STATE :: normalize_state where
  "INITIAL_NORMALIZE_STATE = \<lparr>previous = 0, prev_class = 0, level = normalized_KC\<rparr>"

definition NORMALIZE_STATE_UPDATE_IDNUM :: "normalize_state \<Rightarrow> cppchar_t \<Rightarrow> normalize_state" where
  "NORMALIZE_STATE_UPDATE_IDNUM st c = st\<lparr>previous := c, prev_class := 0\<rparr>"

text \<open>The binary search; \<open>None\<close> is a read outside the table.\<close>

partial_function (option) ucn_search :: "cppchar_t \<Rightarrow> nat \<Rightarrow> nat \<Rightarrow> nat option" where [code]:
  "ucn_search c mn mx =
     (if mx \<noteq> mn then
        (let md = (mn + mx) div 2 in
         do { r \<leftarrow> elem ucnranges md;
              if c \<le> ucn_end r then ucn_search c mn md else ucn_search c (md + 1) mx })
      else Some mn)"

definition check_nfc :: "cpp_reader \<Rightarrow> cppchar_t \<Rightarrow> cppchar_t \<Rightarrow> bool \<times> cpp_reader" where
  "check_nfc pfile c p =
     (case map_of nfc_cases c of
        Some ps \<Rightarrow> (p \<notin> set ps, pfile)
      | None \<Rightarrow> (True, cpp_error pfile CPP_DL_ICE ''Character %x might not be NFKC''))"

text \<open>The part of \<^verbatim>\<open>ucn_valid_in_identifier\<close> that updates \<^verbatim>\<open>NST\<close>, for the entry \<open>r\<close> that was found.\<close>

definition medial_vowel :: "cppchar_t \<Rightarrow> bool" where
  "medial_vowel c \<longleftrightarrow> c \<ge> 0x1161 \<and> c \<le> 0x1175"

definition final_consonant :: "cppchar_t \<Rightarrow> bool" where
  "final_consonant c \<longleftrightarrow> c \<ge> 0x11A8 \<and> c \<le> 0x11C2"

definition nfc_safe :: "cpp_reader \<Rightarrow> cppchar_t \<Rightarrow> cppchar_t \<Rightarrow> bool \<times> cpp_reader" where
  "nfc_safe pfile c p =
     (if medial_vowel c then (p < 0x1100 \<or> p > 0x1112, pfile)
      else if final_consonant c then (p < 0xAC00 \<or> p > 0xD7A3 \<or> (p - 0xAC00) mod 28 \<noteq> 0, pfile)
      else check_nfc pfile c p)"

definition update_nst :: "cpp_reader \<Rightarrow> ucnrange \<Rightarrow> cppchar_t \<Rightarrow> normalize_state \<Rightarrow> normalize_state \<times> cpp_reader" where
  "update_nst pfile r c nst =
     (let (nst, pfile) =
        (if ucn_combine r \<noteq> 0 \<and> ucn_combine r < prev_class nst then (nst\<lparr>level := normalized_none\<rparr>, pfile)
         else if ucn_flags r AND CTX \<noteq> 0 then
           (let (safe, pfile) = nfc_safe pfile c (previous nst) in
            if \<not> safe then
              (nst\<lparr>level := (if medial_vowel c \<or> final_consonant c
                             then MAX_level (level nst) normalized_identifier_C else normalized_none)\<rparr>, pfile)
            else (nst, pfile))
         else if ucn_flags r AND NKC \<noteq> 0 then (nst, pfile)
         else if ucn_flags r AND NFC \<noteq> 0 then (nst\<lparr>level := MAX_level (level nst) normalized_C\<rparr>, pfile)
         else if ucn_flags r AND CID \<noteq> 0 then (nst\<lparr>level := MAX_level (level nst) normalized_identifier_C\<rparr>, pfile)
         else (nst\<lparr>level := normalized_none\<rparr>, pfile))
      in ((if ucn_combine r = 0 then nst\<lparr>previous := c\<rparr> else nst)\<lparr>prev_class := ucn_combine r\<rparr>, pfile))"

definition valid_flags :: "cpp_options \<Rightarrow> 16 word" where
  "valid_flags o' =
     (if cpp_pedantic o' then
        (if c11_identifiers o' then C11
         else if c99 o' then C99
         else if cplusplus o' then CXX
         else C99 OR CXX OR C11)
      else C99 OR CXX OR C11)"

definition invalid_start_flags :: "cpp_options \<Rightarrow> 16 word" where
  "invalid_start_flags o' = (if c11_identifiers o' then N11 else if c99 o' then N99 else 0)"

definition ucn_valid_in_identifier ::
    "cpp_reader \<Rightarrow> cppchar_t \<Rightarrow> normalize_state \<Rightarrow> (nat \<times> normalize_state \<times> cpp_reader) option" where
  "ucn_valid_in_identifier pfile c nst =
     (if c > 0x10FFFF then Some (0, nst, pfile)
      else
        do { mn \<leftarrow> ucn_search c 0 (length ucnranges - 1);
             r \<leftarrow> elem ucnranges mn;
             if ucn_flags r AND valid_flags (opts pfile) = 0 then Some (0, nst, pfile)
             else
               (let (nst, pfile) = update_nst pfile r c nst in
                Some (if ucn_flags r AND invalid_start_flags (opts pfile) \<noteq> 0 then 2 else 1, nst, pfile)) })"

section \<open>Reading a universal character name\<close>

text \<open>\<^verbatim>\<open>s[i]\<close>: a spelling is followed by a NUL.\<close>

definition byte_in :: "byte list \<Rightarrow> nat \<Rightarrow> byte" where
  "byte_in s i = (if i < length s then s ! i else 0)"

abbreviation chr_of :: "byte \<Rightarrow> uchar" where
  "chr_of b \<equiv> char_of (unat b)"

definition b_of :: "char \<Rightarrow> byte" where
  "b_of c = word_of_nat (of_char c)"

text \<open>The loop over the digits; it returns where it stops, how many digits are missing, and the value.\<close>

function ucn_digits :: "byte list \<Rightarrow> nat \<Rightarrow> nat \<Rightarrow> nat \<Rightarrow> cppchar_t \<Rightarrow> nat \<times> nat \<times> cppchar_t" where
  "ucn_digits s limit str len result =
     (let c = chr_of (byte_in s str) in
      if \<not> ISXDIGIT c then (str, len, result)
      else
        (let str = str + 1; result = push_bit 4 result + word_of_nat (hex_value c); len = len - 1 in
         if len \<noteq> 0 \<and> str < limit then ucn_digits s limit str len result else (str, len, result)))"
  by pat_completeness auto
termination
  by (relation "measure (\<lambda>(s, limit, str, len, result). len)") auto

declare ucn_digits.simps [simp del]

text \<open>The diagnostics at the start of \<^verbatim>\<open>_cpp_valid_ucn\<close>; \<open>kind\<close> is the \<^verbatim>\<open>u\<close> or \<^verbatim>\<open>U\<close>.\<close>

definition ucn_preamble :: "cpp_reader \<Rightarrow> nat \<Rightarrow> byte \<Rightarrow> cpp_reader" where
  "ucn_preamble pfile identifier_pos kind =
     (let o' = opts pfile;
          pfile =
            (if \<not> cplusplus o' \<and> \<not> c99 o' then
               cpp_error pfile CPP_DL_WARNING ''universal character names are only valid in C++ and C99''
             else if cpp_warn_c90_c99_compat o' \<and> \<not> cplusplus o' then
               cpp_error pfile CPP_DL_WARNING ''C99 universal character names are incompatible with C90''
             else if cpp_warn_traditional o' \<and> identifier_pos = 0 then
               cpp_warning pfile CPP_W_TRADITIONAL ''the meaning of %c after a backslash is different in traditional C''
             else pfile)
      in diag_if (kind \<noteq> b_of CHR ''u'' \<and> kind \<noteq> b_of CHR ''U'')
           (\<lambda>r. cpp_error r CPP_DL_ICE ''In _cpp_valid_ucn but not a UCN'') pfile)"

text \<open>
  The result is whether the name has been consumed, the new position, the value, and the states.
  \<open>str\<close> is the position behind the \<^verbatim>\<open>u\<close> or \<^verbatim>\<open>U\<close>.
\<close>

definition cpp_valid_ucn ::
    "cpp_reader \<Rightarrow> byte list \<Rightarrow> nat \<Rightarrow> nat \<Rightarrow> nat \<Rightarrow> normalize_state \<Rightarrow>
     (bool \<times> nat \<times> cppchar_t \<times> normalize_state \<times> cpp_reader) option" where
  "cpp_valid_ucn pfile s pstr limit identifier_pos nst =
     (let o' = opts pfile; kind = byte_in s (pstr - 1);
          pfile = ucn_preamble pfile identifier_pos kind;
          (str, missing, result) = ucn_digits s limit pstr (if kind = b_of CHR ''U'' then 8 else 4) 0
      in
      if missing \<noteq> 0 \<and> identifier_pos \<noteq> 0 then Some (False, pstr, 0, nst, pfile)
      else if missing \<noteq> 0 then
        Some (True, str, 1, nst, cpp_error pfile CPP_DL_ERROR ''incomplete universal character name %.*s'')
      else if (result < 0xa0 \<and> \<not> cplusplus o' \<and> result \<noteq> 0x24 \<and> result \<noteq> 0x40 \<and> result \<noteq> 0x60)
              \<or> result AND 0x80000000 \<noteq> 0 \<or> (result \<ge> 0xD800 \<and> result \<le> 0xDFFF) then
        Some (True, str, 1, nst, cpp_error pfile CPP_DL_ERROR ''%.*s is not a valid universal character'')
      else if identifier_pos \<noteq> 0 \<and> result = 0x24 \<and> dollars_in_ident o' then
        (let pfile =
           (if warn_dollars o' \<and> \<not> skipping pfile then
              cpp_error (pfile\<lparr>opts := o'\<lparr>warn_dollars := False\<rparr>\<rparr>) CPP_DL_PEDWARN ''$ in identifier or number''
            else pfile)
         in Some (True, str, result, NORMALIZE_STATE_UPDATE_IDNUM nst result, pfile))
      else if identifier_pos \<noteq> 0 then
        do { (validity, nst, pfile) \<leftarrow> ucn_valid_in_identifier pfile result nst;
             let pfile =
               (if validity = 0 then
                  cpp_error pfile CPP_DL_ERROR ''universal character %.*s is not valid in an identifier''
                else if validity = 2 \<and> identifier_pos = 1 then
                  cpp_error pfile CPP_DL_ERROR ''universal character %.*s is not valid at the start of an identifier''
                else pfile);
             Some (True, str, result, nst, pfile) }
      else Some (True, str, result, nst, pfile))"

section \<open>The search is a search\<close>

lemma ascending_sorted: "ascending xs \<Longrightarrow> sorted_wrt (<) xs"
proof (induction xs rule: ascending.induct)
  case (1 x y zs)
  then have "x < y" "\<forall>z \<in> set zs. y < z"
    by auto
  with 1 show ?case
    by (auto intro: less_trans)
qed auto

lemma ends_less: "i < j \<Longrightarrow> j < length ucnranges \<Longrightarrow> ucn_end (ucnranges ! i) < ucn_end (ucnranges ! j)"
  using ascending_sorted[OF ucnranges_ascending] by (auto simp: sorted_wrt_iff_nth_less)

lemma ends_le: "i \<le> j \<Longrightarrow> j < length ucnranges \<Longrightarrow> ucn_end (ucnranges ! i) \<le> ucn_end (ucnranges ! j)"
  using ends_less[of i j] by (cases "i = j") auto

lemma ucn_search_finds:
  assumes "mn \<le> mx" "mx < length ucnranges" "\<forall>i < mn. ucn_end (ucnranges ! i) < c" "c \<le> ucn_end (ucnranges ! mx)"
  shows "\<exists>k \<le> mx. ucn_search c mn mx = Some k \<and> (\<forall>i < k. ucn_end (ucnranges ! i) < c) \<and> c \<le> ucn_end (ucnranges ! k)"
  using assms
proof (induction "mx - mn" arbitrary: mn mx rule: less_induct)
  case less
  show ?case
  proof (cases "mx = mn")
    case True
    then show ?thesis
      using less.prems by (subst ucn_search.simps) auto
  next
    case False
    let ?md = "(mn + mx) div 2"
    have md: "mn \<le> ?md" "?md < mx"
      using less.prems(1) False by auto
    then have e: "elem ucnranges ?md = Some (ucnranges ! ?md)"
      using less.prems(2) by (simp add: elem_def)
    show ?thesis
    proof (cases "c \<le> ucn_end (ucnranges ! ?md)")
      case True
      then have "ucn_search c mn mx = ucn_search c mn ?md"
        using False e by (subst ucn_search.simps) simp
      then show ?thesis
        using less.hyps[of ?md mn] md less.prems True by fastforce
    next
      case c: False
      then have "ucn_search c mn mx = ucn_search c (?md + 1) mx"
        using False e by (subst ucn_search.simps) simp
      moreover have "ucn_end (ucnranges ! i) < c" if "i < ?md + 1" for i
        using ends_le[of i ?md] that c md less.prems(2) by (auto simp: not_le intro: le_less_trans)
      ultimately show ?thesis
        using less.hyps[of mx "?md + 1"] md less.prems by auto
    qed
  qed
qed

lemma ucn_end_last: "ucn_end (ucnranges ! (length ucnranges - 1)) = 0x10FFFF"
proof -
  have "ucnranges \<noteq> []"
    using ucnranges_length by auto
  then show ?thesis
    using ucnranges_last by (simp add: last_conv_nth last_map)
qed

lemma takeWhile_index:
  "k < length xs \<Longrightarrow> (\<forall>i < k. P (xs ! i)) \<Longrightarrow> \<not> P (xs ! k) \<Longrightarrow> length (takeWhile P xs) = k"
  using takeWhile_eq_take_P_nth[of k xs P] by simp

lemma ucn_search_linear:
  assumes "c \<le> 0x10FFFF"
  defines "k \<equiv> length (takeWhile (\<lambda>r. ucn_end r < c) ucnranges)"
  shows "ucn_search c 0 (length ucnranges - 1) = Some k" "k < length ucnranges"
    "c \<le> ucn_end (ucnranges ! k)" "\<forall>i < k. ucn_end (ucnranges ! i) < c"
proof -
  have "length ucnranges - 1 < length ucnranges"
    by (simp add: ucnranges_length)
  then obtain j where j: "j \<le> length ucnranges - 1" "ucn_search c 0 (length ucnranges - 1) = Some j"
      "\<forall>i < j. ucn_end (ucnranges ! i) < c" "c \<le> ucn_end (ucnranges ! j)"
    using ucn_search_finds[of 0 "length ucnranges - 1" c] assms(1) ucn_end_last by auto
  moreover have l: "j < length ucnranges"
    using j(1) by (simp add: ucnranges_length)
  ultimately have "j = k"
    using takeWhile_index[of j ucnranges "\<lambda>r. ucn_end r < c"] by (simp add: k_def not_less)
  then show "ucn_search c 0 (length ucnranges - 1) = Some k" "k < length ucnranges"
    "c \<le> ucn_end (ucnranges ! k)" "\<forall>i < k. ucn_end (ucnranges ! i) < c"
    using j l by auto
qed

section \<open>The two tables agree\<close>

text \<open>The ranges of characters with the flag \<^verbatim>\<open>CTX\<close>: the character before the range and its last.\<close>

fun ctx_ranges :: "cppchar_t \<Rightarrow> ucnrange list \<Rightarrow> (cppchar_t \<times> cppchar_t) list" where
  "ctx_ranges prev [] = []"
| "ctx_ranges prev (r # rs) =
     (if ucn_flags r AND 256 \<noteq> 0 then (prev, ucn_end r) # ctx_ranges (ucn_end r) rs else ctx_ranges (ucn_end r) rs)"

lemma ctx_ranges_append: "ctx_ranges p (xs @ ys) = ctx_ranges p xs @ ctx_ranges (last (p # map ucn_end xs)) ys"
  by (induction xs arbitrary: p) auto

lemma ctx_ranges_complete:
  "i < length rs \<Longrightarrow> ucn_flags (rs ! i) AND 256 \<noteq> 0 \<Longrightarrow>
   (if i = 0 then p else ucn_end (rs ! (i - 1)), ucn_end (rs ! i)) \<in> set (ctx_ranges p rs)"
proof (induction rs arbitrary: i p)
  case (Cons r rs)
  show ?case
  proof (cases i)
    case (Suc j)
    then show ?thesis
      using Cons.IH[of j "ucn_end r"] Cons.prems by (cases j) auto
  qed (use Cons.prems in auto)
qed simp

lemma ctx_part_0: "ctx_ranges 0x0 ucnranges_0 =
     [(0x2ff, 0x300), (0x300, 0x301), (0x301, 0x302), (0x302, 0x303), (0x303, 0x304), (0x305, 0x306), (0x306, 0x307), (0x307, 0x308),
      (0x308, 0x309), (0x309, 0x30a), (0x30a, 0x30b), (0x30b, 0x30c), (0x30e, 0x30f), (0x310, 0x311), (0x312, 0x313), (0x313, 0x314),
      (0x31a, 0x31b), (0x322, 0x323), (0x323, 0x324), (0x324, 0x325), (0x325, 0x326), (0x326, 0x327), (0x327, 0x328), (0x32c, 0x32d),
      (0x32d, 0x32e), (0x32f, 0x330), (0x330, 0x331), (0x337, 0x338), (0x341, 0x342), (0x344, 0x345)]"
  by (simp add: ucnranges_0_def)

lemma ctx_part_1: "ctx_ranges 0x5af ucnranges_1 =
     [(0x652, 0x653), (0x653, 0x654), (0x654, 0x655), (0x93b, 0x93c), (0x9bd, 0x9be), (0x9d6, 0x9d7)]"
  by (simp add: ucnranges_1_def)

lemma ctx_part_2: "ctx_ranges 0xacc ucnranges_2 =
     [(0xb3d, 0xb3e), (0xb55, 0xb57), (0xbbd, 0xbbe), (0xbd6, 0xbd7), (0xc55, 0xc56), (0xcc1, 0xcc2), (0xcd4, 0xcd6), (0xd3d, 0xd3e),
      (0xd56, 0xd57), (0xdc9, 0xdca), (0xdce, 0xdcf), (0xdde, 0xddf)]"
  by (simp add: ucnranges_2_def)

lemma ctx_part_3: "ctx_ranges 0x1025 ucnranges_3 =
     [(0x102d, 0x102e), (0x1160, 0x1175), (0x11a7, 0x11c2), (0x1b34, 0x1b35)]"
  by (simp add: ucnranges_3_def)

lemma ctx_part_4: "ctx_ranges 0x20e8 ucnranges_4 =
     [(0x3098, 0x3099), (0x3099, 0x309a)]"
  by (simp add: ucnranges_4_def)

lemma ctx_part_5: "ctx_ranges 0xfa24 ucnranges_5 =
     [(0x110b9, 0x110ba), (0x11126, 0x11127)]"
  by (simp add: ucnranges_5_def)

text \<open>Where \<^verbatim>\<open>check_nfc\<close> has a case, or is not called because the Hangul letters are treated apart.\<close>

definition has_case :: "cppchar_t \<Rightarrow> bool" where
  "has_case c \<longleftrightarrow> medial_vowel c \<or> final_consonant c \<or> c \<in> set (map fst nfc_cases)"

lemma nfc_keys: "map fst nfc_cases =
    [0x300, 0x301, 0x302, 0x303, 0x304, 0x306, 0x307, 0x308, 0x309, 0x30a, 0x30b, 0x30c,
     0x30f, 0x311, 0x313, 0x314, 0x31b, 0x323, 0x324, 0x325, 0x326, 0x327, 0x328, 0x32d,
     0x32e, 0x330, 0x331, 0x338, 0x342, 0x345, 0x653, 0x654, 0x655, 0x93c, 0x9be, 0x9d7,
     0xb3e, 0xb56, 0xb57, 0xbbe, 0xbd7, 0xc56, 0xcc2, 0xcd5, 0xcd6, 0xd3e, 0xd57, 0xdca,
     0xdcf, 0xddf, 0x102e, 0x1b35, 0x3099, 0x309a, 0x110ba, 0x11127]"
  by (simp add: nfc_cases_def)

definition covered :: "cppchar_t \<times> cppchar_t \<Rightarrow> bool" where
  "covered p \<longleftrightarrow> (\<forall>c. fst p < c \<and> c \<le> snd p \<longrightarrow> has_case c)"

lemma covered_empty: "covered (a, a)"
  by (auto simp: covered_def)

lemma covered_step: "a < b \<Longrightarrow> covered (a, b) \<longleftrightarrow> has_case (a + 1) \<and> covered (a + 1, b)"
proof -
  assume "a < b"
  then have u: "unat (a + 1) = unat a + 1"
    using unat_32_num[of b] by (simp add: word_less_nat_alt unat_word_ariths)
  have "a < c \<longleftrightarrow> c = a + 1 \<or> a + 1 < c" for c
    unfolding word_less_nat_alt word_unat_eq_iff[of c] u by auto
  moreover have "a + 1 \<le> b"
    using \<open>a < b\<close> unfolding word_le_nat_alt word_less_nat_alt u by simp
  ultimately show ?thesis
    by (auto simp: covered_def)
qed

lemma covered_single: "a < b \<Longrightarrow> b = a + 1 \<Longrightarrow> covered (a, b) \<longleftrightarrow> has_case b"
  by (simp add: covered_step covered_empty)

lemma covered_pair: "a < b \<Longrightarrow> a + 1 < b \<Longrightarrow> b = a + 2 \<Longrightarrow> covered (a, b) \<longleftrightarrow> has_case (a + 1) \<and> has_case b"
  using covered_step[of a b] covered_step[of "a + 1" b] by (simp add: covered_empty add.assoc)

lemma covered_hangul: "(0x1160 \<le> a \<and> b \<le> 0x1175) \<or> (0x11A7 \<le> a \<and> b \<le> 0x11C2) \<Longrightarrow> covered (a, b)"
  by (auto simp: covered_def has_case_def medial_vowel_def final_consonant_def word_le_nat_alt word_less_nat_alt)

lemma ctx_covered: "\<forall>p \<in> set (ctx_ranges 0 ucnranges). covered p"
proof -
  have "ctx_ranges 0 ucnranges = ctx_ranges 0 ucnranges_0 @ ctx_ranges 0x5af ucnranges_1 @ ctx_ranges 0xacc ucnranges_2 @
      ctx_ranges 0x1025 ucnranges_3 @ ctx_ranges 0x20e8 ucnranges_4 @ ctx_ranges 0xfa24 ucnranges_5"
    by (simp add: ucnranges_def ctx_ranges_append part_0 part_1 part_2 part_3 part_4)
  moreover have "\<forall>p \<in> set (ctx_ranges 0 ucnranges_0). covered p" "\<forall>p \<in> set (ctx_ranges 0x5af ucnranges_1). covered p"
    "\<forall>p \<in> set (ctx_ranges 0xacc ucnranges_2). covered p" "\<forall>p \<in> set (ctx_ranges 0x1025 ucnranges_3). covered p"
    "\<forall>p \<in> set (ctx_ranges 0x20e8 ucnranges_4). covered p" "\<forall>p \<in> set (ctx_ranges 0xfa24 ucnranges_5). covered p"
    by (simp_all add: ctx_part_0 ctx_part_1 ctx_part_2 ctx_part_3 ctx_part_4 ctx_part_5 covered_single covered_pair
        covered_hangul has_case_def nfc_keys)
  ultimately show ?thesis
    by auto
qed

lemma ctx_has_case:
  assumes "c \<le> 0x10FFFF" "ucn_flags (ucnranges ! length (takeWhile (\<lambda>r. ucn_end r < c) ucnranges)) AND CTX \<noteq> 0"
  shows "has_case c"
proof -
  define k where "k = length (takeWhile (\<lambda>r. ucn_end r < c) ucnranges)"
  note k = ucn_search_linear[OF assms(1), folded k_def]
  have "ucn_flags (ucnranges ! k) AND 256 \<noteq> 0"
    using assms(2) by (simp add: k_def CTX_def)
  from ctx_ranges_complete[OF k(2) this, of 0] ctx_covered
  have "covered (if k = 0 then 0 else ucn_end (ucnranges ! (k - 1)), ucn_end (ucnranges ! k))"
    by blast
  moreover have "ucn_flags (ucnranges ! 0) AND 256 = 0"
    by (simp add: ucnranges_def nth_append part_0 ucnranges_0_def)
  ultimately show ?thesis
    using k(3,4) \<open>ucn_flags (ucnranges ! k) AND 256 \<noteq> 0\<close> by (cases k) (auto simp: covered_def)
qed

lemma check_nfc_quiet: "c \<in> set (map fst nfc_cases) \<Longrightarrow> snd (check_nfc pfile c p) = pfile"
  by (auto simp: check_nfc_def map_of_eq_None_iff split: option.splits)

lemma nfc_safe_quiet: "has_case c \<Longrightarrow> snd (nfc_safe pfile c p) = pfile"
  using check_nfc_quiet[of c pfile p] by (auto simp: nfc_safe_def has_case_def simp del: set_map)

lemma update_nst_quiet:
  assumes "ucn_flags r AND CTX = 0 \<or> has_case c" shows "snd (update_nst pfile r c nst) = pfile"
proof (cases "ucn_flags r AND CTX = 0")
  case False
  then have "snd (nfc_safe pfile c (previous nst)) = pfile"
    using assms nfc_safe_quiet by blast
  then show ?thesis
    using False by (cases "nfc_safe pfile c (previous nst)") (simp add: update_nst_def)
qed (simp add: update_nst_def)

section \<open>Properties\<close>

text \<open>
  C26: The binary search of \<^verbatim>\<open>ucn_valid_in_identifier\<close> ends, reads only inside the table \<^verbatim>\<open>ucnranges\<close>, and
  for every Unicode character finds the entry that a linear search for the first range not
  ending before the character finds.
\<close>

theorem ucn_search_equivalence:
  assumes "c \<le> 0x10FFFF"
  shows "ucn_search c 0 (length ucnranges - 1) = Some (length (takeWhile (\<lambda>r. ucn_end r < c) ucnranges)) \<and>
         find (\<lambda>r. c \<le> ucn_end r) ucnranges = Some (ucnranges ! length (takeWhile (\<lambda>r. ucn_end r < c) ucnranges))"
  using ucn_search_linear[OF assms] by (auto simp: find_Some_iff not_le)

theorem ucn_search_equivalence_witness:
  "ucn_search 0x10FFFF 0 (length ucnranges - 1) = Some (length (takeWhile (\<lambda>r. ucn_end r < 0x10FFFF) ucnranges))"
  using ucn_search_equivalence[of "0x10FFFF"] by simp

text \<open>
  C27: \<^verbatim>\<open>ucn_valid_in_identifier\<close> answers for every value of a universal character name and never reports
  the internal error of \<^verbatim>\<open>check_nfc\<close>: whenever the first table sends a character there, the second
  has a case for it.
\<close>

theorem ucn_valid_no_ice:
  "\<exists>validity nst'. ucn_valid_in_identifier pfile c nst = Some (validity, nst', pfile) \<and> validity \<le> 2"
proof (cases "c > 0x10FFFF")
  case False
  then have c: "c \<le> 0x10FFFF"
    by simp
  define k where "k = length (takeWhile (\<lambda>r. ucn_end r < c) ucnranges)"
  note k = ucn_search_linear[OF c, folded k_def]
  have "snd (update_nst pfile (ucnranges ! k) c nst) = pfile"
    using ctx_has_case[OF c] by (intro update_nst_quiet) (auto simp: k_def)
  then show ?thesis
    using k c by (auto simp: ucn_valid_in_identifier_def elem_def split: prod.splits)
qed (simp add: ucn_valid_in_identifier_def)

end
