(* ===== verification/Cpp_Convert.thy ===== *)
theory Cpp_Convert
  imports Cpp_Utf
begin

text \<open>
  The conversion of whole strings in \<^verbatim>\<open>libcpp/charset.c\<close>: the growing buffer \<^verbatim>\<open>_cpp_strbuf\<close>,
  \<^verbatim>\<open>conversion_loop\<close> around the conversions of one character, the four converters made from it and
  the identity conversion. What the loop needs of the conversion of one character is the locale
  \<open>one_conversion\<close>; the four conversions interpret it.
\<close>

section \<open>Buffers and the loop\<close>

text \<open>
  \<^verbatim>\<open>struct _cpp_strbuf\<close>: \<open>buf_text\<close> is \<^verbatim>\<open>text[0 .. len-1]\<close>, so that \<^verbatim>\<open>len\<close> is its length; the bytes between
  \<^verbatim>\<open>len\<close> and \<^verbatim>\<open>asize\<close> are not read by the code before it writes them.
\<close>

record strbuf =
  buf_text :: "byte list"
  asize :: nat

definition OUTBUF_BLOCK_SIZE :: nat where
  "OUTBUF_BLOCK_SIZE = 256"

text \<open>
  The inner \<^verbatim>\<open>do\<close> loop: it returns the last result code (\<open>None\<close> for 0), the input that is left, the
  bytes written and the room left.
\<close>

partial_function (option) convert_run ::
    "(byte list \<Rightarrow> nat \<Rightarrow> (byte list \<times> byte list) conv) \<Rightarrow> byte list \<Rightarrow> byte list \<Rightarrow> nat \<Rightarrow>
     (errno option \<times> byte list \<times> byte list \<times> nat) option"
where [code]:
  "convert_run one_conversion inbuf out outbytesleft =
     do { r \<leftarrow> one_conversion inbuf outbytesleft;
          (case r of
             Inl e \<Rightarrow> Some (Some e, inbuf, out, outbytesleft)
           | Inr (inbuf, bs) \<Rightarrow>
               if inbuf \<noteq> [] then convert_run one_conversion inbuf (out @ bs) (outbytesleft - length bs)
               else Some (None, inbuf, out @ bs, outbytesleft - length bs)) }"

text \<open>The outer loop, which makes the buffer grow: the error, if any, what was written, and the new size.\<close>

partial_function (option) convert_grow ::
    "(byte list \<Rightarrow> nat \<Rightarrow> (byte list \<times> byte list) conv) \<Rightarrow> byte list \<Rightarrow> byte list \<Rightarrow> nat \<Rightarrow> nat \<Rightarrow>
     (errno option \<times> byte list \<times> nat) option"
where [code]:
  "convert_grow one_conversion inbuf out outbytesleft asz =
     do { (rval, inbuf, out, outbytesleft) \<leftarrow> convert_run one_conversion inbuf out outbytesleft;
          if inbuf = [] then Some (None, out, asz)
          else if rval \<noteq> Some E2BIG then Some (rval, out, asz)
          else convert_grow one_conversion inbuf out (outbytesleft + OUTBUF_BLOCK_SIZE) (asz + OUTBUF_BLOCK_SIZE) }"

text \<open>\<^verbatim>\<open>true\<close> is \<open>None\<close>; after a failure \<^verbatim>\<open>to->len\<close> is as it was, though the buffer may have grown.\<close>

definition conversion_loop ::
    "(byte list \<Rightarrow> nat \<Rightarrow> (byte list \<times> byte list) conv) \<Rightarrow> byte list \<Rightarrow> strbuf \<Rightarrow> (errno option \<times> strbuf) option"
where
  "conversion_loop one_conversion from to =
     do { (rval, out, asz) \<leftarrow> convert_grow one_conversion from [] (asize to - length (buf_text to)) (asize to);
          Some (rval, if rval = None then to\<lparr>buf_text := buf_text to @ out, asize := asz\<rparr> else to\<lparr>asize := asz\<rparr>) }"

definition convert_utf8_utf16 :: "bool \<Rightarrow> byte list \<Rightarrow> strbuf \<Rightarrow> (errno option \<times> strbuf) option" where
  "convert_utf8_utf16 cd from to = conversion_loop (one_utf8_to_utf16 cd) from to"

definition convert_utf8_utf32 :: "bool \<Rightarrow> byte list \<Rightarrow> strbuf \<Rightarrow> (errno option \<times> strbuf) option" where
  "convert_utf8_utf32 cd from to = conversion_loop (one_utf8_to_utf32 cd) from to"

definition convert_utf16_utf8 :: "bool \<Rightarrow> byte list \<Rightarrow> strbuf \<Rightarrow> (errno option \<times> strbuf) option" where
  "convert_utf16_utf8 cd from to = conversion_loop (one_utf16_to_utf8 cd) from to"

definition convert_utf32_utf8 :: "bool \<Rightarrow> byte list \<Rightarrow> strbuf \<Rightarrow> (errno option \<times> strbuf) option" where
  "convert_utf32_utf8 cd from to = conversion_loop (one_utf32_to_utf8 cd) from to"

definition convert_no_conversion :: "byte list \<Rightarrow> strbuf \<Rightarrow> (errno option \<times> strbuf) option" where
  "convert_no_conversion from to =
     (let need = length (buf_text to) + length from in
      Some (None, to\<lparr>buf_text := buf_text to @ from,
                     asize := (if need > asize to then need + need div 4 else asize to)\<rparr>))"

section \<open>The contract of one conversion\<close>

text \<open>A string in an encoding: the characters it stands for.\<close>

definition encodes :: "(cppchar_t \<Rightarrow> byte list) \<Rightarrow> (cppchar_t \<Rightarrow> bool) \<Rightarrow> cppchar_t list \<Rightarrow> byte list \<Rightarrow> bool" where
  "encodes enc valid cs s \<longleftrightarrow> (\<forall>c \<in> set cs. valid c) \<and> s = concat (map enc cs)"

lemma encodes_Nil [simp]: "encodes enc valid [] s \<longleftrightarrow> s = []"
  by (simp add: encodes_def)

lemma encodes_Cons: "encodes enc valid (c # cs) s \<longleftrightarrow> valid c \<and> (\<exists>rest. s = enc c @ rest \<and> encodes enc valid cs rest)"
  by (auto simp: encodes_def)

text \<open>
  \<open>src\<close> and \<open>dst\<close> are the two encodings and \<open>valid\<close> the characters that both have. With room for
  six bytes the conversion takes one character off the input, or reports why there is none;
  with less room it does the same or asks for more, and writes no more than there is room for.
\<close>

locale one_conversion =
  fixes conv :: "byte list \<Rightarrow> nat \<Rightarrow> (byte list \<times> byte list) conv"
    and src dst :: "cppchar_t \<Rightarrow> byte list"
    and valid :: "cppchar_t \<Rightarrow> bool"
  assumes src_nonempty: "src c \<noteq> []"
    and total: "\<exists>r. conv s n = Some r"
    and accepts: "6 \<le> n \<Longrightarrow> conv s n = Some (Inr (rest, out)) \<longleftrightarrow> (\<exists>c. valid c \<and> s = src c @ rest \<and> out = dst c)"
    and with_room: "6 \<le> n \<Longrightarrow> conv s n \<noteq> Some (Inl E2BIG)"
    and any_room: "conv s n = conv s 6 \<or> conv s n = Some (Inl E2BIG)"
    and fits: "conv s n = Some (Inr (rest, out)) \<Longrightarrow> length out \<le> n"
begin

lemma sound: "conv s n = Some (Inr (rest, out)) \<Longrightarrow> \<exists>c. valid c \<and> s = src c @ rest \<and> out = dst c"
  using accepts[of 6 s rest out] any_room[of s n] by auto

lemma run_nil: "\<exists>e. convert_run conv [] out n = Some (Some e, [], out, n)"
proof -
  obtain r where r: "conv [] n = Some r"
    using total by blast
  moreover have "\<exists>e. r = Inl e"
    using sound[of "[]" n] r src_nonempty by (cases r) fastforce+
  ultimately show ?thesis
    by (subst convert_run.simps) auto
qed

lemma grow_nil: "convert_grow conv [] out n a = Some (None, out, a)"
  using run_nil[of out n] by (subst convert_grow.simps) auto

lemma grow_error: "conv s n = Some (Inl e) \<Longrightarrow> e \<noteq> E2BIG \<Longrightarrow> s \<noteq> [] \<Longrightarrow> convert_grow conv s out n a = Some (Some e, out, a)"
  by (subst convert_grow.simps, subst convert_run.simps) simp

lemma grow_full:
  "conv s n = Some (Inl E2BIG) \<Longrightarrow> s \<noteq> [] \<Longrightarrow>
   convert_grow conv s out n a = convert_grow conv s out (n + OUTBUF_BLOCK_SIZE) (a + OUTBUF_BLOCK_SIZE)"
  by (subst convert_grow.simps, subst convert_run.simps) simp

lemma grow_step:
  assumes "conv s n = Some (Inr (rest, bs))"
  shows "convert_grow conv s out n a = convert_grow conv rest (out @ bs) (n - length bs) a"
proof (cases "rest = []")
  case True
  then show ?thesis
    using assms grow_nil[of "out @ bs" "n - length bs" a] by (subst convert_grow.simps, subst convert_run.simps) simp
next
  case False
  then show ?thesis
    using assms by (subst (1 2) convert_grow.simps, subst convert_run.simps) simp
qed

lemma grow_room:
  assumes "s \<noteq> []"
  obtains n' a' where "convert_grow conv s out n a = convert_grow conv s out n' a'" "conv s n' = conv s 6"
    "conv s n' \<noteq> Some (Inl E2BIG)" "a \<le> a'" "a' + n = a + n'"
proof (cases "conv s n = Some (Inl E2BIG)")
  case True
  have "6 \<le> n + OUTBUF_BLOCK_SIZE"
    by (simp add: OUTBUF_BLOCK_SIZE_def)
  then show thesis
    using that[of "n + OUTBUF_BLOCK_SIZE" "a + OUTBUF_BLOCK_SIZE"] True grow_full[of s n out a] assms
      any_room[of s "n + OUTBUF_BLOCK_SIZE"] with_room[of "n + OUTBUF_BLOCK_SIZE" s]
    by auto
qed (use that[of n a] any_room[of s n] in simp)

lemma grow_converts:
  assumes "encodes src valid cs s" "k + length out + n = a"
  shows "\<exists>a'. convert_grow conv s out n a = Some (None, out @ concat (map dst cs), a') \<and> a \<le> a' \<and>
              k + length out + length (concat (map dst cs)) \<le> a'"
  using assms
proof (induction cs arbitrary: s out n a)
  case Nil
  then show ?case
    by (simp add: grow_nil)
next
  case (Cons c cs)
  then obtain rest where rest: "valid c" "s = src c @ rest" "encodes src valid cs rest"
    by (auto simp: encodes_Cons)
  obtain n' a' where g: "convert_grow conv s out n a = convert_grow conv s out n' a'" "conv s n' = conv s 6"
      "a \<le> a'" "a' + n = a + n'"
    using grow_room[of s out n a] src_nonempty[of c] rest(2) by (metis append_is_Nil_conv)
  have c: "conv s n' = Some (Inr (rest, dst c))"
    using g(2) accepts[of 6 s rest "dst c"] rest by auto
  then have "length (dst c) \<le> n'"
    by (rule fits)
  then have "k + length (out @ dst c) + (n' - length (dst c)) = a'"
    using Cons.prems(2) g(3,4) by simp
  from Cons.IH[OF rest(3) this] show ?case
    using g(1,3) grow_step[OF c, of out a'] by (auto intro: order_trans)
qed

lemma grow_rejects:
  assumes "\<nexists>cs. encodes src valid cs s"
  shows "\<exists>e out' a'. convert_grow conv s out n a = Some (Some e, out', a') \<and> a \<le> a' \<and> e \<noteq> E2BIG"
  using assms
proof (induction s arbitrary: out n a rule: length_induct)
  case (1 s)
  have "s \<noteq> []"
    using 1(2) by (metis encodes_Nil)
  then obtain n' a' where g: "convert_grow conv s out n a = convert_grow conv s out n' a'" "conv s n' = conv s 6"
      "conv s n' \<noteq> Some (Inl E2BIG)" "a \<le> a'"
    using grow_room[of s out n a] by blast
  obtain r where r: "conv s n' = Some r"
    using total by blast
  show ?case
  proof (cases r)
    case (Inl e)
    then show ?thesis
      using grow_error[of s n' e out a'] r g \<open>s \<noteq> []\<close> by auto
  next
    case (Inr p)
    then obtain rest bs where p: "conv s n' = Some (Inr (rest, bs))"
      using r by (cases p) auto
    then obtain c where c: "valid c" "s = src c @ rest"
      using sound by blast
    then have "length rest < length s"
      using src_nonempty[of c] by simp
    moreover have "\<nexists>cs. encodes src valid cs rest"
      using 1(2) c by (metis encodes_Cons)
    ultimately obtain e out' a'' where "convert_grow conv rest (out @ bs) (n' - length bs) a' = Some (Some e, out', a'')"
        "a' \<le> a''" "e \<noteq> E2BIG"
      using 1(1) by blast
    then show ?thesis
      using g(1,4) grow_step[OF p, of out a'] by auto
  qed
qed

lemma loop_converts:
  assumes "encodes src valid cs s" "length (buf_text b) \<le> asize b"
  shows "\<exists>a. conversion_loop conv s b = Some (None, b\<lparr>buf_text := buf_text b @ concat (map dst cs), asize := a\<rparr>) \<and>
             asize b \<le> a \<and> length (buf_text b @ concat (map dst cs)) \<le> a"
  using grow_converts[OF assms(1), of "length (buf_text b)" "[]" "asize b - length (buf_text b)" "asize b"] assms(2)
  by (auto simp: conversion_loop_def)

lemma loop_rejects:
  assumes "\<nexists>cs. encodes src valid cs s"
  shows "\<exists>e a. conversion_loop conv s b = Some (Some e, b\<lparr>asize := a\<rparr>) \<and> asize b \<le> a \<and> e \<noteq> E2BIG"
  using grow_rejects[OF assms, of "[]" "asize b - length (buf_text b)" "asize b"]
  by (auto simp: conversion_loop_def)

lemma encodes_unique:
  assumes "encodes src valid cs s" "encodes src valid cs' s" shows "map dst cs = map dst cs'"
  using assms
proof (induction cs arbitrary: cs' s)
  case Nil
  then show ?case
    using src_nonempty by (cases cs') (auto simp: encodes_Cons)
next
  case (Cons c cs)
  then obtain rest where rest: "valid c" "s = src c @ rest" "encodes src valid cs rest"
    by (auto simp: encodes_Cons)
  then obtain c' cs'' rest' where c': "cs' = c' # cs''" "valid c'" "s = src c' @ rest'" "encodes src valid cs'' rest'"
    using Cons.prems(2) src_nonempty[of c] by (cases cs') (auto simp: encodes_Cons)
  have "conv s 6 = Some (Inr (rest, dst c))"
    unfolding accepts[OF order_refl] using rest(1,2) by blast
  moreover have "conv s 6 = Some (Inr (rest', dst c'))"
    unfolding accepts[OF order_refl] using c'(2,3) by blast
  ultimately have "rest' = rest" "dst c' = dst c"
    by simp_all
  then show ?case
    using Cons.IH[OF rest(3), of cs''] c'(1,4) by simp
qed

end

section \<open>The four conversions\<close>

text \<open>
  Each conversion reads one character and writes it; the contract follows from what the reading
  half accepts. \<open>early\<close> is the room that the code asks for before it looks at the input.
\<close>

locale read_write =
  fixes conv :: "byte list \<Rightarrow> nat \<Rightarrow> (byte list \<times> byte list) conv"
    and dec :: "byte list \<Rightarrow> errno + cppchar_t \<times> byte list"
    and src dst :: "cppchar_t \<Rightarrow> byte list"
    and valid :: "cppchar_t \<Rightarrow> bool"
    and early :: nat
  assumes src_not_empty: "src c \<noteq> []"
    and early_six: "early \<le> 6"
    and dst_short: "valid c \<Longrightarrow> length (dst c) \<le> 6"
    and dec_accepts: "dec s = Inr (c, rest) \<longleftrightarrow> valid c \<and> s = src c @ rest"
    and dec_error: "dec s \<noteq> Inl E2BIG"
    and conv_error: "dec s = Inl e \<Longrightarrow> conv s n = Some (Inl (if n < early then E2BIG else e))"
    and conv_char: "dec s = Inr (c, rest) \<Longrightarrow>
      conv s n = Some (if n < early \<or> n < length (dst c) then Inl E2BIG else Inr (rest, dst c))"
begin

lemma dec_cases:
  obtains e where "dec s = Inl e" "e \<noteq> E2BIG" "\<And>c rest. valid c \<Longrightarrow> s \<noteq> src c @ rest"
  | c rest where "dec s = Inr (c, rest)" "valid c" "\<And>c' rest'. valid c' \<Longrightarrow> s = src c' @ rest' \<longleftrightarrow> c' = c \<and> rest' = rest"
proof (cases "dec s")
  case (Inl e)
  then show thesis
    using that(1)[of e] dec_error[of s] dec_accepts[of s] by auto
next
  case (Inr p)
  then obtain c rest where p: "dec s = Inr (c, rest)"
    by (cases p) auto
  moreover have "valid c' \<Longrightarrow> s = src c' @ rest' \<longleftrightarrow> c' = c \<and> rest' = rest" for c' rest'
    using dec_accepts[of s c' rest'] p by auto
  ultimately show thesis
    using that(2)[of c rest] dec_accepts[of s c rest] by blast
qed

end

sublocale read_write \<subseteq> one_conversion conv src dst valid
proof
  fix s n rest out
  show "src c \<noteq> []" for c
    by (rule src_not_empty)
  show "\<exists>r. conv s n = Some r"
    by (cases rule: dec_cases[of s]) (auto simp: conv_error conv_char)
  show "conv s n = conv s 6 \<or> conv s n = Some (Inl E2BIG)"
    using early_six by (cases rule: dec_cases[of s]) (auto simp: conv_error conv_char dest: dst_short)
  show "conv s n \<noteq> Some (Inl E2BIG)" if "6 \<le> n"
    using that early_six by (cases rule: dec_cases[of s]) (auto simp: conv_error conv_char dest: dst_short)
  show "length out \<le> n" if "conv s n = Some (Inr (rest, out))"
    using that by (cases rule: dec_cases[of s]) (auto simp: conv_error conv_char split: if_splits)
  show "conv s n = Some (Inr (rest, out)) \<longleftrightarrow> (\<exists>c. valid c \<and> s = src c @ rest \<and> out = dst c)" if "6 \<le> n"
    using that early_six
    by (cases rule: dec_cases[of s]) (auto simp: conv_error conv_char dest: dst_short split: if_splits)
qed

lemma two_bytes_length: "length (two_bytes be c) = 2"
  by (simp add: two_bytes_eq)

lemma u16_length: "length (u16 be c) = (if c \<le> 0xFFFF then 2 else 4)"
  by (simp add: u16_def two_bytes_length)

lemma four_bytes_length: "length (four_bytes be c) = 4"
  by (simp add: four_bytes_def Let_def)

lemma u8_not_Nil: "u8 c \<noteq> []"
  using u8_length(2)[of c] by auto

lemma scalar16_scalar: "scalar16 c \<longleftrightarrow> scalar c \<and> \<not> c > 0x10FFFF"
  by (auto simp: scalar16_def scalar_def word_le_nat_alt word_less_nat_alt)

subsection \<open>From UTF-8\<close>

text \<open>What \<open>one_utf8_to_cppchar\<close> returns, and the same with the bound of UTF-16.\<close>

definition utf8_char :: "byte list \<Rightarrow> errno + cppchar_t \<times> byte list" where
  "utf8_char s = the (one_utf8_to_cppchar s)"

definition utf8_char16 :: "byte list \<Rightarrow> errno + cppchar_t \<times> byte list" where
  "utf8_char16 s = (case utf8_char s of Inl e \<Rightarrow> Inl e | Inr (c, rest) \<Rightarrow> if c > 0x10FFFF then Inl EILSEQ else Inr (c, rest))"

lemma utf8_char: "one_utf8_to_cppchar s = Some (utf8_char s)" "utf8_char s \<noteq> Inl E2BIG"
    "utf8_char s = Inr (c, rest) \<longleftrightarrow> scalar c \<and> s = u8 c @ rest"
  using decode_total[of s] decode_iff[of s c rest] by (auto simp: utf8_char_def)

interpretation utf8_16: read_write "one_utf8_to_utf16 be" utf8_char16 u8 "u16 be" scalar16 0 for be
proof
  fix s e c rest n
  show "length (u16 be c) \<le> 6"
    by (simp add: u16_length)
  have "utf8_char16 s = Inr (c, rest) \<longleftrightarrow> utf8_char s = Inr (c, rest) \<and> \<not> c > 0x10FFFF"
    by (auto simp: utf8_char16_def split: sum.splits if_splits)
  then show "utf8_char16 s = Inr (c, rest) \<longleftrightarrow> scalar16 c \<and> s = u8 c @ rest"
    using utf8_char(3)[of s c rest] by (auto simp: scalar16_scalar)
  show "utf8_char16 s \<noteq> Inl E2BIG"
    using utf8_char(2)[of s] by (auto simp: utf8_char16_def split: sum.splits if_splits)
  show "one_utf8_to_utf16 be s n = Some (Inl (if n < 0 then E2BIG else e))" if "utf8_char16 s = Inl e"
    using that by (auto simp: utf8_char16_def one_utf8_to_utf16_def utf8_char(1) split: sum.splits if_splits)
  show "one_utf8_to_utf16 be s n = Some (if n < 0 \<or> n < length (u16 be c) then Inl E2BIG else Inr (rest, u16 be c))"
    if "utf8_char16 s = Inr (c, rest)"
    using that
    by (auto simp: utf8_char16_def one_utf8_to_utf16_def utf8_char(1) u16_def two_bytes_length split: sum.splits if_splits)
qed (simp_all add: u8_not_Nil)

lemma drop_bytes: "ucast (drop_bit 8 s) = (word_of_nat (unat s div 256) :: byte)"
  "ucast (drop_bit 16 s) = (word_of_nat (unat s div 65536) :: byte)"
  "ucast (drop_bit 24 s) = (word_of_nat (unat s div 16777216) :: byte)" for s :: cppchar_t
  by (simp_all add: ucast_byte_iff unat_drop unat_of_nat)

lemma word_bytes:
  "(if be then [ucast (drop_bit 24 (s AND 0xFF000000)), ucast (drop_bit 16 (s AND 0x00FF0000)), ucast (drop_bit 8 (s AND 0x0000FF00)), ucast (s AND 0x000000FF)]
    else [ucast (s AND 0x000000FF), ucast (drop_bit 8 (s AND 0x0000FF00)), ucast (drop_bit 16 (s AND 0x00FF0000)), ucast (drop_bit 24 (s AND 0xFF000000))])
   = four_bytes be s"
  by (simp add: low_byte high_byte[where k = 8] high_byte[where k = 16] high_byte[where k = 24] mask_eq_exp_minus_1
      four_bytes_def drop_bytes)

interpretation utf8_32: read_write "one_utf8_to_utf32 be" utf8_char u8 "four_bytes be" scalar 4 for be
proof
  fix s e c rest n
  show "length (four_bytes be c) \<le> 6"
    by (simp add: four_bytes_length)
  show "one_utf8_to_utf32 be s n = Some (Inl (if n < 4 then E2BIG else e))" if "utf8_char s = Inl e"
    using that by (simp add: one_utf8_to_utf32_def utf8_char(1))
  show "one_utf8_to_utf32 be s n = Some (if n < 4 \<or> n < length (four_bytes be c) then Inl E2BIG else Inr (rest, four_bytes be c))"
    if "utf8_char s = Inr (c, rest)"
    using that unfolding one_utf8_to_utf32_def Let_def word_bytes by (simp add: utf8_char(1) four_bytes_length)
qed (simp_all add: u8_not_Nil utf8_char(2,3))

subsection \<open>To UTF-8\<close>

lemma scalar16_less: "scalar16 c \<Longrightarrow> unat c < 0x80000000"
  using scalar_less scalar16_scalar by blast

interpretation utf16_8: read_write "one_utf16_to_utf8 be" "utf16_char be" "u16 be" u8 scalar16 0 for be
proof
  fix s e c rest n
  show "u16 be c \<noteq> []"
    using u16_length[of be c] by (auto split: if_splits)
  show "utf16_char be s = Inr (c, rest) \<longleftrightarrow> scalar16 c \<and> s = u16 be c @ rest"
    by (rule utf16_char_iff)
  show "one_utf16_to_utf8 be s n = Some (Inl (if n < 0 then E2BIG else e))" if "utf16_char be s = Inl e"
    using that by (simp add: utf16_step)
  show "one_utf16_to_utf8 be s n = Some (if n < 0 \<or> n < length (u8 c) then Inl E2BIG else Inr (rest, u8 c))"
    if "utf16_char be s = Inr (c, rest)"
    using that utf16_char_iff[of be s c rest] by (simp add: utf16_step to_utf8_encodes scalar16_less)
qed (simp_all add: u8_length utf16_char_error)

text \<open>The character that \<open>one_utf32_to_utf8\<close> reads.\<close>

definition utf32_char :: "bool \<Rightarrow> byte list \<Rightarrow> errno + cppchar_t \<times> byte list" where
  "utf32_char be s =
     (case s of
        w # x # y # z # t \<Rightarrow>
          (let c = utf32_val be w x y z in
           if c \<ge> 0x7FFFFFFF \<or> (c \<ge> 0xD800 \<and> c \<le> 0xDFFF) then Inl EILSEQ else Inr (c, t))
      | _ \<Rightarrow> Inl EINVAL)"

lemma scalar32_iff: "scalar32 c \<longleftrightarrow> \<not> (c \<ge> 0x7FFFFFFF \<or> (c \<ge> 0xD800 \<and> c \<le> 0xDFFF))"
  by (auto simp: scalar32_def scalar_def word_le_nat_alt word_unat_eq_iff)

lemma four_cases:
  obtains "length s < 4" | w x y z t where "s = w # x # y # z # t"
  by (cases s; cases "tl s"; cases "tl (tl s)"; cases "tl (tl (tl s))") auto

lemma four_bytes_append:
  "w # x # y # z # t = four_bytes be c @ rest \<longleftrightarrow> utf32_val be w x y z = c \<and> t = rest"
proof -
  have "w # x # y # z # t = four_bytes be c @ rest \<longleftrightarrow> [w, x, y, z] = four_bytes be c \<and> t = rest"
    using append_eq_append_conv[of "[w, x, y, z]" "four_bytes be c" t rest] by (simp add: four_bytes_length)
  then show ?thesis
    using four_bytes_val[of be c w x y z] by auto
qed

lemma utf32_char_iff: "utf32_char be s = Inr (c, rest) \<longleftrightarrow> scalar32 c \<and> s = four_bytes be c @ rest"
proof (cases s rule: four_cases)
  case 1
  then have "s \<noteq> four_bytes be c @ rest"
    by (auto simp: four_bytes_length)
  then show ?thesis
    using 1 by (auto simp: utf32_char_def split: list.splits)
next
  case (2 w x y z t)
  then show ?thesis
    by (auto simp: utf32_char_def four_bytes_append scalar32_iff Let_def)
qed

lemma utf32_step:
  "one_utf32_to_utf8 be s n =
     (case utf32_char be s of
        Inl e \<Rightarrow> Some (Inl e)
      | Inr (c, rest) \<Rightarrow> map_option (map_sum id (\<lambda>out. (rest, out))) (one_cppchar_to_utf8 c n))"
proof -
  have m: "Option.bind (one_cppchar_to_utf8 c n) (\<lambda>r. Some (case r of Inl e \<Rightarrow> Inl e | Inr out \<Rightarrow> Inr (rest, out)))
      = map_option (map_sum id (\<lambda>out. (rest, out))) (one_cppchar_to_utf8 c n)" for c and rest :: "byte list"
    by (auto split: bind_split sum.splits)
  show ?thesis
  proof (cases s rule: four_cases)
    case 1
    then show ?thesis
      by (auto simp: one_utf32_to_utf8_def utf32_char_def split: list.splits)
  next
    case (2 w x y z t)
    then show ?thesis
      by (simp add: one_utf32_to_utf8_def utf32_char_def utf32_val_def byte_at_simps Let_def m)
  qed
qed

interpretation utf32_8: read_write "one_utf32_to_utf8 be" "utf32_char be" "four_bytes be" u8 scalar32 0 for be
proof
  fix s e c rest n
  show "four_bytes be c \<noteq> []"
    using four_bytes_length[of be c] by auto
  show "utf32_char be s \<noteq> Inl E2BIG"
    by (auto simp: utf32_char_def Let_def split: list.splits)
  show "utf32_char be s = Inr (c, rest) \<longleftrightarrow> scalar32 c \<and> s = four_bytes be c @ rest"
    by (rule utf32_char_iff)
  show "one_utf32_to_utf8 be s n = Some (Inl (if n < 0 then E2BIG else e))" if "utf32_char be s = Inl e"
    using that by (simp add: utf32_step)
  show "one_utf32_to_utf8 be s n = Some (if n < 0 \<or> n < length (u8 c) then Inl E2BIG else Inr (rest, u8 c))"
    if "utf32_char be s = Inr (c, rest)"
    using that utf32_char_iff[of be s c rest] scalar_less[of c] by (simp add: utf32_step to_utf8_encodes scalar32_def)
qed (simp_all add: u8_length)

section \<open>Properties\<close>

lemma empty_buffer: "length (buf_text \<lparr>buf_text = [], asize = n\<rparr>) \<le> asize \<lparr>buf_text = [], asize = n\<rparr>"
  by simp

text \<open>
  C24: \<^verbatim>\<open>convert_utf8_utf16\<close> returns for every input and every size of the buffer it appends to. A text
  in well-formed UTF-8 of code points up to 10FFFF is appended as the UTF-16 of the same code
  points, in the byte order asked for, and the buffer is large enough for it; any other text is
  refused with an error that is not \<^verbatim>\<open>E2BIG\<close>, and the text in the buffer is left as it was.
\<close>

theorem utf8_utf16_conversion:
  assumes "length (buf_text b) \<le> asize b"
  shows "(\<forall>cs. encodes u8 scalar16 cs s \<longrightarrow>
            (\<exists>a. convert_utf8_utf16 be s b = Some (None, b\<lparr>buf_text := buf_text b @ concat (map (u16 be) cs), asize := a\<rparr>) \<and>
                 length (buf_text b @ concat (map (u16 be) cs)) \<le> a)) \<and>
         ((\<nexists>cs. encodes u8 scalar16 cs s) \<longrightarrow>
            (\<exists>e a. convert_utf8_utf16 be s b = Some (Some e, b\<lparr>asize := a\<rparr>) \<and> e \<noteq> E2BIG \<and> asize b \<le> a))"
  unfolding convert_utf8_utf16_def
  using utf8_16.loop_converts[OF _ assms] utf8_16.loop_rejects by blast

text \<open>Two characters, one of them outside the basic plane, into a buffer without any room.\<close>

theorem utf8_utf16_conversion_witness:
  "\<exists>a. convert_utf8_utf16 True [0x41, 0xF0, 0x9F, 0x98, 0x80] \<lparr>buf_text = [], asize = 0\<rparr>
     = Some (None, \<lparr>buf_text = [0x00, 0x41, 0xD8, 0x3D, 0xDE, 0x00], asize = a\<rparr>)"
proof -
  have "encodes u8 scalar16 [0x41, 0x1F600] [0x41, 0xF0, 0x9F, 0x98, 0x80]"
    by (simp add: encodes_def scalar16_def u8_def u8_nat_def)
  then show ?thesis
    using utf8_utf16_conversion[OF empty_buffer[of 0], of "[0x41, 0xF0, 0x9F, 0x98, 0x80]" True]
    by (auto simp: u16_def two_bytes_eq)
qed

text \<open>
  C25: Converting from UTF-8 to UTF-16 and back gives the bytes one started with, whatever the sizes
  of the two buffers.
\<close>

theorem utf16_roundtrip:
  assumes "convert_utf8_utf16 be s \<lparr>buf_text = [], asize = n\<rparr> = Some (None, b)"
    and "length (buf_text b') \<le> asize b'"
  shows "\<exists>a. convert_utf16_utf8 be (buf_text b) b' = Some (None, b'\<lparr>buf_text := buf_text b' @ s, asize := a\<rparr>)"
proof -
  obtain cs where cs: "encodes u8 scalar16 cs s"
    using utf8_16.loop_rejects[of s be "\<lparr>buf_text = [], asize = n\<rparr>"] assms(1)
    by (auto simp: convert_utf8_utf16_def)
  then have "buf_text b = concat (map (u16 be) cs)"
    using utf8_16.loop_converts[OF cs empty_buffer[of n], where be = be] assms(1) by (auto simp: convert_utf8_utf16_def)
  then have b: "encodes (u16 be) scalar16 cs (buf_text b)" and s: "s = concat (map u8 cs)"
    using cs by (simp_all add: encodes_def)
  show ?thesis
    using utf16_8.loop_converts[OF b assms(2)] s by (auto simp: convert_utf16_utf8_def)
qed

theorem utf16_roundtrip_witness:
  "\<exists>a. convert_utf16_utf8 False [0x3D, 0xD8, 0x00, 0xDE] \<lparr>buf_text = [0x78], asize = 1\<rparr>
     = Some (None, \<lparr>buf_text = [0x78, 0xF0, 0x9F, 0x98, 0x80], asize = a\<rparr>)"
proof -
  have e: "encodes u8 scalar16 [0x1F600] [0xF0, 0x9F, 0x98, 0x80]"
    by (simp add: encodes_def scalar16_def u8_def u8_nat_def)
  obtain a where "convert_utf8_utf16 False [0xF0, 0x9F, 0x98, 0x80] \<lparr>buf_text = [], asize = 256\<rparr>
      = Some (None, \<lparr>buf_text = [0x3D, 0xD8, 0x00, 0xDE], asize = a\<rparr>)"
    using utf8_16.loop_converts[OF e empty_buffer[of 256], where be = False]
    by (auto simp: convert_utf8_utf16_def u16_def two_bytes_eq)
  from utf16_roundtrip[OF this, of "\<lparr>buf_text = [0x78], asize = 1\<rparr>"] show ?thesis
    by simp
qed


end
