(* ===== verification/Cpp_String.thy ===== *)
theory Cpp_String
  imports Cpp_Ucn Cpp_Convert
begin

text \<open>
  Character constants and string literals, from \<^verbatim>\<open>libcpp/charset.c\<close>: the table of converters to the
  execution character sets, the escape sequences, \<^verbatim>\<open>cpp_interpret_string\<close> and
  \<^verbatim>\<open>cpp_interpret_charconst\<close>. The tracking of source ranges for the characters of a string is left
  out, which is the case where \<^verbatim>\<open>loc_readers\<close> and \<^verbatim>\<open>out\<close> are null. \<open>None\<close> is a read outside a
  spelling or a buffer, or a failed assertion.
\<close>

section \<open>Converters\<close>

type_synonym converter = "byte list \<Rightarrow> strbuf \<Rightarrow> (errno option \<times> strbuf) option"

record cset_converter =
  cvt_func :: converter
  cvt_width :: nat

text \<open>The five converters that the reader holds.\<close>

record csets =
  narrow_cset_desc :: cset_converter
  utf8_cset_desc :: cset_converter
  char16_cset_desc :: cset_converter
  char32_cset_desc :: cset_converter
  wide_cset_desc :: cset_converter

definition SOURCE_CHARSET :: string where
  "SOURCE_CHARSET = ''UTF-8''"

definition lower :: "char \<Rightarrow> nat" where
  "lower c = (let n = of_char c in if 65 \<le> n \<and> n \<le> 90 then n + 32 else n)"

definition strcaseeq :: "string \<Rightarrow> string \<Rightarrow> bool" where
  "strcaseeq a b \<longleftrightarrow> map lower a = map lower b"

definition conversion_tab :: "(string \<times> converter) list" where
  "conversion_tab =
     [(''UTF-8/UTF-32LE'', convert_utf8_utf32 False), (''UTF-8/UTF-32BE'', convert_utf8_utf32 True),
      (''UTF-8/UTF-16LE'', convert_utf8_utf16 False), (''UTF-8/UTF-16BE'', convert_utf8_utf16 True),
      (''UTF-32LE/UTF-8'', convert_utf32_utf8 False), (''UTF-32BE/UTF-8'', convert_utf32_utf8 True),
      (''UTF-16LE/UTF-8'', convert_utf16_utf8 False), (''UTF-16BE/UTF-8'', convert_utf16_utf8 True)]"

text \<open>
  The library: \<open>None\<close> when the host has no \<^verbatim>\<open>iconv\<close>; otherwise what \<^verbatim>\<open>iconv_open\<close> and
  \<^verbatim>\<open>convert_using_iconv\<close> make of the names of the two sets, or the error of \<^verbatim>\<open>iconv_open\<close>. The width of
  a converter is set by the caller.
\<close>

type_synonym iconv_lib = "(string \<Rightarrow> string \<Rightarrow> errno + converter) option"

definition init_iconv_desc :: "iconv_lib \<Rightarrow> cpp_reader \<Rightarrow> string \<Rightarrow> string \<Rightarrow> converter \<times> cpp_reader" where
  "init_iconv_desc iconv pfile to from =
     (if strcaseeq to from then (convert_no_conversion, pfile)
      else
        (case find (\<lambda>e. strcaseeq (from @ ''/'' @ to) (fst e)) conversion_tab of
           Some e \<Rightarrow> (snd e, pfile)
         | None \<Rightarrow>
             (case iconv of
                Some iconv_open \<Rightarrow>
                  (case iconv_open to from of
                     Inr f \<Rightarrow> (f, pfile)
                   | Inl e \<Rightarrow>
                       (convert_no_conversion,
                        if e = EINVAL then
                          cpp_error pfile CPP_DL_ERROR ''conversion from %s to %s not supported by iconv''
                        else cpp_error pfile CPP_DL_ERROR ''iconv_open''))
              | None \<Rightarrow>
                  (convert_no_conversion,
                   cpp_error pfile CPP_DL_ERROR ''no iconv implementation, cannot convert from %s to %s''))))"

definition cpp_init_iconv :: "iconv_lib \<Rightarrow> cpp_reader \<Rightarrow> csets \<times> cpp_reader" where
  "cpp_init_iconv iconv pfile =
     (let o' = opts pfile; be = bytes_big_endian o';
          default_wcset =
            (if wchar_precision o' \<ge> 32 then if be then ''UTF-32BE'' else ''UTF-32LE''
             else if wchar_precision o' \<ge> 16 then if be then ''UTF-16BE'' else ''UTF-16LE''
             else SOURCE_CHARSET);
          ncset = (case narrow_charset o' of None \<Rightarrow> SOURCE_CHARSET | Some n \<Rightarrow> n);
          wcset = (case wide_charset o' of None \<Rightarrow> default_wcset | Some n \<Rightarrow> n);
          (narrow, pfile) = init_iconv_desc iconv pfile ncset SOURCE_CHARSET;
          (utf8, pfile) = init_iconv_desc iconv pfile ''UTF-8'' SOURCE_CHARSET;
          (char16, pfile) = init_iconv_desc iconv pfile (if be then ''UTF-16BE'' else ''UTF-16LE'') SOURCE_CHARSET;
          (char32, pfile) = init_iconv_desc iconv pfile (if be then ''UTF-32BE'' else ''UTF-32LE'') SOURCE_CHARSET;
          (wide, pfile) = init_iconv_desc iconv pfile wcset SOURCE_CHARSET
      in (\<lparr>narrow_cset_desc = \<lparr>cvt_func = narrow, cvt_width = char_precision o'\<rparr>,
           utf8_cset_desc = \<lparr>cvt_func = utf8, cvt_width = char_precision o'\<rparr>,
           char16_cset_desc = \<lparr>cvt_func = char16, cvt_width = 16\<rparr>,
           char32_cset_desc = \<lparr>cvt_func = char32, cvt_width = 32\<rparr>,
           wide_cset_desc = \<lparr>cvt_func = wide, cvt_width = wchar_precision o'\<rparr>\<rparr>, pfile))"

definition converter_for_type :: "csets \<Rightarrow> cpp_ttype \<Rightarrow> cset_converter" where
  "converter_for_type cs ttype =
     (if ttype = CPP_UTF8CHAR \<or> ttype = CPP_UTF8STRING then utf8_cset_desc cs
      else if ttype = CPP_CHAR16 \<or> ttype = CPP_STRING16 then char16_cset_desc cs
      else if ttype = CPP_CHAR32 \<or> ttype = CPP_STRING32 then char32_cset_desc cs
      else if ttype = CPP_WCHAR \<or> ttype = CPP_WSTRING then wide_cset_desc cs
      else narrow_cset_desc cs)"

section \<open>Escape sequences\<close>

text \<open>The low 32 bits of the mask, which is all that its uses look at.\<close>

definition width_to_mask :: "nat \<Rightarrow> cppchar_t" where
  "width_to_mask width = (let width = min width 32 in if width \<ge> 32 then NOT 0 else push_bit width 1 - 1)"

text \<open>\<^verbatim>\<open>APPLY_CONVERSION\<close> with the diagnostic for a failure; the text already there stays.\<close>

definition apply_conversion ::
    "cpp_reader \<Rightarrow> cset_converter \<Rightarrow> byte list \<Rightarrow> strbuf \<Rightarrow> string \<Rightarrow> (strbuf \<times> cpp_reader) option" where
  "apply_conversion pfile cvt from tbuf msg =
     do { (e, tbuf) \<leftarrow> cvt_func cvt from tbuf;
          Some (tbuf, diag_if (e \<noteq> None) (\<lambda>r. cpp_error r CPP_DL_ERROR msg) pfile) }"

fun numeric_bytes :: "nat \<Rightarrow> cppchar_t \<Rightarrow> nat \<Rightarrow> byte list" where
  "numeric_bytes 0 n cwidth = []"
| "numeric_bytes (Suc k) n cwidth = ucast (n AND width_to_mask cwidth) # numeric_bytes k (drop_bit cwidth n) cwidth"

text \<open>Room for \<open>k\<close> more bytes: the buffer grows by one block when it has less.\<close>

definition make_room :: "nat \<Rightarrow> strbuf \<Rightarrow> strbuf" where
  "make_room k tbuf =
     (if length (buf_text tbuf) + k > asize tbuf then tbuf\<lparr>asize := asize tbuf + OUTBUF_BLOCK_SIZE\<rparr> else tbuf)"

definition emit_numeric_escape :: "cpp_reader \<Rightarrow> cppchar_t \<Rightarrow> strbuf \<Rightarrow> cset_converter \<Rightarrow> strbuf" where
  "emit_numeric_escape pfile n tbuf cvt =
     (let width = cvt_width cvt; cwidth = char_precision (opts pfile) in
      if width \<noteq> cwidth then
        (let nbwc = width div cwidth; tbuf = make_room nbwc tbuf; bs = numeric_bytes nbwc n cwidth
         in tbuf\<lparr>buf_text := buf_text tbuf @ (if bytes_big_endian (opts pfile) then rev bs else bs)\<rparr>)
      else
        (let tbuf = make_room 1 tbuf in tbuf\<lparr>buf_text := buf_text tbuf @ [ucast n]\<rparr>))"

text \<open>The digits of \<^verbatim>\<open>\x\<close>: where they end, the value, the bits that were shifted out, and whether there were any.\<close>

function hex_digits :: "byte list \<Rightarrow> nat \<Rightarrow> nat \<Rightarrow> cppchar_t \<Rightarrow> cppchar_t \<Rightarrow> bool \<Rightarrow> nat \<times> cppchar_t \<times> cppchar_t \<times> bool" where
  "hex_digits s limit from n overflow digits_found =
     (if from < limit \<and> ISXDIGIT (chr_of (byte_in s from)) then
        hex_digits s limit (from + 1) (push_bit 4 n + word_of_nat (hex_value (chr_of (byte_in s from))))
          (overflow OR (n XOR drop_bit 4 (push_bit 4 n))) True
      else (from, n, overflow, digits_found))"
  by pat_completeness auto
termination
  by (relation "measure (\<lambda>(s, limit, from, n, ov, d). limit - from)") auto

declare hex_digits.simps [simp del]

text \<open>\<open>from\<close> is the position of the \<^verbatim>\<open>x\<close>.\<close>

definition convert_hex ::
    "cpp_reader \<Rightarrow> byte list \<Rightarrow> nat \<Rightarrow> nat \<Rightarrow> strbuf \<Rightarrow> cset_converter \<Rightarrow> nat \<times> strbuf \<times> cpp_reader" where
  "convert_hex pfile s from limit tbuf cvt =
     (let mask = width_to_mask (cvt_width cvt);
          pfile = diag_if (cpp_warn_traditional (opts pfile))
            (\<lambda>r. cpp_warning r CPP_W_TRADITIONAL ''the meaning of x after a backslash is different in traditional C'') pfile;
          (from, n, overflow, digits_found) = hex_digits s limit (from + 1) 0 0 False
      in
      if \<not> digits_found then
        (from, tbuf, cpp_error pfile CPP_DL_ERROR ''x after a backslash used with no following hex digits'')
      else
        (let out_of_range = (overflow \<noteq> 0 \<or> n \<noteq> n AND mask);
             pfile = diag_if out_of_range (\<lambda>r. cpp_error r CPP_DL_PEDWARN ''hex escape sequence out of range'') pfile;
             n = (if out_of_range then n AND mask else n)
         in (from, emit_numeric_escape pfile n tbuf cvt, pfile)))"

text \<open>The source also collects an overflow of three octal digits, which cannot happen, and does not use it.\<close>

function oct_digits :: "byte list \<Rightarrow> nat \<Rightarrow> nat \<Rightarrow> nat \<Rightarrow> cppchar_t \<Rightarrow> nat \<times> cppchar_t" where
  "oct_digits s limit from count n =
     (if from < limit \<and> count < 3 \<and> \<not> (byte_in s from < b_of CHR ''0'' \<or> byte_in s from > b_of CHR ''7'') then
        oct_digits s limit (from + 1) (count + 1) (push_bit 3 n + ucast (byte_in s from) - ucast (b_of CHR ''0''))
      else (from, n))"
  by pat_completeness auto
termination
  by (relation "measure (\<lambda>(s, limit, from, count, n). limit - from)") auto

declare oct_digits.simps [simp del]

definition convert_oct ::
    "cpp_reader \<Rightarrow> byte list \<Rightarrow> nat \<Rightarrow> nat \<Rightarrow> strbuf \<Rightarrow> cset_converter \<Rightarrow> nat \<times> strbuf \<times> cpp_reader" where
  "convert_oct pfile s from limit tbuf cvt =
     (let mask = width_to_mask (cvt_width cvt);
          (from, n) = oct_digits s limit from 0 0;
          out_of_range = (n \<noteq> n AND mask);
          pfile = diag_if out_of_range (\<lambda>r. cpp_error r CPP_DL_PEDWARN ''octal escape sequence out of range'') pfile;
          n = (if out_of_range then n AND mask else n)
      in (from, emit_numeric_escape pfile n tbuf cvt, pfile))"

text \<open>\<open>from\<close> is the position of the \<^verbatim>\<open>u\<close> or \<^verbatim>\<open>U\<close>.\<close>

definition convert_ucn ::
    "cpp_reader \<Rightarrow> byte list \<Rightarrow> nat \<Rightarrow> nat \<Rightarrow> strbuf \<Rightarrow> cset_converter \<Rightarrow> (nat \<times> strbuf \<times> cpp_reader) option" where
  "convert_ucn pfile s from limit tbuf cvt =
     do { (_, from, ucn, _, pfile) \<leftarrow> cpp_valid_ucn pfile s (from + 1) limit 0 INITIAL_NORMALIZE_STATE;
          r \<leftarrow> one_cppchar_to_utf8 ucn 6;
          (case r of
             Inl e \<Rightarrow> Some (from, tbuf, cpp_error pfile CPP_DL_ERROR ''converting UCN to source character set'')
           | Inr buf \<Rightarrow>
               do { (tbuf, pfile) \<leftarrow> apply_conversion pfile cvt buf tbuf ''converting UCN to execution character set'';
                    Some (from, tbuf, pfile) }) }"

text \<open>The values of \<^verbatim>\<open>\a\<close>, \<^verbatim>\<open>\b\<close>, \<^verbatim>\<open>\e\<close>, \<^verbatim>\<open>\f\<close>, \<^verbatim>\<open>\n\<close>, \<^verbatim>\<open>\r\<close>, \<^verbatim>\<open>\t\<close>, \<^verbatim>\<open>\v\<close> in ASCII.\<close>

definition charconsts :: "byte list" where
  "charconsts = [7, 8, 27, 12, 10, 13, 9, 11]"

definition ISGRAPH :: "byte \<Rightarrow> bool" where
  "ISGRAPH c \<longleftrightarrow> 33 \<le> unat c \<and> unat c \<le> 126"

text \<open>
  The letter escapes: the value, and the diagnostic, of the byte \<open>c\<close> behind the backslash. Only
  the number of characters of the message differs for one that cannot be printed.
\<close>

definition unknown_escape :: "cpp_reader \<Rightarrow> byte \<Rightarrow> byte \<times> cpp_reader" where
  "unknown_escape pfile c =
     (c, cpp_error pfile CPP_DL_PEDWARN
           (if ISGRAPH c then ''unknown escape sequence: %c'' else ''unknown escape sequence: %s''))"

definition letter_escape :: "cpp_reader \<Rightarrow> byte \<Rightarrow> byte \<times> cpp_reader" where
  "letter_escape pfile c =
     (let o' = opts pfile in
      if c = 0x5C \<or> c = 0x27 \<or> c = 0x22 \<or> c = b_of CHR ''?'' then (c, pfile)
      else if c = b_of CHR ''('' \<or> c = b_of CHR ''{'' \<or> c = b_of CHR ''['' \<or> c = b_of CHR ''%'' then
        (if cpp_pedantic o' then unknown_escape pfile c else (c, pfile))
      else if c = b_of CHR ''b'' then (charconsts ! 1, pfile)
      else if c = b_of CHR ''f'' then (charconsts ! 3, pfile)
      else if c = b_of CHR ''n'' then (charconsts ! 4, pfile)
      else if c = b_of CHR ''r'' then (charconsts ! 5, pfile)
      else if c = b_of CHR ''t'' then (charconsts ! 6, pfile)
      else if c = b_of CHR ''v'' then (charconsts ! 7, pfile)
      else if c = b_of CHR ''a'' then
        (charconsts ! 0,
         diag_if (cpp_warn_traditional o')
           (\<lambda>r. cpp_warning r CPP_W_TRADITIONAL ''the meaning of a after a backslash is different in traditional C'') pfile)
      else if c = b_of CHR ''e'' \<or> c = b_of CHR ''E'' then
        (charconsts ! 2,
         diag_if (cpp_pedantic o') (\<lambda>r. cpp_error r CPP_DL_PEDWARN ''non-ISO-standard escape sequence, %c'') pfile)
      else unknown_escape pfile c)"

text \<open>\<open>from\<close> is the position behind the backslash.\<close>

definition convert_escape ::
    "cpp_reader \<Rightarrow> byte list \<Rightarrow> nat \<Rightarrow> nat \<Rightarrow> strbuf \<Rightarrow> cset_converter \<Rightarrow> (nat \<times> strbuf \<times> cpp_reader) option" where
  "convert_escape pfile s from limit tbuf cvt =
     (let c = byte_in s from in
      if c = b_of CHR ''u'' \<or> c = b_of CHR ''U'' then convert_ucn pfile s from limit tbuf cvt
      else if c = b_of CHR ''x'' then Some (convert_hex pfile s from limit tbuf cvt)
      else if b_of CHR ''0'' \<le> c \<and> c \<le> b_of CHR ''7'' then Some (convert_oct pfile s from limit tbuf cvt)
      else
        (let (c, pfile) = letter_escape pfile c in
         do { (tbuf, pfile) \<leftarrow> apply_conversion pfile cvt [c] tbuf ''converting escape sequence to execution character set'';
              Some (from + 1, tbuf, pfile) }))"

section \<open>Strings\<close>

text \<open>The end of a run of bytes other than a backslash.\<close>

function run_end :: "byte list \<Rightarrow> nat \<Rightarrow> nat \<Rightarrow> nat" where
  "run_end s limit p = (if p < limit \<and> byte_in s p \<noteq> 0x5C then run_end s limit (p + 1) else p)"
  by pat_completeness auto
termination
  by (relation "measure (\<lambda>(s, limit, p). limit - p)") auto

declare run_end.simps [simp del]

text \<open>
  The loop over a string: runs of ordinary characters and escape sequences in turn. The result is
  \<open>False\<close> for \<^verbatim>\<open>goto fail\<close>.
\<close>

partial_function (option) interpret_chars ::
    "cset_converter \<Rightarrow> byte list \<Rightarrow> nat \<Rightarrow> nat \<Rightarrow> strbuf \<Rightarrow> cpp_reader \<Rightarrow> (bool \<times> strbuf \<times> cpp_reader) option" where [code]:
  "interpret_chars cvt s limit base tbuf pfile =
     (let p = run_end s limit base in
      do { (e, tbuf) \<leftarrow> (if p > base then cvt_func cvt (take (p - base) (drop base s)) tbuf else Some (None, tbuf));
           if e \<noteq> None then Some (False, tbuf, pfile)
           else if p \<ge> limit then Some (True, tbuf, pfile)
           else
             do { (p, tbuf, pfile) \<leftarrow> convert_escape pfile s (p + 1) limit tbuf cvt;
                  interpret_chars cvt s limit p tbuf pfile } })"

text \<open>The encoding prefix: the position behind it.\<close>

definition skip_prefix :: "byte list \<Rightarrow> nat" where
  "skip_prefix s =
     (let c = byte_in s 0 in
      if c = b_of CHR ''u'' then if byte_in s 1 = b_of CHR ''8'' then 2 else 1
      else if c = b_of CHR ''L'' \<or> c = b_of CHR ''U'' then 1
      else 0)"

text \<open>The search for the parenthesis behind the delimiter of a raw string, which has to be there.\<close>

fun find_paren :: "byte list \<Rightarrow> nat \<Rightarrow> nat option" where
  "find_paren [] p = None"
| "find_paren (b # s) p = (if b = b_of CHR ''('' then Some p else find_paren s (p + 1))"

definition interpret_raw ::
    "cset_converter \<Rightarrow> byte list \<Rightarrow> nat \<Rightarrow> strbuf \<Rightarrow> cpp_reader \<Rightarrow> (bool \<times> strbuf \<times> cpp_reader) option" where
  "interpret_raw cvt s p tbuf pfile =
     (let prefix = p + 2 in
      do { q \<leftarrow> find_paren (drop prefix s) prefix;
           let p = q + 1;
           let limit = (if length s \<ge> p + (p - prefix) + 1 then length s - ((p - prefix) + 1) else length s);
           if limit < p then None
           else do { (e, tbuf) \<leftarrow> cvt_func cvt (take (limit - p) (drop p s)) tbuf;
                     Some (e = None, tbuf, pfile) } })"

text \<open>One of the strings to be concatenated. A missing quote fails the assertion \<^verbatim>\<open>out != NULL\<close>.\<close>

definition interpret_one ::
    "cset_converter \<Rightarrow> byte list \<Rightarrow> strbuf \<Rightarrow> cpp_reader \<Rightarrow> (bool \<times> strbuf \<times> cpp_reader) option" where
  "interpret_one cvt s tbuf pfile =
     (let p = skip_prefix s in
      if byte_in s p = b_of CHR ''R'' then interpret_raw cvt s p tbuf pfile
      else if byte_in s p \<noteq> 0x22 \<and> byte_in s p \<noteq> 0x27 then None
      else interpret_chars cvt s (length s - 1) (p + 1) tbuf pfile)"

fun interpret_all ::
    "cset_converter \<Rightarrow> byte list list \<Rightarrow> strbuf \<Rightarrow> cpp_reader \<Rightarrow> (bool \<times> strbuf \<times> cpp_reader) option" where
  "interpret_all cvt [] tbuf pfile = Some (True, tbuf, pfile)"
| "interpret_all cvt (s # ss) tbuf pfile =
     do { (ok, tbuf, pfile) \<leftarrow> interpret_one cvt s tbuf pfile;
          if ok then interpret_all cvt ss tbuf pfile else Some (False, tbuf, pfile) }"

text \<open>
  \<^verbatim>\<open>cpp_interpret_string\<close> returns the bytes of the string with the NUL behind it, or nothing after an
  error. The first buffer is as long as the first string but not shorter than a block.
\<close>

definition cpp_interpret_string ::
    "csets \<Rightarrow> cpp_reader \<Rightarrow> byte list list \<Rightarrow> cpp_ttype \<Rightarrow> (byte list option \<times> cpp_reader) option" where
  "cpp_interpret_string cs pfile from ttype =
     (let cvt = converter_for_type cs ttype;
          tbuf = \<lparr>buf_text = [], asize = max OUTBUF_BLOCK_SIZE (length (hd from))\<rparr>
      in do { (ok, tbuf, pfile) \<leftarrow> interpret_all cvt from tbuf pfile;
              if ok then Some (Some (buf_text (emit_numeric_escape pfile 0 tbuf cvt)), pfile)
              else Some (None, cpp_error pfile CPP_DL_ERROR ''converting to execution character set'') })"

definition cpp_interpret_string_notranslate ::
    "csets \<Rightarrow> cpp_reader \<Rightarrow> byte list list \<Rightarrow> (byte list option \<times> cpp_reader) option" where
  "cpp_interpret_string_notranslate cs pfile from =
     cpp_interpret_string
       (cs\<lparr>narrow_cset_desc := \<lparr>cvt_func = convert_no_conversion, cvt_width = char_precision (opts pfile)\<rparr>\<rparr>)
       pfile from CPP_STRING"

section \<open>Character constants\<close>

text \<open>The loop of \<^verbatim>\<open>narrow_str_to_charconst\<close>, over the bytes without the NUL.\<close>

definition narrow_value :: "nat \<Rightarrow> byte list \<Rightarrow> cppchar_t" where
  "narrow_value width bs =
     foldl (\<lambda>result b. let c = ucast b AND width_to_mask width in
              if width < 32 then push_bit width result OR c else c) 0 bs"

text \<open>Truncation to \<open>width\<close> bits and zero or sign extension to the width of \<^verbatim>\<open>cppchar_t\<close>.\<close>

definition extend_char :: "nat \<Rightarrow> bool \<Rightarrow> cppchar_t \<Rightarrow> cppchar_t" where
  "extend_char width zero_extend result =
     (if width < 32 then
        (let mask = push_bit width 1 - 1 in
         if zero_extend \<or> result AND push_bit (width - 1) 1 = 0 then result AND mask else result OR NOT mask)
      else result)"

text \<open>The value, the number of characters seen and \<^verbatim>\<open>unsignedp\<close>.\<close>

definition narrow_str_to_charconst :: "cpp_reader \<Rightarrow> byte list \<Rightarrow> cppchar_t \<times> nat \<times> bool \<times> cpp_reader" where
  "narrow_str_to_charconst pfile str =
     (let o' = opts pfile; width = char_precision o'; max_chars = int_precision o' div width;
          i = length str - 1;
          result = narrow_value width (take i str);
          (i, pfile) =
            (if i > max_chars then
               (max_chars, cpp_error pfile CPP_DL_WARNING ''character constant too long for its type'')
             else
               (i, diag_if (i > 1 \<and> warn_multichar o')
                     (\<lambda>r. cpp_warning r CPP_W_MULTICHAR ''multi-character character constant'') pfile));
          unsigned_p = (if i > 1 then False else unsigned_char o')
      in (extend_char (if i > 1 then int_precision o' else width) unsigned_p result, i, unsigned_p, pfile))"

text \<open>The bytes of the last character, read in the byte order of the target.\<close>

fun wide_value :: "nat \<Rightarrow> byte list \<Rightarrow> cppchar_t \<Rightarrow> cppchar_t" where
  "wide_value cwidth [] result = result"
| "wide_value cwidth (b # bs) result =
     wide_value cwidth bs (push_bit cwidth result OR (ucast b AND width_to_mask cwidth))"

definition wide_str_to_charconst ::
    "csets \<Rightarrow> cpp_reader \<Rightarrow> byte list \<Rightarrow> cpp_ttype \<Rightarrow> (cppchar_t \<times> nat \<times> bool \<times> cpp_reader) option" where
  "wide_str_to_charconst cs pfile str ttype =
     (let o' = opts pfile; width = cvt_width (converter_for_type cs ttype); cwidth = char_precision o';
          nbwc = width div cwidth in
      if length str < nbwc * 2 then None
      else
        (let bs = take nbwc (drop (length str - nbwc * 2) str);
             result = wide_value cwidth (if bytes_big_endian o' then bs else rev bs) 0;
             pfile = diag_if (length str > nbwc * 2)
                       (\<lambda>r. cpp_error r CPP_DL_WARNING ''character constant too long for its type'') pfile;
             unsigned_p = (ttype = CPP_CHAR16 \<or> ttype = CPP_CHAR32 \<or> unsigned_wchar o')
         in Some (extend_char width unsigned_p result, 1, unsigned_p, pfile)))"

definition token_bytes :: "cpp_token \<Rightarrow> byte list" where
  "token_bytes token = map b_of (val_text (val token))"

definition cpp_interpret_charconst ::
    "csets \<Rightarrow> cpp_reader \<Rightarrow> cpp_token \<Rightarrow> (cppchar_t \<times> nat \<times> bool \<times> cpp_reader) option" where
  "cpp_interpret_charconst cs pfile token =
     (let ttype = type token; wide = (ttype \<noteq> CPP_CHAR \<and> ttype \<noteq> CPP_UTF8CHAR);
          u8 = (if ttype = CPP_UTF8CHAR then 2 else 0) in
      if length (token_bytes token) = 2 + (if wide then 1 else 0) + u8 then
        Some (0, 0, False, cpp_error pfile CPP_DL_ERROR ''empty character constant'')
      else
        do { (str, pfile) \<leftarrow> cpp_interpret_string cs pfile [token_bytes token] ttype;
             (case str of
                None \<Rightarrow> Some (0, 0, False, pfile)
              | Some str \<Rightarrow>
                  if wide then wide_str_to_charconst cs pfile str ttype
                  else Some (narrow_str_to_charconst pfile str)) })"

end
