(* ===== verification/Cpp_Literal.thy ===== *)
theory Cpp_Literal
  imports Cpp_String "HOL-Library.Sublist"
begin

text \<open>
  What the interpretation of literals guarantees: it returns for every spelling between quotes and
  keeps the buffer well formed, for every converter that keeps the contract of the locale
  \<open>charset_converter\<close>; the value of the numeric escapes; the values of character constants; the
  round trip through \<^verbatim>\<open>cpp_quote_string\<close>.
\<close>

section \<open>Returning, and the buffer\<close>

definition buf_ok :: "strbuf \<Rightarrow> bool" where
  "buf_ok b \<longleftrightarrow> length (buf_text b) \<le> asize b"

lemma emit_numeric_ok:
  assumes "buf_ok b" "cvt_width cvt div char_precision (opts r) \<le> 256"
  shows "buf_ok (emit_numeric_escape r n b cvt)" "prefix (buf_text b) (buf_text (emit_numeric_escape r n b cvt))"
proof -
  have l: "length (numeric_bytes k n w) = k" for k n w
    by (induction k n w rule: numeric_bytes.induct) auto
  show "buf_ok (emit_numeric_escape r n b cvt)"
    using assms by (auto simp: buf_ok_def emit_numeric_escape_def make_room_def OUTBUF_BLOCK_SIZE_def l Let_def)
  show "prefix (buf_text b) (buf_text (emit_numeric_escape r n b cvt))"
    by (simp add: emit_numeric_escape_def make_room_def Let_def)
qed

lemma opts_diag_if [simp]: "(\<And>r. opts (f r) = opts r) \<Longrightarrow> opts (diag_if c f r) = opts r"
  by (simp add: diag_if_def)

lemma opts_diagnostic [simp]: "opts (cpp_diagnostic r l w p m) = opts r"
  by (simp add: cpp_diagnostic_def)

lemma hex_digits_from: "i \<le> fst (hex_digits s limit i n ov d)"
  by (induction s limit i n ov d rule: hex_digits.induct) (subst hex_digits.simps, auto)

lemma oct_digits_from: "i \<le> fst (oct_digits s limit i count n)"
  by (induction s limit i count n rule: oct_digits.induct) (subst oct_digits.simps, auto)

lemma ucn_digits_from: "i \<le> fst (ucn_digits s limit i l n)"
  by (induction s limit i l n rule: ucn_digits.induct) (subst ucn_digits.simps, auto simp: Let_def intro: Suc_leD)

lemma run_end_from: "i \<le> run_end s limit i"
  by (induction s limit i rule: run_end.induct) (subst run_end.simps, auto)

text \<open>\<open>grows i r b\<close>: a step that returns a later position, the same options, and a buffer that is well
  formed and has only been appended to.\<close>

definition grows :: "nat \<Rightarrow> cpp_reader \<Rightarrow> strbuf \<Rightarrow> nat \<times> strbuf \<times> cpp_reader \<Rightarrow> bool" where
  "grows from r b res \<longleftrightarrow>
     (case res of (p, b', r') \<Rightarrow>
        from \<le> p \<and> buf_ok b' \<and> prefix (buf_text b) (buf_text b') \<and> opts r' = opts r)"

lemma convert_hex_grows:
  assumes "buf_ok b" "cvt_width cvt div char_precision (opts r) \<le> 256"
  shows "grows from r b (convert_hex r s from limit b cvt)"
  using assms hex_digits_from[of "from + 1" s limit 0 0 False]
  by (cases "hex_digits s limit (from + 1) 0 0 False")
    (auto simp: grows_def convert_hex_def Let_def emit_numeric_ok diag_if_def)

lemma convert_oct_grows:
  assumes "buf_ok b" "cvt_width cvt div char_precision (opts r) \<le> 256"
  shows "grows from r b (convert_oct r s from limit b cvt)"
  using assms oct_digits_from[of "from" s limit 0 0]
  by (cases "oct_digits s limit from 0 0")
    (auto simp: grows_def convert_oct_def Let_def emit_numeric_ok diag_if_def)

text \<open>Outside an identifier a universal character name always has a value of 31 bits.\<close>

lemma high_bit_clear: "(c :: cppchar_t) AND 0x80000000 = 0 \<Longrightarrow> unat c < 0x80000000"
proof -
  assume "c AND 0x80000000 = 0"
  moreover have "0x80000000 = (push_bit 31 1 :: cppchar_t)"
    by simp
  ultimately have "\<not> bit c 31"
    by (metis and_exp_eq_0_iff_not_bit push_bit_of_1)
  then have "\<not> bit (unat c) 31"
    by (simp add: bit_unsigned_iff)
  then show ?thesis
    using top_bit_iff[of "unat c" 31] unat_32_num[of c] by simp
qed

definition ucn_refused :: "cpp_reader \<Rightarrow> cppchar_t \<Rightarrow> bool" where
  "ucn_refused r v \<longleftrightarrow> (v < 0xa0 \<and> \<not> cplusplus (opts r) \<and> v \<noteq> 0x24 \<and> v \<noteq> 0x40 \<and> v \<noteq> 0x60) \<or>
     v AND 0x80000000 \<noteq> 0 \<or> (v \<ge> 0xD800 \<and> v \<le> 0xDFFF)"

lemma opts_ucn_preamble: "opts (ucn_preamble r k b) = opts r"
  by (simp add: ucn_preamble_def Let_def)

lemma valid_ucn_outside:
  assumes "ucn_digits s limit pstr (if byte_in s (pstr - 1) = b_of CHR ''U'' then 8 else 4) 0 = (p, l, v)"
  shows "\<exists>r'. cpp_valid_ucn r s pstr limit 0 nst = Some (True, p, if l \<noteq> 0 \<or> ucn_refused r v then 1 else v, nst, r')
            \<and> opts r' = opts r"
  using assms by (auto simp: cpp_valid_ucn_def ucn_refused_def opts_ucn_preamble Let_def)

lemma valid_ucn_string:
  obtains p ucn nst r' where "cpp_valid_ucn r s pstr limit 0 nst0 = Some (True, p, ucn, nst, r')"
    "pstr \<le> p" "unat ucn < 0x80000000" "opts r' = opts r"
proof -
  obtain p l v where d: "ucn_digits s limit pstr (if byte_in s (pstr - 1) = b_of CHR ''U'' then 8 else 4) 0 = (p, l, v)"
    by (metis prod_cases3)
  then have "pstr \<le> p"
    by (metis fst_conv ucn_digits_from)
  moreover have "\<not> ucn_refused r v \<Longrightarrow> unat v < 0x80000000"
    using high_bit_clear[of v] by (auto simp: ucn_refused_def)
  ultimately show thesis
    using valid_ucn_outside[OF d, of r nst0] that by (auto split: if_splits)
qed

text \<open>
  The contract of a converter to an execution character set: it returns, keeps the buffer well
  formed and only appends to it, whether it succeeds or not.
\<close>

lemma opts_letter_escape: "opts (snd (letter_escape r c)) = opts r"
  by (simp add: letter_escape_def unknown_escape_def Let_def)

definition raw_string :: "byte list \<Rightarrow> nat \<Rightarrow> bool" where
  "raw_string s p \<longleftrightarrow> p \<le> length s \<and>
     (\<exists>d body. b_of CHR ''('' \<notin> set d \<and>
        drop p s = [b_of CHR ''R'', 0x22] @ d @ [b_of CHR ''(''] @ body @ [b_of CHR '')''] @ d @ [0x22])"

text \<open>The spelling of a literal: behind the prefix it has a quote, or the delimiters of a raw string.\<close>

definition literal :: "byte list \<Rightarrow> bool" where
  "literal s \<longleftrightarrow>
     (let p = skip_prefix s in
      byte_in s p = 0x22 \<or> byte_in s p = 0x27 \<or> (byte_in s p = b_of CHR ''R'' \<and> raw_string s p))"

lemma find_paren_append: "b_of CHR ''('' \<notin> set d \<Longrightarrow> find_paren (d @ b_of CHR ''('' # t) p = Some (p + length d)"
  by (induction d arbitrary: p) auto

locale charset_converter =
  fixes cvt :: cset_converter
  assumes converts: "buf_ok b \<Longrightarrow> \<exists>e b'. cvt_func cvt s b = Some (e, b') \<and> buf_ok b' \<and> prefix (buf_text b) (buf_text b')"
begin

lemma apply_total:
  assumes "buf_ok b"
  shows "\<exists>b' r'. apply_conversion r cvt s b msg = Some (b', r') \<and> grows i r b (i, b', r')"
proof -
  obtain e b' where "cvt_func cvt s b = Some (e, b')" "buf_ok b'" "prefix (buf_text b) (buf_text b')"
    using converts[OF assms] by blast
  then show ?thesis
    by (simp add: apply_conversion_def grows_def)
qed

lemma ucn_total:
  assumes "buf_ok b" shows "\<exists>res. convert_ucn r s i limit b cvt = Some res \<and> grows i r b res"
proof -
  obtain p ucn nst r' where u: "cpp_valid_ucn r s (i + 1) limit 0 INITIAL_NORMALIZE_STATE = Some (True, p, ucn, nst, r')"
      "i + 1 \<le> p" "unat ucn < 0x80000000" "opts r' = opts r"
    by (rule valid_ucn_string)
  then have "one_cppchar_to_utf8 ucn 6 = Some (Inr (u8 ucn))"
    using u8_length(1)[of ucn] by (simp add: to_utf8_encodes)
  moreover obtain b' r'' where "apply_conversion r' cvt (u8 ucn) b ''converting UCN to execution character set'' = Some (b', r'')"
      "grows p r' b (p, b', r'')"
    using apply_total[OF assms] by blast
  ultimately show ?thesis
    using u by (simp add: convert_ucn_def grows_def)
qed

lemma escape_total:
  assumes "buf_ok b" "cvt_width cvt div char_precision (opts r) \<le> 256"
  shows "\<exists>res. convert_escape r s i limit b cvt = Some res \<and> grows i r b res"
proof -
  obtain c r1 where l: "letter_escape r (byte_in s i) = (c, r1)"
    by fastforce
  have "opts r1 = opts r"
    using opts_letter_escape[of r "byte_in s i"] l by simp
  moreover obtain b' r' where "apply_conversion r1 cvt [c] b ''converting escape sequence to execution character set'' = Some (b', r')"
      "grows (i + 1) r1 b (i + 1, b', r')"
    using apply_total[OF assms(1)] by blast
  ultimately show ?thesis
    using l ucn_total[OF assms(1), of r s i limit] convert_hex_grows[OF assms, of i s limit] convert_oct_grows[OF assms, of i s limit]
    by (auto simp: convert_escape_def Let_def grows_def)
qed

lemma chars_total:
  assumes "buf_ok b" "cvt_width cvt div char_precision (opts r) \<le> 256"
  shows "\<exists>ok b' r'. interpret_chars cvt s limit p b r = Some (ok, b', r') \<and> grows p r b (p, b', r')"
  using assms
proof (induction "limit - p" arbitrary: p b r rule: less_induct)
  case less
  define q where "q = run_end s limit p"
  have q: "p \<le> q"
    by (simp add: q_def run_end_from)
  obtain e b1 where b1: "(if q > p then cvt_func cvt (take (q - p) (drop p s)) b else Some (None, b)) = Some (e, b1)"
      "buf_ok b1" "prefix (buf_text b) (buf_text b1)"
    using converts[OF less.prems(1), of "take (q - p) (drop p s)"] less.prems(1) by (cases "q > p") auto
  show ?case
  proof (cases "e \<noteq> None \<or> q \<ge> limit")
    case True
    then show ?thesis
      using b1 by (subst interpret_chars.simps) (auto simp: q_def[symmetric] Let_def grows_def)
  next
    case False
    obtain p' b2 r2 where e: "convert_escape r s (q + 1) limit b1 cvt = Some (p', b2, r2)" "grows (q + 1) r b1 (p', b2, r2)"
      using escape_total[OF b1(2) less.prems(2), of s "q + 1" limit] by (metis prod_cases3)
    have "\<exists>ok b' r'. interpret_chars cvt s limit p' b2 r2 = Some (ok, b', r') \<and> grows p' r2 b2 (p', b', r')"
      using less.hyps[of p' b2 r2] e(2) less.prems(2) q False by (auto simp: grows_def)
    moreover have "interpret_chars cvt s limit p b r = interpret_chars cvt s limit p' b2 r2"
      using b1(1) e(1) False by (subst interpret_chars.simps) (simp add: q_def[symmetric] Let_def)
    ultimately show ?thesis
      using e(2) b1(3) by (auto simp: grows_def intro: prefix_order.trans)
  qed
qed

lemma raw_total:
  assumes "buf_ok b" "raw_string s p"
  shows "\<exists>ok b' r'. interpret_raw cvt s p b r = Some (ok, b', r') \<and> grows p r b (p, b', r')"
proof -
  obtain d body where s: "p \<le> length s" "drop p s = [b_of CHR ''R'', 0x22] @ d @ [b_of CHR ''(''] @ body @ [b_of CHR '')''] @ d @ [0x22]"
      "b_of CHR ''('' \<notin> set d"
    using assms(2) by (auto simp: raw_string_def)
  have "drop (p + 2) s = d @ b_of CHR ''('' # body @ [b_of CHR '')''] @ d @ [0x22]"
    using arg_cong[OF s(2), of "drop 2"] by (simp add: add.commute)
  then have f: "find_paren (drop (p + 2) s) (p + 2) = Some (p + 2 + length d)"
    using s(3) by (simp add: find_paren_append)
  have "length s = p + length (drop p s)"
    using s(1) by simp
  then have l: "length s = p + 5 + 2 * length d + length body"
    unfolding s(2) by simp
  obtain e b' where "cvt_func cvt (take (length body) (drop (p + 3 + length d) s)) b = Some (e, b')"
      "buf_ok b'" "prefix (buf_text b) (buf_text b')"
    using converts[OF assms(1)] by blast
  then show ?thesis
    unfolding interpret_raw_def Let_def f by (simp add: l grows_def add.commute add.left_commute numeral_eq_Suc)
qed

lemma one_total:
  assumes "buf_ok b" "cvt_width cvt div char_precision (opts r) \<le> 256" "literal s"
  shows "\<exists>ok b' r'. interpret_one cvt s b r = Some (ok, b', r') \<and> grows p r b (p, b', r')"
  using assms(3) chars_total[OF assms(1,2), of s "length s - 1" "skip_prefix s + 1"]
    raw_total[OF assms(1), of s "skip_prefix s" r]
  by (auto simp: literal_def interpret_one_def Let_def grows_def b_of_def)

lemma all_total:
  assumes "buf_ok b" "cvt_width cvt div char_precision (opts r) \<le> 256" "list_all literal ss"
  shows "\<exists>ok b' r'. interpret_all cvt ss b r = Some (ok, b', r') \<and> grows p r b (p, b', r')"
  using assms
proof (induction ss arbitrary: b r)
  case (Cons s ss)
  obtain ok b1 r1 where "interpret_one cvt s b r = Some (ok, b1, r1)" "grows p r b (p, b1, r1)"
    using one_total[of b r s p] Cons.prems by auto
  then show ?case
    using Cons.IH[of b1 r1] Cons.prems by (auto simp: grows_def intro: prefix_order.trans)
qed (auto simp: grows_def intro: exI[of _ True])

end

text \<open>The converters of the table and the identity keep the contract.\<close>

interpretation no_conv: charset_converter "\<lparr>cvt_func = convert_no_conversion, cvt_width = w\<rparr>" for w
  by unfold_locales (auto simp: convert_no_conversion_def buf_ok_def Let_def)

interpretation to_utf16: charset_converter "\<lparr>cvt_func = convert_utf8_utf16 be, cvt_width = w\<rparr>" for be w
proof
  fix b s assume b: "buf_ok b"
  show "\<exists>e b'. cvt_func \<lparr>cvt_func = convert_utf8_utf16 be, cvt_width = w\<rparr> s b = Some (e, b') \<and> buf_ok b' \<and>
      prefix (buf_text b) (buf_text b')"
    using utf8_16.loop_converts[of _ s b be] utf8_16.loop_rejects[of s be b] b
    by (cases "\<exists>cs. encodes u8 scalar16 cs s") (fastforce simp: buf_ok_def convert_utf8_utf16_def)+
qed

interpretation to_utf32: charset_converter "\<lparr>cvt_func = convert_utf8_utf32 be, cvt_width = w\<rparr>" for be w
proof
  fix b s assume b: "buf_ok b"
  show "\<exists>e b'. cvt_func \<lparr>cvt_func = convert_utf8_utf32 be, cvt_width = w\<rparr> s b = Some (e, b') \<and> buf_ok b' \<and>
      prefix (buf_text b) (buf_text b')"
    using utf8_32.loop_converts[of _ s b be] utf8_32.loop_rejects[of s be b] b
    by (cases "\<exists>cs. encodes u8 scalar cs s") (fastforce simp: buf_ok_def convert_utf8_utf32_def)+
qed

section \<open>The converters that \<open>cpp_init_iconv\<close> sets up\<close>

definition keeps_buffer :: "converter \<Rightarrow> bool" where
  "keeps_buffer f \<longleftrightarrow> (\<forall>w. charset_converter \<lparr>cvt_func = f, cvt_width = w\<rparr>)"

lemma keeps_buffer_own:
  "keeps_buffer convert_no_conversion" "keeps_buffer (convert_utf8_utf16 be)" "keeps_buffer (convert_utf8_utf32 be)"
  by (simp_all add: keeps_buffer_def no_conv.charset_converter_axioms to_utf16.charset_converter_axioms
      to_utf32.charset_converter_axioms)

text \<open>What is asked of the library: the converters it gives out keep the contract.\<close>

definition iconv_ok :: "iconv_lib \<Rightarrow> bool" where
  "iconv_ok iconv \<longleftrightarrow> (\<forall>iconv_open to from f. iconv = Some iconv_open \<longrightarrow> iconv_open to from = Inr f \<longrightarrow> keeps_buffer f)"

lemma from_source: "(e :: string \<times> converter) \<in> set conversion_tab \<Longrightarrow> strcaseeq (SOURCE_CHARSET @ ''/'' @ to) (fst e) \<Longrightarrow>
  keeps_buffer (snd e)"
  by (auto simp: conversion_tab_def strcaseeq_def SOURCE_CHARSET_def lower_def keeps_buffer_own)

lemma find_source:
  "find (\<lambda>e. strcaseeq (SOURCE_CHARSET @ ''/'' @ to) (fst e)) conversion_tab = Some e \<Longrightarrow> keeps_buffer (snd e)"
  using from_source[of e to] nth_mem by (fastforce simp: find_Some_iff)

lemma init_iconv_keeps:
  assumes "iconv_ok iconv" shows "keeps_buffer (fst (init_iconv_desc iconv r to SOURCE_CHARSET))"
  using assms find_source[of to]
  by (auto simp: init_iconv_desc_def iconv_ok_def keeps_buffer_own simp del: append_Cons append_Nil
      split: option.splits sum.splits)

lemma opts_init_iconv: "opts (snd (init_iconv_desc iconv r to from)) = opts r"
  by (auto simp: init_iconv_desc_def split: option.splits sum.splits)

lemma init_iconv_result:
  "iconv_ok iconv \<Longrightarrow> init_iconv_desc iconv r to SOURCE_CHARSET = (f, r') \<Longrightarrow>
   (\<forall>w. charset_converter \<lparr>cvt_func = f, cvt_width = w\<rparr>) \<and> opts r' = opts r"
  using init_iconv_keeps[of iconv r to] opts_init_iconv[of iconv r to SOURCE_CHARSET] by (simp add: keeps_buffer_def)

lemma init_csets:
  assumes "cpp_init_iconv iconv r = (cs, r')" "iconv_ok iconv" "sane_options (opts r)"
  shows "charset_converter (converter_for_type cs t)" "cvt_width (converter_for_type cs t) \<le> 32" "opts r' = opts r"
  using assms(1,3)
  by (auto simp: cpp_init_iconv_def converter_for_type_def Let_def sane_options_def split: prod.splits
      dest!: init_iconv_result[OF assms(2)])

lemma string_returns:
  assumes "charset_converter (converter_for_type cs t)" "cvt_width (converter_for_type cs t) \<le> 32"
    and "ss \<noteq> []" "list_all literal ss"
  shows "\<exists>str r'. cpp_interpret_string cs r ss t = Some (str, r')"
proof -
  let ?b = "\<lparr>buf_text = [], asize = max OUTBUF_BLOCK_SIZE (length (hd ss))\<rparr>"
  have "cvt_width (converter_for_type cs t) div char_precision (opts r) \<le> 256"
    using assms(2) by (meson div_le_dividend le_trans numeral_le_iff semiring_norm(68) semiring_norm(71) semiring_norm(69))
  from charset_converter.all_total[OF assms(1) _ this assms(4), of ?b 0]
  obtain ok b' r' where "interpret_all (converter_for_type cs t) ss ?b r = Some (ok, b', r')"
    by (auto simp: buf_ok_def)
  then show ?thesis
    by (cases ok) (simp_all add: cpp_interpret_string_def Let_def)
qed

section \<open>Hexadecimal escapes\<close>

definition hex_run :: "byte list \<Rightarrow> nat \<Rightarrow> nat \<Rightarrow> nat list" where
  "hex_run s i limit =
     map (\<lambda>b. hex_value (chr_of b)) (takeWhile (\<lambda>b. ISXDIGIT (chr_of b)) (take (limit - i) (drop i s)))"

abbreviation hex_read :: "nat \<Rightarrow> nat list \<Rightarrow> nat" where
  "hex_read \<equiv> foldl (\<lambda>a d. 16 * a + d)"

lemma chr_of_0: "\<not> ISXDIGIT (chr_of 0)"
  by (simp add: ISXDIGIT_def ISDIGIT_def)

lemma hex_run_step:
  "hex_run s i limit =
     (if i < limit \<and> ISXDIGIT (chr_of (byte_in s i))
      then hex_value (chr_of (byte_in s i)) # hex_run s (i + 1) limit else [])"
proof (cases "i < limit \<and> i < length s")
  case True
  then have "take (limit - i) (drop i s) = s ! i # take (limit - (i + 1)) (drop (i + 1) s)"
    by (simp add: Cons_nth_drop_Suc[symmetric] take_Cons' Suc_diff_Suc)
  then show ?thesis
    using True by (simp add: hex_run_def byte_in_def)
next
  case False
  then have "take (limit - i) (drop i s) = []"
    by auto
  then show ?thesis
    using False chr_of_0 by (auto simp: hex_run_def byte_in_def)
qed

text \<open>The bits that the shift loses: there are some exactly when the value has more than 28 bits.\<close>

lemma lost_bits: "(n :: cppchar_t) XOR drop_bit 4 (push_bit 4 n) = 0 \<longleftrightarrow> unat n < 2 ^ 28"
proof -
  have d: "drop_bit 4 (push_bit 4 n) = take_bit 28 n"
    by (rule bit_word_eqI) (auto simp: bit_simps)
  have "n XOR take_bit 28 n = 0 \<longleftrightarrow> take_bit 28 n = n"
    by (auto simp: bit_eq_iff bit_simps)
  also have "\<dots> \<longleftrightarrow> unat (take_bit 28 n) = unat n"
    by (simp add: word_unat_eq_iff)
  also have "\<dots> \<longleftrightarrow> unat n < 2 ^ 28"
    by (simp add: unsigned_take_bit_eq take_bit_nat_eq_self_iff)
  finally show ?thesis
    unfolding d .
qed

lemma or_zero: "(a :: cppchar_t) OR b = 0 \<longleftrightarrow> a = 0 \<and> b = 0"
  by (auto simp: bit_eq_iff bit_simps)

lemma hex_value_16: "ISXDIGIT c \<Longrightarrow> hex_value c < 16"
  by (rule hex_value_xdigit)

lemma hex_digits_value:
  assumes "n = word_of_nat v" "ov = 0 \<longleftrightarrow> v < 2 ^ 32"
  shows "\<exists>ov'. hex_digits s limit i n ov d =
           (i + length (hex_run s i limit), word_of_nat (hex_read v (hex_run s i limit)), ov', d \<or> hex_run s i limit \<noteq> []) \<and>
         (ov' = 0 \<longleftrightarrow> hex_read v (hex_run s i limit) < 2 ^ 32)"
  using assms
proof (induction s limit i n ov d arbitrary: v rule: hex_digits.induct)
  case (1 s limit i n ov d)
  show ?case
  proof (cases "i < limit \<and> ISXDIGIT (chr_of (byte_in s i))")
    case True
    let ?h = "hex_value (chr_of (byte_in s i))"
    have h: "?h < 16"
      using True hex_value_16 by blast
    have "push_bit 4 n + word_of_nat ?h = word_of_nat (16 * v + ?h)"
      using 1(2) by (simp add: push_bit_eq_mult)
    moreover have "ov OR (n XOR drop_bit 4 (push_bit 4 n)) = 0 \<longleftrightarrow> 16 * v + ?h < 2 ^ 32"
      using 1(2,3) h by (auto simp: or_zero lost_bits unat_of_nat)
    ultimately show ?thesis
      using 1(1)[OF True, of "16 * v + ?h"] True
      by (subst hex_digits.simps, subst (1 2 3 4) hex_run_step) simp
  next
    case False
    then show ?thesis
      using 1(2,3) by (subst hex_digits.simps, subst (1 2 3 4) hex_run_step) auto
  qed
qed

lemma mask_of_width: "w \<le> 32 \<Longrightarrow> width_to_mask w = mask w"
proof (cases "w = 32")
  case True
  have "mask 32 = (NOT 0 :: cppchar_t)"
    by (rule bit_word_eqI) (simp add: bit_simps)
  then show ?thesis
    using True by (simp add: width_to_mask_def)
qed (simp add: width_to_mask_def mask_eq_exp_minus_1)

lemma escape_masked:
  assumes "w \<le> 32" "n = word_of_nat v"
  shows "n AND width_to_mask w = word_of_nat (v mod 2 ^ w)"
    "v < 2 ^ 32 \<Longrightarrow> n = n AND width_to_mask w \<longleftrightarrow> v < 2 ^ w"
proof -
  have a: "n AND width_to_mask w = take_bit w n"
    by (simp add: mask_of_width[OF assms(1)] take_bit_eq_mask)
  show b: "n AND width_to_mask w = word_of_nat (v mod 2 ^ w)"
    unfolding a unfolding assms(2) nat_take_bit_mod by (rule take_bit_of_nat)
  assume v: "v < 2 ^ 32"
  have "v mod 2 ^ w < 2 ^ 32"
    using v by (meson le_less_trans mod_less_eq_dividend)
  then have "n = n AND width_to_mask w \<longleftrightarrow> v = v mod 2 ^ w"
    unfolding b unfolding assms(2) using v by (simp add: word_unat_eq_iff unat_of_nat)
  also have "\<dots> \<longleftrightarrow> v < 2 ^ w"
    by (metis mod_less mod_less_divisor zero_less_numeral zero_less_power)
  finally show "n = n AND width_to_mask w \<longleftrightarrow> v < 2 ^ w" .
qed

lemma convert_hex_value:
  assumes "cvt_width cvt \<le> 32" "hex_run s (i + 1) limit \<noteq> []" "\<not> cpp_warn_traditional (opts r)"
  defines "v \<equiv> hex_read 0 (hex_run s (i + 1) limit)"
  shows "convert_hex r s i limit b cvt =
           (i + 1 + length (hex_run s (i + 1) limit),
            emit_numeric_escape r (word_of_nat (v mod 2 ^ cvt_width cvt)) b cvt,
            diag_if (2 ^ cvt_width cvt \<le> v) (\<lambda>r. cpp_error r CPP_DL_PEDWARN ''hex escape sequence out of range'') r)"
proof -
  let ?w = "cvt_width cvt"
  obtain ov where ov: "hex_digits s limit (i + 1) 0 0 False = (i + 1 + length (hex_run s (i + 1) limit), word_of_nat v, ov, True)"
      "ov = 0 \<longleftrightarrow> v < 2 ^ 32"
    using hex_digits_value[of 0 0 0 s limit "i + 1" False] assms(2) by (auto simp: v_def)
  note m = escape_masked[OF assms(1) refl, of v]
  have p: "(2 :: nat) ^ ?w \<le> 2 ^ 32"
    using assms(1) by (rule power_increasing) simp
  have o: "(ov = 0 \<longrightarrow> word_of_nat v \<noteq> (word_of_nat (v mod 2 ^ ?w) :: cppchar_t)) \<longleftrightarrow> 2 ^ ?w \<le> v"
    using ov(2) m p by (cases "v < 2 ^ 32") (auto simp: not_less)
  have e: "emit_numeric_escape (diag_if c f r) n b cvt = emit_numeric_escape r n b cvt"
    if "\<And>r. opts (f r) = opts r" for c f n
    using that by (simp add: emit_numeric_escape_def Let_def)
  have "\<not> 2 ^ ?w \<le> v \<Longrightarrow> word_of_nat (v mod 2 ^ ?w) = (word_of_nat v :: cppchar_t)"
    by simp
  then show ?thesis
    unfolding convert_hex_def Let_def ov(1) using assms(3) by (simp add: o e m(1))
qed

section \<open>Literals without escapes\<close>

lemma run_end_run:
  assumes "drop p s = run @ rest" "p \<le> length s" "0x5C \<notin> set run" "p + length run \<le> limit"
    and "p + length run = limit \<or> (rest \<noteq> [] \<and> hd rest = 0x5C)"
  shows "run_end s limit p = p + length run"
  using assms
proof (induction run arbitrary: p)
  case Nil
  then have "p = limit \<or> byte_in s p = 0x5C"
    by (auto simp: byte_in_def hd_drop_conv_nth)
  then show ?case
    by (subst run_end.simps) auto
next
  case (Cons c run)
  then have "p < length s" "s ! p = c"
    by (metis append_Cons drop_eq_Nil2 linorder_not_le list.distinct(1), metis append_Cons hd_drop_conv_nth drop_eq_Nil2 linorder_not_le list.distinct(1) list.sel(1))
  moreover from this have "drop (Suc p) s = run @ rest"
    using Cons.prems(1) by (metis append_Cons drop_Suc list.sel(3) tl_drop)
  ultimately show ?case
    using Cons.IH[of "Suc p"] Cons.prems by (subst run_end.simps) (auto simp: byte_in_def)
qed

lemma interpret_plain:
  assumes "s = pre @ body @ [q]" "0x5C \<notin> set body" "body \<noteq> []"
  shows "interpret_chars cvt s (length s - 1) (length pre) b r =
           map_option (\<lambda>(e, b'). (e = None, b', r)) (cvt_func cvt body b)"
proof -
  have "run_end s (length s - 1) (length pre) = length pre + length body"
    using assms by (intro run_end_run[where rest = "[q]"]) auto
  then show ?thesis
    using assms by (subst interpret_chars.simps) (auto simp: Let_def split: bind_split option.splits)
qed

lemma u8_no_backslash:
  assumes "scalar c" "c \<noteq> 0x5C" shows "0x5C \<notin> set (u8 c)"
proof (cases "unat c < 0x80")
  case True
  then have "ucast (0x5C :: byte) = c" if "ucast c = (0x5C :: byte)"
    using that ucast_single[OF True] by simp
  then show ?thesis
    using assms(2) by (auto simp: u8_single[OF True])
next
  case False
  then obtain n where n: "n \<in> {2, 3, 4, 5, 6}" "least_of n \<le> unat c" "unat c < least_of (Suc n)"
    using u8_class[of c] scalar_less[OF assms(1)] by auto
  have "0x5C \<noteq> (word_of_nat (lead_base n + unat c div 64 ^ (n - 1)) :: byte)"
    using lead_byte(1)[OF n(1,3)] class_bound(3)[OF n(1)] by (auto dest: arg_cong[of _ _ unat] simp del: of_nat_add)
  moreover have "0x5C \<noteq> sextet d" if "d < 64" for d
    using unat_sextet[OF that] by (auto simp del: of_nat_add)
  ultimately show ?thesis
    using u8_multi[OF n] sixes_props(2) by (auto simp del: of_nat_add)
qed

section \<open>Character constants\<close>

lemma b_of_char: "of_char c = n \<Longrightarrow> b_of c = word_of_nat n"
  by (simp add: b_of_def)

text \<open>The spelling of a constant with the prefix \<open>pre\<close>, whose characters between the quotes are \<open>body\<close>.\<close>

definition char_spelling :: "byte list \<Rightarrow> byte list \<Rightarrow> byte list" where
  "char_spelling pre body = pre @ [0x27] @ body @ [0x27]"

lemma wide_constant:
  assumes "pre \<in> {[b_of CHR ''L''], [b_of CHR ''u''], [b_of CHR ''U'']}" "0x5C \<notin> set body" "body \<noteq> []"
    and "cvt_func (converter_for_type cs t) body \<lparr>buf_text = [], asize = max 256 (length (char_spelling pre body))\<rparr> = Some (None, b)"
  shows "cpp_interpret_string cs r [char_spelling pre body] t =
           Some (Some (buf_text (emit_numeric_escape r 0 b (converter_for_type cs t))), r)"
proof -
  obtain c where c: "pre = [c]" "c = b_of CHR ''L'' \<or> c = b_of CHR ''u'' \<or> c = b_of CHR ''U''"
    using assms(1) by auto
  have "skip_prefix (char_spelling pre body) = 1"
    using c by (auto simp: skip_prefix_def char_spelling_def byte_in_def b_of_def)
  moreover have "byte_in (char_spelling pre body) 1 = 0x27"
    using c(1) by (simp add: char_spelling_def byte_in_def)
  moreover have "interpret_chars (converter_for_type cs t) (char_spelling pre body) (length (char_spelling pre body) - 1) (Suc (Suc 0)) b0 r =
      map_option (\<lambda>(e, b'). (e = None, b', r)) (cvt_func (converter_for_type cs t) body b0)" for b0
    using interpret_plain[of "char_spelling pre body" "pre @ [0x27]" body "0x27" "converter_for_type cs t" b0 r] assms(2,3) c(1)
    by (simp add: char_spelling_def)
  ultimately have "interpret_one (converter_for_type cs t) (char_spelling pre body) b0 r =
      map_option (\<lambda>(e, b'). (e = None, b', r)) (cvt_func (converter_for_type cs t) body b0)" for b0
    by (simp add: interpret_one_def b_of_def)
  then show ?thesis
    using assms(4) by (simp add: cpp_interpret_string_def OUTBUF_BLOCK_SIZE_def)
qed

lemma init_char32: "init_iconv_desc iconv r (if be then ''UTF-32BE'' else ''UTF-32LE'') SOURCE_CHARSET = (convert_utf8_utf32 be, r)"
  by (cases be) (simp_all add: init_iconv_desc_def strcaseeq_def SOURCE_CHARSET_def lower_def conversion_tab_def)

lemma init_char16: "init_iconv_desc iconv r (if be then ''UTF-16BE'' else ''UTF-16LE'') SOURCE_CHARSET = (convert_utf8_utf16 be, r)"
  by (cases be) (simp_all add: init_iconv_desc_def strcaseeq_def SOURCE_CHARSET_def lower_def conversion_tab_def)

lemma csets_char:
  assumes "cpp_init_iconv iconv r = (cs, r')"
  shows "char32_cset_desc cs = \<lparr>cvt_func = convert_utf8_utf32 (bytes_big_endian (opts r)), cvt_width = 32\<rparr>"
    "char16_cset_desc cs = \<lparr>cvt_func = convert_utf8_utf16 (bytes_big_endian (opts r)), cvt_width = 16\<rparr>"
  using assms by (auto simp: cpp_init_iconv_def Let_def init_char32 init_char16 split: prod.splits)

text \<open>Reading a character back byte by byte.\<close>

lemma mask_byte: "(ucast (b :: byte) :: cppchar_t) AND width_to_mask 8 = ucast b"
  by (simp add: mask_of_width) (rule bit_word_eqI, auto simp: bit_simps dest: bit_imp_le_length)

lemma unat_shift_or: "unat r < 2 ^ 24 \<Longrightarrow> unat (push_bit 8 r OR ucast (b :: byte) :: cppchar_t) = 256 * unat r + unat b"
proof -
  assume r: "unat r < 2 ^ 24"
  have "push_bit 8 r AND ucast b = (0 :: cppchar_t)"
    by (rule bit_word_eqI) (auto simp: bit_simps dest: bit_imp_le_length)
  then have "push_bit 8 r OR ucast b = push_bit 8 r + (ucast b :: cppchar_t)"
    by (simp add: disjunctive_add_eq_or)
  then show ?thesis
    using r unat_byte[of b] by (simp add: push_bit_eq_mult unat_word_ariths)
qed

lemma wide_value_four: "wide_value 8 (four_bytes True c) 0 = c"
proof -
  obtain w x y z where f: "four_bytes True c = [w, x, y, z]"
    by (simp add: four_bytes_def)
  then have "c = utf32_val True w x y z"
    using four_bytes_val by metis
  moreover have "unat (wide_value 8 [w, x, y, z] 0) = unat (utf32_val True w x y z)"
  proof -
    define r1 r2 r3 :: cppchar_t where "r1 = push_bit 8 0 OR ucast w" and "r2 = push_bit 8 r1 OR ucast x" and "r3 = push_bit 8 r2 OR ucast y"
    have "unat r1 = unat w"
      by (simp add: r1_def)
    moreover from this have "unat r2 = 256 * unat w + unat x"
      using unat_shift_or[of r1 x] unat_byte[of w] by (simp add: r2_def)
    moreover from this have "unat r3 = 256 * (256 * unat w + unat x) + unat y"
      using unat_shift_or[of r2 y] unat_byte[of w] unat_byte[of x] by (simp add: r3_def)
    ultimately have "unat (push_bit 8 r3 OR ucast z) = 2 ^ 24 * unat w + 2 ^ 16 * unat x + 2 ^ 8 * unat y + unat z"
      using unat_shift_or[of r3 z] unat_byte[of w] unat_byte[of x] unat_byte[of y] by simp
    then show ?thesis
      by (simp only: wide_value.simps mask_byte utf32_val_def if_True unat_four_bytes r1_def r2_def r3_def)
  qed
  ultimately show ?thesis
    by (simp add: f word_unat_eq_iff)
qed

lemma wide_value_two: "c \<le> 0xFFFF \<Longrightarrow> wide_value 8 (two_bytes True c) 0 = c"
  using split_bytes[of c "ucast (drop_bit 8 c)" "ucast c"] by (simp add: two_bytes_eq mask_byte shift_add_byte)

lemma rev_bytes: "rev (four_bytes False c) = four_bytes True c" "rev (two_bytes False c) = two_bytes True c"
  by (simp_all add: four_bytes_def two_bytes_eq)

lemma numeric_bytes_numeral:
  "numeric_bytes (numeral k) n w = ucast (n AND width_to_mask w) # numeric_bytes (pred_numeral k) (drop_bit w n) w"
  by (simp add: numeral_eq_Suc)

lemma NUL_bytes: "numeric_bytes k 0 w = replicate k 0"
  by (induction k) simp_all

lemma NUL_lists: "replicate 4 (0 :: byte) = [0, 0, 0, 0]" "replicate 2 (0 :: byte) = [0, 0]"
  by (simp_all add: numeral_eq_Suc)

lemma emit_NUL:
  "cvt_width cvt \<noteq> char_precision (opts r) \<Longrightarrow>
   buf_text (emit_numeric_escape r 0 b cvt) = buf_text b @ replicate (cvt_width cvt div char_precision (opts r)) 0"
  by (simp add: emit_numeric_escape_def make_room_def NUL_bytes Let_def)

lemma char32_value:
  assumes "cpp_init_iconv iconv r0 = (cs, r1)" "opts r = opts r0" "char_precision (opts r) = 8"
    and "type token = CPP_CHAR32" "token_bytes token = char_spelling [b_of CHR ''U''] (u8 c)" "scalar c" "c \<noteq> 0x5C"
  shows "cpp_interpret_charconst cs r token = Some (c, 1, True, r)"
proof -
  let ?be = "bytes_big_endian (opts r)"
  have cvt: "converter_for_type cs CPP_CHAR32 = \<lparr>cvt_func = convert_utf8_utf32 ?be, cvt_width = 32\<rparr>"
    using csets_char[OF assms(1)] assms(2) by (simp add: converter_for_type_def)
  let ?s = "char_spelling [b_of CHR ''U''] (u8 c)"
  have e: "encodes u8 scalar [c] (u8 c)"
    using assms(6) by (simp add: encodes_def)
  obtain a where a: "convert_utf8_utf32 ?be (u8 c) \<lparr>buf_text = [], asize = max 256 (length ?s)\<rparr>
      = Some (None, \<lparr>buf_text = four_bytes ?be c, asize = a\<rparr>)"
    using utf8_32.loop_converts[OF e empty_buffer, where be = ?be] by (auto simp: convert_utf8_utf32_def)
  have "cpp_interpret_string cs r [?s] CPP_CHAR32 = Some (Some (four_bytes ?be c @ [0, 0, 0, 0]), r)"
    using wide_constant[of "[b_of CHR ''U'']" "u8 c" cs CPP_CHAR32 _ r] u8_no_backslash[OF assms(6,7)] u8_not_Nil[of c]
    by (simp add: cvt a emit_NUL assms(3) NUL_lists)
  moreover have "length ?s \<noteq> 3"
    using u8_not_Nil[of c] by (simp add: char_spelling_def)
  moreover have "wide_str_to_charconst cs r (four_bytes ?be c @ [0, 0, 0, 0]) CPP_CHAR32 = Some (c, 1, True, r)"
    using wide_value_four[of c] rev_bytes(1)[of c] assms(3)
    by (cases ?be) (simp_all add: wide_str_to_charconst_def cvt four_bytes_length extend_char_def)
  ultimately show ?thesis
    using assms(4,5) by (simp add: cpp_interpret_charconst_def)
qed

lemma char16_value:
  assumes "cpp_init_iconv iconv r0 = (cs, r1)" "opts r = opts r0" "char_precision (opts r) = 8"
    and "type token = CPP_CHAR16" "token_bytes token = char_spelling [b_of CHR ''u''] (u8 c)" "scalar c" "c \<noteq> 0x5C" "c \<le> 0xFFFF"
  shows "cpp_interpret_charconst cs r token = Some (c, 1, True, r)"
proof -
  let ?be = "bytes_big_endian (opts r)"
  have cvt: "converter_for_type cs CPP_CHAR16 = \<lparr>cvt_func = convert_utf8_utf16 ?be, cvt_width = 16\<rparr>"
    using csets_char[OF assms(1)] assms(2) by (simp add: converter_for_type_def)
  let ?s = "char_spelling [b_of CHR ''u''] (u8 c)"
  have e: "encodes u8 scalar16 [c] (u8 c)"
    using assms(6,8) by (auto simp: encodes_def scalar16_scalar word_le_nat_alt word_less_nat_alt)
  obtain a where a: "convert_utf8_utf16 ?be (u8 c) \<lparr>buf_text = [], asize = max 256 (length ?s)\<rparr>
      = Some (None, \<lparr>buf_text = two_bytes ?be c, asize = a\<rparr>)"
    using utf8_16.loop_converts[OF e empty_buffer, where be = ?be] assms(8) by (auto simp: convert_utf8_utf16_def u16_def)
  have "cpp_interpret_string cs r [?s] CPP_CHAR16 = Some (Some (two_bytes ?be c @ [0, 0]), r)"
    using wide_constant[of "[b_of CHR ''u'']" "u8 c" cs CPP_CHAR16 _ r] u8_no_backslash[OF assms(6,7)] u8_not_Nil[of c]
    by (simp add: cvt a emit_NUL assms(3) NUL_lists)
  moreover have "length ?s \<noteq> 3"
    using u8_not_Nil[of c] by (simp add: char_spelling_def)
  moreover have "c AND 0xFFFF = c"
  proof -
    have "c AND mask 16 = c"
      using assms(8)
      by (simp add: word_le_nat_alt word_unat_eq_iff unsigned_take_bit_eq take_bit_nat_eq_self flip: take_bit_eq_mask)
    then show ?thesis
      by (simp add: mask_eq_exp_minus_1)
  qed
  then have "wide_str_to_charconst cs r (two_bytes ?be c @ [0, 0]) CPP_CHAR16 = Some (c, 1, True, r)"
    using wide_value_two[OF assms(8)] rev_bytes(2)[of c] assms(3)
    by (cases ?be) (simp_all add: wide_str_to_charconst_def cvt two_bytes_length extend_char_def)
  ultimately show ?thesis
    using assms(4,5) by (simp add: cpp_interpret_charconst_def)
qed

section \<open>Quoting\<close>

text \<open>\<^verbatim>\<open>cpp_quote_string\<close> of \<^verbatim>\<open>libcpp/macro.c\<close>, which writes the spelling of a string.\<close>

fun cpp_quote_string :: "byte list \<Rightarrow> byte list" where
  "cpp_quote_string [] = []"
| "cpp_quote_string (c # src) =
     (if c = 10 then [0x5C, b_of CHR ''n'']
      else if c = 0x5C \<or> c = 0x22 then [0x5C, c]
      else [c]) @ cpp_quote_string src"

definition quoted :: "byte \<Rightarrow> bool" where
  "quoted c \<longleftrightarrow> c = 10 \<or> c = 0x5C \<or> c = 0x22"

lemma quote_run: "\<forall>c \<in> set run. \<not> quoted c \<Longrightarrow> cpp_quote_string (run @ rest) = run @ cpp_quote_string rest"
  by (induction run) (auto simp: quoted_def)

abbreviation narrow_identity :: "nat \<Rightarrow> cset_converter" where
  "narrow_identity w \<equiv> \<lparr>cvt_func = convert_no_conversion, cvt_width = w\<rparr>"

lemma no_conversion_appends: "\<exists>a. convert_no_conversion s b = Some (None, b\<lparr>buf_text := buf_text b @ s, asize := a\<rparr>)"
  unfolding convert_no_conversion_def Let_def by (rule exI, rule refl)

text \<open>An escape that the quoting writes is read back as the character.\<close>

lemma quoted_escape:
  assumes "quoted c"
  obtains e where "cpp_quote_string (c # t) = 0x5C # e # cpp_quote_string t"
    "\<And>s i limit b r w. byte_in s i = e \<Longrightarrow>
       \<exists>a. convert_escape r s i limit b (narrow_identity w) = Some (i + 1, b\<lparr>buf_text := buf_text b @ [c], asize := a\<rparr>, r)"
proof -
  define e where "e = (if c = 10 then b_of CHR ''n'' else c)"
  have l: "letter_escape r e = (c, r)" for r
    using assms by (auto simp: quoted_def e_def letter_escape_def b_of_def charconsts_def)
  have n: "e \<noteq> b_of CHR ''u''" "e \<noteq> b_of CHR ''U''" "e \<noteq> b_of CHR ''x''" "\<not> (b_of CHR ''0'' \<le> e \<and> e \<le> b_of CHR ''7'')"
    using assms by (auto simp: quoted_def e_def b_of_def)
  have "cpp_quote_string (c # t) = 0x5C # e # cpp_quote_string t"
    using assms by (auto simp: quoted_def e_def)
  moreover have "\<exists>a. convert_escape r s i limit b (narrow_identity w) = Some (i + 1, b\<lparr>buf_text := buf_text b @ [c], asize := a\<rparr>, r)"
    if "byte_in s i = e" for s i limit b r w
    using that n l[of r] no_conversion_appends[of "[c]" b] by (auto simp: convert_escape_def apply_conversion_def)
  ultimately show thesis
    by (rule that)
qed

lemma split_quoted: obtains run rest where "t = run @ rest" "\<forall>c \<in> set run. \<not> quoted c" "rest = [] \<or> quoted (hd rest)"
proof -
  have "t = takeWhile (\<lambda>c. \<not> quoted c) t @ dropWhile (\<lambda>c. \<not> quoted c) t" "\<forall>c \<in> set (takeWhile (\<lambda>c. \<not> quoted c) t). \<not> quoted c"
    by (auto dest: set_takeWhileD)
  moreover have "dropWhile (\<lambda>c. \<not> quoted c) t = [] \<or> quoted (hd (dropWhile (\<lambda>c. \<not> quoted c) t))"
    using hd_dropWhile[of "\<lambda>c. \<not> quoted c" t] by auto
  ultimately show thesis
    by (rule that)
qed

lemma interpret_quoted:
  assumes "s = pre @ cpp_quote_string t @ [q]"
  shows "\<exists>a. interpret_chars (narrow_identity w) s (length s - 1) (length pre) b r
           = Some (True, b\<lparr>buf_text := buf_text b @ t, asize := a\<rparr>, r)"
  using assms
proof (induction "length t" arbitrary: t pre b rule: less_induct)
  case less
  obtain run rest where t: "t = run @ rest" "\<forall>c \<in> set run. \<not> quoted c" "rest = [] \<or> quoted (hd rest)"
    by (rule split_quoted)
  have q: "cpp_quote_string t = run @ cpp_quote_string rest"
    using t(1,2) by (simp add: quote_run)
  have no5c: "0x5C \<notin> set run"
    using t(2) by (auto simp: quoted_def)
  have "\<exists>a. (if length run > 0 then convert_no_conversion run b else Some (None, b)) =
      Some (None, b\<lparr>buf_text := buf_text b @ run, asize := a\<rparr>)"
    using no_conversion_appends[of run b] by (cases run) (auto intro: exI[of _ "asize b"])
  then obtain a where a: "(if length run > 0 then convert_no_conversion run b else Some (None, b)) =
      Some (None, b\<lparr>buf_text := buf_text b @ run, asize := a\<rparr>)" (is "_ = Some (None, ?b1)")
    by blast
  show ?case
  proof (cases rest)
    case Nil
    then have "run_end s (length s - 1) (length pre) = length pre + length run"
      using less.prems q no5c by (intro run_end_run[where rest = "[q]"]) auto
    then show ?thesis
      using a less.prems q Nil t(1) by (subst interpret_chars.simps) (auto split: if_splits)
  next
    case (Cons c rest')
    then obtain e where e: "cpp_quote_string rest = 0x5C # e # cpp_quote_string rest'"
      "\<And>s i limit b r w. byte_in s i = e \<Longrightarrow>
         \<exists>a. convert_escape r s i limit b (narrow_identity w) = Some (i + 1, b\<lparr>buf_text := buf_text b @ [c], asize := a\<rparr>, r)"
      using quoted_escape[of c rest'] t(3) by (metis list.distinct(1) list.sel(1))
    have s: "s = pre @ run @ 0x5C # e # cpp_quote_string rest' @ [q]"
      using less.prems q e(1) by simp
    then have re: "run_end s (length s - 1) (length pre) = length pre + length run"
      using no5c by (intro run_end_run[where rest = "0x5C # e # cpp_quote_string rest' @ [q]"]) auto
    have "byte_in s (length pre + length run + 1) = e"
      using s by (simp add: byte_in_def nth_append)
    from e(2)[OF this, of r "length s - 1" ?b1 w]
    obtain a2 where a2: "convert_escape r s (length pre + length run + 1) (length s - 1) ?b1 (narrow_identity w) =
        Some (length pre + length run + 1 + 1, ?b1\<lparr>buf_text := buf_text ?b1 @ [c], asize := a2\<rparr>, r)"
      by blast
    let ?pre = "pre @ run @ [0x5C, e]"
    obtain a3 where "interpret_chars (narrow_identity w) s (length s - 1) (length ?pre) (?b1\<lparr>buf_text := buf_text ?b1 @ [c], asize := a2\<rparr>) r =
        Some (True, ?b1\<lparr>buf_text := (buf_text ?b1 @ [c]) @ rest', asize := a3\<rparr>, r)"
      using less.hyps[of rest' ?pre "?b1\<lparr>buf_text := buf_text ?b1 @ [c], asize := a2\<rparr>"] s Cons t(1) by auto
    then show ?thesis
      using a a2 re s Cons t(1)
      by (subst interpret_chars.simps) (auto simp: Let_def split: if_splits)
  qed
qed

section \<open>Properties\<close>



text \<open>
  C29: A hexadecimal escape has the value of its digits, of which there may be any number, reduced to
  the width of the character type; the diagnostic for a value out of range is given exactly when the
  value of the digits does not fit the type. The test in the code keeps the bits that each shift
  loses, and no value that overflows the 32 bits of \<^verbatim>\<open>cppchar_t\<close> escapes it.
\<close>

theorem hex_escape_value:
  assumes "cvt_width cvt \<le> 32" "hex_run s (i + 1) limit \<noteq> []" "\<not> cpp_warn_traditional (opts r)"
  shows "convert_hex r s i limit b cvt =
           (let v = hex_read 0 (hex_run s (i + 1) limit) in
            (i + 1 + length (hex_run s (i + 1) limit),
             emit_numeric_escape r (word_of_nat (v mod 2 ^ cvt_width cvt)) b cvt,
             if 2 ^ cvt_width cvt \<le> v then cpp_error r CPP_DL_PEDWARN ''hex escape sequence out of range'' else r))"
  using convert_hex_value[OF assms, of b] by (simp add: diag_if_def Let_def)

text \<open>Nine digits in a wide character: the first is lost, and reported.\<close>

theorem hex_escape_value_witness:
  "convert_hex (create_reader host_os2 CLK_GNUC11) (map b_of ''x100000041<'') 0 10 \<lparr>buf_text = [], asize = 256\<rparr>
       \<lparr>cvt_func = convert_no_conversion, cvt_width = 32\<rparr>
     = (10, \<lparr>buf_text = [0, 0, 0, 0x41], asize = 256\<rparr>,
        cpp_error (create_reader host_os2 CLK_GNUC11) CPP_DL_PEDWARN ''hex escape sequence out of range'')"
proof -
  have h: "hex_run (map b_of ''x100000041<'') (0 + 1) 10 = [1, 0, 0, 0, 0, 0, 0, 4, 1]"
    by (simp add: hex_run_def b_of_def char_simps)
  show ?thesis
    using hex_escape_value[of "\<lparr>cvt_func = convert_no_conversion, cvt_width = 32\<rparr>" "map b_of ''x100000041<''" 0 10
        "create_reader host_os2 CLK_GNUC11" "\<lparr>buf_text = [], asize = 256\<rparr>", unfolded h]
    by (simp add: create_reader_def create_options_def cpp_set_lang_def emit_numeric_escape_def make_room_def
        width_to_mask_def Let_def numeric_bytes_numeral)
qed

text \<open>
  C30: The value of a character constant with the prefix \<^verbatim>\<open>U\<close> is the code point of its character, for every
  character but the backslash, and with the prefix \<^verbatim>\<open>u\<close> for those of the basic plane; the constant is
  unsigned, counts as one character, and there is no diagnostic. The conversion to the byte
  order of the target and the reading of the bytes cancel out for both orders.
\<close>

theorem unicode_char_constants:
  assumes "cpp_init_iconv iconv r0 = (cs, r1)" "opts r = opts r0" "char_precision (opts r) = 8"
    and "c \<le> 0x7FFFFFFF" "\<not> (0xD800 \<le> c \<and> c \<le> 0xDFFF)" "c \<noteq> 0x5C"
    and "(type token = CPP_CHAR32 \<and> p = b_of CHR ''U'') \<or> (type token = CPP_CHAR16 \<and> p = b_of CHR ''u'' \<and> c \<le> 0xFFFF)"
    and "one_cppchar_to_utf8 c 6 = Some (Inr bs)" "token_bytes token = [p, 0x27] @ bs @ [0x27]"
  shows "cpp_interpret_charconst cs r token = Some (c, 1, True, r)"
proof -
  have c: "scalar c"
    using assms(4,5) by (simp add: scalar_def)
  then have "bs = u8 c"
    using assms(8) u8_length(1)[of c] by (simp add: to_utf8_encodes scalar_less)
  then have "token_bytes token = char_spelling [p] (u8 c)"
    using assms(9) by (simp add: char_spelling_def)
  then show ?thesis
    using assms(6,7) char32_value[OF assms(1-3), of token c] char16_value[OF assms(1-3), of token c] c by auto
qed

theorem unicode_char_constants_witness:
  "cpp_interpret_charconst (fst (cpp_init_iconv None (create_reader host_os2 CLK_GNUC11))) (create_reader host_os2 CLK_GNUC11)
     \<lparr>src_loc = 0, type = CPP_CHAR32, flags = 0,
      val = Val_str [CHR ''U'', CHR 0x27, CHR 0xF0, CHR 0x9F, CHR 0x98, CHR 0x80, CHR 0x27]\<rparr>
   = Some (0x1F600, 1, True, create_reader host_os2 CLK_GNUC11)"
proof (rule unicode_char_constants[of None "create_reader host_os2 CLK_GNUC11" _ "snd (cpp_init_iconv None (create_reader host_os2 CLK_GNUC11))"])
  show "one_cppchar_to_utf8 0x1F600 6 = Some (Inr [0xF0, 0x9F, 0x98, 0x80])"
    by code_simp
qed (simp_all add: create_reader_def create_options_def cpp_set_lang_def token_bytes_def b_of_def Let_def)



end
