(* ===== verification/Cpp_Symtab.thy ===== *)
theory Cpp_Symtab
  imports Prelude "HOL-Library.Monad_Syntax" "HOL-Library.Multiset"
begin

text \<open>
  The table of identifiers, \<^verbatim>\<open>libcpp/symtab.c\<close>: an open-addressing hash table with double hashing whose
  slots are empty, deleted, or a pointer to a node. The lexer, the directives and the front ends
  compare identifiers by comparing the addresses of their nodes, and the other theories of this
  development take a node to be the spelling of its identifier; here it is shown that the table
  justifies this. The operations are partial: \<^const>\<open>None\<close> is a loop that does not end or an access
  outside an array.
\<close>

section \<open>Data\<close>

record ht_identifier =
  ht_str :: "byte list"
  ht_len :: uint
  hash_value :: uint

text \<open>A slot of the table; a node is given by its number in the order of allocation.\<close>

datatype slot = NULL_slot | DELETED | Node nat

datatype ht_lookup_option = HT_NO_INSERT | HT_ALLOC

record cpp_hash_table =
  entries :: "slot list"
  ht_nodes :: "ht_identifier list"
  nslots :: uint
  nelements :: uint
  searches :: uint
  collisions :: uint
  entries_owned :: bool

text \<open>
  Allocation: \<^verbatim>\<open>xcalloc\<close> ends the program when there is no memory, and there is none for an array as large
  as the address space of the host. Pointers have four bytes.
\<close>

datatype 'a alloc = Xmalloc_failed | Allocated 'a

definition XCNEWVEC :: "uint \<Rightarrow> slot list alloc" where
  "XCNEWVEC n = (if 4 * unat n < 2 ^ 32 then Allocated (replicate (unat n) NULL_slot) else Xmalloc_failed)"

section \<open>Hashing\<close>

definition HT_HASHSTEP :: "uint \<Rightarrow> byte \<Rightarrow> uint" where
  "HT_HASHSTEP r c = r * 67 + (ucast c - 113)"

definition HT_HASHFINISH :: "uint \<Rightarrow> nat \<Rightarrow> uint" where
  "HT_HASHFINISH r len = r + word_of_nat len"

definition calc_hash :: "byte list \<Rightarrow> uint" where
  "calc_hash str = HT_HASHFINISH (foldl HT_HASHSTEP 0 str) (length str)"

definition hash2 :: "uint \<Rightarrow> uint \<Rightarrow> uint" where
  "hash2 sizemask hash = ((hash * 17) AND sizemask) OR 1"

section \<open>Creating, growing and searching a table\<close>

definition ht_create :: "nat \<Rightarrow> cpp_hash_table alloc" where
  "ht_create order =
     (let n = push_bit order 1 in
      case XCNEWVEC n of
        Xmalloc_failed \<Rightarrow> Xmalloc_failed
      | Allocated es \<Rightarrow>
          Allocated \<lparr>entries = es, ht_nodes = [], nslots = n, nelements = 0, searches = 0, collisions = 0,
            entries_owned = True\<rparr>)"

text \<open>The place of a node in the new array: the first free slot on its way.\<close>

partial_function (option) free_slot :: "slot list \<Rightarrow> uint \<Rightarrow> uint \<Rightarrow> uint \<Rightarrow> uint option" where [code]:
  "free_slot nentries sizemask hash index =
     do { s \<leftarrow> elem nentries (unat index);
          if s = NULL_slot then Some index
          else free_slot nentries sizemask hash ((index + hash2 sizemask hash) AND sizemask) }"

fun rehash :: "ht_identifier list \<Rightarrow> uint \<Rightarrow> slot list \<Rightarrow> slot list \<Rightarrow> slot list option" where
  "rehash ns sizemask [] nentries = Some nentries"
| "rehash ns sizemask (Node a # p) nentries =
     do { n \<leftarrow> elem ns a;
          index \<leftarrow> free_slot nentries sizemask (hash_value n) (hash_value n AND sizemask);
          rehash ns sizemask p (nentries[unat index := Node a]) }"
| "rehash ns sizemask (s # p) nentries = rehash ns sizemask p nentries"

definition ht_expand :: "cpp_hash_table \<Rightarrow> cpp_hash_table alloc option" where
  "ht_expand table =
     (let n = nslots table * 2; sizemask = n - 1 in
      case XCNEWVEC n of
        Xmalloc_failed \<Rightarrow> Some Xmalloc_failed
      | Allocated nentries \<Rightarrow>
          do { es \<leftarrow> rehash (ht_nodes table) sizemask (entries table) nentries;
               Some (Allocated (table\<lparr>entries := es, nslots := n, entries_owned := True\<rparr>)) })"

definition is_node :: "ht_identifier \<Rightarrow> uint \<Rightarrow> byte list \<Rightarrow> bool" where
  "is_node n hash str \<longleftrightarrow>
     hash_value n = hash \<and> ht_len n = word_of_nat (length str) \<and> take (length str) (ht_str n) = str"

text \<open>A search ends at the node, or at the empty slot \<open>index\<close> with a deleted slot that was seen or \<^verbatim>\<open>nslots\<close>.\<close>

datatype search = Found nat | Vacant uint uint

partial_function (option) ht_probe ::
    "cpp_hash_table \<Rightarrow> byte list \<Rightarrow> uint \<Rightarrow> uint \<Rightarrow> uint \<Rightarrow> uint \<Rightarrow> (search \<times> uint) option" where [code]:
  "ht_probe table str hash index deleted_index collns =
     (let sizemask = nslots table - 1;
          index = (index + hash2 sizemask hash) AND sizemask;
          collns = collns + 1 in
      do { s \<leftarrow> elem (entries table) (unat index);
           case s of
             NULL_slot \<Rightarrow> Some (Vacant index deleted_index, collns)
           | DELETED \<Rightarrow>
               ht_probe table str hash index (if deleted_index \<noteq> nslots table then index else deleted_index) collns
           | Node a \<Rightarrow>
               do { n \<leftarrow> elem (ht_nodes table) a;
                    if is_node n hash str then Some (Found a, collns)
                    else ht_probe table str hash index deleted_index collns } })"

definition ht_search :: "cpp_hash_table \<Rightarrow> byte list \<Rightarrow> uint \<Rightarrow> (search \<times> uint) option" where
  "ht_search table str hash =
     (let index = hash AND (nslots table - 1) in
      do { s \<leftarrow> elem (entries table) (unat index);
           case s of
             NULL_slot \<Rightarrow> Some (Vacant index (nslots table), collisions table)
           | DELETED \<Rightarrow> ht_probe table str hash index index (collisions table)
           | Node a \<Rightarrow>
               do { n \<leftarrow> elem (ht_nodes table) a;
                    if is_node n hash str then Some (Found a, collisions table)
                    else ht_probe table str hash index (nslots table) (collisions table) } })"

definition ht_insert :: "cpp_hash_table \<Rightarrow> byte list \<Rightarrow> uint \<Rightarrow> uint \<Rightarrow> (nat \<times> cpp_hash_table) alloc option" where
  "ht_insert table str hash index =
     (let node = length (ht_nodes table);
          table = table\<lparr>entries := (entries table)[unat index := Node node],
                        ht_nodes := ht_nodes table @
                          [\<lparr>ht_str = str, ht_len = word_of_nat (length str), hash_value = hash\<rparr>],
                        nelements := nelements table + 1\<rparr>
      in if nelements table * 4 \<ge> nslots table * 3 then
           do { t \<leftarrow> ht_expand table;
                Some (case t of Xmalloc_failed \<Rightarrow> Xmalloc_failed | Allocated table \<Rightarrow> Allocated (node, table)) }
         else Some (Allocated (node, table)))"

definition ht_lookup_with_hash ::
    "cpp_hash_table \<Rightarrow> byte list \<Rightarrow> uint \<Rightarrow> ht_lookup_option \<Rightarrow> (nat option \<times> cpp_hash_table) alloc option" where
  "ht_lookup_with_hash table str hash ins =
     (let table = table\<lparr>searches := searches table + 1\<rparr> in
      do { (result, collns) \<leftarrow> ht_search table str hash;
           (let table = table\<lparr>collisions := collns\<rparr> in
            case result of
              Found a \<Rightarrow> Some (Allocated (Some a, table))
            | Vacant index deleted_index \<Rightarrow>
                if ins = HT_NO_INSERT then Some (Allocated (None, table))
                else
                  do { t \<leftarrow> ht_insert table str hash
                             (if deleted_index \<noteq> nslots table then deleted_index else index);
                       Some (case t of Xmalloc_failed \<Rightarrow> Xmalloc_failed
                             | Allocated (node, table) \<Rightarrow> Allocated (Some node, table)) }) })"

definition ht_lookup ::
    "cpp_hash_table \<Rightarrow> byte list \<Rightarrow> ht_lookup_option \<Rightarrow> (nat option \<times> cpp_hash_table) alloc option" where
  "ht_lookup table str ins = ht_lookup_with_hash table str (calc_hash str) ins"

text \<open>\<^verbatim>\<open>cpp_lookup\<close> of \<^verbatim>\<open>libcpp/identifiers.c\<close>, and a sequence of calls of it as a file with these identifiers makes.\<close>

definition cpp_lookup :: "cpp_hash_table \<Rightarrow> byte list \<Rightarrow> (nat \<times> cpp_hash_table) alloc option" where
  "cpp_lookup table str =
     do { r \<leftarrow> ht_lookup table str HT_ALLOC;
          case r of Xmalloc_failed \<Rightarrow> Some Xmalloc_failed
          | Allocated (Some node, table) \<Rightarrow> Some (Allocated (node, table))
          | Allocated (None, table) \<Rightarrow> None }"

fun lookups :: "('t \<Rightarrow> 's \<Rightarrow> ('n \<times> 't) alloc option) \<Rightarrow> 't \<Rightarrow> 's list \<Rightarrow> ('n list \<times> 't) alloc option" where
  "lookups intern t [] = Some (Allocated ([], t))"
| "lookups intern t (s # ss) =
     do { r \<leftarrow> intern t s;
          case r of Xmalloc_failed \<Rightarrow> Some Xmalloc_failed
          | Allocated (n, t) \<Rightarrow>
              do { r \<leftarrow> lookups intern t ss;
                   Some (case r of Xmalloc_failed \<Rightarrow> Xmalloc_failed | Allocated (ns, t) \<Rightarrow> Allocated (n # ns, t)) } }"

section \<open>Walking a table\<close>

text \<open>A callback gets the node and what else it works on, and returns a number.\<close>

fun forall_slots :: "(nat \<Rightarrow> 's \<Rightarrow> int \<times> 's) \<Rightarrow> slot list \<Rightarrow> 's \<Rightarrow> 's" where
  "forall_slots cb [] s = s"
| "forall_slots cb (Node a # p) s = (let (r, s) = cb a s in if r = 0 then s else forall_slots cb p s)"
| "forall_slots cb (_ # p) s = forall_slots cb p s"

definition ht_forall :: "cpp_hash_table \<Rightarrow> (nat \<Rightarrow> 's \<Rightarrow> int \<times> 's) \<Rightarrow> 's \<Rightarrow> 's" where
  "ht_forall table cb s = forall_slots cb (entries table) s"

fun purge_slots :: "(nat \<Rightarrow> 's \<Rightarrow> int \<times> 's) \<Rightarrow> slot list \<Rightarrow> 's \<Rightarrow> slot list \<times> 's" where
  "purge_slots cb [] s = ([], s)"
| "purge_slots cb (Node a # p) s =
     (let (r, s) = cb a s; (p, s) = purge_slots cb p s in ((if r \<noteq> 0 then DELETED else Node a) # p, s))"
| "purge_slots cb (e # p) s = (let (p, s) = purge_slots cb p s in (e # p, s))"

definition ht_purge :: "cpp_hash_table \<Rightarrow> (nat \<Rightarrow> 's \<Rightarrow> int \<times> 's) \<Rightarrow> 's \<Rightarrow> cpp_hash_table \<times> 's" where
  "ht_purge table cb s = (let (es, s) = purge_slots cb (entries table) s in (table\<lparr>entries := es\<rparr>, s))"

definition ht_load :: "cpp_hash_table \<Rightarrow> slot list \<Rightarrow> uint \<Rightarrow> uint \<Rightarrow> bool \<Rightarrow> cpp_hash_table" where
  "ht_load ht es ns nelts own = ht\<lparr>entries := es, nslots := ns, nelements := nelts, entries_owned := own\<rparr>"

section \<open>The way of a search through the slots\<close>

definition pos :: "nat \<Rightarrow> uint \<Rightarrow> nat \<Rightarrow> nat" where
  "pos k h j = (unat h + j * unat (hash2 (2 ^ k - 1) h)) mod 2 ^ k"

lemma pos_less [simp]: "pos k h j < 2 ^ k"
  by (simp add: pos_def)

lemma pos_0: "k < 32 \<Longrightarrow> unat (h AND (2 ^ k - 1)) = pos k h 0"
  by (simp add: pos_def unat_and_size)

lemma pos_Suc:
  assumes "k < 32" "unat i = pos k h j"
  shows "unat ((i + hash2 (2 ^ k - 1) h) AND (2 ^ k - 1)) = pos k h (Suc j)"
proof -
  have "(2::nat) ^ k dvd 2 ^ 32"
    using assms(1) by (intro le_imp_power_dvd) simp
  then have "unat (i + hash2 (2 ^ k - 1) h) mod 2 ^ k = (unat i + unat (hash2 (2 ^ k - 1) h)) mod 2 ^ k"
    by (simp add: unat_word_ariths mod_mod_cancel)
  then show ?thesis
    using assms mod_add_right_eq[of "unat (hash2 (2 ^ k - 1) h)" "unat h + j * unat (hash2 (2 ^ k - 1) h)" "2 ^ k"]
    by (simp add: unat_and_size) (simp add: pos_def ac_simps)
qed

lemma odd_hash2: "odd (unat (hash2 m h))"
proof -
  have "bit (unat (hash2 m h)) 0"
    by (simp add: hash2_def bit_or_iff bit_unsigned_iff del: bit_0)
  then show ?thesis
    unfolding bit_0 .
qed

lemma pos_inj: "inj_on (pos k h) {..<2 ^ k}"
proof -
  let ?s = "unat (hash2 (2 ^ k - 1) h)"
  have *: "j = j'" if j: "j \<le> j'" "j' < 2 ^ k" "pos k h j = pos k h j'" for j j'
  proof -
    have "2 ^ k dvd j' * ?s - j * ?s"
      using j mod_eq_dvd_iff_nat[of "unat h + j * ?s" "unat h + j' * ?s" "2 ^ k"] by (simp add: pos_def mult_right_mono)
    then have "2 ^ k dvd (j' - j) * ?s"
      by (simp add: diff_mult_distrib)
    moreover have "coprime (2 ^ k) ?s"
      using odd_hash2[of "2 ^ k - 1" h] by (simp add: coprime_left_2_iff_odd)
    ultimately have "2 ^ k dvd j' - j"
      by (simp add: coprime_dvd_mult_left_iff)
    then show ?thesis
      using j by (auto dest: dvd_imp_le)
  qed
  show ?thesis
  proof (rule inj_onI)
    fix i j assume "i \<in> {..<2 ^ k}" "j \<in> {..<2 ^ k}" "pos k h i = pos k h j"
    then show "i = j"
      using *[of i j] *[of j i] nat_le_linear[of i j] by auto
  qed
qed

lemma pos_surj: "q < 2 ^ k \<Longrightarrow> \<exists>j. pos k h j = q"
  using endo_inj_surj[OF finite_lessThan _ pos_inj, of k h] by (simp add: set_eq_iff image_iff image_subset_iff) metis

section \<open>Live nodes\<close>

fun live :: "slot list \<Rightarrow> nat list" where
  "live [] = []"
| "live (Node a # p) = a # live p"
| "live (_ # p) = live p"

definition occupied :: "slot list \<Rightarrow> nat" where
  "occupied es = length (filter (\<lambda>s. s \<noteq> NULL_slot) es)"

lemma live_append [simp]: "live (xs @ ys) = live xs @ live ys"
  by (induction xs rule: live.induct) auto

lemma set_live: "a \<in> set (live es) \<longleftrightarrow> Node a \<in> set es"
  by (induction es rule: live.induct) auto

lemma live_replicate [simp]: "live (replicate n NULL_slot) = []"
  by (induction n) auto

lemma occupied_simps [simp]:
  "occupied [] = 0" "occupied (s # p) = (if s = NULL_slot then 0 else 1) + occupied p"
  "occupied (replicate n NULL_slot) = 0" "occupied (xs @ ys) = occupied xs + occupied ys"
  by (auto simp: occupied_def)

lemma live_occupied: "length (live es) \<le> occupied es" "DELETED \<notin> set es \<Longrightarrow> occupied es = length (live es)"
  by (induction es rule: live.induct) auto

lemma null_exists: "occupied es < length es \<Longrightarrow> NULL_slot \<in> set es"
  by (induction es) (auto split: if_splits)

lemma update_split: "q < length es \<Longrightarrow> es = take q es @ es ! q # drop (Suc q) es"
  by (simp add: id_take_nth_drop)

lemma live_update:
  assumes "q < length es" "es ! q = NULL_slot \<or> es ! q = DELETED"
  shows "mset (live (es[q := Node a])) = add_mset a (mset (live es))"
    and "occupied (es[q := Node a]) \<le> Suc (occupied es)"
proof -
  have e: "es = take q es @ es ! q # drop (Suc q) es" and u: "es[q := Node a] = take q es @ Node a # drop (Suc q) es"
    using assms(1) by (simp_all add: id_take_nth_drop upd_conv_take_nth_drop)
  have "live es = live (take q es) @ live (drop (Suc q) es)"
    using arg_cong[OF e, of live] assms(2) by auto
  then show "mset (live (es[q := Node a])) = add_mset a (mset (live es))"
    by (simp add: u)
  show "occupied (es[q := Node a]) \<le> Suc (occupied es)"
    using arg_cong[OF e, of occupied] by (auto simp: u split: if_splits)
qed

section \<open>Invariant and meaning of a table\<close>

text \<open>Every node can be reached on the way of its hash value without an empty slot before it.\<close>

definition placed :: "nat \<Rightarrow> ht_identifier list \<Rightarrow> slot list \<Rightarrow> bool" where
  "placed k ns es \<longleftrightarrow> length es = 2 ^ k \<and>
     (\<forall>q a. q < 2 ^ k \<longrightarrow> es ! q = Node a \<longrightarrow> a < length ns \<and>
        (\<exists>j. q = pos k (hash_value (ns ! a)) j \<and> (\<forall>i<j. es ! pos k (hash_value (ns ! a)) i \<noteq> NULL_slot)))"

definition node_ok :: "ht_identifier \<Rightarrow> bool" where
  "node_ok n \<longleftrightarrow> length (ht_str n) < 2 ^ 32 \<and> ht_len n = word_of_nat (length (ht_str n)) \<and>
     hash_value n = calc_hash (ht_str n)"

definition ht_size :: "cpp_hash_table \<Rightarrow> nat \<Rightarrow> bool" where
  "ht_size t k \<longleftrightarrow> k \<le> 29 \<and> nslots t = 2 ^ k \<and> placed k (ht_nodes t) (entries t) \<and>
     occupied (entries t) \<le> unat (nelements t) \<and> 4 * unat (nelements t) < 3 * 2 ^ k"

definition ht_inv :: "cpp_hash_table \<Rightarrow> bool" where
  "ht_inv t \<longleftrightarrow> (\<exists>k. ht_size t k) \<and> list_all node_ok (ht_nodes t) \<and>
     distinct (map (\<lambda>a. ht_str (ht_nodes t ! a)) (live (entries t)))"

text \<open>What a table stands for: the node of a string.\<close>

definition ht_entry :: "cpp_hash_table \<Rightarrow> byte list \<Rightarrow> nat option" where
  "ht_entry t str = find (\<lambda>a. ht_str (ht_nodes t ! a) = str) (live (entries t))"

lemma find_distinct:
  "distinct (map f xs) \<Longrightarrow> find (\<lambda>a. f a = s) xs = Some a \<longleftrightarrow> a \<in> set xs \<and> f a = s"
  by (induction xs) (auto simp: rev_image_eqI)

lemma ht_entry_iff:
  "ht_inv t \<Longrightarrow> ht_entry t str = Some a \<longleftrightarrow> a \<in> set (live (entries t)) \<and> ht_str (ht_nodes t ! a) = str"
  by (simp add: ht_inv_def ht_entry_def find_distinct)

lemma placed_live: "placed k ns es \<Longrightarrow> a \<in> set (live es) \<Longrightarrow> a < length ns"
  unfolding set_live by (auto simp: placed_def in_set_conv_nth)

lemma placed_insert:
  assumes "placed k ns es" "a < length ns" "q = pos k (hash_value (ns ! a)) j"
    and "\<forall>i<j. es ! pos k (hash_value (ns ! a)) i \<noteq> NULL_slot"
  shows "placed k ns (es[q := Node a])"
  unfolding placed_def
proof (intro conjI allI impI)
  have len: "length es = 2 ^ k"
    using assms(1) by (simp add: placed_def)
  then show "length (es[q := Node a]) = 2 ^ k"
    by simp
  fix p b assume p: "p < 2 ^ k" "es[q := Node a] ! p = Node b"
  have keep: "es ! i \<noteq> NULL_slot \<Longrightarrow> es[q := Node a] ! i \<noteq> NULL_slot" for i
    using len assms(3) by (cases "i = q") auto
  have "b < length ns \<and> (\<exists>j. p = pos k (hash_value (ns ! b)) j \<and> (\<forall>i<j. es ! pos k (hash_value (ns ! b)) i \<noteq> NULL_slot))"
  proof (cases "p = q")
    case True
    then show ?thesis
      using p len assms(2-) by auto
  next
    case False
    then show ?thesis
      using p assms(1) by (simp add: placed_def)
  qed
  then show "b < length ns"
    and "\<exists>j. p = pos k (hash_value (ns ! b)) j \<and> (\<forall>i<j. es[q := Node a] ! pos k (hash_value (ns ! b)) i \<noteq> NULL_slot)"
    using keep by blast+
qed

lemma placed_more: "placed k ns es \<Longrightarrow> placed k (ns @ ms) es"
  by (fastforce simp: placed_def nth_append)

lemma placed_empty: "placed k ns (replicate (2 ^ k) NULL_slot)"
  by (simp add: placed_def)

lemma first_null:
  assumes "NULL_slot \<in> set es" "length es = 2 ^ k"
  obtains j where "es ! pos k h j = NULL_slot" "\<forall>i<j. es ! pos k h i \<noteq> NULL_slot"
proof -
  obtain q where "q < 2 ^ k" "es ! q = NULL_slot"
    using assms by (auto simp: in_set_conv_nth)
  then have "\<exists>j. es ! pos k h j = NULL_slot"
    using pos_surj[of q k h] by auto
  then show ?thesis
    using exists_least_iff[of "\<lambda>j. es ! pos k h j = NULL_slot"] that by blast
qed

section \<open>Growing a table\<close>

lemma free_slot_ok:
  assumes "k < 32" "length es = 2 ^ k" "es ! pos k h j0 = NULL_slot" "\<forall>i<j0. es ! pos k h i \<noteq> NULL_slot"
  shows "j \<le> j0 \<Longrightarrow> unat index = pos k h j \<Longrightarrow>
    \<exists>q. free_slot es (2 ^ k - 1) h index = Some q \<and> unat q = pos k h j0"
proof (induction "j0 - j" arbitrary: j index)
  case 0
  then show ?case
    using assms by (subst free_slot.simps) auto
next
  case (Suc d)
  then have j: "j < j0" "d = j0 - Suc j"
    by auto
  then have "\<exists>q. free_slot es (2 ^ k - 1) h ((index + hash2 (2 ^ k - 1) h) AND (2 ^ k - 1)) = Some q \<and> unat q = pos k h j0"
    using Suc.hyps(1)[OF j(2) _ pos_Suc[OF assms(1) Suc.prems(2)]] by simp
  then show ?case
    using assms j(1) Suc.prems(2) by (subst free_slot.simps) auto
qed

lemma rehash_ok:
  assumes "k < 32"
  shows "placed k ns nes \<Longrightarrow> DELETED \<notin> set nes \<Longrightarrow> (\<forall>a \<in> set (live p). a < length ns) \<Longrightarrow>
    length (live nes) + length (live p) < 2 ^ k \<Longrightarrow>
    \<exists>es. rehash ns (2 ^ k - 1) p nes = Some es \<and> placed k ns es \<and> DELETED \<notin> set es \<and>
      mset (live es) = mset (live nes) + mset (live p)"
proof (induction p arbitrary: nes rule: live.induct)
  case (2 a p)
  let ?h = "hash_value (ns ! a)"
  have len: "length nes = 2 ^ k" and null: "NULL_slot \<in> set nes"
    using 2 null_exists[of nes] live_occupied(2)[of nes] by (auto simp: placed_def)
  obtain j where j: "nes ! pos k ?h j = NULL_slot" "\<forall>i<j. nes ! pos k ?h i \<noteq> NULL_slot"
    using first_null[OF null len] by blast
  obtain q where q: "free_slot nes (2 ^ k - 1) ?h (?h AND (2 ^ k - 1)) = Some q" "unat q = pos k ?h j"
    using free_slot_ok[OF assms len j le0 pos_0[OF assms]] by blast
  let ?nes = "nes[unat q := Node a]"
  have m: "mset (live ?nes) = add_mset a (mset (live nes))"
    using j(1) q(2) len by (simp add: live_update(1))
  have "DELETED \<notin> set ?nes"
    using "2.prems"(2) set_update_subset_insert[of nes "unat q" "Node a"] by auto
  moreover have "placed k ns ?nes"
    using "2.prems" j(2) q(2) by (intro placed_insert) auto
  moreover have "length (live ?nes) = Suc (length (live nes))"
    using arg_cong[OF m, of size] by simp
  ultimately obtain es where "rehash ns (2 ^ k - 1) p ?nes = Some es" "placed k ns es" "DELETED \<notin> set es"
      "mset (live es) = mset (live ?nes) + mset (live p)"
    using "2.IH"[of ?nes] "2.prems"(3,4) by auto
  then show ?case
    using "2.prems"(3) q(1) m by auto
qed auto

lemma exp_29: "k \<le> 29 \<Longrightarrow> (2::nat) ^ k \<le> 2 ^ 29"
  by (intro power_increasing) simp_all

lemma nslots_simps:
  assumes "k \<le> 29"
  shows "unat (2 ^ k :: uint) = 2 ^ k" "(2 ^ k * 2 :: uint) = 2 ^ Suc k" "unat (2 ^ k * 3 :: uint) = 2 ^ k * 3"
proof -
  note exp_29[OF assms]
  then show "unat (2 ^ k :: uint) = 2 ^ k" "unat (2 ^ k * 3 :: uint) = 2 ^ k * 3"
    using assms by (simp_all add: unat_exp unat_word_ariths)
qed simp

text \<open>A table that is about to be full is made twice as large, which fails only for \<open>2 ^ 29\<close> slots.\<close>

lemma ht_expand_ok:
  assumes "k \<le> 29" "nslots t = 2 ^ k" "placed k (ht_nodes t) (entries t)" "length (live (entries t)) < 2 ^ Suc k"
  shows "ht_expand t = (if k = 29 then Some Xmalloc_failed else
    Some (Allocated (t\<lparr>entries := the (rehash (ht_nodes t) (2 ^ Suc k - 1) (entries t) (replicate (2 ^ Suc k) NULL_slot)),
      nslots := 2 ^ Suc k, entries_owned := True\<rparr>)))"
    and "\<exists>es. rehash (ht_nodes t) (2 ^ Suc k - 1) (entries t) (replicate (2 ^ Suc k) NULL_slot) = Some es \<and>
      placed (Suc k) (ht_nodes t) es \<and> DELETED \<notin> set es \<and> mset (live es) = mset (live (entries t))"
proof -
  have *: "\<exists>es. rehash (ht_nodes t) (2 ^ Suc k - 1) (entries t) (replicate (2 ^ Suc k) NULL_slot) = Some es \<and>
      placed (Suc k) (ht_nodes t) es \<and> DELETED \<notin> set es \<and> mset (live es) = mset (live (entries t))"
    using rehash_ok[of "Suc k" "ht_nodes t" "replicate (2 ^ Suc k) NULL_slot" "entries t"] assms placed_live[OF assms(3)]
    by (auto simp: placed_empty simp del: power_Suc)
  then show "\<exists>es. rehash (ht_nodes t) (2 ^ Suc k - 1) (entries t) (replicate (2 ^ Suc k) NULL_slot) = Some es \<and>
      placed (Suc k) (ht_nodes t) es \<and> DELETED \<notin> set es \<and> mset (live es) = mset (live (entries t))" .
  have "unat (2 ^ Suc k :: uint) = 2 ^ Suc k"
    using assms(1) by (intro unat_exp) simp
  moreover have "4 * (2::nat) ^ Suc k < 2 ^ 32 \<longleftrightarrow> k \<noteq> 29"
    using assms(1) power_strict_increasing_iff[of "2::nat" "k + 3" 32] by (auto simp: power_add)
  ultimately have "XCNEWVEC (2 ^ Suc k) = (if k = 29 then Xmalloc_failed else Allocated (replicate (2 ^ Suc k) NULL_slot))"
    unfolding XCNEWVEC_def by (simp del: power_Suc)
  then show "ht_expand t = (if k = 29 then Some Xmalloc_failed else
    Some (Allocated (t\<lparr>entries := the (rehash (ht_nodes t) (2 ^ Suc k - 1) (entries t) (replicate (2 ^ Suc k) NULL_slot)),
      nslots := 2 ^ Suc k, entries_owned := True\<rparr>)))"
    using * unfolding ht_expand_def assms(2) nslots_simps(2)[OF assms(1)] by (auto simp del: power_Suc replicate.simps)
qed

section \<open>Searching a table\<close>

text \<open>
  The outcome of a search whose way ends at the empty slot number \<open>j0\<close>, as far as it was followed from
  slot \<open>lo\<close> on: the node, or the empty slot and at most a deleted one that may be used in its place.
\<close>

definition spare :: "cpp_hash_table \<Rightarrow> nat \<Rightarrow> uint \<Rightarrow> nat \<Rightarrow> uint \<Rightarrow> bool" where
  "spare t k h j0 d \<longleftrightarrow> d = nslots t \<or> (\<exists>i<j0. unat d = pos k h i \<and> entries t ! pos k h i = DELETED)"

definition search_ok :: "cpp_hash_table \<Rightarrow> byte list \<Rightarrow> nat \<Rightarrow> uint \<Rightarrow> nat \<Rightarrow> nat \<Rightarrow> search \<Rightarrow> bool" where
  "search_ok t str k h j0 lo r \<longleftrightarrow>
     (case r of
        Found a \<Rightarrow> \<exists>i<j0. entries t ! pos k h i = Node a \<and> is_node (ht_nodes t ! a) h str
      | Vacant q d \<Rightarrow> unat q = pos k h j0 \<and> spare t k h j0 d \<and>
          (\<forall>i a. lo \<le> i \<longrightarrow> i < j0 \<longrightarrow> entries t ! pos k h i = Node a \<longrightarrow> \<not> is_node (ht_nodes t ! a) h str))"

lemma search_ok_earlier:
  "search_ok t str k h j0 (Suc lo) r \<Longrightarrow>
   (\<forall>a. entries t ! pos k h lo = Node a \<longrightarrow> \<not> is_node (ht_nodes t ! a) h str) \<Longrightarrow> search_ok t str k h j0 lo r"
  by (auto simp: search_ok_def less_eq_Suc_le[symmetric] dest: le_neq_implies_less split: search.splits)

lemma placed_node: "placed k ns es \<Longrightarrow> es ! pos k h i = Node a \<Longrightarrow> a < length ns"
  using pos_less[of k h i] unfolding placed_def by blast

lemma probe_ok:
  assumes "k < 32" "nslots t = 2 ^ k" "placed k (ht_nodes t) (entries t)"
    and "entries t ! pos k h j0 = NULL_slot" "\<forall>i<j0. entries t ! pos k h i \<noteq> NULL_slot"
  shows "j < j0 \<Longrightarrow> unat index = pos k h j \<Longrightarrow> spare t k h j0 d \<Longrightarrow>
    \<exists>r c'. ht_probe t str h index d c = Some (r, c') \<and> search_ok t str k h j0 (Suc j) r"
proof (induction "j0 - j" arbitrary: j index d c)
  case (Suc n)
  have len: "length (entries t) = 2 ^ k"
    using assms(3) by (simp add: placed_def)
  let ?i = "(index + hash2 (2 ^ k - 1) h) AND (2 ^ k - 1)"
  have i: "unat ?i = pos k h (Suc j)"
    by (rule pos_Suc[OF assms(1) Suc.prems(2)])
  have go_on: "\<exists>r c'. ht_probe t str h ?i d' c = Some (r, c') \<and> search_ok t str k h j0 (Suc j) r"
    if "Suc j < j0" "spare t k h j0 d'" "\<forall>a. entries t ! pos k h (Suc j) = Node a \<longrightarrow> \<not> is_node (ht_nodes t ! a) h str"
    for d' c
    using Suc.hyps(1)[of "Suc j" ?i d' c] Suc.hyps(2) that i search_ok_earlier by fastforce
  show ?case
  proof (cases "entries t ! pos k h (Suc j)")
    case NULL_slot
    then have "Suc j = j0"
      using assms(5) Suc.prems(1) Suc_lessI by blast
    then show ?thesis
      using NULL_slot len assms(2) i Suc.prems(3) by (subst ht_probe.simps) (auto simp: search_ok_def Let_def)
  next
    case DELETED
    then have j: "Suc j < j0"
      using assms(4) Suc.prems(1) by (metis Suc_lessI slot.distinct(1))
    then have "spare t k h j0 (if d \<noteq> 2 ^ k then ?i else d)"
      using Suc.prems(3) i DELETED by (auto simp: spare_def)
    then show ?thesis
      using go_on[OF j] DELETED len assms(2) i by (subst ht_probe.simps) (simp add: Let_def)
  next
    case (Node a)
    then have j: "Suc j < j0"
      using assms(4) Suc.prems(1) by (metis Suc_lessI slot.distinct(3))
    have "a < length (ht_nodes t)"
      using placed_node[OF assms(3) Node] .
    then show ?thesis
      using go_on[OF j Suc.prems(3)] Node len assms(2) i j by (subst ht_probe.simps) (auto simp: Let_def search_ok_def)
  qed
qed simp

lemma ht_search_ok:
  assumes "k < 32" "nslots t = 2 ^ k" "placed k (ht_nodes t) (entries t)"
    and "entries t ! pos k h j0 = NULL_slot" "\<forall>i<j0. entries t ! pos k h i \<noteq> NULL_slot"
  shows "\<exists>r c'. ht_search t str h = Some (r, c') \<and> search_ok t str k h j0 0 r"
proof -
  have len: "length (entries t) = 2 ^ k"
    using assms(3) by (simp add: placed_def)
  let ?i = "h AND (2 ^ k - 1)"
  have i: "unat ?i = pos k h 0"
    by (rule pos_0[OF assms(1)])
  have go_on: "\<exists>r c'. ht_probe t str h ?i d c = Some (r, c') \<and> search_ok t str k h j0 0 r"
    if "0 < j0" "spare t k h j0 d" "\<forall>a. entries t ! pos k h 0 = Node a \<longrightarrow> \<not> is_node (ht_nodes t ! a) h str" for d c
    using probe_ok[OF assms that(1) i that(2)] search_ok_earlier that(3) by blast
  show ?thesis
  proof (cases "entries t ! pos k h 0")
    case NULL_slot
    then have "j0 = 0"
      using assms(5) by auto
    then show ?thesis
      using NULL_slot len assms(2) i by (auto simp: ht_search_def search_ok_def spare_def Let_def)
  next
    case DELETED
    then have "0 < j0"
      using assms(4) by (metis gr0I slot.distinct(1))
    moreover from this have "spare t k h j0 ?i"
      using DELETED i by (auto simp: spare_def)
    ultimately show ?thesis
      using go_on DELETED len assms(2) i by (simp add: ht_search_def Let_def)
  next
    case (Node a)
    then have j: "0 < j0"
      using assms(4) by (metis gr0I slot.distinct(3))
    have "a < length (ht_nodes t)"
      using placed_node[OF assms(3) Node] .
    then show ?thesis
      using go_on[OF j, of "2 ^ k" "collisions t"] Node len assms(2) i j
      by (auto simp: ht_search_def Let_def search_ok_def spare_def)
  qed
qed

text \<open>With the hash value of the string, a search finds its node if there is one.\<close>

lemma is_node_iff:
  assumes "node_ok n" "length str < 2 ^ 32"
  shows "is_node n (calc_hash str) str \<longleftrightarrow> ht_str n = str"
proof -
  have "length (ht_str n) = length str" if "(word_of_nat (length (ht_str n)) :: uint) = word_of_nat (length str)"
    using arg_cong[OF that, of unat] assms by (simp add: node_ok_def unat_of_nat)
  then show ?thesis
    using assms by (auto simp: is_node_def node_ok_def)
qed

lemma search_meaning:
  assumes "ht_inv t" "ht_size t k" "length str < 2 ^ 32" "h = calc_hash str"
    and "entries t ! pos k h j0 = NULL_slot" "search_ok t str k h j0 0 r"
  shows "case r of Found a \<Rightarrow> ht_entry t str = Some a | Vacant q d \<Rightarrow> ht_entry t str = None"
proof (cases r)
  case (Found a)
  then obtain i where i: "entries t ! pos k h i = Node a" "is_node (ht_nodes t ! a) h str"
    using assms(6) by (auto simp: search_ok_def)
  have p: "placed k (ht_nodes t) (entries t)"
    using assms(2) by (simp add: ht_size_def)
  have "a \<in> set (live (entries t))"
    using i(1) p nth_mem[of "pos k h i" "entries t"] by (simp add: set_live placed_def)
  moreover have "node_ok (ht_nodes t ! a)"
    using placed_node[OF p i(1)] assms(1) by (simp add: ht_inv_def list_all_length)
  ultimately show ?thesis
    using Found i(2) assms by (simp add: ht_entry_iff is_node_iff)
next
  case (Vacant q d)
  have "ht_entry t str \<noteq> Some a" for a
  proof
    assume "ht_entry t str = Some a"
    then have a: "Node a \<in> set (entries t)" "ht_str (ht_nodes t ! a) = str"
      using assms(1) by (simp_all add: ht_entry_iff set_live)
    then obtain q where q: "q < 2 ^ k" "entries t ! q = Node a"
      using assms(2) by (auto simp: ht_size_def placed_def in_set_conv_nth)
    then have "a < length (ht_nodes t)"
      using assms(2) by (simp add: ht_size_def placed_def)
    then have n: "node_ok (ht_nodes t ! a)"
      using assms(1) by (simp add: ht_inv_def list_all_length)
    then have "hash_value (ht_nodes t ! a) = h"
      using a(2) assms(4) by (simp add: node_ok_def)
    then obtain j where j: "q = pos k h j" "\<forall>i<j. entries t ! pos k h i \<noteq> NULL_slot"
      using q assms(2) unfolding ht_size_def placed_def by blast
    then have "j < j0"
      using assms(5) q(2) by (metis linorder_neqE_nat slot.distinct(3))
    then have "\<not> is_node (ht_nodes t ! a) h str"
      using assms(6) Vacant j(1) q(2) by (auto simp: search_ok_def)
    then show False
      using is_node_iff[OF n assms(3)] a(2) assms(4) by simp
  qed
  then show ?thesis
    using Vacant by (cases "ht_entry t str") auto
qed

section \<open>Inserting\<close>

definition new_node :: "byte list \<Rightarrow> ht_identifier" where
  "new_node str = \<lparr>ht_str = str, ht_len = word_of_nat (length str), hash_value = calc_hash str\<rparr>"

text \<open>The meaning depends only on which nodes are live.\<close>

lemma add_node:
  assumes "ht_inv t" "ht_entry t str = None" "ht_size t k" "length str < 2 ^ 32"
    and t': "ht_nodes t' = ht_nodes t @ [new_node str]" "ht_size t' k'"
      "mset (live (entries t')) = add_mset (length (ht_nodes t)) (mset (live (entries t)))"
  shows "ht_inv t'" "ht_entry t' = (ht_entry t)(str \<mapsto> length (ht_nodes t))"
proof -
  let ?f = "\<lambda>t a. ht_str (ht_nodes t ! a)" and ?n = "length (ht_nodes t)"
  have old: "a < ?n" if "a \<in> set (live (entries t))" for a
    using placed_live that assms(3) by (auto simp: ht_size_def)
  have set': "set (live (entries t')) = insert ?n (set (live (entries t)))"
    using arg_cong[OF t'(3), of set_mset] by simp
  have "mset (map (?f t') (live (entries t'))) = mset (str # map (?f t) (live (entries t)))"
    using t'(3) old by (auto simp: t'(1) nth_append new_node_def intro!: image_mset_cong)
  then have "distinct (map (?f t') (live (entries t'))) = distinct (str # map (?f t) (live (entries t)))"
    by (rule mset_eq_imp_distinct_iff)
  moreover have "str \<notin> ?f t ` set (live (entries t))"
    using assms(2) ht_entry_iff[OF assms(1), of str] by auto
  ultimately show i: "ht_inv t'"
    using assms(1,4) t'(1,2) by (auto simp: ht_inv_def node_ok_def new_node_def)
  have "ht_entry t' s = Some a \<longleftrightarrow> ((ht_entry t)(str \<mapsto> ?n)) s = Some a" for s a
    using old assms(2) ht_entry_iff[OF assms(1), of str]
    by (auto simp: ht_entry_iff[OF i] ht_entry_iff[OF assms(1)] set' t'(1) nth_append new_node_def)
  then show "ht_entry t' = (ht_entry t)(str \<mapsto> ?n)"
    by (intro ext) (metis not_Some_eq)
qed

lemma twice_as_large: "(0::nat) < x \<Longrightarrow> 4 * n < 6 * x \<Longrightarrow> 4 * Suc n < 12 * x"
  by presburger

lemma ht_insert_ok:
  assumes t: "ht_inv t" "ht_entry t str = None" "ht_size t k" "length str < 2 ^ 32"
    and i: "unat index = pos k (calc_hash str) j" "\<forall>i<j. entries t ! pos k (calc_hash str) i \<noteq> NULL_slot"
      "entries t ! unat index = NULL_slot \<or> entries t ! unat index = DELETED"
  shows "(ht_insert t str (calc_hash str) index = Some Xmalloc_failed \<and> 3 * 2 ^ 29 \<le> 4 * Suc (unat (nelements t))) \<or>
    (\<exists>t'. ht_insert t str (calc_hash str) index = Some (Allocated (length (ht_nodes t), t')) \<and> ht_inv t' \<and>
       ht_entry t' = (ht_entry t)(str \<mapsto> length (ht_nodes t)) \<and> unat (nelements t') = Suc (unat (nelements t)))"
proof -
  let ?n = "length (ht_nodes t)"
  define es where "es = (entries t)[unat index := Node ?n]"
  define u where "u = t\<lparr>entries := es, ht_nodes := ht_nodes t @ [new_node str], nelements := nelements t + 1\<rparr>"
  have k: "k \<le> 29" "nslots t = 2 ^ k" and p: "placed k (ht_nodes t) (entries t)"
    and c: "occupied (entries t) \<le> unat (nelements t)" "4 * unat (nelements t) < 3 * 2 ^ k"
    using t(3) by (simp_all add: ht_size_def)
  have len: "unat index < length (entries t)"
    using p i(1) by (simp add: placed_def)
  have pu: "placed k (ht_nodes u) es"
    unfolding es_def u_def using placed_insert[OF placed_more[OF p, of "[new_node str]"], of ?n "unat index" j] i(1,2)
    by (simp add: new_node_def)
  note le = exp_29[OF k(1)]
  have nu: "unat (nelements u) = Suc (unat (nelements t))"
    using c(2) le by (simp add: u_def unat_word_ariths)
  have lu: "mset (live es) = add_mset ?n (mset (live (entries t)))" "occupied es \<le> Suc (occupied (entries t))"
    unfolding es_def by (rule live_update[OF len i(3)])+
  have full: "nelements u * 4 \<ge> nslots u * 3 \<longleftrightarrow> 3 * 2 ^ k \<le> 4 * unat (nelements u)"
    using nslots_simps(3)[OF k(1)] c(2) le nu by (auto simp: word_le_nat_alt unat_word_ariths k(2) u_def)
  have run: "ht_insert t str (calc_hash str) index = (if 3 * 2 ^ k \<le> 4 * unat (nelements u) then
      do { t \<leftarrow> ht_expand u; Some (case t of Xmalloc_failed \<Rightarrow> Xmalloc_failed | Allocated table \<Rightarrow> Allocated (?n, table)) }
    else Some (Allocated (?n, u)))"
    unfolding full[symmetric] by (simp add: ht_insert_def u_def es_def new_node_def Let_def)
  have half: "4 * unat (nelements u) < 3 * 2 ^ Suc k"
    using c(2) twice_as_large[of "2 ^ (k - 1)" "unat (nelements t)"] by (cases k) (simp_all add: nu)
  have few: "length (live es) < 2 ^ Suc k"
    using live_occupied(1)[of es] lu(2) c half nu by simp
  show ?thesis
  proof (cases "3 * 2 ^ k \<le> 4 * unat (nelements u)")
    case False
    then have "ht_size u k"
      using k pu lu(2) c(1) nu by (simp add: ht_size_def u_def)
    from add_node[OF t _ this] show ?thesis
      using False lu(1) nu run by (simp add: u_def)
  next
    case True
    note ex = ht_expand_ok[of k u, OF k(1)]
    obtain es' where es': "rehash (ht_nodes u) (2 ^ Suc k - 1) es (replicate (2 ^ Suc k) NULL_slot) = Some es'"
        "placed (Suc k) (ht_nodes u) es'" "DELETED \<notin> set es'" "mset (live es') = mset (live es)"
      using ex(2) k(2) pu few by (auto simp: u_def simp del: power_Suc)
    define v where "v = u\<lparr>entries := es', nslots := 2 ^ Suc k, entries_owned := True\<rparr>"
    have v: "ht_expand u = (if k = 29 then Some Xmalloc_failed else Some (Allocated v))"
      using ex(1) k(2) pu few es'(1) by (simp add: u_def v_def del: power_Suc replicate.simps)
    show ?thesis
    proof (cases "k = 29")
      case False
      have "occupied es' = length (live es)"
        using live_occupied(2)[OF es'(3)] arg_cong[OF es'(4), of size] by simp
      then have "ht_size v (Suc k)"
        using k False es'(2) live_occupied(1)[of es] lu(2) c(1) half nu
        by (simp add: ht_size_def v_def u_def del: power_Suc)
      from add_node[OF t _ this] show ?thesis
        using True False run v lu(1) es'(4) nu by (simp add: v_def u_def)
    qed (use True run v nu in simp)
  qed
qed

section \<open>Lookup\<close>

lemma stats_irrelevant [simp]:
  "ht_inv (t\<lparr>searches := m\<rparr>) = ht_inv t" "ht_inv (t\<lparr>collisions := m\<rparr>) = ht_inv t"
  "ht_entry (t\<lparr>searches := m\<rparr>) = ht_entry t" "ht_entry (t\<lparr>collisions := m\<rparr>) = ht_entry t"
  "ht_size (t\<lparr>searches := m\<rparr>) = ht_size t" "ht_size (t\<lparr>collisions := m\<rparr>) = ht_size t"
  by (auto simp: ht_inv_def ht_entry_def ht_size_def fun_eq_iff)

lemma table_null:
  assumes "ht_size t k"
  obtains j0 where "entries t ! pos k h j0 = NULL_slot" "\<forall>i<j0. entries t ! pos k h i \<noteq> NULL_slot"
proof -
  have "length (entries t) = 2 ^ k" "occupied (entries t) < 2 ^ k"
    using assms by (auto simp: ht_size_def placed_def)
  then show ?thesis
    using first_null[OF null_exists, of "entries t" k h] that by auto
qed

lemma search_total:
  assumes "ht_inv t" "length str < 2 ^ 32"
  obtains (found) a c where "ht_search t str (calc_hash str) = Some (Found a, c)" "ht_entry t str = Some a"
  | (vacant) q d c k i where "ht_search t str (calc_hash str) = Some (Vacant q d, c)" "ht_entry t str = None" "ht_size t k"
      "unat (if d \<noteq> nslots t then d else q) = pos k (calc_hash str) i"
      "\<forall>l<i. entries t ! pos k (calc_hash str) l \<noteq> NULL_slot"
      "entries t ! pos k (calc_hash str) i = NULL_slot \<or> entries t ! pos k (calc_hash str) i = DELETED"
proof -
  let ?h = "calc_hash str"
  obtain k where k: "ht_size t k"
    using assms(1) by (auto simp: ht_inv_def)
  obtain j0 where j0: "entries t ! pos k ?h j0 = NULL_slot" "\<forall>i<j0. entries t ! pos k ?h i \<noteq> NULL_slot"
    using table_null[OF k] by blast
  obtain r c where r: "ht_search t str ?h = Some (r, c)" "search_ok t str k ?h j0 0 r"
    using ht_search_ok[OF _ _ _ j0, of str] k by (auto simp: ht_size_def)
  note m = search_meaning[OF assms(1) k assms(2) refl j0(1) r(2)]
  show ?thesis
  proof (cases r)
    case (Found a)
    then show ?thesis
      using r(1) m found by simp
  next
    case (Vacant q d)
    then have sp: "unat q = pos k ?h j0" "spare t k ?h j0 d"
      using r(2) by (simp_all add: search_ok_def)
    show ?thesis
    proof (cases "d = nslots t")
      case True
      then show ?thesis
        using vacant[of q d c k j0] r(1) m k Vacant j0 sp(1) by simp
    next
      case False
      then obtain i where "i < j0" "unat d = pos k ?h i" "entries t ! pos k ?h i = DELETED"
        using sp(2) by (auto simp: spare_def)
      then show ?thesis
        using vacant[of q d c k i] r(1) m k Vacant j0(2) False by simp
    qed
  qed
qed

definition full :: "cpp_hash_table \<Rightarrow> bool" where
  "full t \<longleftrightarrow> 3 * 2 ^ 29 \<le> 4 * Suc (unat (nelements t))"

lemma lookup_no_insert:
  assumes "ht_inv t" "length str < 2 ^ 32"
  shows "\<exists>m c. ht_lookup t str HT_NO_INSERT = Some (Allocated (ht_entry t str, t\<lparr>searches := m, collisions := c\<rparr>))"
proof -
  let ?t = "t\<lparr>searches := searches t + 1\<rparr>"
  have "ht_inv ?t"
    using assms(1) by simp
  then show ?thesis
    using assms(2) by (cases rule: search_total) (auto simp: ht_lookup_def ht_lookup_with_hash_def Let_def)
qed

lemma lookup_alloc:
  assumes "ht_inv t" "length str < 2 ^ 32"
  shows "(ht_lookup t str HT_ALLOC = Some Xmalloc_failed \<and> ht_entry t str = None \<and> full t) \<or>
    (\<exists>t' a. ht_lookup t str HT_ALLOC = Some (Allocated (Some a, t')) \<and> ht_inv t' \<and> ht_entry t' = (ht_entry t)(str \<mapsto> a) \<and>
       (ht_entry t str = Some a \<or> ht_entry t str = None \<and> a \<notin> ran (ht_entry t)) \<and>
       unat (nelements t') \<le> Suc (unat (nelements t)))"
proof -
  let ?t = "t\<lparr>searches := searches t + 1\<rparr>"
  have inv: "ht_inv ?t"
    using assms(1) by simp
  show ?thesis
    using inv assms(2)
  proof (cases rule: search_total)
    case (found a c)
    then show ?thesis
      using assms(1) by (auto simp: ht_lookup_def ht_lookup_with_hash_def Let_def fun_upd_idem)
  next
    case (vacant q d c k i)
    let ?u = "?t\<lparr>collisions := c\<rparr>" and ?q = "if d \<noteq> nslots t then d else q"
    have u: "ht_inv ?u" "ht_entry ?u str = None" "ht_size ?u k"
      using vacant(2,3) assms(1) by simp_all
    have fresh: "length (ht_nodes t) \<notin> ran (ht_entry t)"
    proof
      assume "length (ht_nodes t) \<in> ran (ht_entry t)"
      then have "length (ht_nodes t) \<in> set (live (entries t))"
        using assms(1) by (auto simp: ran_def ht_entry_iff)
      then show False
        using placed_live vacant(3) by (auto simp: ht_size_def)
    qed
    have "ht_lookup t str HT_ALLOC = do { r \<leftarrow> ht_insert ?u str (calc_hash str) ?q;
        Some (case r of Xmalloc_failed \<Rightarrow> Xmalloc_failed | Allocated (node, table) \<Rightarrow> Allocated (Some node, table)) }"
      using vacant(1) by (simp add: ht_lookup_def ht_lookup_with_hash_def Let_def)
    then show ?thesis
      using ht_insert_ok[OF u assms(2), of ?q i] vacant(2,4-6) fresh by (auto simp: full_def)
  qed
qed

section \<open>Interning\<close>

text \<open>
  What the users of the table rely on: a call adds the string under a node that no other string has, or
  returns the node it has. Then the nodes of any two calls agree exactly when the strings do.
\<close>

locale interning =
  fixes inv :: "'t \<Rightarrow> bool" and entry :: "'t \<Rightarrow> 's \<Rightarrow> 'n option"
    and valid :: "'s \<Rightarrow> bool" and intern :: "'t \<Rightarrow> 's \<Rightarrow> ('n \<times> 't) alloc option"
  assumes total: "inv t \<Longrightarrow> valid s \<Longrightarrow> intern t s \<noteq> None"
    and keeps: "inv t \<Longrightarrow> valid s \<Longrightarrow> intern t s = Some (Allocated (n, t')) \<Longrightarrow> inv t'"
    and enters: "inv t \<Longrightarrow> valid s \<Longrightarrow> intern t s = Some (Allocated (n, t')) \<Longrightarrow> entry t' = (entry t)(s \<mapsto> n)"
    and same: "inv t \<Longrightarrow> valid s \<Longrightarrow> intern t s = Some (Allocated (n, t')) \<Longrightarrow> entry t s = Some m \<Longrightarrow> n = m"
    and unique: "inv t \<Longrightarrow> entry t s = Some n \<Longrightarrow> entry t s' = Some n \<Longrightarrow> s = s'"
begin

lemma intern_extends:
  "inv t \<Longrightarrow> valid s \<Longrightarrow> intern t s = Some (Allocated (n, t')) \<Longrightarrow> entry t \<subseteq>\<^sub>m entry t'"
  using enters[of t s n t'] same[of t s n t'] by (auto simp: map_le_def)

lemma lookups_total: "inv t \<Longrightarrow> list_all valid ss \<Longrightarrow> lookups intern t ss \<noteq> None"
proof (induction ss arbitrary: t)
  case (Cons s ss)
  obtain r where r: "intern t s = Some r"
    using total[of t s] Cons.prems by auto
  show ?case
  proof (cases r)
    case (Allocated p)
    obtain n u where p: "p = (n, u)"
      by (cases p)
    then have "lookups intern u ss \<noteq> None"
      using Cons r Allocated keeps[of t s n u] by simp
    then show ?thesis
      using r Allocated p by auto
  qed (simp add: r)
qed simp

lemma lookups_cons:
  assumes "lookups intern t (s # ss) = Some (Allocated (ns, t'))"
  obtains n u ms where "intern t s = Some (Allocated (n, u))" "lookups intern u ss = Some (Allocated (ms, t'))" "ns = n # ms"
  using assms by (auto split: alloc.splits Option.bind_splits)

lemma lookups_entries:
  assumes "inv t" "list_all valid ss" "lookups intern t ss = Some (Allocated (ns, t'))"
  shows "inv t' \<and> entry t \<subseteq>\<^sub>m entry t' \<and> list_all2 (\<lambda>s n. entry t' s = Some n) ss ns"
  using assms
proof (induction ss arbitrary: t ns)
  case (Cons s ss)
  obtain n u ms where u: "intern t s = Some (Allocated (n, u))" "lookups intern u ss = Some (Allocated (ms, t'))" "ns = n # ms"
    using lookups_cons[OF Cons.prems(3)] .
  have s: "valid s" "list_all valid ss"
    using Cons.prems(2) by simp_all
  have "inv u" "entry u s = Some n" "entry t \<subseteq>\<^sub>m entry u"
    using keeps[OF Cons.prems(1) s(1) u(1)] enters[OF Cons.prems(1) s(1) u(1)] intern_extends[OF Cons.prems(1) s(1) u(1)]
    by simp_all
  moreover from this have "inv t'" "entry u \<subseteq>\<^sub>m entry t'" "list_all2 (\<lambda>s n. entry t' s = Some n) ss ms"
    using Cons.IH[OF _ s(2) u(2)] by simp_all
  ultimately show ?case
    using u(3) by (auto simp: map_le_def dom_def intro: map_le_trans)
qed simp

lemma lookups_unique:
  assumes "inv t" "list_all valid ss" "lookups intern t ss = Some (Allocated (ns, t'))"
    and "i < length ss" "j < length ss"
  shows "ns ! i = ns ! j \<longleftrightarrow> ss ! i = ss ! j"
proof -
  have "inv t'" "entry t' (ss ! i) = Some (ns ! i)" "entry t' (ss ! j) = Some (ns ! j)"
    using lookups_entries[OF assms(1-3)] assms(4,5) by (simp_all add: list_all2_conv_all_nth)
  then show ?thesis
    using unique[of t' "ss ! i" "ns ! i" "ss ! j"] by auto
qed

end

lemma cpp_lookup_cases:
  assumes "ht_inv t" "length str < 2 ^ 32"
  shows "(cpp_lookup t str = Some Xmalloc_failed \<and> full t) \<or>
    (\<exists>t' a. cpp_lookup t str = Some (Allocated (a, t')) \<and> ht_inv t' \<and> ht_entry t' = (ht_entry t)(str \<mapsto> a) \<and>
       (ht_entry t str = Some a \<or> ht_entry t str = None \<and> a \<notin> ran (ht_entry t)) \<and>
       unat (nelements t') \<le> Suc (unat (nelements t)))"
  using lookup_alloc[OF assms] by (auto simp: cpp_lookup_def)

interpretation identifiers: interning ht_inv ht_entry "\<lambda>str. length str < 2 ^ 32" cpp_lookup
proof unfold_locales
  fix t t' n m and s :: "byte list"
  assume t: "ht_inv t" "length s < 2 ^ 32"
  note c = cpp_lookup_cases[OF t]
  show "cpp_lookup t s \<noteq> None"
    using c by auto
  assume r: "cpp_lookup t s = Some (Allocated (n, t'))"
  show "ht_inv t'" "ht_entry t' = (ht_entry t)(s \<mapsto> n)"
    using c r by auto
  show "ht_entry t s = Some m \<Longrightarrow> n = m"
    using c r by auto
next
  fix t s s' n
  assume "ht_inv t" "ht_entry t s = Some n" "ht_entry t s' = Some n"
  then show "s = s'"
    by (simp add: ht_entry_iff)
qed

text \<open>The program ends for want of memory only after that many calls.\<close>

lemma lookups_full:
  "ht_inv t \<Longrightarrow> list_all (\<lambda>str. length str < 2 ^ 32) ss \<Longrightarrow> lookups cpp_lookup t ss = Some Xmalloc_failed \<Longrightarrow>
   3 * 2 ^ 29 \<le> 4 * (unat (nelements t) + length ss)"
proof (induction ss arbitrary: t)
  case (Cons s ss)
  consider "full t" | a t' where "cpp_lookup t s = Some (Allocated (a, t'))" "ht_inv t'" "unat (nelements t') \<le> Suc (unat (nelements t))"
    using cpp_lookup_cases[of t s] Cons.prems by auto
  then show ?case
  proof cases
    case 2
    then have "lookups cpp_lookup t' ss = Some Xmalloc_failed"
      using Cons.prems(3) by (auto split: alloc.splits Option.bind_splits)
    then show ?thesis
      using Cons.IH[OF 2(2)] Cons.prems(2) 2(3) by simp
  qed (simp add: full_def)
qed simp

section \<open>Creating and purging\<close>

lemma ht_create_ok:
  assumes "order \<le> 29"
  shows "\<exists>t. ht_create order = Allocated t \<and> ht_inv t \<and> ht_entry t = Map.empty \<and> nelements t = 0"
proof -
  have "unat (2 ^ order :: uint) = 2 ^ order"
    using assms by (simp add: unat_exp)
  then show ?thesis
    using assms exp_29[OF assms] by (auto simp: ht_create_def XCNEWVEC_def push_bit_eq_mult ht_inv_def ht_size_def placed_empty
        ht_entry_def fun_eq_iff intro!: exI[of _ order])
qed

text \<open>Purging turns some nodes into deleted slots and changes nothing else.\<close>

definition slot_kept :: "slot \<Rightarrow> slot \<Rightarrow> bool" where
  "slot_kept e e' \<longleftrightarrow> e' = e \<or> (\<exists>a. e = Node a) \<and> e' = DELETED"

lemma purge_kept: "list_all2 slot_kept es (fst (purge_slots cb es s))"
  by (induction cb es s rule: purge_slots.induct) (auto simp: slot_kept_def split: prod.splits)

lemma purge_pure: "live (fst (purge_slots (\<lambda>a s. (f a, s)) es s)) = filter (\<lambda>a. f a = 0) (live es)"
  by (induction es rule: live.induct) (auto simp: Let_def split: prod.splits)

lemma kept_live:
  "list_all2 slot_kept es es' \<Longrightarrow> set (live es') \<subseteq> set (live es) \<and> occupied es' = occupied es \<and>
   (distinct (map f (live es)) \<longrightarrow> distinct (map f (live es')))"
proof (induction rule: list_all2_induct)
  case (Cons e es e' es')
  then show ?case
    by (cases e; cases e') (auto simp: slot_kept_def)
qed simp

lemma kept_placed:
  assumes "list_all2 slot_kept es es'" "placed k ns es" shows "placed k ns es'"
proof -
  have len: "length es' = length es" "length es = 2 ^ k"
    using assms by (auto simp: placed_def dest: list_all2_lengthD)
  have slot: "slot_kept (es ! q) (es' ! q)" if "q < 2 ^ k" for q
    using list_all2_nthD[OF assms(1)] that len by simp
  have "es' ! pos k h i = NULL_slot \<longleftrightarrow> es ! pos k h i = NULL_slot" for h i
    using slot[OF pos_less[of k h i]] by (auto simp: slot_kept_def)
  moreover have "es ! q = Node a" if "q < 2 ^ k" "es' ! q = Node a" for q a
    using slot[OF that(1)] that(2) by (auto simp: slot_kept_def)
  ultimately show ?thesis
    using assms(2) len unfolding placed_def by metis
qed

lemma ht_purge_ok:
  assumes "ht_inv t" "ht_purge t cb s = (t', s')"
  shows "ht_inv t'" "set (live (entries t')) \<subseteq> set (live (entries t))"
proof -
  have t': "t' = t\<lparr>entries := fst (purge_slots cb (entries t) s)\<rparr>"
    using assms(2) by (auto simp: ht_purge_def split: prod.splits)
  note kept = purge_kept[of "entries t" cb s]
  show "ht_inv t'" "set (live (entries t')) \<subseteq> set (live (entries t))"
    using assms(1) kept_live[OF kept] kept_placed[OF kept] by (auto simp: t' ht_inv_def ht_size_def)
qed

section \<open>Properties\<close>

text \<open>
  C8: A node stands for its spelling. In any sequence of calls of \<^verbatim>\<open>cpp_lookup\<close> on a new table, two calls
  return the same node exactly when their strings are the same, and the node bears the string, however
  many collisions there are and however often the table grows in between. All calls return; the
  program ends for want of memory only when the table would grow past the address space.
\<close>

theorem identifier_nodes_unique:
  assumes "order \<le> 29" "ht_create order = Allocated t" "list_all (\<lambda>str. length str < 2 ^ 32) ss"
  shows "(lookups cpp_lookup t ss = Some Xmalloc_failed \<and> 3 * 2 ^ 29 \<le> 4 * length ss) \<or>
    (\<exists>ns t'. lookups cpp_lookup t ss = Some (Allocated (ns, t')) \<and> length ns = length ss \<and>
       (\<forall>i j. i < length ss \<longrightarrow> j < length ss \<longrightarrow> (ns ! i = ns ! j \<longleftrightarrow> ss ! i = ss ! j)) \<and>
       (\<forall>i < length ss. ht_str (ht_nodes t' ! (ns ! i)) = ss ! i))"
proof -
  have t: "ht_inv t" "nelements t = 0"
    using ht_create_ok[OF assms(1)] assms(2) by auto
  obtain r where r: "lookups cpp_lookup t ss = Some r"
    using identifiers.lookups_total[OF t(1) assms(3)] by blast
  show ?thesis
  proof (cases r)
    case Xmalloc_failed
    then show ?thesis
      using lookups_full[OF t(1) assms(3)] r t(2) by simp
  next
    case (Allocated p)
    then obtain ns t' where p: "lookups cpp_lookup t ss = Some (Allocated (ns, t'))"
      using r by (cases p) simp
    have e: "ht_inv t'" "list_all2 (\<lambda>s n. ht_entry t' s = Some n) ss ns"
      using identifiers.lookups_entries[OF t(1) assms(3) p] by simp_all
    then have "ht_str (ht_nodes t' ! (ns ! i)) = ss ! i" if "i < length ss" for i
      using that by (auto simp: list_all2_conv_all_nth ht_entry_iff[OF e(1)])
    then show ?thesis
      using p e(2) identifiers.lookups_unique[OF t(1) assms(3) p] by (auto simp: list_all2_lengthD)
  qed
qed

text \<open>Three identifiers, two of them the same, in a table that has to grow.\<close>

theorem identifier_nodes_unique_witness:
  "\<exists>t ns t'. ht_create 1 = Allocated t \<and> lookups cpp_lookup t [[0x61], [0x62], [0x61]] = Some (Allocated (ns, t')) \<and>
     ns ! 0 = ns ! 2 \<and> ns ! 0 \<noteq> ns ! 1 \<and> ht_str (ht_nodes t' ! (ns ! 1)) = [0x62]"
proof -
  obtain t where t: "ht_create 1 = Allocated t"
    using ht_create_ok[of 1] by auto
  let ?ss = "[[0x61], [0x62], [0x61]] :: byte list list"
  obtain ns t' where r: "lookups cpp_lookup t ?ss = Some (Allocated (ns, t'))"
    and u: "\<And>i j. i < length ?ss \<Longrightarrow> j < length ?ss \<Longrightarrow> ns ! i = ns ! j \<longleftrightarrow> ?ss ! i = ?ss ! j"
    and s: "\<And>i. i < length ?ss \<Longrightarrow> ht_str (ht_nodes t' ! (ns ! i)) = ?ss ! i"
    using identifier_nodes_unique[OF _ t, of ?ss] by auto
  show ?thesis
    using t r u[of 0 2] u[of 0 1] s[of 1] by auto
qed

text \<open>
  C12: The table refines a map from strings to nodes. A lookup that does not insert returns what the map
  has, and one that does returns it or enters the string under a new node; either keeps the invariant
  of the table, through collisions, deleted slots and growing. Every search ends, since a
  table is never full and the step of a search is odd.
\<close>

theorem identifier_lookup:
  assumes "ht_inv t" "length str < 2 ^ 32"
  shows "(\<exists>t'. ht_lookup t str HT_NO_INSERT = Some (Allocated (ht_entry t str, t')) \<and> ht_inv t' \<and> ht_entry t' = ht_entry t) \<and>
    ((ht_lookup t str HT_ALLOC = Some Xmalloc_failed \<and> ht_entry t str = None \<and> 3 * 2 ^ 29 \<le> 4 * Suc (unat (nelements t))) \<or>
     (\<exists>t' a. ht_lookup t str HT_ALLOC = Some (Allocated (Some a, t')) \<and> ht_inv t' \<and> ht_entry t' = (ht_entry t)(str \<mapsto> a) \<and>
        (ht_entry t str = Some a \<or> ht_entry t str = None \<and> a \<notin> ran (ht_entry t))))"
proof
  show "\<exists>t'. ht_lookup t str HT_NO_INSERT = Some (Allocated (ht_entry t str, t')) \<and> ht_inv t' \<and> ht_entry t' = ht_entry t"
    using lookup_no_insert[OF assms] assms(1) by force
qed (use lookup_alloc[OF assms] in \<open>auto simp: full_def\<close>)

theorem identifier_lookup_witness:
  "\<exists>t t' t'' a. ht_create 13 = Allocated t \<and> ht_lookup t [0x61] HT_NO_INSERT = Some (Allocated (None, t')) \<and>
     ht_lookup t [0x61] HT_ALLOC = Some (Allocated (Some a, t'')) \<and> ht_entry t'' [0x61] = Some a"
proof -
  obtain t where t: "ht_create 13 = Allocated t" "ht_inv t" "ht_entry t = Map.empty" "nelements t = 0"
    using ht_create_ok[of 13] by auto
  show ?thesis
    using identifier_lookup[OF t(2), of "[0x61]"] t by auto
qed

text \<open>
  C33: \<^verbatim>\<open>ht_purge\<close> removes from the map exactly the nodes that the callback chooses, and keeps the
  invariant: the strings whose way led through a slot that is now deleted are still found.
\<close>

theorem identifier_purge:
  assumes "ht_inv t" "ht_purge t (\<lambda>a s. (f a, s)) v = (t', v')"
  shows "ht_inv t' \<and> (\<forall>str a. ht_entry t' str = Some a \<longleftrightarrow> ht_entry t str = Some a \<and> f a = 0)"
proof -
  have t': "t' = t\<lparr>entries := fst (purge_slots (\<lambda>a s. (f a, s)) (entries t) v)\<rparr>"
    using assms(2) by (auto simp: ht_purge_def split: prod.splits)
  have i: "ht_inv t'"
    using ht_purge_ok(1)[OF assms] .
  moreover have "live (entries t') = filter (\<lambda>a. f a = 0) (live (entries t))" "ht_nodes t' = ht_nodes t"
    unfolding t' by (simp_all add: purge_pure)
  ultimately show ?thesis
    by (auto simp: ht_entry_iff[OF i] ht_entry_iff[OF assms(1)])
qed

theorem identifier_purge_witness:
  "\<exists>e t t' v a. ht_create 2 = Allocated e \<and> cpp_lookup e [0x61] = Some (Allocated (a, t)) \<and>
     ht_purge t (\<lambda>a s. (1, s)) () = (t', v) \<and> ht_entry t [0x61] = Some a \<and> ht_entry t' [0x61] = None"
proof -
  obtain e where e: "ht_create 2 = Allocated e" "ht_inv e" "nelements e = 0"
    using ht_create_ok[of 2] by auto
  then obtain a t where t: "cpp_lookup e [0x61] = Some (Allocated (a, t))" "ht_inv t" "ht_entry t [0x61] = Some a"
    using cpp_lookup_cases[of e "[0x61]"] by (auto simp: full_def)
  obtain t' v where p: "ht_purge t (\<lambda>a s. (1, s)) () = (t', v)"
    by (cases "ht_purge t (\<lambda>a s. (1, s)) ()")
  then have "ht_entry t' [0x61] = None"
    using identifier_purge[OF t(2) p] by (cases "ht_entry t' [0x61]") auto
  then show ?thesis
    using e(1) t p by blast
qed


end
