(* ===== verification/Cpp_Linemap.thy ===== *)
theory Cpp_Linemap
  imports Prelude "HOL-Library.Monad_Syntax"
begin

text \<open>
  Source locations, \<^verbatim>\<open>libcpp/line-map.c\<close> and \<^verbatim>\<open>include/line-map.h\<close>. A \<^verbatim>\<open>location_t\<close> is a number of 32 bits; which file,
  line and column it stands for is written down in a table of line maps that grows while files are
  read. \<^const>\<open>None\<close> is an assertion that does not hold, a call of \<^verbatim>\<open>abort\<close>, an access outside the
  table, or an overflow of a signed number.
\<close>

section \<open>Data\<close>

type_synonym location_t = uint
type_synonym linenum_type = uint

definition LINE_MAP_MAX_COLUMN_NUMBER :: uint where
  "LINE_MAP_MAX_COLUMN_NUMBER = push_bit 12 1"

definition LINE_MAP_MAX_LOCATION_WITH_PACKED_RANGES :: location_t where
  "LINE_MAP_MAX_LOCATION_WITH_PACKED_RANGES = 0x50000000"

definition LINE_MAP_MAX_LOCATION_WITH_COLS :: location_t where
  "LINE_MAP_MAX_LOCATION_WITH_COLS = 0x60000000"

definition LINE_MAP_MAX_LOCATION :: location_t where
  "LINE_MAP_MAX_LOCATION = 0x70000000"

definition MAX_LOCATION_T :: location_t where
  "MAX_LOCATION_T = 0x7FFFFFFF"

definition RESERVED_LOCATION_COUNT :: location_t where
  "RESERVED_LOCATION_COUNT = 2"

datatype lc_reason = LC_ENTER | LC_LEAVE | LC_RENAME | LC_RENAME_VERBATIM | LC_ENTER_MACRO

record line_map_ordinary =
  start_location :: location_t
  map_reason :: lc_reason
  sysp :: nat
  m_column_and_range_bits :: nat
  m_range_bits :: nat
  to_file :: string
  to_line :: linenum_type
  included_from :: location_t

record line_map_macro =
  macro_start :: location_t
  n_tokens :: uint
  macro_node :: string
  macro_locations :: "location_t list"
  expansion :: location_t

text \<open>An entry of the lookaside table; the pointer \<^verbatim>\<open>data\<close> is a number, 0 for NULL.\<close>

record source_range =
  m_start :: location_t
  m_finish :: location_t

record location_adhoc_data =
  locus :: location_t
  src_range :: source_range
  adhoc_data :: nat

record line_maps =
  ordinary :: "line_map_ordinary list"
  ordinary_cache :: nat
  macros :: "line_map_macro list"
  macro_cache :: nat
  depth :: uint
  highest_location :: location_t
  highest_line :: location_t
  max_column_hint :: uint
  adhoc :: "location_adhoc_data list"
  default_range_bits :: nat
  num_optimized_ranges :: uint
  num_unoptimized_ranges :: uint

definition IS_ORDINARY_LOC :: "location_t \<Rightarrow> bool" where
  "IS_ORDINARY_LOC loc \<longleftrightarrow> loc < LINE_MAP_MAX_LOCATION"

definition IS_ADHOC_LOC :: "location_t \<Rightarrow> bool" where
  "IS_ADHOC_LOC loc \<longleftrightarrow> loc > MAX_LOCATION_T"

definition IS_MACRO_LOC :: "location_t \<Rightarrow> bool" where
  "IS_MACRO_LOC loc \<longleftrightarrow> \<not> IS_ORDINARY_LOC loc \<and> \<not> IS_ADHOC_LOC loc"

definition linemap_assert :: "bool \<Rightarrow> unit option" where
  "linemap_assert expr = (if expr then Some () else None)"

definition LINEMAPS_MACRO_LOWEST_LOCATION :: "line_maps \<Rightarrow> location_t" where
  "LINEMAPS_MACRO_LOWEST_LOCATION s =
     (if macros s = [] then MAX_LOCATION_T + 1 else macro_start (last (macros s)))"

definition SOURCE_LINE :: "line_map_ordinary \<Rightarrow> location_t \<Rightarrow> linenum_type" where
  "SOURCE_LINE m loc = drop_bit (m_column_and_range_bits m) (loc - start_location m) + to_line m"

definition SOURCE_COLUMN :: "line_map_ordinary \<Rightarrow> location_t \<Rightarrow> linenum_type" where
  "SOURCE_COLUMN m loc =
     drop_bit (m_range_bits m) ((loc - start_location m) AND (push_bit (m_column_and_range_bits m) 1 - 1))"

definition MAIN_FILE_P :: "line_map_ordinary \<Rightarrow> bool" where
  "MAIN_FILE_P m \<longleftrightarrow> included_from m = 0"

definition linemap_init :: "nat \<Rightarrow> line_maps" where
  "linemap_init default_bits =
     \<lparr>ordinary = [], ordinary_cache = 0, macros = [], macro_cache = 0, depth = 0,
      highest_location = RESERVED_LOCATION_COUNT - 1, highest_line = RESERVED_LOCATION_COUNT - 1,
      max_column_hint = 0, adhoc = [], default_range_bits = default_bits,
      num_optimized_ranges = 0, num_unoptimized_ranges = 0\<rparr>"

section \<open>Finding a map\<close>

definition adhoc_locus :: "line_maps \<Rightarrow> location_t \<Rightarrow> location_t option" where
  "adhoc_locus s loc =
     (if IS_ADHOC_LOC loc then map_option locus (elem (adhoc s) (unat (loc AND MAX_LOCATION_T))) else Some loc)"

function ordinary_search :: "line_map_ordinary list \<Rightarrow> location_t \<Rightarrow> nat \<Rightarrow> nat \<Rightarrow> nat option" where
  "ordinary_search maps line mn mx =
     (if mx - mn > 1 then
        (let md = (mn + mx) div 2 in
         do { m \<leftarrow> elem maps md;
              if start_location m > line then ordinary_search maps line mn md
              else ordinary_search maps line md mx })
      else Some mn)"
  by pat_completeness auto
termination
  by (relation "measure (\<lambda>(maps, line, mn, mx). mx - mn)") auto

definition linemap_ordinary_map_lookup :: "line_maps \<Rightarrow> location_t \<Rightarrow> (nat option \<times> line_maps) option" where
  "linemap_ordinary_map_lookup s line =
     do { line \<leftarrow> adhoc_locus s line;
          if line < RESERVED_LOCATION_COUNT then Some (None, s)
          else
            do { cached \<leftarrow> elem (ordinary s) (ordinary_cache s);
                 hit \<leftarrow> (if line \<ge> start_location cached then
                           (if ordinary_cache s + 1 = length (ordinary s) then Some True
                            else map_option (\<lambda>m. line < start_location m) (elem (ordinary s) (ordinary_cache s + 1)))
                         else Some False);
                 if hit then Some (Some (ordinary_cache s), s)
                 else
                   do { mn \<leftarrow> (if line \<ge> start_location cached
                               then ordinary_search (ordinary s) line (ordinary_cache s) (length (ordinary s))
                               else ordinary_search (ordinary s) line 0 (ordinary_cache s));
                        result \<leftarrow> elem (ordinary s) mn;
                        linemap_assert (line \<ge> start_location result);
                        Some (Some mn, s\<lparr>ordinary_cache := mn\<rparr>) } } }"

function macro_search :: "line_map_macro list \<Rightarrow> location_t \<Rightarrow> nat \<Rightarrow> nat \<Rightarrow> nat option" where
  "macro_search maps line mn mx =
     (if mn < mx then
        (let md = (mx + mn) div 2 in
         do { m \<leftarrow> elem maps md;
              if macro_start m > line then macro_search maps line (md + 1) mx
              else macro_search maps line mn md })
      else Some mx)"
  by pat_completeness auto
termination
  by (relation "measure (\<lambda>(maps, line, mn, mx). mx - mn)") auto

definition linemap_macro_map_lookup :: "line_maps \<Rightarrow> location_t \<Rightarrow> (nat \<times> line_maps) option" where
  "linemap_macro_map_lookup s line =
     do { line \<leftarrow> adhoc_locus s line;
          linemap_assert (line \<ge> LINEMAPS_MACRO_LOWEST_LOCATION s);
          cached \<leftarrow> elem (macros s) (macro_cache s);
          hit \<leftarrow> (if line \<ge> macro_start cached then
                    (if macro_cache s = 0 then Some True
                     else map_option (\<lambda>m. line < macro_start m) (elem (macros s) (macro_cache s - 1)))
                  else Some False);
          if hit then Some (macro_cache s, s)
          else
            do { mx \<leftarrow> (if line \<ge> macro_start cached then macro_search (macros s) line 0 (macro_cache s - 1)
                        else macro_search (macros s) line (macro_cache s) (length (macros s)));
                 result \<leftarrow> elem (macros s) mx;
                 linemap_assert (macro_start result \<le> line);
                 Some (mx, s\<lparr>macro_cache := mx\<rparr>) } }"

datatype map_ref = Ordinary nat | Macro nat

definition linemap_location_from_macro_expansion_p :: "line_maps \<Rightarrow> location_t \<Rightarrow> bool option" where
  "linemap_location_from_macro_expansion_p s loc = map_option IS_MACRO_LOC (adhoc_locus s loc)"

definition linemap_lookup :: "line_maps \<Rightarrow> location_t \<Rightarrow> (map_ref option \<times> line_maps) option" where
  "linemap_lookup s line =
     do { line \<leftarrow> adhoc_locus s line;
          virtual \<leftarrow> linemap_location_from_macro_expansion_p s line;
          if virtual then
            do { (m, s) \<leftarrow> linemap_macro_map_lookup s line; Some (Some (Macro m), s) }
          else
            do { (m, s) \<leftarrow> linemap_ordinary_map_lookup s line; Some (map_option Ordinary m, s) } }"

text \<open>\<^verbatim>\<open>linemap_check_ordinary\<close> on what \<^const>\<open>linemap_lookup\<close> returns.\<close>

definition check_ordinary :: "line_maps \<Rightarrow> map_ref \<Rightarrow> line_map_ordinary option" where
  "check_ordinary s r = (case r of Ordinary i \<Rightarrow> elem (ordinary s) i | Macro i \<Rightarrow> None)"

definition pure_location_p :: "line_maps \<Rightarrow> location_t \<Rightarrow> (bool \<times> line_maps) option" where
  "pure_location_p s loc =
     (if IS_ADHOC_LOC loc then Some (False, s)
      else
        do { (r, s) \<leftarrow> linemap_lookup s loc;
             case r of
               None \<Rightarrow> Some (True, s)
             | Some r \<Rightarrow>
                 do { m \<leftarrow> check_ordinary s r;
                      Some (loc AND (push_bit (m_range_bits m) 1 - 1) = 0, s) } })"

section \<open>Adding maps\<close>

text \<open>\<^verbatim>\<open>filename_cmp\<close> of \<^verbatim>\<open>libiberty\<close>, as it is on OS/2: case and the two slashes do not matter.\<close>

definition TOLOWER :: "char \<Rightarrow> char" where
  "TOLOWER c = (if 65 \<le> (of_char c :: nat) \<and> (of_char c :: nat) \<le> 90 then char_of ((of_char c :: nat) + 32) else c)"

definition filename_char :: "char \<Rightarrow> char" where
  "filename_char c = (let c = TOLOWER c in if c = CHR ''/'' then CHR 0x5C else c)"

fun filename_eq :: "string \<Rightarrow> string \<Rightarrow> bool" where
  "filename_eq (c1 # s1) (c2 # s2) = (filename_char c1 = filename_char c2 \<and> filename_eq s1 s2)"
| "filename_eq [] [] = True"
| "filename_eq _ _ = False"

text \<open>The first location of a new map.\<close>

definition next_start :: "line_maps \<Rightarrow> location_t" where
  "next_start s =
     (if highest_location s < LINE_MAP_MAX_LOCATION_WITH_COLS then
        (let start = highest_location s + push_bit (default_range_bits s) 1 in
         if default_range_bits s \<noteq> 0 then start AND NOT (push_bit (default_range_bits s) 1 - 1) else start)
      else highest_location s + 1)"

definition last_map :: "line_maps \<Rightarrow> line_map_ordinary option" where
  "last_map s = elem (ordinary s) (length (ordinary s) - 1)"

definition set_last_map :: "line_maps \<Rightarrow> (line_map_ordinary \<Rightarrow> line_map_ordinary) \<Rightarrow> line_maps" where
  "set_last_map s f =
     s\<lparr>ordinary := (ordinary s)[length (ordinary s) - 1 := f (ordinary s ! (length (ordinary s) - 1))]\<rparr>"

text \<open>Where the file is entered from: the end of the map before.\<close>

definition end_of_map :: "line_map_ordinary \<Rightarrow> line_map_ordinary \<Rightarrow> location_t" where
  "end_of_map m prev =
     ((start_location m - 1 - start_location prev) AND NOT (push_bit (m_column_and_range_bits prev) 1 - 1))
     + start_location prev"

text \<open>
  What \<^verbatim>\<open>linemap_add\<close> returns is the index of the new map; \<open>from\<close> is the map to which a file that is left
  returns.
\<close>

definition returned_to :: "line_maps \<Rightarrow> lc_reason \<Rightarrow> (line_map_ordinary option \<times> nat \<times> line_maps) option" where
  "returned_to s reason =
     (if reason = LC_LEAVE then
        do { prev \<leftarrow> (if length (ordinary s) < 2 then None else elem (ordinary s) (length (ordinary s) - 2));
             linemap_assert (\<not> MAIN_FILE_P prev);
             (i, s) \<leftarrow> linemap_ordinary_map_lookup s (included_from prev);
             i \<leftarrow> i;
             m \<leftarrow> elem (ordinary s) i;
             Some (Some m, i, s) }
      else Some (None, 0, s))"

definition linemap_add ::
    "line_maps \<Rightarrow> lc_reason \<Rightarrow> nat \<Rightarrow> string option \<Rightarrow> linenum_type \<Rightarrow> (nat option \<times> line_maps) option" where
  "linemap_add s reason sys file line =
     do { let start = next_start s;
          linemap_assert (highest_location s < LINE_MAP_MAX_LOCATION_WITH_COLS \<longrightarrow>
            start AND (push_bit (default_range_bits s) 1 - 1) = 0);
          linemap_assert (ordinary s = [] \<or> start \<ge> start_location (last (ordinary s)));
          linemap_assert (\<not> (depth s = 0 \<and> reason = LC_RENAME));
          leaving \<leftarrow> (if reason = LC_LEAVE then map_option (\<lambda>m. MAIN_FILE_P m \<and> file = None) (last_map s) else Some False);
          if leaving then Some (None, s\<lparr>depth := depth s - 1\<rparr>)
          else
            do { linemap_assert (reason \<noteq> LC_ENTER_MACRO);
                 let start = (if start \<ge> LINE_MAP_MAX_LOCATION then 0 else start);
                 let m = \<lparr>start_location = start, map_reason = reason, sysp = 0, m_column_and_range_bits = 0,
                          m_range_bits = 0, to_file = [], to_line = 0, included_from = 0\<rparr>;
                 let s = s\<lparr>ordinary := ordinary s @ [m]\<rparr>;
                 let file = (if file = Some [] \<and> reason \<noteq> LC_RENAME_VERBATIM then Some ''<stdin>'' else file);
                 let reason = (if reason = LC_RENAME_VERBATIM then LC_RENAME else reason);
                 (from', i, s) \<leftarrow> returned_to s reason;
                 (file, line, sys) \<leftarrow>
                   (case from' of
                      Some f \<Rightarrow>
                        (case file of
                           None \<Rightarrow> do { next \<leftarrow> elem (ordinary s) (i + 1);
                                        Some (to_file f, SOURCE_LINE f (start_location next), sysp f) }
                         | Some n \<Rightarrow> do { linemap_assert (filename_eq (to_file f) n); Some (n, line, sys) })
                    | None \<Rightarrow> map_option (\<lambda>n. (n, line, sys)) file);
                 let s = set_last_map s (\<lambda>m. m\<lparr>sysp := sys, to_file := file, to_line := line\<rparr>);
                 let s = s\<lparr>ordinary_cache := length (ordinary s) - 1, highest_location := start, highest_line := start,
                           max_column_hint := 0\<rparr>;
                 (pure, s) \<leftarrow> pure_location_p s start;
                 linemap_assert pure;
                 (incl, dep) \<leftarrow>
                   (case reason of
                      LC_ENTER \<Rightarrow>
                        (if depth s = 0 then Some (0, depth s + 1)
                         else if length (ordinary s) < 2 then None
                         else Some (end_of_map (last (ordinary s)) (ordinary s ! (length (ordinary s) - 2)), depth s + 1))
                    | LC_LEAVE \<Rightarrow> map_option (\<lambda>f. (included_from f, depth s - 1)) from'
                    | _ \<Rightarrow>
                        (if length (ordinary s) < 2 then None
                         else Some (included_from (ordinary s ! (length (ordinary s) - 2)), depth s)));
                 Some (Some (length (ordinary s) - 1),
                   (set_last_map s (\<lambda>m. m\<lparr>included_from := incl\<rparr>))\<lparr>depth := dep\<rparr>) } }"

section \<open>Lines and columns\<close>

text \<open>The number of bits for a column.\<close>

function column_bits_for :: "uint \<Rightarrow> nat \<Rightarrow> nat" where
  "column_bits_for hint bits = (if bits < 32 \<and> hint \<ge> push_bit bits 1 then column_bits_for hint (bits + 1) else bits)"
  by pat_completeness auto
termination
  by (relation "measure (\<lambda>(hint, bits). 32 - bits)") auto

text \<open>Whether the current map can not hold the line: the product of \<^verbatim>\<open>int\<close> values must not overflow.\<close>

definition needs_map :: "line_maps \<Rightarrow> line_map_ordinary \<Rightarrow> int \<Rightarrow> uint \<Rightarrow> bool option" where
  "needs_map s m line_delta hint =
     (let highest = highest_location s; effective = m_column_and_range_bits m - m_range_bits m in
      if line_delta < 0 then Some True
      else if line_delta > 10 \<and> line_delta * int (m_column_and_range_bits m) \<ge> 2 ^ 31 then None
      else Some ((line_delta > 10 \<and> line_delta * int (m_column_and_range_bits m) > 1000) \<or>
                 hint \<ge> push_bit effective 1 \<or>
                 (hint \<le> 80 \<and> effective \<ge> 10) \<or>
                 (highest > LINE_MAP_MAX_LOCATION_WITH_PACKED_RANGES \<and> m_range_bits m > 0) \<or>
                 (highest > LINE_MAP_MAX_LOCATION_WITH_COLS \<and>
                    (max_column_hint s \<noteq> 0 \<or> highest \<ge> LINE_MAP_MAX_LOCATION))))"

text \<open>The bits of a new map: hint, column and range bits together, range bits.\<close>

definition new_bits :: "line_maps \<Rightarrow> uint \<Rightarrow> uint \<times> nat \<times> nat" where
  "new_bits s hint =
     (if hint > LINE_MAP_MAX_COLUMN_NUMBER \<or> highest_location s > LINE_MAP_MAX_LOCATION_WITH_COLS then (0, 0, 0)
      else
        (let rbits = (if highest_location s \<le> LINE_MAP_MAX_LOCATION_WITH_PACKED_RANGES then default_range_bits s else 0);
             column = column_bits_for hint 7
         in (push_bit column 1, column + rbits, rbits)))"

definition can_reuse :: "line_maps \<Rightarrow> line_map_ordinary \<Rightarrow> int \<Rightarrow> linenum_type \<Rightarrow> nat \<Rightarrow> nat \<Rightarrow> bool" where
  "can_reuse s m line_delta line column rbits \<longleftrightarrow>
     \<not> (line_delta < 0 \<or>
        SOURCE_LINE m (highest_line s) \<noteq> to_line m \<or>
        SOURCE_COLUMN m (highest_location s) \<ge> push_bit (column - rbits) 1 \<or>
        unat (line - to_line m) \<ge> 2 ^ (32 - column) \<or>
        rbits < m_range_bits m)"

text \<open>The end of \<^verbatim>\<open>linemap_line_start\<close>, when the location of the line is known.\<close>

definition finish_line :: "line_maps \<Rightarrow> location_t \<Rightarrow> uint \<Rightarrow> linenum_type \<Rightarrow> (location_t \<times> line_maps) option" where
  "finish_line s r hint line =
     (if r \<ge> LINE_MAP_MAX_LOCATION then Some (0, s)
      else
        do { let s = s\<lparr>highest_line := r,
                       highest_location := (if r > highest_location s then r else highest_location s),
                       max_column_hint := hint\<rparr>;
             m \<leftarrow> last_map s;
             (pure, s) \<leftarrow> pure_location_p s r;
             linemap_assert (pure \<or> r \<ge> LINE_MAP_MAX_LOCATION_WITH_COLS \<or> m_column_and_range_bits m = 0);
             linemap_assert (SOURCE_LINE m r = line);
             Some (r, s) })"

definition linemap_line_start :: "line_maps \<Rightarrow> linenum_type \<Rightarrow> uint \<Rightarrow> (location_t \<times> line_maps) option" where
  "linemap_line_start s line hint =
     do { m \<leftarrow> last_map s;
          let line_delta = sint (line - SOURCE_LINE m (highest_line s));
          linemap_assert (m_column_and_range_bits m \<ge> m_range_bits m);
          add_map \<leftarrow> needs_map s m line_delta hint;
          (case new_bits s hint of (new_hint, column, rbits) \<Rightarrow>
             if add_map \<and> (hint > LINE_MAP_MAX_COLUMN_NUMBER \<or> highest_location s > LINE_MAP_MAX_LOCATION_WITH_COLS)
                \<and> highest_location s \<ge> LINE_MAP_MAX_LOCATION
             then Some (0, s)
             else
               do { (r, hint, s) \<leftarrow>
                      (if add_map then
                         do { s \<leftarrow> (if can_reuse s m line_delta line column rbits then Some s
                                    else do { (i, s) \<leftarrow> linemap_add s LC_RENAME (sysp m) (Some (to_file m)) line;
                                              i \<leftarrow> i;
                                              Some s });
                              let s = set_last_map s (\<lambda>m. m\<lparr>m_column_and_range_bits := column, m_range_bits := rbits\<rparr>);
                              m \<leftarrow> last_map s;
                              Some (start_location m + push_bit column (line - to_line m), new_hint, s) }
                       else
                         Some (highest_line s + push_bit (m_column_and_range_bits m) (word_of_int line_delta),
                               max_column_hint s, s));
                    finish_line s r hint line }) }"

definition linemap_position_for_column :: "line_maps \<Rightarrow> uint \<Rightarrow> (location_t \<times> line_maps) option" where
  "linemap_position_for_column s column =
     do { let r = highest_line s;
          (r, stop, s) \<leftarrow>
            (if column \<ge> max_column_hint s then
               (if r > LINE_MAP_MAX_LOCATION_WITH_COLS \<or> column > LINE_MAP_MAX_COLUMN_NUMBER then Some (r, True, s)
                else
                  do { m \<leftarrow> last_map s;
                       (r, s) \<leftarrow> linemap_line_start s (SOURCE_LINE m r) (column + 50);
                       m \<leftarrow> last_map s;
                       Some (r, m_column_and_range_bits m = 0, s) })
             else Some (r, False, s));
          if stop then Some (r, s)
          else
            do { m \<leftarrow> last_map s;
                 let r = r + push_bit (m_range_bits m) column;
                 Some (r, s\<lparr>highest_location := (if r \<ge> highest_location s then r else highest_location s)\<rparr>) } }"

definition linemap_position_for_line_and_column ::
    "line_maps \<Rightarrow> line_map_ordinary \<Rightarrow> linenum_type \<Rightarrow> uint \<Rightarrow> (location_t \<times> line_maps) option" where
  "linemap_position_for_line_and_column s m line column =
     do { linemap_assert (to_line m \<le> line);
          let r = start_location m + push_bit (m_column_and_range_bits m) (line - to_line m);
          let r = (if r \<le> LINE_MAP_MAX_LOCATION_WITH_COLS
                   then r + push_bit (m_range_bits m) (column AND (push_bit (m_column_and_range_bits m) 1 - 1))
                   else r);
          let upper_limit = LINEMAPS_MACRO_LOWEST_LOCATION s;
          let r = (if r \<ge> upper_limit then upper_limit - 1 else r);
          Some (r, s\<lparr>highest_location := (if r > highest_location s then r else highest_location s)\<rparr>) }"

section \<open>Macro expansion\<close>

text \<open>The maps of macros grow downwards from the top; a map is given by its index.\<close>

definition linemap_enter_macro ::
    "line_maps \<Rightarrow> string \<Rightarrow> location_t \<Rightarrow> uint \<Rightarrow> nat option \<times> line_maps" where
  "linemap_enter_macro s node expn num_tokens =
     (let start = LINEMAPS_MACRO_LOWEST_LOCATION s - num_tokens in
      if start < LINE_MAP_MAX_LOCATION then (None, s)
      else
        (let m = \<lparr>macro_start = start, n_tokens = num_tokens, macro_node = node,
                  macro_locations = replicate (2 * unat num_tokens) 0, expansion = expn\<rparr>
         in (Some (length (macros s)),
             s\<lparr>macros := macros s @ [m], macro_cache := length (macros s)\<rparr>)))"

definition linemap_add_macro_token ::
    "line_maps \<Rightarrow> nat \<Rightarrow> uint \<Rightarrow> location_t \<Rightarrow> location_t \<Rightarrow> (location_t \<times> line_maps) option" where
  "linemap_add_macro_token s i token_no orig_loc orig_parm_replacement_loc =
     do { m \<leftarrow> elem (macros s) i;
          linemap_assert (token_no < n_tokens m);
          let ls = (macro_locations m)[2 * unat token_no := orig_loc, 2 * unat token_no + 1 := orig_parm_replacement_loc];
          Some (macro_start m + token_no, s\<lparr>macros := (macros s)[i := m\<lparr>macro_locations := ls\<rparr>]\<rparr>) }"

definition linemap_macro_map_loc_to_exp_point :: "line_map_macro \<Rightarrow> location_t \<Rightarrow> location_t option" where
  "linemap_macro_map_loc_to_exp_point m location =
     do { linemap_assert (location \<ge> macro_start m);
          linemap_assert (location - macro_start m < n_tokens m);
          Some (expansion m) }"

definition linemap_macro_map_loc_to_def_point :: "line_map_macro \<Rightarrow> location_t \<Rightarrow> location_t option" where
  "linemap_macro_map_loc_to_def_point m location =
     do { linemap_assert (location \<ge> macro_start m);
          linemap_assert (location \<ge> RESERVED_LOCATION_COUNT);
          linemap_assert (location - macro_start m < n_tokens m);
          elem (macro_locations m) (2 * unat (location - macro_start m) + 1) }"

definition linemap_macro_map_loc_unwind_toward_spelling ::
    "line_maps \<Rightarrow> line_map_macro \<Rightarrow> location_t \<Rightarrow> location_t option" where
  "linemap_macro_map_loc_unwind_toward_spelling s m location =
     do { location \<leftarrow> adhoc_locus s location;
          linemap_assert (location \<ge> macro_start m);
          linemap_assert (location \<ge> RESERVED_LOCATION_COUNT);
          linemap_assert (\<not> IS_ADHOC_LOC location);
          linemap_assert (location - macro_start m < n_tokens m);
          elem (macro_locations m) (2 * unat (location - macro_start m)) }"

text \<open>
  The three ways from a virtual location to one in a file. Each follows the maps of macros until it
  meets a location that has none; it returns the location and its map.
\<close>

partial_function (option) exp_point_loop :: "line_maps \<Rightarrow> location_t \<Rightarrow> (location_t \<times> map_ref option \<times> line_maps) option" where
  "exp_point_loop s location =
     do { (r, s) \<leftarrow> linemap_lookup s location;
          case r of
            Some (Macro i) \<Rightarrow>
              do { m \<leftarrow> elem (macros s) i;
                   location \<leftarrow> linemap_macro_map_loc_to_exp_point m location;
                   exp_point_loop s location }
          | _ \<Rightarrow> Some (location, r, s) }"

definition linemap_macro_loc_to_exp_point ::
    "line_maps \<Rightarrow> location_t \<Rightarrow> (location_t \<times> map_ref option \<times> line_maps) option" where
  "linemap_macro_loc_to_exp_point s location =
     do { location \<leftarrow> adhoc_locus s location;
          linemap_assert (location \<ge> RESERVED_LOCATION_COUNT);
          (location, r, s) \<leftarrow> exp_point_loop s location;
          linemap_assert (r \<noteq> None);
          Some (location, r, s) }"

partial_function (option) spelling_point_loop ::
    "line_maps \<Rightarrow> location_t \<Rightarrow> (location_t \<times> map_ref option \<times> line_maps) option" where
  "spelling_point_loop s location =
     do { (r, s) \<leftarrow> linemap_lookup s location;
          case r of
            Some (Macro i) \<Rightarrow>
              do { m \<leftarrow> elem (macros s) i;
                   location \<leftarrow> linemap_macro_map_loc_unwind_toward_spelling s m location;
                   spelling_point_loop s location }
          | _ \<Rightarrow> Some (location, r, s) }"

definition linemap_macro_loc_to_spelling_point ::
    "line_maps \<Rightarrow> location_t \<Rightarrow> (location_t \<times> map_ref option \<times> line_maps) option" where
  "linemap_macro_loc_to_spelling_point s location =
     do { linemap_assert (location \<ge> RESERVED_LOCATION_COUNT);
          spelling_point_loop s location }"

partial_function (option) def_point_loop ::
    "line_maps \<Rightarrow> location_t \<Rightarrow> (location_t \<times> map_ref option \<times> line_maps) option" where
  "def_point_loop s location =
     do { caret_loc \<leftarrow> adhoc_locus s location;
          (r, s) \<leftarrow> linemap_lookup s caret_loc;
          case r of
            Some (Macro i) \<Rightarrow>
              do { m \<leftarrow> elem (macros s) i;
                   location \<leftarrow> linemap_macro_map_loc_to_def_point m caret_loc;
                   def_point_loop s location }
          | _ \<Rightarrow> Some (location, r, s) }"

definition linemap_macro_loc_to_def_point ::
    "line_maps \<Rightarrow> location_t \<Rightarrow> (location_t \<times> map_ref option \<times> line_maps) option" where
  "linemap_macro_loc_to_def_point s location =
     do { linemap_assert (location \<ge> RESERVED_LOCATION_COUNT);
          def_point_loop s location }"

datatype location_resolution_kind =
  LRK_MACRO_EXPANSION_POINT | LRK_SPELLING_LOCATION | LRK_MACRO_DEFINITION_LOCATION

definition linemap_resolve_location ::
    "line_maps \<Rightarrow> location_t \<Rightarrow> location_resolution_kind \<Rightarrow> (location_t \<times> map_ref option \<times> line_maps) option" where
  "linemap_resolve_location s loc lrk =
     do { l \<leftarrow> adhoc_locus s loc;
          if l < RESERVED_LOCATION_COUNT then Some (loc, None, s)
          else (case lrk of
                  LRK_MACRO_EXPANSION_POINT \<Rightarrow> linemap_macro_loc_to_exp_point s loc
                | LRK_SPELLING_LOCATION \<Rightarrow> linemap_macro_loc_to_spelling_point s loc
                | LRK_MACRO_DEFINITION_LOCATION \<Rightarrow> linemap_macro_loc_to_def_point s loc) }"

definition linemap_get_expansion_line :: "line_maps \<Rightarrow> location_t \<Rightarrow> (linenum_type \<times> line_maps) option" where
  "linemap_get_expansion_line s location =
     do { location \<leftarrow> adhoc_locus s location;
          if location < RESERVED_LOCATION_COUNT then Some (0, s)
          else
            do { (location, r, s) \<leftarrow> linemap_macro_loc_to_exp_point s location;
                 r \<leftarrow> r;
                 m \<leftarrow> check_ordinary s r;
                 Some (SOURCE_LINE m location, s) } }"

definition linemap_get_expansion_filename :: "line_maps \<Rightarrow> location_t \<Rightarrow> (string option \<times> line_maps) option" where
  "linemap_get_expansion_filename s location =
     do { location \<leftarrow> adhoc_locus s location;
          if location < RESERVED_LOCATION_COUNT then Some (None, s)
          else
            do { (location, r, s) \<leftarrow> linemap_macro_loc_to_exp_point s location;
                 r \<leftarrow> r;
                 m \<leftarrow> check_ordinary s r;
                 Some (Some (to_file m), s) } }"

text \<open>
  Whether a token is from a system header: it is followed to its spelling, and a token of a built-in
  macro, which has none, to the expansion of the macro. The loop ends at the map of a file or at none.
\<close>

definition system_header_step :: "line_maps \<Rightarrow> line_map_macro \<Rightarrow> location_t \<Rightarrow> location_t option" where
  "system_header_step s m location =
     do { loc \<leftarrow> linemap_macro_map_loc_unwind_toward_spelling s m location;
          if loc < RESERVED_LOCATION_COUNT then linemap_macro_map_loc_to_exp_point m location else Some loc }"

partial_function (option) system_header_loop ::
    "line_maps \<Rightarrow> location_t \<Rightarrow> (location_t \<times> map_ref option \<times> line_maps) option" where
  "system_header_loop s location =
     do { (r, s) \<leftarrow> linemap_lookup s location;
          case r of
            Some (Macro i) \<Rightarrow>
              do { m \<leftarrow> elem (macros s) i;
                   location \<leftarrow> system_header_step s m location;
                   system_header_loop s location }
          | _ \<Rightarrow> Some (location, r, s) }"

definition linemap_location_in_system_header_p :: "line_maps \<Rightarrow> location_t \<Rightarrow> (nat \<times> line_maps) option" where
  "linemap_location_in_system_header_p s location =
     do { location \<leftarrow> adhoc_locus s location;
          if location < RESERVED_LOCATION_COUNT then Some (0, s)
          else
            do { (location, r, s) \<leftarrow> system_header_loop s location;
                 case r of
                   None \<Rightarrow> Some (0, s)
                 | Some r \<Rightarrow> do { m \<leftarrow> check_ordinary s r; Some (sysp m, s) } } }"

section \<open>Expanding a location\<close>

record expanded_location =
  xfile :: "string option"
  xline :: linenum_type
  xcolumn :: uint
  xdata :: nat
  xsysp :: bool

definition linemap_expand_location :: "line_maps \<Rightarrow> map_ref option \<Rightarrow> location_t \<Rightarrow> expanded_location option" where
  "linemap_expand_location s r loc =
     do { data \<leftarrow> (if IS_ADHOC_LOC loc then map_option adhoc_data (elem (adhoc s) (unat (loc AND MAX_LOCATION_T))) else Some 0);
          loc \<leftarrow> adhoc_locus s loc;
          if loc < RESERVED_LOCATION_COUNT then
            Some \<lparr>xfile = None, xline = 0, xcolumn = 0, xdata = data, xsysp = False\<rparr>
          else
            do { r \<leftarrow> r;
                 virtual \<leftarrow> linemap_location_from_macro_expansion_p s loc;
                 if virtual then None
                 else do { m \<leftarrow> check_ordinary s r;
                           Some \<lparr>xfile = Some (to_file m), xline = SOURCE_LINE m loc, xcolumn = SOURCE_COLUMN m loc,
                                 xdata = data, xsysp = (sysp m \<noteq> 0)\<rparr> } } }"

section \<open>Ranges and other data\<close>

definition can_be_stored_compactly_p :: "line_maps \<Rightarrow> location_t \<Rightarrow> source_range \<Rightarrow> nat \<Rightarrow> bool" where
  "can_be_stored_compactly_p s loc rng data \<longleftrightarrow>
     data = 0 \<and> m_start rng = loc \<and> \<not> m_finish rng < m_start rng \<and> \<not> m_start rng < RESERVED_LOCATION_COUNT \<and>
     \<not> loc \<ge> LINE_MAP_MAX_LOCATION_WITH_PACKED_RANGES \<and>
     (let lowest_macro_loc = LINEMAPS_MACRO_LOWEST_LOCATION s in
      \<not> loc \<ge> lowest_macro_loc \<and> \<not> m_start rng \<ge> lowest_macro_loc \<and> \<not> m_finish rng \<ge> lowest_macro_loc)"

text \<open>The hash table finds an equal entry of the lookaside table, or a new one is added at its end.\<close>

definition adhoc_slot :: "line_maps \<Rightarrow> location_adhoc_data \<Rightarrow> nat \<times> line_maps" where
  "adhoc_slot s lb =
     (case find (\<lambda>i. adhoc s ! i = lb) [0..<length (adhoc s)] of
        Some i \<Rightarrow> (i, s)
      | None \<Rightarrow> (length (adhoc s), s\<lparr>adhoc := adhoc s @ [lb]\<rparr>))"

definition get_combined_adhoc_loc ::
    "line_maps \<Rightarrow> location_t \<Rightarrow> source_range \<Rightarrow> nat \<Rightarrow> (location_t \<times> line_maps) option" where
  "get_combined_adhoc_loc s loc rng data =
     do { loc \<leftarrow> adhoc_locus s loc;
          if loc = 0 \<and> data = 0 then Some (0, s)
          else
            do { (ok, s) \<leftarrow>
                   (if loc < RESERVED_LOCATION_COUNT \<or> loc \<ge> LINE_MAP_MAX_LOCATION_WITH_PACKED_RANGES \<or>
                       loc \<ge> LINEMAPS_MACRO_LOWEST_LOCATION s
                    then Some (True, s) else pure_location_p s loc);
                 linemap_assert ok;
                 (packed, s) \<leftarrow>
                   (if can_be_stored_compactly_p s loc rng data then
                      do { (ok, s) \<leftarrow> pure_location_p s loc;
                           linemap_assert ok;
                           (r, s) \<leftarrow> linemap_lookup s loc;
                           r \<leftarrow> r;
                           m \<leftarrow> check_ordinary s r;
                           let int_diff = m_finish rng - m_start rng;
                           let col_diff = drop_bit (m_range_bits m) int_diff;
                           if col_diff < push_bit (m_range_bits m) 1
                           then Some (Some (loc OR col_diff), s\<lparr>num_optimized_ranges := num_optimized_ranges s + 1\<rparr>)
                           else Some (None, s) }
                    else Some (None, s));
                 case packed of
                   Some p \<Rightarrow> Some (p, s)
                 | None \<Rightarrow>
                     if loc = m_start rng \<and> loc = m_finish rng \<and> data = 0 then Some (loc, s)
                     else
                       (let s = (if data = 0 then s\<lparr>num_unoptimized_ranges := num_unoptimized_ranges s + 1\<rparr> else s);
                            (i, s) = adhoc_slot s \<lparr>locus = loc, src_range = rng, adhoc_data = data\<rparr>
                        in Some (word_of_nat i OR 0x80000000, s)) } }"

definition get_data_from_adhoc_loc :: "line_maps \<Rightarrow> location_t \<Rightarrow> nat option" where
  "get_data_from_adhoc_loc s loc =
     do { linemap_assert (IS_ADHOC_LOC loc);
          map_option adhoc_data (elem (adhoc s) (unat (loc AND MAX_LOCATION_T))) }"

definition get_range_from_loc :: "line_maps \<Rightarrow> location_t \<Rightarrow> (source_range \<times> line_maps) option" where
  "get_range_from_loc s loc =
     (if IS_ADHOC_LOC loc then map_option (\<lambda>d. (src_range d, s)) (elem (adhoc s) (unat (loc AND MAX_LOCATION_T)))
      else if loc \<ge> RESERVED_LOCATION_COUNT \<and> loc < LINEMAPS_MACRO_LOWEST_LOCATION s \<and>
              loc \<le> LINE_MAP_MAX_LOCATION_WITH_PACKED_RANGES then
        do { (r, s) \<leftarrow> linemap_lookup s loc;
             r \<leftarrow> r;
             m \<leftarrow> check_ordinary s r;
             let offset = loc AND (push_bit (m_range_bits m) 1 - 1);
             let start = loc - offset;
             Some (\<lparr>m_start = start, m_finish = start + push_bit (m_range_bits m) offset\<rparr>, s) }
      else Some (\<lparr>m_start = loc, m_finish = loc\<rparr>, s))"

definition get_pure_location :: "line_maps \<Rightarrow> location_t \<Rightarrow> (location_t \<times> line_maps) option" where
  "get_pure_location s loc =
     do { loc \<leftarrow> adhoc_locus s loc;
          if loc \<ge> LINEMAPS_MACRO_LOWEST_LOCATION s \<or> loc < RESERVED_LOCATION_COUNT then Some (loc, s)
          else
            do { (r, s) \<leftarrow> linemap_lookup s loc;
                 r \<leftarrow> r;
                 m \<leftarrow> check_ordinary s r;
                 Some (loc AND NOT (push_bit (m_range_bits m) 1 - 1), s) } }"

end
