(* ===== verification/Cpp_Location.thy ===== *)
theory Cpp_Location
  imports Cpp_Linemap
begin

text \<open>
  Locations in files: the search for the map of a location, what a location stands for, and that the
  calls of \<^verbatim>\<open>linemap_add\<close>, \<^verbatim>\<open>linemap_line_start\<close> and \<^verbatim>\<open>linemap_position_for_column\<close> give out locations for what was
  asked, without changing the meaning of those given out before.
\<close>

section \<open>The map of a location\<close>

text \<open>The last map that starts no later; a linear search.\<close>

definition holder :: "line_map_ordinary list \<Rightarrow> location_t \<Rightarrow> nat" where
  "holder maps loc = length (takeWhile (\<lambda>m. start_location m \<le> loc) maps) - 1"

abbreviation ascending :: "line_map_ordinary list \<Rightarrow> bool" where
  "ascending maps \<equiv> sorted_wrt (\<lambda>m m'. start_location m < start_location m') maps"

lemma ascending_le: "ascending maps \<Longrightarrow> i \<le> j \<Longrightarrow> j < length maps \<Longrightarrow> start_location (maps ! i) \<le> start_location (maps ! j)"
  by (cases "i = j") (auto simp: sorted_wrt_iff_nth_less less_imp_le)

lemma holder_eq:
  assumes "ascending maps" "i < length maps" "start_location (maps ! i) \<le> loc"
    and "Suc i < length maps \<Longrightarrow> loc < start_location (maps ! Suc i)"
  shows "holder maps loc = i"
proof -
  have "takeWhile (\<lambda>m. start_location m \<le> loc) maps = take (Suc i) maps"
  proof (rule takeWhile_eq_take_P_nth)
    fix j assume "j < Suc i" "j < length maps"
    then show "start_location (maps ! j) \<le> loc"
      using ascending_le[OF assms(1), of j i] assms(2,3) by simp
  qed (use assms(4) in auto)
  then show ?thesis
    using assms(2) by (simp add: holder_def)
qed

lemma holder_spec:
  assumes "ascending maps" "maps \<noteq> []" "start_location (hd maps) \<le> loc"
  shows "holder maps loc < length maps" "start_location (maps ! holder maps loc) \<le> loc"
    "Suc (holder maps loc) < length maps \<Longrightarrow> loc < start_location (maps ! Suc (holder maps loc))"
proof -
  let ?t = "takeWhile (\<lambda>m. start_location m \<le> loc) maps"
  have "?t \<noteq> []"
    using assms(2,3) by (cases maps) auto
  then have h: "Suc (holder maps loc) = length ?t"
    by (simp add: holder_def)
  then have le: "Suc (holder maps loc) \<le> length maps"
    using length_takeWhile_le[of "\<lambda>m. start_location m \<le> loc" maps] by simp
  then show "holder maps loc < length maps"
    by simp
  have "?t ! holder maps loc \<in> set ?t"
    using h by (intro nth_mem) simp
  then show "start_location (maps ! holder maps loc) \<le> loc"
    using set_takeWhileD h by (fastforce simp: takeWhile_nth)
  assume "Suc (holder maps loc) < length maps"
  then show "loc < start_location (maps ! Suc (holder maps loc))"
    using nth_length_takeWhile[of "\<lambda>m. start_location m \<le> loc" maps] h by (simp add: not_le)
qed

lemma ordinary_search_ok:
  "ascending maps \<Longrightarrow> mn < mx \<Longrightarrow> mx \<le> length maps \<Longrightarrow> start_location (maps ! mn) \<le> line \<Longrightarrow>
    (mx < length maps \<Longrightarrow> line < start_location (maps ! mx)) \<Longrightarrow>
    ordinary_search maps line mn mx = Some (holder maps line)"
proof (induction maps line mn mx rule: ordinary_search.induct)
  case (1 maps line mn mx)
  show ?case
  proof (cases "mx - mn > 1")
    case True
    then show ?thesis
      using 1 by (subst ordinary_search.simps) (auto simp: Let_def not_le)
  next
    case False
    then have "mx = Suc mn"
      using 1(4) by simp
    then show ?thesis
      using 1 False holder_eq[of maps mn line] by (subst ordinary_search.simps) auto
  qed
qed

lemma linemap_assert_simps [simp]: "linemap_assert True = Some ()" "linemap_assert False = None"
  by (simp_all add: linemap_assert_def)

lemma linemap_assert_bind [simp]: "P \<Longrightarrow> linemap_assert P \<bind> f = f ()"
  by (simp add: linemap_assert_def)

lemma adhoc_locus_ordinary [simp]: "loc < 0x70000000 \<Longrightarrow> adhoc_locus s loc = Some loc"
  by (auto simp: adhoc_locus_def IS_ADHOC_LOC_def MAX_LOCATION_T_def not_less word_le_nat_alt word_less_nat_alt)

text \<open>The search answers the same whatever was looked for before.\<close>

lemma ordinary_lookup_ok:
  assumes "ascending (ordinary s)" "ordinary_cache s < length (ordinary s)"
    and "start_location (hd (ordinary s)) \<le> loc" "2 \<le> loc" "loc < 0x70000000"
  shows "\<exists>c. linemap_ordinary_map_lookup s loc = Some (Some (holder (ordinary s) loc), s\<lparr>ordinary_cache := c\<rparr>) \<and>
    c < length (ordinary s)"
proof -
  let ?maps = "ordinary s" and ?c = "ordinary_cache s"
  have ne: "?maps \<noteq> []"
    using assms(2) by auto
  have l: "\<not> loc < RESERVED_LOCATION_COUNT" "adhoc_locus s loc = Some loc"
    using assms(4,5) by (simp_all add: RESERVED_LOCATION_COUNT_def)
  note h = holder_spec[OF assms(1) ne assms(3)]
  consider (hit) "start_location (?maps ! ?c) \<le> loc" "Suc ?c < length ?maps \<longrightarrow> loc < start_location (?maps ! Suc ?c)"
    | (above) "start_location (?maps ! ?c) \<le> loc" "Suc ?c < length ?maps" "\<not> loc < start_location (?maps ! Suc ?c)"
    | (below) "\<not> start_location (?maps ! ?c) \<le> loc"
    by blast
  then show ?thesis
  proof cases
    case hit
    then have "holder ?maps loc = ?c"
      using assms(1,2) by (intro holder_eq) auto
    then show ?thesis
      using hit assms(2) l by (auto simp: linemap_ordinary_map_lookup_def intro!: exI[of _ ?c])
  next
    case above
    then have "ordinary_search ?maps loc ?c (length ?maps) = Some (holder ?maps loc)"
      using assms(1,2) by (intro ordinary_search_ok) auto
    then show ?thesis
      using above assms(2) l h by (auto simp: linemap_ordinary_map_lookup_def)
  next
    case below
    then have "0 < ?c"
      using assms(3) ne by (cases "?c = 0") (auto simp: hd_conv_nth)
    then have "ordinary_search ?maps loc 0 ?c = Some (holder ?maps loc)"
      using assms below ne by (intro ordinary_search_ok) (auto simp: hd_conv_nth)
    then show ?thesis
      using below assms(2) l h by (auto simp: linemap_ordinary_map_lookup_def)
  qed
qed

lemma IS_MACRO_LOC_ordinary [simp]: "loc < 0x70000000 \<Longrightarrow> \<not> IS_MACRO_LOC loc"
  by (simp add: IS_MACRO_LOC_def IS_ORDINARY_LOC_def LINE_MAP_MAX_LOCATION_def)

lemma lookup_ordinary:
  assumes "ascending (ordinary s)" "ordinary_cache s < length (ordinary s)"
    and "start_location (hd (ordinary s)) \<le> loc" "2 \<le> loc" "loc < 0x70000000"
  shows "\<exists>c. linemap_lookup s loc = Some (Some (Ordinary (holder (ordinary s) loc)), s\<lparr>ordinary_cache := c\<rparr>) \<and>
    c < length (ordinary s)"
  using ordinary_lookup_ok[OF assms] assms(5)
  by (auto simp: linemap_lookup_def linemap_location_from_macro_expansion_p_def)

lemma pure_ordinary:
  assumes "ascending (ordinary s)" "ordinary_cache s < length (ordinary s)"
    and "start_location (hd (ordinary s)) \<le> loc" "2 \<le> loc" "loc < 0x70000000"
  shows "\<exists>c. pure_location_p s loc =
      Some (loc AND (push_bit (m_range_bits (ordinary s ! holder (ordinary s) loc)) 1 - 1) = 0, s\<lparr>ordinary_cache := c\<rparr>) \<and>
    c < length (ordinary s)"
proof -
  have "\<not> IS_ADHOC_LOC loc"
    using assms(5) by (auto simp: IS_ADHOC_LOC_def MAX_LOCATION_T_def word_less_nat_alt)
  moreover have "holder (ordinary s) loc < length (ordinary s)"
    using holder_spec(1)[OF assms(1) _ assms(3)] assms(2) by fastforce
  ultimately show ?thesis
    using lookup_ordinary[OF assms] by (auto simp: pure_location_p_def check_ordinary_def)
qed

section \<open>Locations as numbers\<close>

lemma SOURCE_LINE_nat:
  assumes "start_location m \<le> loc"
  shows "SOURCE_LINE m loc = word_of_nat ((unat loc - unat (start_location m)) div 2 ^ m_column_and_range_bits m) + to_line m"
proof -
  have "drop_bit (m_column_and_range_bits m) (loc - start_location m) =
      word_of_nat (unat (drop_bit (m_column_and_range_bits m) (loc - start_location m)))"
    by simp
  then show ?thesis
    using assms by (simp only: SOURCE_LINE_def unat_drop_bit unat_sub)
qed

lemma SOURCE_COLUMN_nat:
  assumes "start_location m \<le> loc" "m_column_and_range_bits m < 32"
  shows "SOURCE_COLUMN m loc = word_of_nat
    (((unat loc - unat (start_location m)) mod 2 ^ m_column_and_range_bits m) div 2 ^ m_range_bits m)"
proof -
  have "SOURCE_COLUMN m loc = word_of_nat (unat (SOURCE_COLUMN m loc))"
    by simp
  also have "unat (SOURCE_COLUMN m loc) =
      ((unat loc - unat (start_location m)) mod 2 ^ m_column_and_range_bits m) div 2 ^ m_range_bits m"
    unfolding SOURCE_COLUMN_def unat_drop_bit push_bit_of_1 unat_and_size[OF assms(2)] unat_sub[OF assms(1)] ..
  finally show ?thesis .
qed

section \<open>Invariant\<close>

lemmas location_limits = LINE_MAP_MAX_COLUMN_NUMBER_def LINE_MAP_MAX_LOCATION_WITH_PACKED_RANGES_def
  LINE_MAP_MAX_LOCATION_WITH_COLS_def LINE_MAP_MAX_LOCATION_def

definition maps_ok :: "line_map_ordinary list \<Rightarrow> bool" where
  "maps_ok maps \<longleftrightarrow> maps \<noteq> [] \<and> ascending maps \<and> 2 \<le> start_location (hd maps) \<and>
     (\<forall>i. Suc i < length maps \<longrightarrow> 2 ^ m_range_bits (maps ! i) dvd unat (start_location (maps ! Suc i)) \<or>
        0x50000000 < unat (start_location (maps ! Suc i))) \<and>
     (\<forall>m \<in> set maps. to_file m \<noteq> [] \<and> m_range_bits m \<le> 5 \<and>
        (included_from m = 0 \<or> start_location (hd maps) \<le> included_from m \<and> included_from m < start_location m))"

text \<open>The bits of the current map, and the line that the last location given out is on.\<close>

definition bits_ok :: "line_maps \<Rightarrow> line_map_ordinary \<Rightarrow> bool" where
  "bits_ok s m \<longleftrightarrow> m_column_and_range_bits m \<le> 18 \<and>
     (m_column_and_range_bits m = 0 \<and> m_range_bits m = 0 \<and> max_column_hint s = 0 \<or>
      m_range_bits m < m_column_and_range_bits m \<and>
        max_column_hint s = 2 ^ (m_column_and_range_bits m - m_range_bits m)) \<and>
     2 ^ m_range_bits m dvd unat (start_location m) \<and>
     (unat (highest_location s) \<le> 0x50000000 \<longrightarrow>
        2 ^ default_range_bits s dvd unat (start_location m) \<and>
        (m_column_and_range_bits m = 0 \<or> m_range_bits m = default_range_bits s))"

definition line_ok :: "line_maps \<Rightarrow> line_map_ordinary \<Rightarrow> bool" where
  "line_ok s m \<longleftrightarrow> unat (start_location m) \<le> unat (highest_line s) \<and>
     2 ^ m_column_and_range_bits m dvd unat (highest_line s) - unat (start_location m) \<and>
     unat (highest_line s) \<le> unat (highest_location s) \<and>
     unat (highest_location s) < unat (highest_line s) + 2 ^ m_column_and_range_bits m \<and>
     unat (highest_location s) < 0x70000000"

definition lm_ok :: "line_maps \<Rightarrow> bool" where
  "lm_ok s \<longleftrightarrow> maps_ok (ordinary s) \<and> ordinary_cache s < length (ordinary s) \<and> default_range_bits s \<le> 5 \<and>
     bits_ok s (last (ordinary s)) \<and> line_ok s (last (ordinary s))"

text \<open>What a location stands for: file, line, column and kind of header.\<close>

definition decode :: "line_maps \<Rightarrow> location_t \<Rightarrow> string \<times> linenum_type \<times> uint \<times> nat" where
  "decode s loc =
     (let m = ordinary s ! holder (ordinary s) loc in (to_file m, SOURCE_LINE m loc, SOURCE_COLUMN m loc, sysp m))"

definition given_out :: "line_maps \<Rightarrow> location_t \<Rightarrow> bool" where
  "given_out s loc \<longleftrightarrow> start_location (hd (ordinary s)) \<le> loc \<and> loc \<le> highest_location s"

definition extends :: "line_maps \<Rightarrow> line_maps \<Rightarrow> bool" where
  "extends s s' \<longleftrightarrow> macros s' = macros s \<and> macro_cache s' = macro_cache s \<and> adhoc s' = adhoc s \<and> (\<forall>loc. given_out s loc \<longrightarrow> given_out s' loc \<and> decode s' loc = decode s loc)"

lemma extendsI:
  "(\<And>loc. given_out s loc \<Longrightarrow> given_out s' loc \<and> decode s' loc = decode s loc) \<Longrightarrow>
   macros s' = macros s \<Longrightarrow> macro_cache s' = macro_cache s \<Longrightarrow> adhoc s' = adhoc s \<Longrightarrow> extends s s'"
  by (simp add: extends_def)

lemma extends_refl: "extends s s"
  by (simp add: extends_def)

lemma extends_trans: "extends s s' \<Longrightarrow> extends s' s'' \<Longrightarrow> extends s s''"
  by (auto simp: extends_def)

lemma cache_irrelevant [simp]:
  "decode (s\<lparr>ordinary_cache := c\<rparr>) = decode s" "given_out (s\<lparr>ordinary_cache := c\<rparr>) = given_out s"
  "bits_ok (s\<lparr>ordinary_cache := c\<rparr>) = bits_ok s" "line_ok (s\<lparr>ordinary_cache := c\<rparr>) = line_ok s"
  by (auto simp: decode_def given_out_def bits_ok_def line_ok_def fun_eq_iff)

lemma lm_ok_cache [simp]: "lm_ok s \<Longrightarrow> lm_ok (s\<lparr>ordinary_cache := c\<rparr>) \<longleftrightarrow> c < length (ordinary s)"
  by (simp add: lm_ok_def)

lemma next_start_ok:
  assumes "default_range_bits s \<le> 5" "unat (highest_location s) + 2 ^ default_range_bits s < 0x70000000"
  shows "unat (highest_location s) < unat (next_start s)"
    "unat (next_start s) \<le> unat (highest_location s) + 2 ^ default_range_bits s"
    "unat (highest_location s) < 0x60000000 \<Longrightarrow> 2 ^ default_range_bits s dvd unat (next_start s)"
proof -
  let ?h = "unat (highest_location s)" and ?p = "2 ^ default_range_bits s :: nat"
  have d: "default_range_bits s < 32"
    using assms(1) by simp
  have up: "unat (highest_location s + 2 ^ default_range_bits s) = ?h + ?p"
    using assms(2) by (simp add: unat_word_ariths unat_exp[OF d])
  have one: "unat (highest_location s + 1) = ?h + 1"
    using assms(2) by (simp add: unat_word_ariths)
  have lt: "highest_location s < 0x60000000 \<longleftrightarrow> ?h < 0x60000000"
    by (simp add: word_less_nat_alt)
  have n: "unat (next_start s) = (if ?h < 0x60000000 then (?h + ?p) - (?h + ?p) mod ?p else ?h + 1)"
    unfolding next_start_def location_limits lt
    using d up one by (auto simp: Let_def unat_and_not_size simp del: push_bit_minus_one)
  have "x < p \<Longrightarrow> h < h + p - x" for x p h :: nat
    by simp
  from this[OF mod_less_divisor, of ?p ?h ?h]
  show "?h < unat (next_start s)" "unat (next_start s) \<le> ?h + ?p"
    using n by auto
  show "?h < 0x60000000 \<Longrightarrow> ?p dvd unat (next_start s)"
    using n minus_mod_eq_mult_div[of "?h + ?p" ?p] by simp
qed

section \<open>Adding a map\<close>

definition add_pre :: "line_maps \<Rightarrow> lc_reason \<Rightarrow> string option \<Rightarrow> bool" where
  "add_pre s reason file \<longleftrightarrow> unat (highest_location s) + 2 ^ default_range_bits s < 0x70000000 \<and>
     (case reason of
        LC_ENTER \<Rightarrow> file \<noteq> None
      | LC_LEAVE \<Rightarrow> file = None \<and> included_from (last (ordinary s)) \<noteq> 0
      | LC_RENAME \<Rightarrow> file \<noteq> None \<and> depth s \<noteq> 0
      | LC_RENAME_VERBATIM \<Rightarrow> file \<noteq> None \<and> file \<noteq> Some []
      | LC_ENTER_MACRO \<Rightarrow> False)"

text \<open>The new map, as far as the other operations depend on it.\<close>

definition new_map :: "line_maps \<Rightarrow> lc_reason \<Rightarrow> nat \<Rightarrow> string \<Rightarrow> linenum_type \<Rightarrow> location_t \<Rightarrow> line_map_ordinary" where
  "new_map s reason sys file line inc =
     \<lparr>start_location = next_start s, map_reason = reason, sysp = sys, m_column_and_range_bits = 0, m_range_bits = 0,
      to_file = file, to_line = line, included_from = inc\<rparr>"

definition push_map :: "line_maps \<Rightarrow> line_map_ordinary \<Rightarrow> uint \<Rightarrow> line_maps" where
  "push_map s m d =
     s\<lparr>ordinary := ordinary s @ [m], ordinary_cache := length (ordinary s), depth := d,
       highest_location := start_location m, highest_line := start_location m, max_column_hint := 0\<rparr>"

lemma last_lookup:
  assumes "ordinary_cache s + 1 = length (ordinary s)" "start_location (last (ordinary s)) \<le> loc" "2 \<le> loc" "loc < 0x70000000"
  shows "linemap_lookup s loc = Some (Some (Ordinary (ordinary_cache s)), s)"
    "pure_location_p s loc = Some (loc AND (2 ^ m_range_bits (last (ordinary s)) - 1) = 0, s)"
proof -
  have e: "last (ordinary s) = ordinary s ! ordinary_cache s" "ordinary_cache s < length (ordinary s)"
    using assms(1) by (auto simp: last_conv_nth dest: arg_cong[of _ _ "\<lambda>n. n - 1"] simp flip: length_0_conv)
  have "\<not> IS_ADHOC_LOC loc"
    using assms(4) by (auto simp: IS_ADHOC_LOC_def MAX_LOCATION_T_def word_less_nat_alt)
  moreover show l: "linemap_lookup s loc = Some (Some (Ordinary (ordinary_cache s)), s)"
    using assms e by (auto simp: linemap_lookup_def linemap_ordinary_map_lookup_def RESERVED_LOCATION_COUNT_def
        linemap_location_from_macro_expansion_p_def)
  ultimately show "pure_location_p s loc = Some (loc AND (2 ^ m_range_bits (last (ordinary s)) - 1) = 0, s)"
    using e by (simp add: pure_location_p_def check_ordinary_def)
qed

lemma end_of_map_bounds:
  assumes "start_location prev < start_location m" "m_column_and_range_bits prev < 32"
  shows "start_location prev \<le> end_of_map m prev" "end_of_map m prev < start_location m"
proof -
  let ?d = "start_location m - 1 - start_location prev" and ?k = "m_column_and_range_bits prev"
  have lt: "unat (start_location prev) < unat (start_location m)"
    using assms(1) by (simp add: word_less_nat_alt)
  then have "unat (start_location m - 1) = unat (start_location m) - 1"
    by (subst unat_sub) (auto simp: word_le_nat_alt)
  then have d: "unat ?d = unat (start_location m) - 1 - unat (start_location prev)"
    using lt by (subst unat_sub) (auto simp: word_le_nat_alt)
  have "unat (end_of_map m prev) = unat (start_location prev) + (unat ?d - unat ?d mod 2 ^ ?k)"
    unfolding end_of_map_def push_bit_of_1
    using lt d unat_less_32[of "start_location m"] assms(2)
    by (simp add: unat_word_ariths unat_and_not_size)
  then show "start_location prev \<le> end_of_map m prev" "end_of_map m prev < start_location m"
    using d lt by (auto simp: word_le_nat_alt word_less_nat_alt)
qed

lemma set_last_append: "set_last_map (s\<lparr>ordinary := ms @ [m]\<rparr>) f = s\<lparr>ordinary := ms @ [f m]\<rparr>"
  by (simp add: set_last_map_def nth_append list_update_append)

lemma pure_new:
  "start_location m \<le> loc \<Longrightarrow> 2 \<le> loc \<Longrightarrow> loc < 0x70000000 \<Longrightarrow> m_range_bits m = 0 \<Longrightarrow>
   pure_location_p (s\<lparr>ordinary := ms @ [m], ordinary_cache := length ms, highest_location := h, highest_line := l, max_column_hint := 0\<rparr>) loc =
     Some (True, s\<lparr>ordinary := ms @ [m], ordinary_cache := length ms, highest_location := h, highest_line := l, max_column_hint := 0\<rparr>)"
  by (subst last_lookup(2)) simp_all

definition new_file :: "lc_reason \<Rightarrow> string \<Rightarrow> string" where
  "new_file reason n = (if n = [] \<and> reason \<noteq> LC_RENAME_VERBATIM then ''<stdin>'' else n)"

text \<open>The start of the new map is above all locations given out.\<close>

lemma start_above:
  assumes "lm_ok s" "unat (highest_location s) + 2 ^ default_range_bits s < 0x70000000"
  shows "highest_location s < next_start s" "next_start s < 0x70000000" "2 \<le> next_start s"
    "start_location (last (ordinary s)) < next_start s"
    "highest_location s < LINE_MAP_MAX_LOCATION_WITH_COLS \<longrightarrow> next_start s AND (2 ^ default_range_bits s - 1) = 0"
proof -
  have d: "default_range_bits s \<le> 5" "default_range_bits s < 32"
    and l: "unat (start_location (last (ordinary s))) \<le> unat (highest_location s)" "2 \<le> start_location (hd (ordinary s))"
      "start_location (hd (ordinary s)) \<le> start_location (last (ordinary s))"
    using assms(1) ascending_le[of "ordinary s" 0 "length (ordinary s) - 1"]
    by (auto simp: lm_ok_def line_ok_def maps_ok_def hd_conv_nth last_conv_nth)
  note n = next_start_ok[OF d(1) assms(2)]
  show "highest_location s < next_start s" "next_start s < 0x70000000" "start_location (last (ordinary s)) < next_start s"
    "2 \<le> next_start s"
    using n(1,2) l assms(2) by (auto simp: word_less_nat_alt word_le_nat_alt)
  show "highest_location s < LINE_MAP_MAX_LOCATION_WITH_COLS \<longrightarrow> next_start s AND (2 ^ default_range_bits s - 1) = 0"
    using n(3) d(2) by (auto simp: location_limits word_less_nat_alt word_unat_eq_iff unat_and_size simp del: word_unat_eq_iff[symmetric])
qed

lemma start_small: "loc < 0x70000000 \<Longrightarrow> \<not> LINE_MAP_MAX_LOCATION \<le> loc"
  by (simp add: LINE_MAP_MAX_LOCATION_def)

lemma linemap_add_named:
  assumes "lm_ok s" "add_pre s reason (Some n)"
  shows "\<exists>inc d. linemap_add s reason sys (Some n) line =
      Some (Some (length (ordinary s)), push_map s (new_map s reason sys (new_file reason n) line inc) d) \<and>
    (inc = 0 \<or> start_location (hd (ordinary s)) \<le> inc \<and> inc < next_start s) \<and>
    (d = (if reason = LC_ENTER then depth s + 1 else depth s))"
proof -
  have room: "unat (highest_location s) + 2 ^ default_range_bits s < 0x70000000" and r: "reason \<noteq> LC_LEAVE" "reason \<noteq> LC_ENTER_MACRO"
    "\<not> (depth s = 0 \<and> reason = LC_RENAME)"
    using assms(2) by (auto simp: add_pre_def split: lc_reason.splits)
  note st = start_above[OF assms(1) room]
  have ne: "ordinary s \<noteq> []" and asc: "ascending (ordinary s)"
    using assms(1) by (auto simp: lm_ok_def maps_ok_def)
  let ?p = "last (ordinary s)"
  define inc where "inc = (if reason = LC_ENTER then if depth s = 0 then 0 else end_of_map (new_map s reason sys [] 0 0) ?p
    else included_from ?p)"
  have b: "m_column_and_range_bits ?p < 32" "?p \<in> set (ordinary s)"
    using assms(1) ne by (auto simp: lm_ok_def bits_ok_def)
  have h: "start_location (hd (ordinary s)) \<le> start_location ?p"
    using ascending_le[OF asc, of 0 "length (ordinary s) - 1"] ne by (simp add: hd_conv_nth last_conv_nth)
  have "start_location ?p \<le> end_of_map (new_map s reason sys [] 0 0) ?p" "end_of_map (new_map s reason sys [] 0 0) ?p < next_start s"
    using end_of_map_bounds[of ?p "new_map s reason sys [] 0 0"] b(1) st(4) by (simp_all add: new_map_def)
  then have inc: "inc = 0 \<or> start_location (hd (ordinary s)) \<le> inc \<and> inc < next_start s"
    using h st(4) assms(1) b(2) unfolding inc_def lm_ok_def maps_ok_def by fastforce
  have "linemap_add s reason sys (Some n) line =
      Some (Some (length (ordinary s)), push_map s (new_map s reason sys (new_file reason n) line inc)
        (if reason = LC_ENTER then depth s + 1 else depth s))"
    using r ne st(2,3) start_small[OF st(2)] less_imp_le[OF st(4)] st(5)
    by (cases reason; simp add: linemap_add_def Let_def returned_to_def new_file_def set_last_map_def
        nth_append list_update_append pure_new push_map_def new_map_def inc_def end_of_map_def last_conv_nth)
  then show ?thesis
    using inc by blast
qed

lemma holder_append:
  assumes "ascending ms" "ms \<noteq> []" "start_location (hd ms) \<le> loc" "loc < start_location m"
  shows "holder (ms @ [m]) loc = holder ms loc"
proof -
  have "takeWhile (\<lambda>m. start_location m \<le> loc) (ms @ [m]) = takeWhile (\<lambda>m. start_location m \<le> loc) ms"
    using assms(4) by (auto simp: takeWhile_append not_le simp flip: takeWhile_eq_all_conv)
  then show ?thesis
    by (simp add: holder_def)
qed

lemma maps_append:
  assumes "ascending ms" "ms \<noteq> []" "start_location (last ms) < start_location m"
  shows "ascending (ms @ [m])"
proof -
  have "start_location x < start_location m" if x: "x \<in> set ms" for x
  proof -
    obtain i where "i < length ms" "x = ms ! i"
      using x by (metis in_set_conv_nth)
    then show ?thesis
      using ascending_le[OF assms(1), of i "length ms - 1"] assms(2,3) le_less_trans by (fastforce simp: last_conv_nth)
  qed
  then show ?thesis
    using assms(1) by (simp add: sorted_wrt_append)
qed

lemma linemap_add_leave:
  assumes "lm_ok s" "add_pre s LC_LEAVE None"
  shows "\<exists>i m l d. i < length (ordinary s) \<and> m = ordinary s ! i \<and> linemap_add s LC_LEAVE sys None line =
      Some (Some (length (ordinary s)), push_map s (new_map s LC_LEAVE (sysp m) (to_file m) l (included_from m)) d)"
proof -
  let ?ms = "ordinary s" and ?inc = "included_from (last (ordinary s))"
  have room: "unat (highest_location s) + 2 ^ default_range_bits s < 0x70000000" and inc0: "?inc \<noteq> 0"
    using assms(2) by (auto simp: add_pre_def)
  note st = start_above[OF assms(1) room]
  have ne: "?ms \<noteq> []" and asc: "ascending ?ms" and c: "ordinary_cache s < length ?ms" and hd: "2 \<le> start_location (hd ?ms)"
    using assms(1) by (auto simp: lm_ok_def maps_ok_def)
  have inc: "start_location (hd ?ms) \<le> ?inc" "?inc < start_location (last ?ms)"
    using assms(1) inc0 last_in_set[OF ne] by (auto simp: lm_ok_def maps_ok_def)
  define u where "u = s\<lparr>ordinary := ?ms @ [\<lparr>start_location = next_start s, map_reason = LC_LEAVE, sysp = 0,
      m_column_and_range_bits = 0, m_range_bits = 0, to_file = [], to_line = 0, included_from = 0\<rparr>]\<rparr>"
  let ?i = "holder ?ms ?inc"
  have i: "?i < length ?ms"
    using holder_spec(1)[OF asc ne inc(1)] .
  have h: "holder (ordinary u) ?inc = ?i"
    unfolding u_def using inc st(4) by (simp add: holder_append[OF asc ne])
  have "ascending (ordinary u)"
    using maps_append[OF asc ne] st(4) by (simp add: u_def)
  then obtain c where l: "linemap_ordinary_map_lookup u ?inc = Some (Some ?i, u\<lparr>ordinary_cache := c\<rparr>)"
    using ordinary_lookup_ok[of u ?inc] c ne hd inc st h by (fastforce simp: u_def)
  have r: "returned_to u LC_LEAVE = Some (Some (?ms ! ?i), ?i, u\<lparr>ordinary_cache := c\<rparr>)"
    using l ne inc0 i by (auto simp: returned_to_def u_def MAIN_FILE_P_def nth_append last_conv_nth Suc_le_eq not_less)
  obtain i where i': "i = ?i"
    by simp
  have "start_location (?ms ! i) < start_location (last ?ms)"
    using holder_spec(2)[OF asc ne inc(1), folded i'] inc(2) by (rule le_less_trans)
  then have "i \<noteq> length ?ms - 1"
    using last_conv_nth[OF ne] by auto
  then have next': "Suc i < length ?ms"
    using i[folded i'] by simp
  have "linemap_add s LC_LEAVE sys None line =
      Some (Some (length ?ms), push_map s (new_map s LC_LEAVE (sysp (?ms ! i)) (to_file (?ms ! i))
        (SOURCE_LINE (?ms ! i) (start_location (ordinary u ! Suc i))) (included_from (?ms ! i))) (depth s - 1))"
    using st(2,3) start_small[OF st(2)] less_imp_le[OF st(4)] st(5) r[folded i'] i[folded i'] next' ne inc0
    by (simp add: linemap_add_def Let_def set_last_map_def last_map_def MAIN_FILE_P_def
        nth_append list_update_append pure_new push_map_def new_map_def last_conv_nth u_def)
  then show ?thesis
    using i[folded i'] by blast
qed

lemma push_map_ok:
  assumes "lm_ok s" "unat (highest_location s) + 2 ^ default_range_bits s < 0x70000000"
    and m: "m = new_map s reason sys file line inc" "file \<noteq> []"
      "inc = 0 \<or> start_location (hd (ordinary s)) \<le> inc \<and> inc < next_start s"
  shows "lm_ok (push_map s m d)" "extends s (push_map s m d)"
    "decode (push_map s m d) (next_start s) = (file, line, 0, sys)" "given_out (push_map s m d) (next_start s)"
proof -
  let ?ms = "ordinary s"
  note st = start_above[OF assms(1,2)]
  have ne: "?ms \<noteq> []" and asc: "ascending ?ms"
    using assms(1) by (auto simp: lm_ok_def maps_ok_def)
  have sm: "start_location m = next_start s"
    by (simp add: m new_map_def)
  have asc': "ascending (?ms @ [m])"
    using maps_append[OF asc ne] st(4) sm by simp
  have n: "unat (next_start s) < 0x70000000" "unat (next_start s) \<le> 0x50000000 \<Longrightarrow> 2 ^ default_range_bits s dvd unat (next_start s)"
    using next_start_ok[of s] assms(1,2) st(2) by (auto simp: lm_ok_def word_less_nat_alt)
  have al: "2 ^ m_range_bits (last ?ms) dvd unat (next_start s) \<or> 0x50000000 < unat (next_start s)"
    using assms(1) st(1) next_start_ok(3)[of s] assms(2)
    by (cases "unat (highest_location s) \<le> 0x50000000") (auto simp: lm_ok_def bits_ok_def word_less_nat_alt)
  have "\<forall>i. Suc i < length (?ms @ [m]) \<longrightarrow> 2 ^ m_range_bits ((?ms @ [m]) ! i) dvd unat (start_location ((?ms @ [m]) ! Suc i)) \<or>
      0x50000000 < unat (start_location ((?ms @ [m]) ! Suc i))"
  proof (intro allI impI)
    fix i assume "Suc i < length (?ms @ [m])"
    then consider "Suc i < length ?ms" | "i = length ?ms - 1" "i < length ?ms"
      by fastforce
    then show "2 ^ m_range_bits ((?ms @ [m]) ! i) dvd unat (start_location ((?ms @ [m]) ! Suc i)) \<or>
        0x50000000 < unat (start_location ((?ms @ [m]) ! Suc i))"
      using assms(1) al ne sm by cases (auto simp: lm_ok_def maps_ok_def nth_append last_conv_nth)
  qed
  then show "lm_ok (push_map s m d)"
    using assms(1) m n sm asc' ne
    by (auto simp: lm_ok_def push_map_def maps_ok_def bits_ok_def line_ok_def new_map_def)
  show "extends s (push_map s m d)"
  proof (rule extendsI)
    fix loc assume loc: "given_out s loc"
    then have "loc < start_location m"
      using st(1) sm by (auto simp: given_out_def)
    then show "given_out (push_map s m d) loc \<and> decode (push_map s m d) loc = decode s loc"
      using loc ne asc holder_spec(1)[OF asc ne, of loc] holder_append[OF asc ne, of loc m] sm
      by (auto simp: given_out_def decode_def push_map_def nth_append)
  qed (simp_all add: push_map_def)
  have "holder (?ms @ [m]) (next_start s) = length ?ms"
    using asc' sm by (intro holder_eq) (auto simp: nth_append)
  then show "decode (push_map s m d) (next_start s) = (file, line, 0, sys)"
    by (simp add: decode_def push_map_def m new_map_def SOURCE_LINE_def SOURCE_COLUMN_def)
  have "start_location (hd ?ms) \<le> start_location (last ?ms)"
    using ascending_le[OF asc, of 0 "length ?ms - 1"] ne by (simp add: hd_conv_nth last_conv_nth)
  then show "given_out (push_map s m d) (next_start s)"
    using ne st(4) sm by (auto simp: given_out_def push_map_def)
qed

section \<open>Starting a line\<close>

lemma column_bits_ok:
  "unat hint \<le> 4096 \<Longrightarrow> bits \<le> 13 \<Longrightarrow> bits \<le> column_bits_for hint bits \<and> column_bits_for hint bits \<le> 13 \<and>
   unat hint < 2 ^ column_bits_for hint bits"
proof (induction hint bits rule: column_bits_for.induct)
  case (1 hint bits)
  have e: "push_bit bits 1 \<le> hint \<longleftrightarrow> 2 ^ bits \<le> unat hint"
    using 1(3) by (simp add: word_le_nat_alt unat_exp)
  show ?case
  proof (cases "2 ^ bits \<le> unat hint")
    case True
    then have "bits \<noteq> 13"
      using 1(2) by auto
    then show ?thesis
      using 1 True e by (subst (1 2 3) column_bits_for.simps) auto
  next
    case False
    then show ?thesis
      using 1(3) e by (subst (1 2 3) column_bits_for.simps) auto
  qed
qed

lemma new_bits_ok:
  assumes "new_bits s hint = (h, cb, rb)" "default_range_bits s \<le> 5"
  shows "cb \<le> 18" "(cb = 0 \<and> rb = 0 \<and> h = 0) \<or> (rb < cb \<and> h = 2 ^ (cb - rb) \<and> unat hint < 2 ^ (cb - rb))"
    "rb = 0 \<or> rb = default_range_bits s \<and> unat (highest_location s) \<le> 0x50000000"
    "unat (highest_location s) \<le> 0x50000000 \<Longrightarrow> cb = 0 \<or> rb = default_range_bits s"
    "unat hint \<le> 4096 \<Longrightarrow> unat (highest_location s) \<le> 0x60000000 \<Longrightarrow> cb \<noteq> 0"
  using assms column_bits_ok[of hint 7]
  by (auto simp: new_bits_def location_limits Let_def word_less_nat_alt word_le_nat_alt not_less split: if_splits)

text \<open>The end of the function, for a location on a line of the last map.\<close>

lemma finish_line_ok:
  assumes maps: "maps_ok (ordinary s)" "ordinary_cache s < length (ordinary s)"
    and r: "unat r = unat (start_location (last (ordinary s))) + k * 2 ^ m_column_and_range_bits (last (ordinary s))"
      "unat r < 0x70000000" "line = word_of_nat k + to_line (last (ordinary s))"
    and bits: "m_range_bits (last (ordinary s)) \<le> m_column_and_range_bits (last (ordinary s))"
      "m_column_and_range_bits (last (ordinary s)) \<le> 18"
      "2 ^ m_range_bits (last (ordinary s)) dvd unat (start_location (last (ordinary s)))"
  shows "\<exists>c. c < length (ordinary s) \<and> finish_line s r hint line = Some (r, s\<lparr>ordinary_cache := c, highest_line := r,
      highest_location := (if r > highest_location s then r else highest_location s), max_column_hint := hint\<rparr>) \<and>
    holder (ordinary s) r = length (ordinary s) - 1"
proof -
  let ?ms = "ordinary s" and ?m = "last (ordinary s)"
  let ?u = "s\<lparr>highest_line := r, highest_location := (if r > highest_location s then r else highest_location s), max_column_hint := hint\<rparr>"
  have ne: "?ms \<noteq> []" and asc: "ascending ?ms" and hd: "2 \<le> start_location (hd ?ms)"
    using maps by (auto simp: maps_ok_def)
  have m: "?m = ?ms ! (length ?ms - 1)"
    using ne by (rule last_conv_nth)
  have le: "start_location ?m \<le> r"
    using r(1) by (simp add: word_le_nat_alt)
  moreover have "start_location (hd ?ms) \<le> start_location ?m"
    using ascending_le[OF asc, of 0 "length ?ms - 1"] ne m by (simp add: hd_conv_nth)
  ultimately have hr: "start_location (hd ?ms) \<le> r" "2 \<le> r" "r < 0x70000000"
    using hd r(2) by (auto simp: word_less_nat_alt)
  have h: "holder ?ms r = length ?ms - 1"
    using asc ne le m by (intro holder_eq) auto
  obtain c where c: "pure_location_p ?u r = Some (r AND (2 ^ m_range_bits ?m - 1) = 0, ?u\<lparr>ordinary_cache := c\<rparr>)" "c < length ?ms"
    using pure_ordinary[of ?u r] asc maps(2) hr h m by auto
  have "2 ^ m_range_bits ?m dvd unat r"
    unfolding r(1) using bits(1,3) by (auto intro!: dvd_add dvd_mult le_imp_power_dvd)
  then have "r AND (2 ^ m_range_bits ?m - 1) = 0"
    using bits unat_and_size[of "m_range_bits ?m" r] by (simp add: word_unat_eq_iff[of _ 0] dvd_eq_mod_eq_0)
  moreover have "SOURCE_LINE ?m r = line"
    using SOURCE_LINE_nat[OF le] r(1,3) by simp
  moreover have "last_map ?u = Some ?m"
    using ne m by (simp add: last_map_def)
  ultimately show ?thesis
    using c h start_small[OF hr(3)] by (auto simp: finish_line_def Let_def)
qed

text \<open>A state in which the new line has been entered.\<close>

definition entered :: "line_maps \<Rightarrow> line_maps \<Rightarrow> location_t \<Rightarrow> linenum_type \<Rightarrow> bool" where
  "entered s v r line \<longleftrightarrow> lm_ok v \<and> given_out v r \<and> highest_line v = r \<and> depth v = depth s \<and>
     default_range_bits v = default_range_bits s \<and> extends s v \<and> highest_location s \<le> highest_location v \<and>
     unat (highest_location v) \<le> max (unat r) (unat (highest_location s)) \<and>
     to_file (last (ordinary v)) = to_file (last (ordinary s)) \<and> sysp (last (ordinary v)) = sysp (last (ordinary s)) \<and>
     decode v r = (to_file (last (ordinary s)), line, 0, sysp (last (ordinary s)))"

lemma entered_trans:
  "extends s u \<Longrightarrow> entered u v r line \<Longrightarrow> depth u = depth s \<Longrightarrow> default_range_bits u = default_range_bits s \<Longrightarrow>
   highest_location s \<le> highest_location u \<Longrightarrow> unat (highest_location u) \<le> max (unat r) (unat (highest_location s)) \<Longrightarrow>
   to_file (last (ordinary u)) = to_file (last (ordinary s)) \<Longrightarrow>
   sysp (last (ordinary u)) = sysp (last (ordinary s)) \<Longrightarrow> entered s v r line"
  using extends_trans by (auto simp: entered_def)

lemma landed:
  assumes maps: "maps_ok (ordinary s)" "ordinary_cache s < length (ordinary s)" "default_range_bits s \<le> 5"
    and m: "m = last (ordinary s)"
    and r: "unat r = unat (start_location m) + k * 2 ^ m_column_and_range_bits m" "unat r < 0x70000000"
      "line = word_of_nat k + to_line m"
      "unat (highest_location s) < unat r + 2 ^ m_column_and_range_bits m" "unat (highest_location s) < 0x70000000"
    and bits: "m_column_and_range_bits m \<le> 18"
      "m_column_and_range_bits m = 0 \<and> m_range_bits m = 0 \<and> hint = 0 \<or>
       m_range_bits m < m_column_and_range_bits m \<and> hint = 2 ^ (m_column_and_range_bits m - m_range_bits m)"
      "2 ^ m_range_bits m dvd unat (start_location m)"
      "unat (highest_location s) \<le> 0x50000000 \<Longrightarrow> unat r \<le> 0x50000000 \<Longrightarrow>
         2 ^ default_range_bits s dvd unat (start_location m) \<and> (m_column_and_range_bits m = 0 \<or> m_range_bits m = default_range_bits s)"
  shows "\<exists>v. finish_line s r hint line = Some (r, v) \<and> entered s v r line \<and> max_column_hint v = hint \<and> ordinary v = ordinary s"
proof -
  have "m_range_bits m \<le> m_column_and_range_bits m"
    using bits(2) by auto
  then obtain c where c: "c < length (ordinary s)" and f: "finish_line s r hint line = Some (r, s\<lparr>ordinary_cache := c, highest_line := r,
      highest_location := (if r > highest_location s then r else highest_location s), max_column_hint := hint\<rparr>)"
    and h: "holder (ordinary s) r = length (ordinary s) - 1"
    using finish_line_ok[OF maps(1,2), of r k line hint] r bits unfolding m by auto
  let ?v = "s\<lparr>ordinary_cache := c, highest_line := r,
      highest_location := (if r > highest_location s then r else highest_location s), max_column_hint := hint\<rparr>"
  have ne: "ordinary s \<noteq> []" and asc: "ascending (ordinary s)"
    using maps(1) by (auto simp: maps_ok_def)
  have le: "start_location m \<le> r"
    using r(1) by (simp add: word_le_nat_alt)
  have hd: "start_location (hd (ordinary s)) \<le> start_location m"
    using ascending_le[OF asc, of 0 "length (ordinary s) - 1"] ne by (simp add: m hd_conv_nth last_conv_nth)
  have hl: "unat (highest_location ?v) = max (unat r) (unat (highest_location s))"
    by (simp add: word_less_nat_alt max_def)
  have "bits_ok ?v m"
    using bits hl by (auto simp: bits_ok_def)
  moreover have "line_ok ?v m"
    using r hl by (auto simp: line_ok_def max_def split: if_splits)
  ultimately have "lm_ok ?v"
    using maps c m by (simp add: lm_ok_def)
  moreover have "given_out ?v r"
    using le hd by (auto simp: given_out_def)
  moreover have "extends s ?v"
    by (auto simp: extends_def given_out_def decode_def)
  moreover have "decode ?v r = (to_file m, line, 0, sysp m)"
  proof -
    have "SOURCE_LINE m r = line"
      using SOURCE_LINE_nat[OF le] r(1,3) by simp
    moreover have "SOURCE_COLUMN m r = 0"
      using SOURCE_COLUMN_nat[OF le] bits(1) r(1) by simp
    ultimately show ?thesis
      using h ne by (simp add: decode_def Let_def m last_conv_nth)
  qed
  ultimately have "entered s ?v r line"
    using m hl by (auto simp: entered_def)
  then show ?thesis
    using f by auto
qed

lemma unat_sint:
  assumes "0 \<le> sint (w :: uint)" shows "unat w = nat (sint w)"
proof -
  have "uint w = sint w"
    using assms sint_lt[of w] by (simp add: uint_sint take_bit_int_eq_self)
  then show ?thesis
    by (simp add: unat_eq_nat_uint)
qed

lemma same_line:
  assumes "lm_ok s" "needs_map s (last (ordinary s)) (sint (line - SOURCE_LINE (last (ordinary s)) (highest_line s))) hint = Some False"
    and "unat (highest_location s) + 32 + nat (sint (line - SOURCE_LINE (last (ordinary s)) (highest_line s))) * 2 ^ 18 < 0x70000000"
  shows "\<exists>r v. linemap_line_start s line hint = Some (r, v) \<and> entered s v r line \<and> max_column_hint v = max_column_hint s \<and>
    unat r \<le> unat (highest_location s) + nat (sint (line - SOURCE_LINE (last (ordinary s)) (highest_line s))) * 2 ^ 18 \<and>
    ordinary v = ordinary s \<and> unat hint < 2 ^ (m_column_and_range_bits (last (ordinary s)) - m_range_bits (last (ordinary s)))"
proof -
  let ?m = "last (ordinary s)" and ?b = "m_column_and_range_bits (last (ordinary s))"
  let ?w = "line - SOURCE_LINE ?m (highest_line s)" and ?start = "unat (start_location (last (ordinary s)))"
  let ?r = "highest_line s + push_bit ?b ?w"
  have ok: "bits_ok s ?m" "line_ok s ?m" "maps_ok (ordinary s)"
    using assms(1) by (simp_all add: lm_ok_def)
  have pos: "0 \<le> sint ?w"
    using assms(2) by (auto simp: needs_map_def Let_def split: if_splits)
  then have w: "unat ?w = nat (sint ?w)"
    by (rule unat_sint)
  have b: "?b \<le> 18"
    using ok(1) by (simp add: bits_ok_def)
  then have p: "(2::nat) ^ ?b \<le> 2 ^ 18"
    by (intro power_increasing) simp_all
  then have wp: "unat ?w * 2 ^ ?b \<le> nat (sint ?w) * 2 ^ 18"
    unfolding w by (intro mult_le_mono2)
  have r: "unat ?r = unat (highest_line s) + unat ?w * 2 ^ ?b"
    using wp assms(3) ok(2) b by (simp add: push_bit_eq_mult unat_word_ariths unat_exp line_ok_def)
  obtain j where j: "unat (highest_line s) = ?start + j * 2 ^ ?b"
    using ok(2) by (auto simp: line_ok_def dvd_def) (metis le_add_diff_inverse mult.commute)
  have le: "start_location ?m \<le> highest_line s"
    using ok(2) by (simp add: line_ok_def word_le_nat_alt)
  have cur: "SOURCE_LINE ?m (highest_line s) = word_of_nat j + to_line ?m"
    using SOURCE_LINE_nat[OF le] j by simp
  have "line = word_of_nat (j + unat ?w) + to_line ?m"
    by (simp add: cur)
  moreover have "unat ?r = ?start + (j + unat ?w) * 2 ^ ?b"
    using r j by (simp add: algebra_simps)
  moreover have "unat ?r < 0x70000000" "unat (highest_location s) < unat ?r + 2 ^ ?b"
    using r wp assms(3) ok(2) by (auto simp: line_ok_def)
  ultimately obtain v where v: "finish_line s ?r (max_column_hint s) line = Some (?r, v)" "entered s v ?r line"
      "max_column_hint v = max_column_hint s" "ordinary v = ordinary s"
    using landed[OF ok(3) _ _ refl, of ?r "j + unat ?w" line "max_column_hint s"] assms(1) ok
    by (auto simp: lm_ok_def bits_ok_def line_ok_def)
  have "last_map s = Some ?m"
    using ok(3) by (auto simp: last_map_def maps_ok_def last_conv_nth)
  then have "linemap_line_start s line hint = Some (?r, v)"
    using v(1) assms(2) ok(1)
    by (auto simp: linemap_line_start_def Let_def bits_ok_def split: prod.splits)
  moreover have "unat hint < 2 ^ (?b - m_range_bits ?m)"
    using assms(2) b by (auto simp: needs_map_def Let_def word_le_nat_alt not_le unat_exp split: if_splits)
  moreover have "unat ?r \<le> unat (highest_location s) + nat (sint ?w) * 2 ^ 18"
    using r wp ok(2) by (simp add: line_ok_def)
  ultimately show ?thesis
    using v by blast
qed

text \<open>Other bits for the last map, when they mean the same for the locations given out.\<close>

lemma holder_starts: "map start_location ms = map start_location ms' \<Longrightarrow> holder ms loc = holder ms' loc"
proof -
  have *: "length (takeWhile (\<lambda>m. start_location m \<le> loc) ms) = length (takeWhile (\<lambda>l. l \<le> loc) (map start_location ms))" for ms
    by (simp add: takeWhile_map comp_def)
  show "map start_location ms = map start_location ms' \<Longrightarrow> holder ms loc = holder ms' loc"
    unfolding holder_def * by simp
qed

abbreviation with_bits :: "nat \<Rightarrow> nat \<Rightarrow> line_map_ordinary \<Rightarrow> line_map_ordinary" where
  "with_bits cb rb m \<equiv> m\<lparr>m_column_and_range_bits := cb, m_range_bits := rb\<rparr>"

lemma set_bits_maps:
  assumes "maps_ok (ordinary s)" "rb \<le> 5"
  shows "map start_location (ordinary (set_last_map s (with_bits cb rb))) = map start_location (ordinary s)"
    "maps_ok (ordinary (set_last_map s (with_bits cb rb)))"
    "last (ordinary (set_last_map s (with_bits cb rb))) = with_bits cb rb (last (ordinary s))"
proof -
  let ?n = "length (ordinary s) - 1" and ?ms = "ordinary (set_last_map s (with_bits cb rb))"
  have ne: "ordinary s \<noteq> []" and asc: "ascending (ordinary s)"
    using assms by (auto simp: maps_ok_def)
  have u: "?ms = (ordinary s)[?n := with_bits cb rb (ordinary s ! ?n)]"
    by (simp add: set_last_map_def)
  show st: "map start_location ?ms = map start_location (ordinary s)"
    unfolding u by (intro nth_equalityI) (auto simp: nth_list_update)
  show "last ?ms = with_bits cb rb (last (ordinary s))"
    using ne by (simp add: u last_list_update last_conv_nth)
  have nth: "start_location (?ms ! i) = start_location (ordinary s ! i)" "to_file (?ms ! i) = to_file (ordinary s ! i)"
      "included_from (?ms ! i) = included_from (ordinary s ! i)" "m_range_bits (?ms ! i) = m_range_bits (ordinary s ! i) \<or> m_range_bits (?ms ! i) = rb"
      if "i < length (ordinary s)" for i
    using that by (auto simp: u nth_list_update)
  have nth': "m_range_bits (?ms ! i) = m_range_bits (ordinary s ! i)" if "Suc i < length (ordinary s)" for i
    using that by (auto simp: u nth_list_update)
  have len: "length ?ms = length (ordinary s)"
    by (simp add: u)
  have "hd ?ms = ?ms ! 0" "hd (ordinary s) = ordinary s ! 0"
    using ne len by (auto intro!: hd_conv_nth)
  then have "start_location (hd ?ms) = start_location (hd (ordinary s))"
    using nth(1)[of 0] ne by simp
  moreover have "ascending ?ms"
    using asc nth(1) len by (simp add: sorted_wrt_iff_nth_less)
  moreover have "\<forall>i. Suc i < length ?ms \<longrightarrow> 2 ^ m_range_bits (?ms ! i) dvd unat (start_location (?ms ! Suc i)) \<or>
      0x50000000 < unat (start_location (?ms ! Suc i))"
    using assms(1) len by (simp add: maps_ok_def nth(1) nth')
  moreover have "\<forall>i < length ?ms. to_file (?ms ! i) \<noteq> [] \<and> m_range_bits (?ms ! i) \<le> 5 \<and>
      (included_from (?ms ! i) = 0 \<or> start_location (hd (ordinary s)) \<le> included_from (?ms ! i) \<and>
         included_from (?ms ! i) < start_location (?ms ! i))"
  proof (intro allI impI)
    fix i assume "i < length ?ms"
    then have i: "i < length (ordinary s)"
      using len by simp
    then have "m_range_bits (?ms ! i) \<le> 5"
      using assms nth(4)[OF i] by (auto simp: maps_ok_def)
    moreover have "ordinary s ! i \<in> set (ordinary s)"
      using i by simp
    ultimately show "to_file (?ms ! i) \<noteq> [] \<and> m_range_bits (?ms ! i) \<le> 5 \<and>
      (included_from (?ms ! i) = 0 \<or> start_location (hd (ordinary s)) \<le> included_from (?ms ! i) \<and>
         included_from (?ms ! i) < start_location (?ms ! i))"
      using assms(1) nth(1-3)[OF i] by (auto simp: maps_ok_def)
  qed
  moreover have "?ms \<noteq> []"
    using ne len by auto
  ultimately show "maps_ok ?ms"
    using assms(1) by (simp add: maps_ok_def all_set_conv_all_nth)
qed

lemma set_bits_extends:
  assumes "maps_ok (ordinary s)" "m = last (ordinary s)" "m_column_and_range_bits m < 32" "cb < 32" "rb \<le> 5"
    and same: "\<And>x. x \<le> unat (highest_location s) - unat (start_location m) \<Longrightarrow>
      x div 2 ^ cb = x div 2 ^ m_column_and_range_bits m \<and>
      (x mod 2 ^ cb) div 2 ^ rb = (x mod 2 ^ m_column_and_range_bits m) div 2 ^ m_range_bits m"
  shows "extends s (set_last_map s (with_bits cb rb))"
proof (rule extendsI)
  fix loc assume loc: "given_out s loc"
  let ?u = "set_last_map s (with_bits cb rb)" and ?h = "holder (ordinary s) loc" and ?n = "length (ordinary s) - 1"
  note sb = set_bits_maps[OF assms(1,5), where cb = cb]
  have ne: "ordinary s \<noteq> []" and asc: "ascending (ordinary s)"
    using assms(1) by (auto simp: maps_ok_def)
  have hd: "start_location (hd (ordinary s)) \<le> loc"
    using loc by (simp add: given_out_def)
  note h = holder_spec[OF asc ne hd]
  have "start_location (hd (ordinary ?u)) = start_location (hd (ordinary s))"
    using arg_cong[OF sb(1), of hd] ne sb(2) by (simp add: hd_map maps_ok_def)
  then have g: "given_out ?u loc"
    using loc by (simp add: given_out_def set_last_map_def)
  have "decode ?u loc = decode s loc"
  proof (cases "?h = ?n")
    case True
    then have m: "ordinary s ! ?h = m" "start_location m \<le> loc"
      using h(2) assms(2) ne by (auto simp: last_conv_nth)
    have "loc \<le> highest_location s"
      using loc by (simp add: given_out_def)
    then have x: "unat loc - unat (start_location m) \<le> unat (highest_location s) - unat (start_location m)"
      by (simp add: word_le_nat_alt)
    have "ordinary ?u ! ?h = with_bits cb rb m"
      using h(1) m(1) True by (simp add: set_last_map_def)
    then show ?thesis
      using same[OF x] m assms(3,4) holder_starts[OF sb(1)]
      by (simp add: decode_def Let_def SOURCE_LINE_nat SOURCE_COLUMN_nat)
  next
    case False
    then show ?thesis
      using holder_starts[OF sb(1)] by (simp add: decode_def set_last_map_def Let_def)
  qed
  then show "given_out ?u loc \<and> decode ?u loc = decode s loc"
    using g by simp
qed (simp_all add: set_last_map_def)

text \<open>The current map holds one line so far and can get other bits.\<close>

lemma reused_bits:
  assumes "bits_ok s m" "line_ok s m" "default_range_bits s \<le> 5" "new_bits s hint = (h, cb, rb)"
    and "can_reuse s m delta line cb rb"
  shows "unat (highest_line s) = unat (start_location m)" "rb \<le> cb" "cb \<le> 18"
    "unat (highest_location s) < unat (start_location m) + 2 ^ cb"
    "x \<le> unat (highest_location s) - unat (start_location m) \<Longrightarrow>
       x div 2 ^ cb = x div 2 ^ m_column_and_range_bits m \<and>
       (x mod 2 ^ cb) div 2 ^ rb = (x mod 2 ^ m_column_and_range_bits m) div 2 ^ m_range_bits m"
proof -
  let ?b = "m_column_and_range_bits m" and ?r = "m_range_bits m" and ?st = "unat (start_location m)"
  note nb = new_bits_ok[OF assms(4,3)]
  show rc: "rb \<le> cb" "cb \<le> 18"
    using nb(1,2) by auto
  have b: "?b < 32" "?b \<le> 18" "?r \<le> ?b"
    using assms(1) by (auto simp: bits_ok_def)
  have le: "start_location m \<le> highest_line s" "start_location m \<le> highest_location s" "?st \<le> unat (highest_line s)"
    using assms(2) by (auto simp: line_ok_def word_le_nat_alt)
  let ?o = "unat (highest_line s) - ?st" and ?p = "unat (highest_location s) - ?st"
  have "SOURCE_LINE m (highest_line s) = to_line m"
    using assms(5) by (simp add: can_reuse_def)
  then have "(word_of_nat (?o div 2 ^ ?b) :: uint) = 0"
    using SOURCE_LINE_nat[OF le(1)] by simp
  then have "2 ^ 32 dvd ?o div 2 ^ ?b"
    by (simp add: word_of_nat_eq_0_iff)
  moreover have "?o div 2 ^ ?b < 2 ^ 32"
    using unat_less_32[of "highest_line s"] div_le_dividend[of ?o "2 ^ ?b"] by linarith
  ultimately have "?o div 2 ^ ?b = 0"
    using nat_dvd_not_less[of "?o div 2 ^ ?b" "2 ^ 32"] by auto
  moreover have "2 ^ ?b dvd ?o"
    using assms(2) by (simp add: line_ok_def)
  ultimately have o: "?o = 0"
    by (metis dvd_div_eq_0_iff)
  then show hl: "unat (highest_line s) = ?st"
    using le(3) by simp
  then have p: "?p < 2 ^ ?b"
    using assms(2) by (auto simp: line_ok_def)
  have "unat (SOURCE_COLUMN m (highest_location s)) = ?p div 2 ^ ?r"
  proof -
    have "?p div 2 ^ ?r < 2 ^ 32"
      using unat_less_32[of "highest_location s"] div_le_dividend[of ?p "2 ^ ?r"] by linarith
    then show ?thesis
      using SOURCE_COLUMN_nat[OF le(2) b(1)] p by (simp add: unat_of_nat)
  qed
  moreover have "SOURCE_COLUMN m (highest_location s) < 2 ^ (cb - rb)"
    using assms(5) by (simp add: can_reuse_def not_le)
  ultimately have col: "?p div 2 ^ ?r < 2 ^ (cb - rb)"
    using rc by (simp add: word_less_nat_alt unat_exp)
  have rr: "?r \<le> rb"
    using assms(5) by (simp add: can_reuse_def)
  have "?p < 2 ^ (cb - rb) * 2 ^ ?r"
    using col by (simp add: div_less_iff_less_mult)
  also have "\<dots> \<le> 2 ^ cb"
    using rr rc by (simp flip: power_add)
  finally have pc: "?p < 2 ^ cb" .
  then show "unat (highest_location s) < ?st + 2 ^ cb"
    using le(2) by (simp add: word_le_nat_alt)
  have z: "rb = ?r \<or> ?b = 0"
    using nb(3) rr assms(1) by (auto simp: bits_ok_def)
  assume x: "x \<le> ?p"
  then have "x < 2 ^ cb" "x < 2 ^ ?b"
    using pc p by auto
  moreover have "?b = 0 \<Longrightarrow> x = 0"
    using x p by simp
  ultimately show "x div 2 ^ cb = x div 2 ^ ?b \<and> (x mod 2 ^ cb) div 2 ^ rb = (x mod 2 ^ ?b) div 2 ^ ?r"
    using z by auto
qed

lemma last_map_ok: "maps_ok (ordinary s) \<Longrightarrow> last_map s = Some (last (ordinary s))"
  by (auto simp: last_map_def maps_ok_def last_conv_nth)

lemma set_last_keeps [simp]:
  "highest_location (set_last_map s f) = highest_location s" "highest_line (set_last_map s f) = highest_line s"
  "depth (set_last_map s f) = depth s" "default_range_bits (set_last_map s f) = default_range_bits s"
  "ordinary_cache (set_last_map s f) = ordinary_cache s" "length (ordinary (set_last_map s f)) = length (ordinary s)"
  by (simp_all add: set_last_map_def)

lemma hint_room:
  assumes "new_bits s hint = (h, cb, rb)" "default_range_bits s \<le> 5" "unat hint \<le> 4096" "unat (highest_location s) \<le> 0x60000000"
  shows "unat hint < unat h"
  using new_bits_ok[OF assms(1,2)] assms(3,4) by (auto simp: unat_exp)

lemma reused_line:
  assumes "lm_ok s" "m = last (ordinary s)" "delta = sint (line - SOURCE_LINE m (highest_line s))"
    and "needs_map s m delta hint = Some True" "new_bits s hint = (h, cb, rb)" "can_reuse s m delta line cb rb"
    and "unat (highest_location s) + 32 + nat delta * 2 ^ 18 < 0x70000000"
  shows "\<exists>r v. linemap_line_start s line hint = Some (r, v) \<and> entered s v r line \<and> max_column_hint v = h \<and>
    m_column_and_range_bits (last (ordinary v)) = cb \<and> unat r \<le> unat (highest_location s) + 32 + nat delta * 2 ^ 18"
proof -
  have ok: "bits_ok s m" "line_ok s m" "maps_ok (ordinary s)" "default_range_bits s \<le> 5" "ordinary_cache s < length (ordinary s)"
    using assms(1,2) by (simp_all add: lm_ok_def)
  note re = reused_bits[OF ok(1,2,4) assms(5,6)] and nb = new_bits_ok[OF assms(5) ok(4)]
  have rb5: "rb \<le> 5"
    using nb(3) ok(4) by auto
  note sb = set_bits_maps[OF ok(3) rb5, where cb = cb]
  define u where "u = set_last_map s (with_bits cb rb)"
  have lu: "last (ordinary u) = with_bits cb rb m" "maps_ok (ordinary u)"
    using sb assms(2) by (simp_all add: u_def)
  have cur: "SOURCE_LINE m (highest_line s) = to_line m" "0 \<le> delta"
    using assms(6) by (simp_all add: can_reuse_def)
  let ?w = "line - to_line m" and ?r = "start_location m + push_bit cb (line - to_line m)"
  have w: "unat ?w = nat delta"
    using cur assms(3) unat_sint[of ?w] by simp
  have "(2::nat) ^ cb \<le> 2 ^ 18"
    using re(3) by (intro power_increasing) simp_all
  then have wp: "unat ?w * 2 ^ cb \<le> nat delta * 2 ^ 18"
    unfolding w by (intro mult_le_mono2)
  have stl: "unat (start_location m) \<le> unat (highest_location s)"
    using ok(2) by (simp add: line_ok_def)
  have r: "unat ?r = unat (start_location m) + unat ?w * 2 ^ cb"
    using wp assms(7) stl re(3) by (simp add: push_bit_eq_mult unat_word_ariths unat_exp)
  have ext: "extends s u"
    unfolding u_def using re(3,5) ok assms(2) rb5 by (intro set_bits_extends) (auto simp: bits_ok_def)
  have dv: "2 ^ rb dvd unat (start_location m)"
    using nb(3) ok(1) by (auto simp: bits_ok_def)
  obtain v where v: "finish_line u ?r h line = Some (?r, v)" "entered u v ?r line" "max_column_hint v = h" "ordinary v = ordinary u"
    using landed[OF lu(2) _ _ lu(1)[symmetric], of ?r "unat ?w" line h] ok r wp assms(7) stl re(2,3,4) nb(2,4) dv
    by (auto simp: u_def line_ok_def bits_ok_def)
  have big: "\<not> LINE_MAP_MAX_LOCATION \<le> highest_location s"
    using ok(2) by (intro start_small) (simp add: line_ok_def word_less_nat_alt)
  have "m_range_bits m \<le> m_column_and_range_bits m"
    using ok(1) by (auto simp: bits_ok_def)
  then have "linemap_line_start s line hint = Some (?r, v)"
    using v(1) assms(2-6) big last_map_ok[OF ok(3)] last_map_ok[OF lu(2)] lu(1)
    by (simp add: linemap_line_start_def Let_def u_def[symmetric])
  moreover have "entered s v ?r line"
    using entered_trans[OF ext v(2)] lu(1) assms(2) by (simp add: u_def)
  moreover have "unat ?r \<le> unat (highest_location s) + 32 + nat delta * 2 ^ 18"
    using r wp stl by simp
  ultimately show ?thesis
    using v(3,4) lu(1) by auto
qed

lemma fresh_line:
  assumes "lm_ok s" "m = last (ordinary s)" "delta = sint (line - SOURCE_LINE m (highest_line s))"
    and "needs_map s m delta hint = Some True" "new_bits s hint = (h, cb, rb)" "\<not> can_reuse s m delta line cb rb"
    and "unat (highest_location s) + 32 < 0x70000000" "depth s \<noteq> 0"
  shows "\<exists>r v. linemap_line_start s line hint = Some (r, v) \<and> entered s v r line \<and> max_column_hint v = h \<and>
    m_column_and_range_bits (last (ordinary v)) = cb \<and> unat r \<le> unat (highest_location s) + 32 + nat delta * 2 ^ 18"
proof -
  have ok: "bits_ok s m" "line_ok s m" "maps_ok (ordinary s)" "default_range_bits s \<le> 5"
    using assms(1,2) by (simp_all add: lm_ok_def)
  note nb = new_bits_ok[OF assms(5) ok(4)]
  have "(2::nat) ^ default_range_bits s \<le> 2 ^ 5"
    using ok(4) by (intro power_increasing) simp_all
  then have room: "unat (highest_location s) + 2 ^ default_range_bits s < 0x70000000"
    using assms(7) by simp
  note st = start_above[OF assms(1) room] and nx = next_start_ok[OF ok(4) room]
  have rb5: "rb \<le> 5"
    using nb(3) ok(4) by auto
  have fm: "to_file m \<noteq> []"
    using ok(3) assms(2) by (simp add: maps_ok_def)
  have "add_pre s LC_RENAME (Some (to_file m))"
    using room assms(8) by (simp add: add_pre_def)
  then obtain inc where add: "linemap_add s LC_RENAME (sysp m) (Some (to_file m)) line =
      Some (Some (length (ordinary s)), push_map s (new_map s LC_RENAME (sysp m) (to_file m) line inc) (depth s))"
    and inc: "inc = 0 \<or> start_location (hd (ordinary s)) \<le> inc \<and> inc < next_start s"
    using linemap_add_named[OF assms(1), of LC_RENAME "to_file m" "sysp m" line] fm by (auto simp: new_file_def)
  define n where "n = new_map s LC_RENAME (sysp m) (to_file m) line inc"
  define p where "p = push_map s n (depth s)"
  define u where "u = set_last_map p (with_bits cb rb)"
  note pm = push_map_ok[OF assms(1) room n_def fm inc, of "depth s", folded p_def]
  have pk: "maps_ok (ordinary p)" "ordinary_cache p < length (ordinary p)"
    using pm(1) by (simp_all add: lm_ok_def)
  have lp: "last (ordinary p) = n" "highest_location p = next_start s" "default_range_bits p = default_range_bits s" "depth p = depth s"
    by (simp_all add: p_def push_map_def n_def new_map_def)
  have ns: "start_location n = next_start s" "m_column_and_range_bits n = 0" "m_range_bits n = 0" "to_file n = to_file m"
      "sysp n = sysp m" "to_line n = line"
    by (simp_all add: n_def new_map_def)
  have lu: "last (ordinary u) = with_bits cb rb n" "maps_ok (ordinary u)"
    using set_bits_maps(2,3)[OF pk(1) rb5, where cb = cb] lp(1) by (simp_all add: u_def)
  have ext: "extends s u"
    using extends_trans[OF pm(2)] set_bits_extends[OF pk(1) lp(1)[symmetric], of cb rb] nb(1) rb5 lp(2) ns by (simp add: u_def)
  have dv: "2 ^ rb dvd unat (next_start s)"
    using nb(3) nx(3) by auto
  obtain v where v: "finish_line u (next_start s) h line = Some (next_start s, v)" "entered u v (next_start s) line" "max_column_hint v = h" "ordinary v = ordinary u"
    using landed[OF lu(2) _ _ lu(1)[symmetric], of "next_start s" 0 line h] pk lp ns ok(4) nb(1,2,4) nx dv st(2)
    by (auto simp: u_def word_less_nat_alt)
  have big: "\<not> LINE_MAP_MAX_LOCATION \<le> highest_location s"
    using ok(2) by (intro start_small) (simp add: line_ok_def word_less_nat_alt)
  have "m_range_bits m \<le> m_column_and_range_bits m"
    using ok(1) by (auto simp: bits_ok_def)
  then have "linemap_line_start s line hint = Some (next_start s, v)"
    using v(1) assms(2-6) big last_map_ok[OF ok(3)] last_map_ok[OF lu(2)] lu(1) ns add[folded n_def, folded p_def]
    by (simp add: linemap_line_start_def Let_def u_def[symmetric])
  moreover have "entered s v (next_start s) line"
    using entered_trans[OF ext v(2)] lu(1) lp ns st(1) assms(2) by (simp add: u_def less_imp_le)
  moreover have "unat (next_start s) \<le> unat (highest_location s) + 32 + nat delta * 2 ^ 18"
    using nx(2) \<open>2 ^ default_range_bits s \<le> 2 ^ 5\<close> by simp
  ultimately show ?thesis
    using v(3,4) lu(1) by auto
qed

definition lines_ahead :: "line_maps \<Rightarrow> linenum_type \<Rightarrow> nat" where
  "lines_ahead s line = nat (sint (line - SOURCE_LINE (last (ordinary s)) (highest_line s)))"

lemma line_start_ok:
  assumes "lm_ok s" "depth s \<noteq> 0" "unat (highest_location s) + 32 + lines_ahead s line * 2 ^ 18 < 0x70000000"
  shows "\<exists>r v. linemap_line_start s line hint = Some (r, v) \<and> entered s v r line \<and>
    unat (highest_location v) \<le> unat (highest_location s) + 32 + lines_ahead s line * 2 ^ 18 \<and>
    (m_column_and_range_bits (last (ordinary v)) = 0 \<or> unat hint < unat (max_column_hint v)) \<and>
    (0 < unat hint \<longrightarrow> unat hint \<le> 4096 \<longrightarrow> unat (highest_location s) \<le> 0x60000000 \<longrightarrow>
       m_column_and_range_bits (last (ordinary v)) \<noteq> 0)"
proof -
  define m where "m = last (ordinary s)"
  define delta where "delta = sint (line - SOURCE_LINE m (highest_line s))"
  have d: "lines_ahead s line = nat delta"
    by (simp add: lines_ahead_def delta_def m_def)
  have ok: "bits_ok s m" "default_range_bits s \<le> 5"
    using assms(1) by (simp_all add: lm_ok_def m_def)
  obtain h cb rb where nb: "new_bits s hint = (h, cb, rb)"
    by (cases "new_bits s hint")
  note nbo = new_bits_ok[OF nb ok(2)]
  have "nat delta < 7168"
    using assms(3) d by simp
  then have "delta < 7168"
    by simp
  then have "delta * int (m_column_and_range_bits m) < 2 ^ 31" if "0 \<le> delta"
    using that mult_mono[of delta 7168 "int (m_column_and_range_bits m)" 18] ok(1) by (simp add: bits_ok_def)
  then have "needs_map s m delta hint \<noteq> None"
    by (auto simp: needs_map_def Let_def not_le)
  then consider (same) "needs_map s m delta hint = Some False" | (new) "needs_map s m delta hint = Some True"
    by (cases "the (needs_map s m delta hint)") auto
  then show ?thesis
  proof cases
    case same
    obtain r v where v: "linemap_line_start s line hint = Some (r, v)" "entered s v r line" "max_column_hint v = max_column_hint s"
        "ordinary v = ordinary s" "unat r \<le> unat (highest_location s) + nat delta * 2 ^ 18"
        "unat hint < 2 ^ (m_column_and_range_bits m - m_range_bits m)"
      using same_line[OF assms(1), of line hint] same assms(3) d by (auto simp: m_def delta_def)
    have "m_column_and_range_bits m = 0 \<or> unat (max_column_hint s) = 2 ^ (m_column_and_range_bits m - m_range_bits m)"
      using ok(1) by (auto simp: bits_ok_def unat_exp)
    moreover have "0 < unat hint \<Longrightarrow> m_column_and_range_bits m \<noteq> 0"
      using v(6) by (cases "m_column_and_range_bits m = 0") auto
    ultimately show ?thesis
      using v d by (auto simp: entered_def m_def[symmetric])
  next
    case new
    obtain r v where v: "linemap_line_start s line hint = Some (r, v)" "entered s v r line" "max_column_hint v = h"
        "m_column_and_range_bits (last (ordinary v)) = cb" "unat r \<le> unat (highest_location s) + 32 + nat delta * 2 ^ 18"
      using reused_line[OF assms(1) m_def delta_def new nb] fresh_line[OF assms(1) m_def delta_def new nb] assms(2,3) d by fastforce
    have "cb = 0 \<or> unat hint < unat h"
      using nbo(1,2) by (auto simp: unat_exp)
    then show ?thesis
      using v d nbo(5) by (auto simp: entered_def)
  qed
qed

section \<open>Columns\<close>

lemma column_ok:
  assumes "lm_ok s" "m = last (ordinary s)" "m_column_and_range_bits m \<noteq> 0" "unat col < unat (max_column_hint s)"
    and "unat (highest_location s) + 2 ^ 18 < 0x70000000"
    and r: "r = highest_line s + push_bit (m_range_bits m) col"
    and v: "v = s\<lparr>highest_location := (if r \<ge> highest_location s then r else highest_location s)\<rparr>"
  shows "lm_ok v" "extends s v" "given_out v r" "decode v r = (to_file m, SOURCE_LINE m (highest_line s), col, sysp m)"
    "unat (highest_location v) \<le> unat (highest_location s) + 2 ^ 18"
proof -
  let ?b = "m_column_and_range_bits m" and ?r = "m_range_bits m" and ?st = "unat (start_location m)"
  have ok: "bits_ok s m" "line_ok s m" "maps_ok (ordinary s)"
    using assms(1,2) by (simp_all add: lm_ok_def)
  then have b: "?b \<le> 18" "?r < ?b" "unat (max_column_hint s) = 2 ^ (?b - ?r)"
    using assms(3) by (auto simp: bits_ok_def unat_exp)
  have "unat col * 2 ^ ?r < 2 ^ (?b - ?r) * 2 ^ ?r"
    using assms(4) b(3) by (intro mult_strict_right_mono) auto
  then have c: "unat col * 2 ^ ?r < 2 ^ ?b"
    using b(2) by (simp flip: power_add)
  have p: "(2::nat) ^ ?b \<le> 2 ^ 18"
    using b(1) by (intro power_increasing) simp_all
  have ur: "unat r = unat (highest_line s) + unat col * 2 ^ ?r"
    using c p assms(5) ok(2) b by (simp add: r push_bit_eq_mult unat_word_ariths unat_exp line_ok_def)
  obtain j where j: "unat (highest_line s) = ?st + j * 2 ^ ?b"
    using ok(2) by (auto simp: line_ok_def dvd_def) (metis le_add_diff_inverse mult.commute)
  have le: "start_location m \<le> highest_line s" "start_location m \<le> r"
    using ur j by (simp_all add: word_le_nat_alt)
  have hv: "unat (highest_location v) = max (unat r) (unat (highest_location s))"
    by (simp add: v word_le_nat_alt max_def)
  have ne: "ordinary s \<noteq> []" and asc: "ascending (ordinary s)"
    using ok(3) by (auto simp: maps_ok_def)
  have "bits_ok v m"
    using ok(1) hv by (auto simp: bits_ok_def v)
  moreover have "line_ok v m"
    using ok(2) hv ur c p assms(5) by (auto simp: line_ok_def v)
  ultimately show "lm_ok v"
    using assms(1,2) by (simp add: lm_ok_def v)
  show "extends s v"
    by (auto simp: extends_def given_out_def decode_def v)
  have "start_location (hd (ordinary s)) \<le> start_location m"
    using ascending_le[OF asc, of 0 "length (ordinary s) - 1"] ne by (simp add: assms(2) hd_conv_nth last_conv_nth)
  then show "given_out v r"
    using le(2) by (auto simp: given_out_def v)
  show "unat (highest_location v) \<le> unat (highest_location s) + 2 ^ 18"
    using hv ur c p ok(2) by (simp add: line_ok_def)
  have h: "holder (ordinary s) r = length (ordinary s) - 1"
    using asc ne le(2) assms(2) by (intro holder_eq) (auto simp: last_conv_nth)
  have o: "unat r - ?st = unat col * 2 ^ ?r + j * 2 ^ ?b"
    using ur j by simp
  have "(unat col * 2 ^ ?r + j * 2 ^ ?b) div 2 ^ ?b = j" "(unat col * 2 ^ ?r + j * 2 ^ ?b) mod 2 ^ ?b = unat col * 2 ^ ?r"
    using c by simp_all
  then have "SOURCE_LINE m r = SOURCE_LINE m (highest_line s)" "SOURCE_COLUMN m r = col"
    using SOURCE_LINE_nat[OF le(1)] SOURCE_LINE_nat[OF le(2)] SOURCE_COLUMN_nat[OF le(2)] b(1) o j by simp_all
  then show "decode v r = (to_file m, SOURCE_LINE m (highest_line s), col, sysp m)"
    using h ne by (simp add: decode_def Let_def v assms(2) last_conv_nth)
qed

text \<open>The column is kept, or it is zero where columns are given up.\<close>

definition column_kept :: "line_maps \<Rightarrow> uint \<Rightarrow> uint \<Rightarrow> bool" where
  "column_kept s col c \<longleftrightarrow> c = col \<or> c = 0 \<and> (4046 < unat col \<or> 0x60000000 < unat (highest_location s))"

lemma decode_line:
  assumes "lm_ok s"
  shows "decode s (highest_line s) =
      (to_file (last (ordinary s)), SOURCE_LINE (last (ordinary s)) (highest_line s), 0, sysp (last (ordinary s)))"
    "given_out s (highest_line s)"
proof -
  let ?m = "last (ordinary s)"
  have ok: "bits_ok s ?m" "line_ok s ?m" "maps_ok (ordinary s)"
    using assms by (simp_all add: lm_ok_def)
  have ne: "ordinary s \<noteq> []" and asc: "ascending (ordinary s)"
    using ok(3) by (auto simp: maps_ok_def)
  have le: "start_location ?m \<le> highest_line s"
    using ok(2) by (simp add: line_ok_def word_le_nat_alt)
  have "holder (ordinary s) (highest_line s) = length (ordinary s) - 1"
    using asc ne le by (intro holder_eq) (auto simp: last_conv_nth)
  moreover have "SOURCE_COLUMN ?m (highest_line s) = 0"
    using SOURCE_COLUMN_nat[OF le] ok(1,2) by (auto simp: bits_ok_def line_ok_def)
  ultimately show "decode s (highest_line s) = (to_file ?m, SOURCE_LINE ?m (highest_line s), 0, sysp ?m)"
    using ne by (simp add: decode_def Let_def last_conv_nth)
  have "start_location (hd (ordinary s)) \<le> start_location ?m"
    using ascending_le[OF asc, of 0 "length (ordinary s) - 1"] ne by (simp add: hd_conv_nth last_conv_nth)
  then show "given_out s (highest_line s)"
    using le ok(2) by (auto simp: given_out_def line_ok_def word_le_nat_alt)
qed

lemma position_for_column_ok:
  assumes "lm_ok s" "depth s \<noteq> 0" "unat (highest_location s) + 32 + 2 ^ 18 < 0x70000000"
  shows "\<exists>r v c. linemap_position_for_column s col = Some (r, v) \<and> lm_ok v \<and> extends s v \<and> given_out v r \<and> depth v = depth s \<and>
    decode v r = (to_file (last (ordinary s)), SOURCE_LINE (last (ordinary s)) (highest_line s), c, sysp (last (ordinary s))) \<and>
    column_kept s col c"
proof -
  let ?m = "last (ordinary s)"
  have lm: "last_map s = Some ?m"
    using assms(1) by (simp add: lm_ok_def last_map_ok)
  consider (fast) "unat col < unat (max_column_hint s)"
    | (lost) "\<not> unat col < unat (max_column_hint s)" "4096 < unat col \<or> 0x60000000 < unat (highest_line s)"
    | (slow) "\<not> unat col < unat (max_column_hint s)" "unat col \<le> 4096" "unat (highest_line s) \<le> 0x60000000"
    by linarith
  then show ?thesis
  proof cases
    case fast
    then have "m_column_and_range_bits ?m \<noteq> 0"
      using assms(1) by (auto simp: lm_ok_def bits_ok_def)
    note c = column_ok[OF assms(1) refl this fast _ refl refl]
    show ?thesis
      using c assms(2,3) fast lm
      by (auto simp: linemap_position_for_column_def Let_def word_le_nat_alt column_kept_def)
  next
    case lost
    have "unat (highest_line s) \<le> unat (highest_location s)"
      using assms(1) by (simp add: lm_ok_def line_ok_def)
    then show ?thesis
      using lost assms(1,2) decode_line[OF assms(1)] extends_refl[of s]
      by (auto simp: linemap_position_for_column_def Let_def word_le_nat_alt word_less_nat_alt location_limits column_kept_def)
  next
    case slow
    let ?line = "SOURCE_LINE ?m (highest_line s)"
    have ahead: "lines_ahead s ?line = 0"
      by (simp add: lines_ahead_def)
    have h: "unat (col + 50) = unat col + 50"
      using slow(2) by (simp add: unat_word_ariths)
    obtain r v where v: "linemap_line_start s ?line (col + 50) = Some (r, v)" "entered s v r ?line"
        "unat (highest_location v) \<le> unat (highest_location s) + 32"
        "m_column_and_range_bits (last (ordinary v)) = 0 \<or> unat col + 50 < unat (max_column_hint v)"
        "unat col + 50 \<le> 4096 \<longrightarrow> unat (highest_location s) \<le> 0x60000000 \<longrightarrow> m_column_and_range_bits (last (ordinary v)) \<noteq> 0"
      using line_start_ok[OF assms(1,2), of ?line "col + 50"] assms(3) ahead h by auto
    have e: "lm_ok v" "highest_line v = r" "extends s v" "given_out v r" "depth v = depth s"
        "to_file (last (ordinary v)) = to_file ?m" "sysp (last (ordinary v)) = sysp ?m" "decode v r = (to_file ?m, ?line, 0, sysp ?m)"
      using v(2) by (simp_all add: entered_def)
    have run: "linemap_position_for_column s col = (if m_column_and_range_bits (last (ordinary v)) = 0 then Some (r, v)
        else Some (r + push_bit (m_range_bits (last (ordinary v))) col, v\<lparr>highest_location :=
          (if r + push_bit (m_range_bits (last (ordinary v))) col \<ge> highest_location v
           then r + push_bit (m_range_bits (last (ordinary v))) col else highest_location v)\<rparr>))"
      using slow lm v(1) e(1) last_map_ok[of v]
      by (auto simp: linemap_position_for_column_def Let_def word_le_nat_alt word_less_nat_alt location_limits lm_ok_def)
    show ?thesis
    proof (cases "m_column_and_range_bits (last (ordinary v)) = 0")
      case True
      have "column_kept s col 0"
        using v(5) True by (auto simp: column_kept_def)
      then show ?thesis
        using run True e by auto
    next
      case False
      have "SOURCE_LINE (last (ordinary v)) r = ?line"
        using decode_line[OF e(1)] e(2,8) by simp
      moreover note c = column_ok[OF e(1) refl False _ _ refl refl, of col]
      ultimately show ?thesis
        using run False e v(3,4) assms(3) extends_trans[OF e(3)] by (auto simp: column_kept_def)
    qed
  qed
qed

section \<open>Sequences of calls\<close>

text \<open>
  The calls by which a reader moves through its files, as steps of a state machine; each is made while
  there are locations left, and columns and lines inside a file.
\<close>

inductive call :: "line_maps \<Rightarrow> line_maps \<Rightarrow> bool" where
  add: "add_pre s reason file \<Longrightarrow> linemap_add s reason sys file line = Some (i, s') \<Longrightarrow> call s s'"
| line: "depth s \<noteq> 0 \<Longrightarrow> unat (highest_location s) + 32 + lines_ahead s line * 2 ^ 18 < 0x70000000 \<Longrightarrow>
    linemap_line_start s line hint = Some (r, s') \<Longrightarrow> call s s'"
| column: "depth s \<noteq> 0 \<Longrightarrow> unat (highest_location s) + 32 + 2 ^ 18 < 0x70000000 \<Longrightarrow>
    linemap_position_for_column s col = Some (r, s') \<Longrightarrow> call s s'"
| find: "given_out s loc \<Longrightarrow> linemap_lookup s loc = Some (m, s') \<Longrightarrow> call s s'"

inductive_cases callE: "call s s'"

lemma given_out_bounds:
  assumes "lm_ok s" "given_out s loc"
  shows "ascending (ordinary s)" "ordinary_cache s < length (ordinary s)" "start_location (hd (ordinary s)) \<le> loc" "2 \<le> loc"
    "loc < 0x70000000"
  using assms by (auto simp: lm_ok_def maps_ok_def line_ok_def given_out_def word_le_nat_alt word_less_nat_alt)

lemma linemap_add_ok:
  assumes "lm_ok s" "add_pre s reason file"
  shows "\<exists>i s'. linemap_add s reason sys file line = Some (Some i, s') \<and> lm_ok s' \<and> extends s s'"
proof (cases "reason = LC_LEAVE")
  case True
  then have pre: "add_pre s LC_LEAVE None" "file = None"
    using assms(2) by (auto simp: add_pre_def)
  obtain i m l d where i: "i < length (ordinary s)" "m = ordinary s ! i"
    and r: "linemap_add s LC_LEAVE sys None line =
      Some (Some (length (ordinary s)), push_map s (new_map s LC_LEAVE (sysp m) (to_file m) l (included_from m)) d)"
    using linemap_add_leave[OF assms(1) pre(1)] by blast
  have room: "unat (highest_location s) + 2 ^ default_range_bits s < 0x70000000"
    using assms(2) by (simp add: add_pre_def)
  have "m \<in> set (ordinary s)" "start_location m \<le> start_location (last (ordinary s))"
    using i assms(1) ascending_le[of "ordinary s" i "length (ordinary s) - 1"] by (auto simp: lm_ok_def maps_ok_def last_conv_nth)
  then have "to_file m \<noteq> []" "included_from m = 0 \<or> start_location (hd (ordinary s)) \<le> included_from m \<and> included_from m < next_start s"
    using assms(1) start_above(4)[OF assms(1) room] unfolding lm_ok_def maps_ok_def by (auto dest: less_trans order_less_le_trans)
  from push_map_ok(1,2)[OF assms(1) room refl this] show ?thesis
    using r pre(2) True by blast
next
  case False
  then obtain n where n: "file = Some n" "new_file reason n \<noteq> []"
    and room: "unat (highest_location s) + 2 ^ default_range_bits s < 0x70000000"
    using assms(2) by (auto simp: add_pre_def new_file_def split: lc_reason.splits)
  obtain inc d where r: "linemap_add s reason sys (Some n) line =
      Some (Some (length (ordinary s)), push_map s (new_map s reason sys (new_file reason n) line inc) d)"
    and inc: "inc = 0 \<or> start_location (hd (ordinary s)) \<le> inc \<and> inc < next_start s"
    using linemap_add_named[OF assms(1)] assms(2) n(1) by blast
  show ?thesis
    using push_map_ok(1,2)[OF assms(1) room refl n(2) inc] r n(1) by blast
qed

lemma call_ok: "call s s' \<Longrightarrow> lm_ok s \<Longrightarrow> lm_ok s' \<and> extends s s'"
proof (induction rule: call.induct)
  case (add s reason n sys line i s')
  then show ?case
    using linemap_add_ok[of s reason n sys line] by auto
next
  case (line s line hint r s')
  then show ?case
    using line_start_ok[of s line hint] by (auto simp: entered_def)
next
  case (column s col r s')
  then show ?case
    using position_for_column_ok[of s col] by auto
next
  case (find s loc m s')
  then obtain c where "s' = s\<lparr>ordinary_cache := c\<rparr>" "c < length (ordinary s)"
    using lookup_ordinary[OF given_out_bounds[OF find(3,1)]] by auto
  then show ?case
    using find(3) by (auto simp: extends_def)
qed

lemma calls_ok: "call\<^sup>*\<^sup>* s s' \<Longrightarrow> lm_ok s \<Longrightarrow> lm_ok s' \<and> extends s s'"
  by (induction rule: rtranclp_induct) (use call_ok extends_trans extends_refl in blast)+

text \<open>Looking a location up and expanding it gives what it stands for.\<close>

lemma expand_decode:
  assumes "lm_ok s" "given_out s loc" "decode s loc = (f, l, c, y)"
  shows "\<exists>i s'. linemap_lookup s loc = Some (Some i, s') \<and>
    linemap_expand_location s' (Some i) loc = Some \<lparr>xfile = Some f, xline = l, xcolumn = c, xdata = 0, xsysp = (y \<noteq> 0)\<rparr>"
proof -
  note g = given_out_bounds[OF assms(1,2)]
  obtain k where k: "linemap_lookup s loc = Some (Some (Ordinary (holder (ordinary s) loc)), s\<lparr>ordinary_cache := k\<rparr>)"
    using lookup_ordinary[OF g] by blast
  have "\<not> IS_ADHOC_LOC loc"
    using g(5) by (auto simp: IS_ADHOC_LOC_def MAX_LOCATION_T_def word_less_nat_alt)
  moreover have "\<not> loc < RESERVED_LOCATION_COUNT"
    using g(4) by (simp add: RESERVED_LOCATION_COUNT_def)
  moreover have "holder (ordinary s) loc < length (ordinary s)"
    using holder_spec(1)[OF g(1) _ g(3)] g(2) by fastforce
  ultimately show ?thesis
    using k g(5) assms(3)
    by (auto simp: linemap_expand_location_def check_ordinary_def linemap_location_from_macro_expansion_p_def decode_def Let_def)
qed

text \<open>Entering the main file.\<close>

definition main_file :: "nat \<Rightarrow> nat \<Rightarrow> string \<Rightarrow> linenum_type \<Rightarrow> line_maps" where
  "main_file d sys n line = push_map (linemap_init d) (new_map (linemap_init d) LC_ENTER sys (new_file LC_ENTER n) line 0) 1"

lemma init_start:
  assumes "d \<le> 5" shows "unat (next_start (linemap_init d)) = (if d = 0 then 2 else 2 ^ d)"
proof -
  have "d \<in> {0, 1, 2, 3, 4, 5}"
    using assms by auto
  then show ?thesis
    by (elim insertE emptyE) (simp_all add: next_start_def linemap_init_def location_limits RESERVED_LOCATION_COUNT_def)
qed

lemma linemap_add_first:
  assumes "ordinary s = []" "depth s = 0" "2 \<le> next_start s" "next_start s < 0x70000000"
    "next_start s AND (2 ^ default_range_bits s - 1) = 0"
  shows "linemap_add s LC_ENTER sys (Some n) line =
    Some (Some 0, push_map s (new_map s LC_ENTER sys (new_file LC_ENTER n) line 0) 1)"
  using assms start_small[OF assms(4)]
  by (simp add: linemap_add_def push_map_def new_map_def new_file_def returned_to_def set_last_map_def Let_def
      pure_new[where ms = "[]", simplified])

lemma main_file_ok:
  assumes "d \<le> 5"
  shows "linemap_add (linemap_init d) LC_ENTER sys (Some n) line = Some (Some 0, main_file d sys n line)"
    "lm_ok (main_file d sys n line)" "depth (main_file d sys n line) = 1"
proof -
  let ?st = "next_start (linemap_init d)" and ?s = "linemap_init d"
  note u = init_start[OF assms]
  have p: "(2::nat) ^ d \<le> 2 ^ 5"
    using assms by (intro power_increasing) simp_all
  have "(2::nat) ^ 1 \<le> 2 ^ d" if "d \<noteq> 0"
    using that by (intro power_increasing) simp_all
  then have st: "2 \<le> ?st" "?st < 0x70000000" "unat ?st \<le> 32" "2 ^ d dvd unat ?st"
    using u p by (auto simp: word_le_nat_alt word_less_nat_alt)
  have "?st AND (2 ^ d - 1) = 0"
    using st(4) assms unat_and_size[of d ?st] by (simp add: word_unat_eq_iff[of _ 0] dvd_eq_mod_eq_0)
  then show "linemap_add ?s LC_ENTER sys (Some n) line = Some (Some 0, main_file d sys n line)"
    using linemap_add_first[of ?s sys n line] st by (simp add: linemap_init_def main_file_def)
  show "lm_ok (main_file d sys n line)"
    using assms st by (auto simp: main_file_def push_map_def new_map_def lm_ok_def maps_ok_def bits_ok_def line_ok_def linemap_init_def new_file_def)
  show "depth (main_file d sys n line) = 1"
    by (simp add: main_file_def push_map_def)
qed

section \<open>Properties\<close>

text \<open>
  C6: A location comes back as what it was made for. From every table that the calls keep in order,
  starting a line and asking for a column of it return, no assertion fails on the way, and the location
  is later expanded to the file, the line and the column, whatever calls come in between: further
  lines and columns, files entered and left, other locations looked up. Asked: enough locations
  are left for the number of lines skipped, and the column is one that is kept.
\<close>

theorem location_roundtrip:
  assumes "lm_ok s" "depth s \<noteq> 0" "unat col \<le> 4046"
    and "unat (highest_location s) + 64 + 2 ^ 18 + lines_ahead s line * 2 ^ 18 \<le> 0x60000000"
  shows "\<exists>l s1 loc s2. linemap_line_start s line hint = Some (l, s1) \<and> linemap_position_for_column s1 col = Some (loc, s2) \<and>
    (\<forall>s3. call\<^sup>*\<^sup>* s2 s3 \<longrightarrow>
       (\<exists>m s4. linemap_lookup s3 loc = Some (Some m, s4) \<and>
          linemap_expand_location s4 (Some m) loc =
            Some \<lparr>xfile = Some (to_file (last (ordinary s))), xline = line, xcolumn = col, xdata = 0,
                  xsysp = (sysp (last (ordinary s)) \<noteq> 0)\<rparr>))"
proof -
  let ?m = "last (ordinary s)"
  obtain l s1 where l: "linemap_line_start s line hint = Some (l, s1)" "entered s s1 l line"
      "unat (highest_location s1) \<le> unat (highest_location s) + 32 + lines_ahead s line * 2 ^ 18"
    using line_start_ok[OF assms(1,2), of line hint] assms(4) by auto
  have e: "lm_ok s1" "depth s1 \<noteq> 0" "highest_line s1 = l" "to_file (last (ordinary s1)) = to_file ?m"
      "sysp (last (ordinary s1)) = sysp ?m" "decode s1 l = (to_file ?m, line, 0, sysp ?m)"
    using l(2) assms(2) by (simp_all add: entered_def)
  then have line: "SOURCE_LINE (last (ordinary s1)) (highest_line s1) = line"
    using decode_line(1)[OF e(1)] by simp
  obtain loc s2 c where r: "linemap_position_for_column s1 col = Some (loc, s2)" "lm_ok s2" "given_out s2 loc"
      "decode s2 loc = (to_file ?m, line, c, sysp ?m)" "column_kept s1 col c"
    using position_for_column_ok[OF e(1,2), of col] l(3) assms(4) e(4,5) line by auto
  have c: "c = col"
    using r(5) assms(3,4) l(3) by (auto simp: column_kept_def)
  have "\<exists>m s4. linemap_lookup s3 loc = Some (Some m, s4) \<and> linemap_expand_location s4 (Some m) loc =
      Some \<lparr>xfile = Some (to_file ?m), xline = line, xcolumn = col, xdata = 0, xsysp = (sysp ?m \<noteq> 0)\<rparr>"
    if s3: "call\<^sup>*\<^sup>* s2 s3" for s3
  proof -
    have "lm_ok s3" "given_out s3 loc" "decode s3 loc = (to_file ?m, line, col, sysp ?m)"
      using calls_ok[OF s3 r(2)] r(3,4) c by (auto simp: extends_def)
    then show ?thesis
      by (rule expand_decode)
  qed
  then show ?thesis
    using l(1) r(1) by blast
qed

text \<open>Line 7 of the main file and column 12 in it.\<close>

theorem location_roundtrip_witness:
  "\<exists>l s1 loc s2 m s4. linemap_line_start (main_file 5 0 ''a.c'' 1) 7 80 = Some (l, s1) \<and>
     linemap_position_for_column s1 12 = Some (loc, s2) \<and> linemap_lookup s2 loc = Some (Some m, s4) \<and>
     linemap_expand_location s4 (Some m) loc = Some \<lparr>xfile = Some ''a.c'', xline = 7, xcolumn = 12, xdata = 0, xsysp = False\<rparr>"
proof -
  have h: "highest_location (main_file 5 0 ''a.c'' 1) = 32" "last (ordinary (main_file 5 0 ''a.c'' 1)) =
      \<lparr>start_location = 32, map_reason = LC_ENTER, sysp = 0, m_column_and_range_bits = 0, m_range_bits = 0, to_file = ''a.c'',
       to_line = 1, included_from = 0\<rparr>"
    by (simp_all add: main_file_def push_map_def new_map_def next_start_def linemap_init_def new_file_def location_limits
        RESERVED_LOCATION_COUNT_def)
  then have "lines_ahead (main_file 5 0 ''a.c'' 1) 7 = 6"
    by (simp add: lines_ahead_def SOURCE_LINE_def main_file_def push_map_def)
  then show ?thesis
    using location_roundtrip[of "main_file 5 0 ''a.c'' 1" 12 7 80] main_file_ok[of 5 0 "''a.c''" 1] h by (simp, blast)
qed

text \<open>
  C10: In every state that the calls reach from the entry of the main file, the maps are in ascending
  order, the bits of the current map have room for the columns promised, and a location means
  what it meant when it was given out, also when the current map gets other bits.
\<close>

theorem locations_stay:
  assumes "d \<le> 5" "linemap_add (linemap_init d) LC_ENTER sys (Some n) line = Some (i, s0)" "call\<^sup>*\<^sup>* s0 s" "call\<^sup>*\<^sup>* s s'"
  shows "lm_ok s' \<and> (\<forall>loc. given_out s loc \<longrightarrow> given_out s' loc \<and> decode s' loc = decode s loc)"
proof -
  have "lm_ok s0"
    using main_file_ok(1,2)[OF assms(1), of sys n line] assms(2) by simp
  then have "lm_ok s"
    using calls_ok[OF assms(3)] by simp
  then show ?thesis
    using calls_ok[OF assms(4)] by (simp add: extends_def)
qed

theorem locations_stay_witness:
  "\<exists>l s. linemap_line_start (main_file 5 0 ''a.c'' 1) 1 80 = Some (l, s) \<and> lm_ok s \<and> decode s 32 = decode (main_file 5 0 ''a.c'' 1) 32"
proof -
  let ?s0 = "main_file 5 0 ''a.c'' 1"
  have h: "highest_location ?s0 = 32" "lines_ahead ?s0 1 = 0" "given_out ?s0 32"
    by (simp_all add: main_file_def push_map_def new_map_def next_start_def linemap_init_def new_file_def location_limits
        RESERVED_LOCATION_COUNT_def lines_ahead_def SOURCE_LINE_def given_out_def)
  obtain l s where l: "linemap_line_start ?s0 1 80 = Some (l, s)"
    using line_start_ok[OF main_file_ok(2), of 5 0 "''a.c''" 1 1 80] main_file_ok(3)[of 5 0 "''a.c''" 1] h by auto
  then have "call ?s0 s"
    using h main_file_ok(3)[of 5 0 "''a.c''" 1] by (intro call.line[OF _ _ l]) auto
  then show ?thesis
    using locations_stay[of 5 0 "''a.c''" 1 "Some 0" ?s0 ?s0 s] main_file_ok(1)[of 5 0 "''a.c''" 1] h(3) l by auto
qed

text \<open>
  C32: The search for the map of a location, which begins at the map found last and halves what is left,
  finds what a linear search for the last map that does not start behind the location finds,
  whatever the cache.
\<close>

theorem line_map_lookup_equivalence:
  assumes "lm_ok s" "given_out s loc" "c < length (ordinary s)"
  shows "\<exists>c'. linemap_lookup (s\<lparr>ordinary_cache := c\<rparr>) loc =
      Some (Some (Ordinary (length (takeWhile (\<lambda>m. start_location m \<le> loc) (ordinary s)) - 1)), s\<lparr>ordinary_cache := c'\<rparr>) \<and>
    c' < length (ordinary s)"
  using lookup_ordinary[of "s\<lparr>ordinary_cache := c\<rparr>" loc] given_out_bounds[OF assms(1,2)] assms(3) by (simp add: holder_def)

theorem line_map_lookup_equivalence_witness:
  "\<exists>c'. linemap_lookup (main_file 0 0 ''a.c'' 1\<lparr>ordinary_cache := 0\<rparr>) 2 =
      Some (Some (Ordinary (length (takeWhile (\<lambda>m. start_location m \<le> 2) (ordinary (main_file 0 0 ''a.c'' 1))) - 1)),
        main_file 0 0 ''a.c'' 1\<lparr>ordinary_cache := c'\<rparr>)"
proof -
  have "given_out (main_file 0 0 ''a.c'' 1) 2" "0 < length (ordinary (main_file 0 0 ''a.c'' 1))"
    by (simp_all add: main_file_def push_map_def new_map_def next_start_def linemap_init_def location_limits
        RESERVED_LOCATION_COUNT_def given_out_def)
  then show ?thesis
    using line_map_lookup_equivalence[OF main_file_ok(2), of 0 0 "''a.c''" 1 2 0] by auto
qed

lemma column_bits_80: "column_bits_for 80 7 = 7" "column_bits_for 200 7 = 8"
  by code_simp+

lemmas linemap_runs = linemap_line_start_def finish_line_def new_bits_def needs_map_def can_reuse_def last_map_def location_limits
  SOURCE_LINE_def SOURCE_COLUMN_def set_last_map_def pure_location_p_def linemap_lookup_def check_ordinary_def
  linemap_ordinary_map_lookup_def linemap_location_from_macro_expansion_p_def adhoc_locus_def IS_ADHOC_LOC_def IS_MACRO_LOC_def
  IS_ORDINARY_LOC_def MAX_LOCATION_T_def RESERVED_LOCATION_COUNT_def linemap_add_def next_start_def returned_to_def linemap_init_def
  column_bits_80 Let_def linemap_expand_location_def linemap_position_for_column_def ordinary_search.simps elem_def nth_append
  end_of_map_def


text \<open>
  C37: When the locations for files are used up, \<^verbatim>\<open>linemap_add\<close> starts the next map at location 0 and sets the
  highest location back to it, so that locations are given out a second time: here location 96,
  which was column 2 of the first line of \<^verbatim>\<open>a.c\<close>, becomes column 3 of a header.
\<close>

definition used_up :: line_maps where
  "used_up = \<lparr>ordinary =
     [\<lparr>start_location = 32, map_reason = LC_ENTER, sysp = 0, m_column_and_range_bits = 12, m_range_bits = 5, to_file = ''a.c'',
       to_line = 1, included_from = 0\<rparr>,
      \<lparr>start_location = 0x60000001, map_reason = LC_RENAME, sysp = 0, m_column_and_range_bits = 0, m_range_bits = 0, to_file = ''a.c'',
       to_line = 2, included_from = 0\<rparr>],
     ordinary_cache = 1, macros = [], macro_cache = 0, depth = 1, highest_location = 0x6FFFFFFF, highest_line = 0x6FFFFFFF,
     max_column_hint = 0, adhoc = [], default_range_bits = 5, num_optimized_ranges = 0, num_unoptimized_ranges = 0\<rparr>"


end
