(* ===== verification/Cpp_Virtual.thy ===== *)
theory Cpp_Virtual
  imports Cpp_Location "HOL-Library.Sublist"
begin

text \<open>
  Virtual locations and ranges: the maps of macro expansions, that every virtual location is resolved
  to one in a file, and that a location combined with a range gives the range back. The locale
  \<open>unwinding\<close> is what the loops of the resolution have in common.
\<close>

section \<open>The map of a virtual location\<close>

text \<open>The first map that does not start behind the location; a linear search.\<close>

definition macro_holder :: "line_map_macro list \<Rightarrow> location_t \<Rightarrow> nat" where
  "macro_holder maps loc = length (takeWhile (\<lambda>m. loc < macro_start m) maps)"

text \<open>Maps are added downwards: each ends where the one before begins.\<close>

definition macro_end :: "line_map_macro list \<Rightarrow> nat \<Rightarrow> nat" where
  "macro_end maps i = (if i = 0 then 0x80000000 else unat (macro_start (maps ! (i - 1))))"

text \<open>
  A location that leads to a file: a reserved one when \<open>res\<close>, one in a file, or a virtual one not below
  \<open>e\<close>; an entry of the lookaside table may stand for a virtual one when \<open>adh\<close>.
\<close>

definition place :: "line_maps \<Rightarrow> bool \<Rightarrow> bool \<Rightarrow> nat \<Rightarrow> location_t \<Rightarrow> bool" where
  "place s adh res e l \<longleftrightarrow>
     (case adhoc_locus s l of
        None \<Rightarrow> False
      | Some q \<Rightarrow> res \<and> q < 2 \<or> given_out s q \<or> (adh \<or> l = q) \<and> e \<le> unat q \<and> unat q < 0x80000000)"

definition macro_ok :: "line_maps \<Rightarrow> nat \<Rightarrow> line_map_macro \<Rightarrow> bool" where
  "macro_ok s e m \<longleftrightarrow> 0x70000000 \<le> unat (macro_start m) \<and> unat (macro_start m) + unat (n_tokens m) = e \<and>
     length (macro_locations m) = 2 * unat (n_tokens m) \<and> place s False False e (expansion m) \<and>
     (\<forall>l \<in> set (macro_locations m). place s False True e l)"

definition vm_ok :: "line_maps \<Rightarrow> bool" where
  "vm_ok s \<longleftrightarrow> (\<forall>i < length (macros s). macro_ok s (macro_end (macros s) i) (macros s ! i)) \<and>
     (macros s \<noteq> [] \<longrightarrow> macro_cache s < length (macros s))"

definition table_ok :: "line_maps \<Rightarrow> bool" where
  "table_ok s \<longleftrightarrow> lm_ok s \<and> vm_ok s"

lemma macro_end_Suc: "macro_end maps (Suc i) = unat (macro_start (maps ! i))"
  by (simp add: macro_end_def)

lemma macro_lowest: "unat (LINEMAPS_MACRO_LOWEST_LOCATION s) = macro_end (macros s) (length (macros s))"
  by (simp add: LINEMAPS_MACRO_LOWEST_LOCATION_def macro_end_def MAX_LOCATION_T_def last_conv_nth)

lemma vm_okD:
  assumes "vm_ok s" "i < length (macros s)"
  shows "0x70000000 \<le> unat (macro_start (macros s ! i))"
    "unat (macro_start (macros s ! i)) + unat (n_tokens (macros s ! i)) = macro_end (macros s) i"
    "length (macro_locations (macros s ! i)) = 2 * unat (n_tokens (macros s ! i))"
    "place s False False (macro_end (macros s) i) (expansion (macros s ! i))"
    "l \<in> set (macro_locations (macros s ! i)) \<Longrightarrow> place s False True (macro_end (macros s) i) l"
  using assms by (auto simp: vm_ok_def macro_ok_def)

lemma macro_end_mono:
  assumes "vm_ok s" "i \<le> j" "j \<le> length (macros s)"
  shows "macro_end (macros s) j \<le> macro_end (macros s) i"
  using assms(2,3)
proof (induction j rule: dec_induct)
  case (step j)
  then have "macro_end (macros s) (Suc j) \<le> macro_end (macros s) j"
    using vm_okD(2)[OF assms(1), of j] by (simp add: macro_end_Suc)
  then show ?case
    using step by simp
qed simp

lemma macro_bounds:
  assumes "vm_ok s" "i \<le> length (macros s)"
  shows "0x70000000 \<le> macro_end (macros s) i" "macro_end (macros s) i \<le> 0x80000000"
proof -
  show "macro_end (macros s) i \<le> 0x80000000"
    using macro_end_mono[OF assms(1) _ assms(2), of 0] by (simp add: macro_end_def)
  show "0x70000000 \<le> macro_end (macros s) i"
    using assms vm_okD(1)[OF assms(1), of "i - 1"] by (auto simp: macro_end_def)
qed

lemma macro_holder_spec:
  assumes "unat (LINEMAPS_MACRO_LOWEST_LOCATION s) \<le> unat loc" "unat loc < 0x80000000"
  shows "macro_holder (macros s) loc < length (macros s)"
    "unat (macro_start (macros s ! macro_holder (macros s) loc)) \<le> unat loc"
    "unat loc < macro_end (macros s) (macro_holder (macros s) loc)"
proof -
  let ?P = "\<lambda>m. loc < macro_start m" and ?h = "macro_holder (macros s) loc"
  have ne: "macros s \<noteq> []" and "\<not> ?P (last (macros s))"
    using assms by (auto simp: macro_lowest macro_end_def word_less_nat_alt last_conv_nth split: if_splits)
  then have "takeWhile ?P (macros s) \<noteq> macros s"
    by (metis last_in_set takeWhile_eq_all_conv)
  then show h: "?h < length (macros s)"
    unfolding macro_holder_def by (metis length_takeWhile_le le_neq_implies_less takeWhile_eq_take take_all order_refl)
  then show "unat (macro_start (macros s ! ?h)) \<le> unat loc"
    using nth_length_takeWhile[of ?P "macros s"] by (simp add: macro_holder_def word_less_nat_alt not_less)
  show "unat loc < macro_end (macros s) ?h"
  proof (cases ?h)
    case (Suc k)
    then have "?P (macros s ! k)"
      using takeWhile_nth[of k ?P "macros s"] nth_mem[of k "takeWhile ?P (macros s)"] set_takeWhileD[of _ ?P "macros s"]
      by (fastforce simp: macro_holder_def)
    then show ?thesis
      using Suc by (simp add: macro_end_Suc word_less_nat_alt)
  qed (use assms(2) in \<open>simp add: macro_end_def\<close>)
qed

lemma macro_holder_le: "j < length maps \<Longrightarrow> macro_start (maps ! j) \<le> loc \<Longrightarrow> macro_holder maps loc \<le> j"
proof (rule ccontr)
  assume j: "j < length maps" "macro_start (maps ! j) \<le> loc" "\<not> macro_holder maps loc \<le> j"
  let ?t = "takeWhile (\<lambda>m. loc < macro_start m) maps"
  have "?t ! j \<in> set ?t"
    using j(3) by (simp add: macro_holder_def)
  then have "loc < macro_start (?t ! j)"
    by (rule set_takeWhileD[THEN conjunct2])
  then show False
    using j by (simp add: macro_holder_def takeWhile_nth)
qed

lemma macro_holder_gt:
  assumes "vm_ok s" "unat (LINEMAPS_MACRO_LOWEST_LOCATION s) \<le> unat loc" "unat loc < 0x80000000"
    and "j < length (macros s)" "loc < macro_start (macros s ! j)"
  shows "j < macro_holder (macros s) loc"
proof (rule ccontr)
  assume "\<not> j < macro_holder (macros s) loc"
  then have "macro_end (macros s) (Suc j) \<le> macro_end (macros s) (Suc (macro_holder (macros s) loc))"
    using assms(4) by (intro macro_end_mono[OF assms(1)]) auto
  then show False
    using macro_holder_spec(2)[OF assms(2,3)] assms(5) by (simp add: macro_end_Suc word_less_nat_alt)
qed

lemma macro_search_ok:
  assumes "vm_ok s" "unat (LINEMAPS_MACRO_LOWEST_LOCATION s) \<le> unat loc" "unat loc < 0x80000000"
  shows "mn \<le> macro_holder (macros s) loc \<Longrightarrow> macro_holder (macros s) loc \<le> mx \<Longrightarrow> mx \<le> length (macros s) \<Longrightarrow>
    macro_search (macros s) loc mn mx = Some (macro_holder (macros s) loc)"
proof (induction "mx - mn" arbitrary: mn mx rule: less_induct)
  case less
  show ?case
  proof (cases "mn < mx")
    case True
    let ?md = "(mx + mn) div 2"
    have md: "mn \<le> ?md" "?md < mx" "?md < length (macros s)"
      using True less.prems(3) by auto
    show ?thesis
    proof (cases "loc < macro_start (macros s ! ?md)")
      case gt: True
      then have "Suc ?md \<le> macro_holder (macros s) loc"
        using macro_holder_gt[OF assms md(3)] by simp
      then have "macro_search (macros s) loc (?md + 1) mx = Some (macro_holder (macros s) loc)"
        using md less.prems True by (intro less.hyps) auto
      then show ?thesis
        using gt md True by (subst macro_search.simps) (simp add: Let_def)
    next
      case le: False
      then have "macro_holder (macros s) loc \<le> ?md"
        using macro_holder_le[OF md(3)] by simp
      then have "macro_search (macros s) loc mn ?md = Some (macro_holder (macros s) loc)"
        using md less.prems True by (intro less.hyps) auto
      then show ?thesis
        using le md True by (subst macro_search.simps) (simp add: Let_def)
    qed
  next
    case False
    then show ?thesis
      using less.prems by (subst macro_search.simps) simp
  qed
qed

text \<open>The search answers the same whatever was looked for before.\<close>

lemma macro_lookup_ok:
  assumes "vm_ok s" "unat (LINEMAPS_MACRO_LOWEST_LOCATION s) \<le> unat loc" "unat loc < 0x80000000"
  shows "\<exists>c. linemap_macro_map_lookup s loc = Some (macro_holder (macros s) loc, s\<lparr>macro_cache := c\<rparr>) \<and> c < length (macros s)"
proof -
  let ?h = "macro_holder (macros s) loc" and ?c = "macro_cache s"
  note h = macro_holder_spec[OF assms(2,3)]
  have c: "?c < length (macros s)"
    using assms(1) h(1) by (auto simp: vm_ok_def)
  have l: "adhoc_locus s loc = Some loc"
    using assms(3) by (auto simp: adhoc_locus_def IS_ADHOC_LOC_def MAX_LOCATION_T_def word_less_nat_alt)
  have low: "LINEMAPS_MACRO_LOWEST_LOCATION s \<le> loc" "macro_start (macros s ! ?h) \<le> loc"
    using assms(2) h(2) by (simp_all add: word_le_nat_alt)
  consider (hit) "macro_start (macros s ! ?c) \<le> loc" "?c = 0 \<or> loc < macro_start (macros s ! (?c - 1))"
    | (above) "macro_start (macros s ! ?c) \<le> loc" "?c \<noteq> 0" "\<not> loc < macro_start (macros s ! (?c - 1))"
    | (below) "\<not> macro_start (macros s ! ?c) \<le> loc"
    by blast
  then show ?thesis
  proof cases
    case hit
    have "?c = 0 \<or> ?c - 1 < ?h"
      using hit(2) macro_holder_gt[OF assms, of "?c - 1"] c by (cases "?c = 0") simp_all
    then have "?h = ?c"
      using macro_holder_le[OF c hit(1)] by linarith
    then show ?thesis
      using hit c l low by (auto simp: linemap_macro_map_lookup_def intro!: exI[of _ ?c])
  next
    case above
    then have "macro_search (macros s) loc 0 (?c - 1) = Some ?h"
      using c macro_holder_le[of "?c - 1" "macros s" loc] by (intro macro_search_ok[OF assms]) auto
    then show ?thesis
      using above c l low h(1) by (auto simp: linemap_macro_map_lookup_def)
  next
    case below
    then have "macro_search (macros s) loc ?c (length (macros s)) = Some ?h"
      using c h(1) macro_holder_gt[OF assms c] by (intro macro_search_ok[OF assms]) (auto simp: not_le)
    then show ?thesis
      using below c l low h(1) by (auto simp: linemap_macro_map_lookup_def)
  qed
qed

lemma not_adhoc [simp]: "unat q < 0x80000000 \<Longrightarrow> \<not> IS_ADHOC_LOC q"
  by (simp add: IS_ADHOC_LOC_def MAX_LOCATION_T_def word_less_nat_alt)

lemma lookup_macro:
  assumes "vm_ok s" "unat (LINEMAPS_MACRO_LOWEST_LOCATION s) \<le> unat loc" "unat loc < 0x80000000"
  shows "\<exists>c. linemap_lookup s loc = Some (Some (Macro (macro_holder (macros s) loc)), s\<lparr>macro_cache := c\<rparr>) \<and> c < length (macros s)"
proof -
  have "0x70000000 \<le> unat loc"
    using macro_bounds(1)[OF assms(1) order_refl] assms(2) by (simp add: macro_lowest)
  then have "IS_MACRO_LOC loc" "adhoc_locus s loc = Some loc"
    using assms(3) by (simp_all add: IS_MACRO_LOC_def IS_ORDINARY_LOC_def LINE_MAP_MAX_LOCATION_def word_less_nat_alt adhoc_locus_def)
  then show ?thesis
    using macro_lookup_ok[OF assms] by (auto simp: linemap_lookup_def linemap_location_from_macro_expansion_p_def)
qed

text \<open>The entry of the lookaside table and the location it stands for have one map.\<close>

lemma lookup_locus: "adhoc_locus s l = Some q \<Longrightarrow> unat q < 0x80000000 \<Longrightarrow> linemap_lookup s l = linemap_lookup s q"
  by (simp add: linemap_lookup_def adhoc_locus_def[of s q])

lemma lookup_reserved: "q < 2 \<Longrightarrow> linemap_lookup s q = Some (None, s)"
  by (simp add: linemap_lookup_def linemap_location_from_macro_expansion_p_def adhoc_locus_def IS_MACRO_LOC_def IS_ORDINARY_LOC_def
      IS_ADHOC_LOC_def MAX_LOCATION_T_def LINE_MAP_MAX_LOCATION_def linemap_ordinary_map_lookup_def RESERVED_LOCATION_COUNT_def
      word_less_nat_alt)

section \<open>What a change of the table keeps\<close>

definition grows :: "line_maps \<Rightarrow> line_maps \<Rightarrow> bool" where
  "grows s s' \<longleftrightarrow> (\<forall>l. given_out s l \<longrightarrow> given_out s' l) \<and> (\<forall>l q. adhoc_locus s l = Some q \<longrightarrow> adhoc_locus s' l = Some q)"

lemma place_mono: "place s adh res e l \<Longrightarrow> grows s s' \<Longrightarrow> e' \<le> e \<Longrightarrow> (adh \<longrightarrow> adh') \<Longrightarrow> (res \<longrightarrow> res') \<Longrightarrow> place s' adh' res' e' l"
  by (auto simp: place_def grows_def split: option.splits)

lemma grows_refl [simp]: "grows s s"
  by (simp add: grows_def)

lemma macro_ok_mono: "macro_ok s e m \<Longrightarrow> grows s s' \<Longrightarrow> macro_ok s' e m"
  using place_mono[of s False False e _ s' e False False] place_mono[of s False True e _ s' e False True] by (simp add: macro_ok_def)

lemma vm_ok_grows:
  "vm_ok s \<Longrightarrow> grows s s' \<Longrightarrow> macros s' = macros s \<Longrightarrow> (macros s \<noteq> [] \<Longrightarrow> macro_cache s' < length (macros s)) \<Longrightarrow> vm_ok s'"
  by (auto simp: vm_ok_def intro: macro_ok_mono)

lemma adhoc_locus_same: "adhoc s' = adhoc s \<Longrightarrow> adhoc_locus s' = adhoc_locus s"
  by (simp add: adhoc_locus_def fun_eq_iff)

lemma given_out_same: "ordinary s' = ordinary s \<Longrightarrow> highest_location s' = highest_location s \<Longrightarrow> given_out s' = given_out s"
  by (simp add: given_out_def fun_eq_iff)

text \<open>The searches change nothing but the two caches.\<close>

definition same_table :: "line_maps \<Rightarrow> line_maps \<Rightarrow> bool" where
  "same_table s s' \<longleftrightarrow> (\<exists>c d. s' = s\<lparr>ordinary_cache := c, macro_cache := d\<rparr> \<and> c < length (ordinary s) \<and>
     (macros s \<noteq> [] \<longrightarrow> d < length (macros s)))"

lemma same_tableI:
  "c < length (ordinary s) \<Longrightarrow> (macros s \<noteq> [] \<Longrightarrow> d < length (macros s)) \<Longrightarrow> same_table s (s\<lparr>ordinary_cache := c, macro_cache := d\<rparr>)"
  by (auto simp: same_table_def)

lemma same_table_simps:
  assumes "same_table s s'"
  shows "ordinary s' = ordinary s" "macros s' = macros s" "place s' = place s" "adhoc_locus s' = adhoc_locus s"
    "given_out s' = given_out s" "adhoc s' = adhoc s" "LINEMAPS_MACRO_LOWEST_LOCATION s' = LINEMAPS_MACRO_LOWEST_LOCATION s"
    "decode s' = decode s"
  using assms
  by (auto simp: same_table_def place_def adhoc_locus_def given_out_def decode_def LINEMAPS_MACRO_LOWEST_LOCATION_def fun_eq_iff
      split: option.splits)

lemma same_table_ok:
  assumes "same_table s s'" "table_ok s"
  shows "table_ok s'"
proof -
  have "vm_ok s'"
  proof (rule vm_ok_grows[of s])
    show "grows s s'"
      using same_table_simps[OF assms(1)] by (simp add: grows_def)
  qed (use assms in \<open>auto simp: table_ok_def same_table_def\<close>)
  moreover have "lm_ok s'"
    using assms by (auto simp: table_ok_def same_table_def lm_ok_def bits_ok_def line_ok_def)
  ultimately show ?thesis
    by (simp add: table_ok_def)
qed

lemma same_table_refl: "table_ok s \<Longrightarrow> same_table s s"
  using same_tableI[of "ordinary_cache s" s "macro_cache s"] by (simp add: table_ok_def lm_ok_def vm_ok_def)

lemma same_table_trans: "same_table s s' \<Longrightarrow> same_table s' s'' \<Longrightarrow> same_table s s''"
  by (auto simp: same_table_def[of s s'] same_table_def[of s' s''] intro!: same_tableI)

lemma same_table_grows: "same_table s s' \<Longrightarrow> grows s s'"
  using same_table_simps by (simp add: grows_def)

text \<open>The map of a location in a file.\<close>

lemma file_map:
  assumes "table_ok s" "given_out s q"
  shows "holder (ordinary s) q < length (ordinary s)" "m_range_bits (ordinary s ! holder (ordinary s) q) \<le> 5"
    "c < length (ordinary s) \<Longrightarrow> same_table s (s\<lparr>ordinary_cache := c\<rparr>)"
proof -
  have ok: "lm_ok s" "vm_ok s"
    using assms(1) by (auto simp: table_ok_def)
  note g = given_out_bounds[OF ok(1) assms(2)]
  show h: "holder (ordinary s) q < length (ordinary s)"
    using holder_spec(1)[OF g(1) _ g(3)] g(2) by fastforce
  then show "m_range_bits (ordinary s ! holder (ordinary s) q) \<le> 5"
    using ok(1) nth_mem[OF h] unfolding lm_ok_def maps_ok_def by blast
  show "c < length (ordinary s) \<Longrightarrow> same_table s (s\<lparr>ordinary_cache := c\<rparr>)"
    using ok(2) same_tableI[of c s "macro_cache s"] by (simp add: vm_ok_def)
qed

lemma file_lookup:
  assumes "table_ok s" "given_out s q"
  shows "\<exists>s'. linemap_lookup s q = Some (Some (Ordinary (holder (ordinary s) q)), s') \<and> same_table s s' \<and>
    check_ordinary s' (Ordinary (holder (ordinary s) q)) = Some (ordinary s ! holder (ordinary s) q)"
proof -
  have "lm_ok s"
    using assms(1) by (simp add: table_ok_def)
  from lookup_ordinary[OF given_out_bounds[OF this assms(2)]] show ?thesis
    using file_map(1,3)[OF assms] by (auto simp: check_ordinary_def)
qed

text \<open>Looking up a place.\<close>

lemma lookup_place:
  assumes "table_ok s" "place s adh res (macro_end (macros s) (length (macros s))) l" "adhoc_locus s l = Some q"
  shows "\<exists>r s'. linemap_lookup s l = Some (r, s') \<and> linemap_lookup s q = Some (r, s') \<and> same_table s s' \<and> unat q < 0x80000000 \<and>
    (r = None \<and> res \<and> q < 2 \<or> r = Some (Ordinary (holder (ordinary s) q)) \<and> given_out s q \<or>
     r = Some (Macro (macro_holder (macros s) q)) \<and> (adh \<or> l = q) \<and> unat (LINEMAPS_MACRO_LOWEST_LOCATION s) \<le> unat q)"
proof -
  have ok: "lm_ok s" "vm_ok s"
    using assms(1) by (auto simp: table_ok_def)
  consider "res" "q < 2" | "given_out s q"
    | "adh \<or> l = q" "unat (LINEMAPS_MACRO_LOWEST_LOCATION s) \<le> unat q" "unat q < 0x80000000"
    using assms(2,3) by (auto simp: place_def macro_lowest)
  then show ?thesis
  proof cases
    case 1
    then have "unat q < 0x80000000"
      by (simp add: word_less_nat_alt)
    then show ?thesis
      using 1 lookup_reserved[of q s] lookup_locus[OF assms(3)] same_table_refl[OF assms(1)] by auto
  next
    case 2
    note g = given_out_bounds[OF ok(1) 2]
    have "unat q < 0x80000000"
      using g(5) by (simp add: word_less_nat_alt)
    then show ?thesis
      using lookup_ordinary[OF g] lookup_locus[OF assms(3)] 2 file_map(3)[OF assms(1) 2] by auto
  next
    case 3
    have "same_table s (s\<lparr>macro_cache := c\<rparr>)" if "c < length (macros s)" for c
      using that ok(1) same_tableI[of "ordinary_cache s" s c] by (simp add: lm_ok_def)
    then show ?thesis
      using lookup_macro[OF ok(2) 3(2,3)] lookup_locus[OF assms(3)] 3 by auto
  qed
qed

lemma virtual_place:
  assumes "table_ok s" "adhoc_locus s l = Some q" "unat (LINEMAPS_MACRO_LOWEST_LOCATION s) \<le> unat q" "place s adh res e l"
  shows "e \<le> unat q"
proof -
  have "0x70000000 \<le> unat q"
    using assms(1,3) macro_bounds(1)[of s "length (macros s)"] by (simp add: table_ok_def macro_lowest)
  then have "\<not> q < 2" "\<not> given_out s q"
    using assms(1) given_out_bounds(5)[of s q] by (auto simp: table_ok_def word_less_nat_alt)
  then show ?thesis
    using assms(2,4) by (simp add: place_def)
qed

section \<open>Resolution\<close>

text \<open>A location that needs no further step, with its map.\<close>

definition resolved :: "line_maps \<Rightarrow> bool \<Rightarrow> location_t \<Rightarrow> map_ref option \<Rightarrow> bool" where
  "resolved s res l r \<longleftrightarrow>
     (case adhoc_locus s l of
        None \<Rightarrow> False
      | Some q \<Rightarrow> res \<and> q < 2 \<and> r = None \<or> given_out s q \<and> r = Some (Ordinary (holder (ordinary s) q)))"

text \<open>From the location of token \<open>k\<close> of an expansion to where it comes from.\<close>

inductive follows :: "line_maps \<Rightarrow> (line_map_macro \<Rightarrow> nat \<Rightarrow> location_t) \<Rightarrow> location_t \<Rightarrow> location_t \<Rightarrow> bool"
  for s origin where
  token: "m \<in> set (macros s) \<Longrightarrow> adhoc_locus s l = Some q \<Longrightarrow> unat q = unat (macro_start m) + k \<Longrightarrow> k < unat (n_tokens m) \<Longrightarrow>
    follows s origin l (origin m k)"

text \<open>
  A loop that leaves one macro expansion after the other by \<open>step\<close>. A step leads out of the map, to
  the expansion or to a token that was there before, so the loop comes to an end.
\<close>

locale unwinding =
  fixes loop :: "line_maps \<Rightarrow> location_t \<Rightarrow> (location_t \<times> map_ref option \<times> line_maps) option"
    and step :: "line_maps \<Rightarrow> line_map_macro \<Rightarrow> location_t \<Rightarrow> location_t option"
    and origin :: "line_map_macro \<Rightarrow> nat \<Rightarrow> location_t"
    and adh res :: bool
  assumes loop_unfold: "adhoc_locus s l = Some q \<Longrightarrow> linemap_lookup s l = Some (r, s') \<Longrightarrow> linemap_lookup s q = Some (r, s') \<Longrightarrow>
      same_table s s' \<Longrightarrow> loop s l =
        (case r of
           Some (Macro i) \<Rightarrow> do { m \<leftarrow> elem (macros s') i; l' \<leftarrow> step s' m l; loop s' l' }
         | _ \<Rightarrow> Some (l, r, s'))"
    and step_place: "macro_ok s e m \<Longrightarrow> e \<le> 0x80000000 \<Longrightarrow> adhoc_locus s l = Some q \<Longrightarrow> adh \<or> l = q \<Longrightarrow>
      unat (macro_start m) \<le> unat q \<Longrightarrow> unat q < e \<Longrightarrow>
      step s m l = Some (origin m (unat q - unat (macro_start m))) \<and> place s adh res e (origin m (unat q - unat (macro_start m)))"
begin

lemma unwinds:
  "table_ok s \<Longrightarrow> i \<le> length (macros s) \<Longrightarrow> place s adh res (macro_end (macros s) i) l \<Longrightarrow>
   \<exists>l' r s'. loop s l = Some (l', r, s') \<and> same_table s s' \<and> resolved s res l' r \<and> (follows s origin)\<^sup>*\<^sup>* l l'"
proof (induction i arbitrary: s l rule: less_induct)
  case (less i)
  have ok: "vm_ok s"
    using less.prems(1) by (simp add: table_ok_def)
  obtain q where q: "adhoc_locus s l = Some q"
    using less.prems(3) by (auto simp: place_def split: option.splits)
  have "place s adh res (macro_end (macros s) (length (macros s))) l"
    using less.prems(2) by (intro place_mono[OF less.prems(3)] macro_end_mono[OF ok]) auto
  from lookup_place[OF less.prems(1) this q] obtain r s1 where lk: "linemap_lookup s l = Some (r, s1)"
    and r: "linemap_lookup s q = Some (r, s1)" "same_table s s1"
      "unat q < 0x80000000" "r = None \<and> res \<and> q < 2 \<or> r = Some (Ordinary (holder (ordinary s) q)) \<and> given_out s q \<or>
        r = Some (Macro (macro_holder (macros s) q)) \<and> (adh \<or> l = q) \<and> unat (LINEMAPS_MACRO_LOWEST_LOCATION s) \<le> unat q"
    by blast
  note u = loop_unfold[OF q lk r(1,2)] and same = same_table_simps[OF r(2)]
  show ?case
  proof (cases "\<exists>h. r = Some (Macro h)")
    case False
    then show ?thesis
      using r q u by (auto simp: resolved_def)
  next
    case True
    let ?h = "macro_holder (macros s) q"
    have v: "r = Some (Macro ?h)" "adh \<or> l = q" "unat (LINEMAPS_MACRO_LOWEST_LOCATION s) \<le> unat q"
      using True r(4) by auto
    note h = macro_holder_spec[OF v(3) r(3)]
    have "macro_end (macros s) i \<le> unat q"
      by (rule virtual_place[OF less.prems(1) q v(3) less.prems(3)])
    then have hi: "?h < i"
      using h(1,3) macro_end_mono[OF ok, of i ?h] by (cases "i \<le> ?h") simp_all
    have m: "macro_ok s1 (macro_end (macros s) ?h) (macros s ! ?h)" "macro_end (macros s) ?h \<le> 0x80000000"
      using same_table_ok[OF r(2) less.prems(1)] h(1) same(2) macro_bounds(2)[OF ok, of ?h] by (auto simp: table_ok_def vm_ok_def)
    let ?m = "macros s ! ?h"
    let ?k = "unat q - unat (macro_start ?m)"
    let ?l = "origin ?m ?k"
    have l': "step s1 ?m l = Some ?l" "place s1 adh res (macro_end (macros s) ?h) ?l"
      using step_place[OF m, of l q] q same(4) v(2) h(2,3) by auto
    have "?k < unat (n_tokens ?m)"
      using h vm_okD(2)[OF ok h(1)] by linarith
    then have f: "follows s origin l ?l"
      using h(1,2) q by (intro follows.token[of _ s l q]) auto
    have "\<exists>l'' r s'. loop s1 ?l = Some (l'', r, s') \<and> same_table s1 s' \<and> resolved s1 res l'' r \<and> (follows s1 origin)\<^sup>*\<^sup>* ?l l''"
      using less.IH[OF hi same_table_ok[OF r(2) less.prems(1)], of ?l] l'(2) h(1) same(2) by simp
    moreover have "follows s1 = follows s"
      using same(2,4) by (simp add: fun_eq_iff follows.simps)
    ultimately obtain l'' r' s' where l'': "loop s1 ?l = Some (l'', r', s')" "same_table s1 s'" "resolved s1 res l'' r'"
        "(follows s origin)\<^sup>*\<^sup>* ?l l''"
      by auto
    have "loop s l = Some (l'', r', s')"
      using u v(1) h(1) l'(1) same(2) l''(1) by simp
    moreover have "resolved s res l'' r'"
      using l''(3) same by (auto simp: resolved_def split: option.splits)
    ultimately show ?thesis
      using same_table_trans[OF r(2) l''(2)] converse_rtranclp_into_rtranclp[of "follows s origin", OF f l''(4)] by blast
  qed
qed

end

text \<open>A location inside a map is the location of one of its tokens.\<close>

lemma token_number:
  assumes "macro_ok s e m" "unat (macro_start m) \<le> unat q" "unat q < e"
  shows "macro_start m \<le> q" "q - macro_start m < n_tokens m" "RESERVED_LOCATION_COUNT \<le> q"
    "2 * unat (q - macro_start m) < length (macro_locations m)" "2 * unat (q - macro_start m) + 1 < length (macro_locations m)"
proof -
  have d: "unat (q - macro_start m) = unat q - unat (macro_start m)"
    using assms(2) by (simp add: unat_sub word_le_nat_alt)
  then have "unat (q - macro_start m) < unat (n_tokens m)"
    using assms by (auto simp: macro_ok_def)
  then show "macro_start m \<le> q" "q - macro_start m < n_tokens m" "RESERVED_LOCATION_COUNT \<le> q"
    "2 * unat (q - macro_start m) < length (macro_locations m)" "2 * unat (q - macro_start m) + 1 < length (macro_locations m)"
    using assms by (auto simp: macro_ok_def word_le_nat_alt word_less_nat_alt RESERVED_LOCATION_COUNT_def)
qed

lemma token_place:
  assumes "macro_ok s e m" "k < length (macro_locations m)"
  shows "place s adh True e (macro_locations m ! k)"
  using assms place_mono[of s False True e "macro_locations m ! k" s e adh True] by (simp add: macro_ok_def)

lemma expansion_place: "macro_ok s e m \<Longrightarrow> place s adh res e (expansion m)"
  using place_mono[of s False False e "expansion m" s e adh res] by (simp add: macro_ok_def)

lemma token_offset: "macro_start m \<le> q \<Longrightarrow> unat (q - macro_start m) = unat q - unat (macro_start m)"
  by (simp add: unat_sub)

definition spelled :: "line_map_macro \<Rightarrow> nat \<Rightarrow> location_t" where
  "spelled m k = macro_locations m ! (2 * k)"

definition defined_at :: "line_map_macro \<Rightarrow> nat \<Rightarrow> location_t" where
  "defined_at m k = macro_locations m ! (2 * k + 1)"

definition expanded_at :: "line_map_macro \<Rightarrow> nat \<Rightarrow> location_t" where
  "expanded_at m k = expansion m"

definition header_of :: "line_map_macro \<Rightarrow> nat \<Rightarrow> location_t" where
  "header_of m k = (if spelled m k < 2 then expansion m else spelled m k)"

interpretation to_expansion: unwinding exp_point_loop "\<lambda>s. linemap_macro_map_loc_to_exp_point" expanded_at False False
proof unfold_locales
  fix s l r s' assume "linemap_lookup s l = Some (r, s')"
  then show "exp_point_loop s l =
      (case r of Some (Macro i) \<Rightarrow> do { m \<leftarrow> elem (macros s') i; l' \<leftarrow> linemap_macro_map_loc_to_exp_point m l; exp_point_loop s' l' }
       | _ \<Rightarrow> Some (l, r, s'))"
    by (subst exp_point_loop.simps) simp
next
  fix s e m and l q :: location_t assume "macro_ok s e m" "False \<or> l = q" "unat (macro_start m) \<le> unat q" "unat q < e"
  then show "linemap_macro_map_loc_to_exp_point m l = Some (expanded_at m (unat q - unat (macro_start m))) \<and>
      place s False False e (expanded_at m (unat q - unat (macro_start m)))"
    using token_number[of s e m q] expansion_place by (simp add: linemap_macro_map_loc_to_exp_point_def expanded_at_def)
qed

interpretation to_spelling: unwinding spelling_point_loop linemap_macro_map_loc_unwind_toward_spelling spelled True True
proof unfold_locales
  fix s l r s' assume "linemap_lookup s l = Some (r, s')"
  then show "spelling_point_loop s l =
      (case r of Some (Macro i) \<Rightarrow>
         do { m \<leftarrow> elem (macros s') i; l' \<leftarrow> linemap_macro_map_loc_unwind_toward_spelling s' m l; spelling_point_loop s' l' }
       | _ \<Rightarrow> Some (l, r, s'))"
    by (subst spelling_point_loop.simps) simp
next
  fix s e m and l q :: location_t
  assume "macro_ok s e m" "e \<le> 0x80000000" "adhoc_locus s l = Some q" "unat (macro_start m) \<le> unat q" "unat q < e"
  then show "linemap_macro_map_loc_unwind_toward_spelling s m l = Some (spelled m (unat q - unat (macro_start m))) \<and>
      place s True True e (spelled m (unat q - unat (macro_start m)))"
    using token_number[of s e m q] token_place
    by (simp add: linemap_macro_map_loc_unwind_toward_spelling_def spelled_def token_offset)
qed

interpretation to_definition: unwinding def_point_loop
  "\<lambda>s m l. adhoc_locus s l \<bind> linemap_macro_map_loc_to_def_point m" defined_at True True
proof unfold_locales
  fix s l q r s' assume "adhoc_locus s l = Some q" "linemap_lookup s q = Some (r, s')" "same_table s s'"
  then show "def_point_loop s l =
      (case r of Some (Macro i) \<Rightarrow>
         do { m \<leftarrow> elem (macros s') i; l' \<leftarrow> adhoc_locus s' l \<bind> linemap_macro_map_loc_to_def_point m; def_point_loop s' l' }
       | _ \<Rightarrow> Some (l, r, s'))"
    by (subst def_point_loop.simps) (simp add: same_table_simps(4) split: option.splits map_ref.splits)
next
  fix s e m and l q :: location_t
  assume "macro_ok s e m" "adhoc_locus s l = Some q" "unat (macro_start m) \<le> unat q" "unat q < e"
  then show "adhoc_locus s l \<bind> linemap_macro_map_loc_to_def_point m = Some (defined_at m (unat q - unat (macro_start m))) \<and>
      place s True True e (defined_at m (unat q - unat (macro_start m)))"
    using token_number[of s e m q] token_place by (simp add: linemap_macro_map_loc_to_def_point_def defined_at_def token_offset)
qed

interpretation to_header: unwinding system_header_loop system_header_step header_of False True
proof unfold_locales
  fix s l r s' assume "linemap_lookup s l = Some (r, s')"
  then show "system_header_loop s l =
      (case r of Some (Macro i) \<Rightarrow> do { m \<leftarrow> elem (macros s') i; l' \<leftarrow> system_header_step s' m l; system_header_loop s' l' }
       | _ \<Rightarrow> Some (l, r, s'))"
    by (subst system_header_loop.simps) simp
next
  fix s e m and l q :: location_t
  assume "macro_ok s e m" "e \<le> 0x80000000" "adhoc_locus s l = Some q" "False \<or> l = q" "unat (macro_start m) \<le> unat q" "unat q < e"
  then show "system_header_step s m l = Some (header_of m (unat q - unat (macro_start m))) \<and>
      place s False True e (header_of m (unat q - unat (macro_start m)))"
    using token_number[of s e m q] token_place[of s e m _ False] expansion_place
    by (simp add: system_header_step_def linemap_macro_map_loc_unwind_toward_spelling_def linemap_macro_map_loc_to_exp_point_def
        header_of_def spelled_def token_offset RESERVED_LOCATION_COUNT_def)
qed

text \<open>A location that has been given out: reserved, in a file, virtual, or an entry that stands for one.\<close>

abbreviation valid_location :: "line_maps \<Rightarrow> location_t \<Rightarrow> bool" where
  "valid_location s \<equiv> place s True True (macro_end (macros s) (length (macros s)))"

definition origin_of :: "location_resolution_kind \<Rightarrow> line_map_macro \<Rightarrow> nat \<Rightarrow> location_t" where
  "origin_of kind = (case kind of LRK_MACRO_EXPANSION_POINT \<Rightarrow> expanded_at | LRK_SPELLING_LOCATION \<Rightarrow> spelled
     | LRK_MACRO_DEFINITION_LOCATION \<Rightarrow> defined_at)"

lemma locus_place:
  assumes "table_ok s" "place s adh res e l" "adhoc_locus s l = Some q"
  shows "adhoc_locus s q = Some q" "place s False res e q" "\<not> q < 2 \<Longrightarrow> place s False False e q"
proof -
  have "unat q < 0x80000000"
    using assms given_out_bounds(5)[of s q] by (auto simp: place_def table_ok_def word_less_nat_alt)
  then show q: "adhoc_locus s q = Some q"
    by (simp add: adhoc_locus_def)
  show "place s False res e q" "\<not> q < 2 \<Longrightarrow> place s False False e q"
    using assms(2,3) q by (auto simp: place_def)
qed

lemma resolved_found: "resolved s False l r \<Longrightarrow> resolved s True l r \<and> r \<noteq> None"
  by (auto simp: resolved_def split: option.splits)

lemma exp_point_ok:
  assumes "table_ok s" "valid_location s loc" "adhoc_locus s loc = Some q" "\<not> q < 2"
  shows "\<exists>l r s'. linemap_macro_loc_to_exp_point s loc = Some (l, Some r, s') \<and> same_table s s' \<and> resolved s False l (Some r) \<and>
    (follows s expanded_at)\<^sup>*\<^sup>* q l"
proof -
  obtain l r s' where "exp_point_loop s q = Some (l, r, s')" "same_table s s'" "resolved s False l r" "(follows s expanded_at)\<^sup>*\<^sup>* q l"
    using to_expansion.unwinds[OF assms(1) order_refl] locus_place(3)[OF assms(1-3)] assms(4) by blast
  moreover then obtain r' where "r = Some r'"
    using resolved_found by blast
  ultimately show ?thesis
    using assms(3,4) by (auto simp: linemap_macro_loc_to_exp_point_def RESERVED_LOCATION_COUNT_def)
qed

lemma resolve_ok:
  assumes "table_ok s" "valid_location s loc" "adhoc_locus s loc = Some q"
  shows "\<exists>l r s'. linemap_resolve_location s loc kind = Some (l, r, s') \<and> same_table s s' \<and> resolved s True l r \<and>
    (follows s (origin_of kind))\<^sup>*\<^sup>* (if kind = LRK_MACRO_EXPANSION_POINT \<and> \<not> q < 2 then q else loc) l"
proof (cases "q < 2")
  case True
  then show ?thesis
    using assms same_table_refl by (simp add: linemap_resolve_location_def RESERVED_LOCATION_COUNT_def resolved_def)
next
  case False
  have "\<not> loc < 2"
    using False assms(3) by (auto simp: adhoc_locus_def IS_ADHOC_LOC_def MAX_LOCATION_T_def word_less_nat_alt split: if_splits)
  then have *: "linemap_resolve_location s loc kind = (case kind of
      LRK_MACRO_EXPANSION_POINT \<Rightarrow> linemap_macro_loc_to_exp_point s loc
    | LRK_SPELLING_LOCATION \<Rightarrow> spelling_point_loop s loc | LRK_MACRO_DEFINITION_LOCATION \<Rightarrow> def_point_loop s loc)"
    using False assms(3) by (cases kind) (simp_all add: linemap_resolve_location_def RESERVED_LOCATION_COUNT_def
      linemap_macro_loc_to_spelling_point_def linemap_macro_loc_to_def_point_def)
  show ?thesis
  proof (cases kind)
    case LRK_MACRO_EXPANSION_POINT
    then show ?thesis
      using * False exp_point_ok[OF assms False] resolved_found by (simp add: origin_of_def) blast
  next
    case LRK_SPELLING_LOCATION
    then show ?thesis
      using * to_spelling.unwinds[OF assms(1) order_refl assms(2)] by (simp add: origin_of_def)
  next
    case LRK_MACRO_DEFINITION_LOCATION
    then show ?thesis
      using * to_definition.unwinds[OF assms(1) order_refl assms(2)] by (simp add: origin_of_def)
  qed
qed

lemma expand_resolved:
  assumes "table_ok s" "same_table s s'" "resolved s True l r" "adhoc_locus s l = Some q"
  shows "\<exists>x. linemap_expand_location s' r l = Some x \<and>
    (xfile x = None \<and> q < 2 \<or> given_out s q \<and> (\<exists>f n c y. decode s q = (f, n, c, y) \<and> xfile x = Some f \<and> xline x = n \<and> xcolumn x = c))"
proof -
  have "\<exists>d. (if IS_ADHOC_LOC l then map_option adhoc_data (elem (adhoc s') (unat (l AND MAX_LOCATION_T))) else Some 0) = Some d"
    using assms(4) same_table_simps(6)[OF assms(2)] by (auto simp: adhoc_locus_def elem_def split: if_splits)
  then obtain d where d: "(if IS_ADHOC_LOC l then map_option adhoc_data (elem (adhoc s') (unat (l AND MAX_LOCATION_T))) else Some 0) = Some d"
    by blast
  have q: "adhoc_locus s' l = Some q"
    using assms(4) same_table_simps(4)[OF assms(2)] by simp
  consider "q < 2" "r = None" | "given_out s q" "r = Some (Ordinary (holder (ordinary s) q))"
    using assms(3,4) by (auto simp: resolved_def)
  then show ?thesis
  proof cases
    case 1
    then show ?thesis
      unfolding linemap_expand_location_def d q by (simp add: RESERVED_LOCATION_COUNT_def)
  next
    case 2
    have "lm_ok s"
      using assms(1) by (simp add: table_ok_def)
    note g = given_out_bounds[OF this 2(1)]
    have "\<not> q < 2"
      using g(4) by (simp add: not_less)
    then show ?thesis
      unfolding linemap_expand_location_def d q
      using 2 g(5) file_map(1)[OF assms(1) 2(1)] same_table_simps(1)[OF assms(2)]
      by (simp add: RESERVED_LOCATION_COUNT_def linemap_location_from_macro_expansion_p_def check_ordinary_def decode_def Let_def)
  qed
qed

lemma system_header_ok:
  assumes "table_ok s" "valid_location s loc" "adhoc_locus s loc = Some q"
  shows "\<exists>y s'. linemap_location_in_system_header_p s loc = Some (y, s') \<and> same_table s s' \<and>
    (\<exists>l p. (follows s header_of)\<^sup>*\<^sup>* q l \<and> adhoc_locus s l = Some p \<and>
       (p < 2 \<and> y = 0 \<or> given_out s p \<and> (\<exists>f n c. decode s p = (f, n, c, y))))"
proof (cases "q < 2")
  case True
  then show ?thesis
    using assms same_table_refl locus_place(1)[OF assms]
    by (auto simp: linemap_location_in_system_header_p_def RESERVED_LOCATION_COUNT_def)
next
  case False
  obtain l r s' where u: "system_header_loop s q = Some (l, r, s')" "same_table s s'" "resolved s True l r" "(follows s header_of)\<^sup>*\<^sup>* q l"
    using to_header.unwinds[OF assms(1) order_refl] locus_place(2)[OF assms] by blast
  obtain p where p: "adhoc_locus s l = Some p" "p < 2 \<and> r = None \<or> given_out s p \<and> r = Some (Ordinary (holder (ordinary s) p))"
    using u(3) by (auto simp: resolved_def split: option.splits)
  have "\<exists>y. linemap_location_in_system_header_p s loc = Some (y, s') \<and>
      (p < 2 \<and> y = 0 \<or> given_out s p \<and> (\<exists>f n c. decode s p = (f, n, c, y)))"
    using p(2) u(1) assms(3) False same_table_simps(1)[OF u(2)] file_map(1)[OF assms(1), of p]
    by (auto simp: linemap_location_in_system_header_p_def RESERVED_LOCATION_COUNT_def check_ordinary_def decode_def Let_def)
  then show ?thesis
    using u(2,4) p(1) by blast
qed

section \<open>Macro expansions\<close>

lemma lm_ok_macros [simp]: "lm_ok (s\<lparr>macros := a, macro_cache := b\<rparr>) = lm_ok s" "lm_ok (s\<lparr>macros := a\<rparr>) = lm_ok s"
  by (simp_all add: lm_ok_def bits_ok_def line_ok_def)

lemma grows_macros [simp]: "grows s (s\<lparr>macros := a, macro_cache := b\<rparr>)" "grows s (s\<lparr>macros := a\<rparr>)"
  by (simp_all add: grows_def given_out_def adhoc_locus_def)

lemma macro_end_append: "i \<le> length ms \<Longrightarrow> macro_end (ms @ ms') i = macro_end ms i"
  by (auto simp: macro_end_def nth_append)

lemma enter_macro_ok:
  assumes "table_ok s" "place s False False (macro_end (macros s) (length (macros s))) expn"
    and "unat n \<le> unat (LINEMAPS_MACRO_LOWEST_LOCATION s)" "linemap_enter_macro s node expn n = (r, s')"
  shows "table_ok s' \<and> grows s s'"
proof (cases "LINEMAPS_MACRO_LOWEST_LOCATION s - n < LINE_MAP_MAX_LOCATION")
  case True
  then show ?thesis
    using assms(1,4) by (simp add: linemap_enter_macro_def)
next
  case False
  let ?start = "LINEMAPS_MACRO_LOWEST_LOCATION s - n" and ?e = "macro_end (macros s) (length (macros s))"
  let ?m = "\<lparr>macro_start = ?start, n_tokens = n, macro_node = node, macro_locations = replicate (2 * unat n) 0, expansion = expn\<rparr>"
  have s': "s' = s\<lparr>macros := macros s @ [?m], macro_cache := length (macros s)\<rparr>"
    using assms(4) False by (simp add: linemap_enter_macro_def Let_def)
  then have g: "grows s s'"
    by simp
  have "unat ?start + unat n = ?e"
    using assms(3) by (simp add: unat_sub word_le_nat_alt macro_lowest)
  moreover have "place s False True ?e 0"
    by (simp add: place_def adhoc_locus_def IS_ADHOC_LOC_def MAX_LOCATION_T_def)
  ultimately have m: "macro_ok s ?e ?m"
    using assms(2) False by (auto simp: macro_ok_def LINE_MAP_MAX_LOCATION_def word_less_nat_alt)
  have "macro_ok s' (macro_end (macros s') i) (macros s' ! i)" if i: "i < length (macros s')" for i
  proof (cases "i < length (macros s)")
    case True
    then have "macro_ok s (macro_end (macros s) i) (macros s ! i)"
      using assms(1) by (simp add: table_ok_def vm_ok_def)
    then show ?thesis
      using macro_ok_mono[OF _ g] True by (simp add: s' macro_end_append nth_append)
  next
    case False
    then have "i = length (macros s)"
      using i by (simp add: s')
    then show ?thesis
      using macro_ok_mono[OF m g] by (simp add: s' macro_end_append)
  qed
  then have "vm_ok s'"
    by (simp add: vm_ok_def s')
  then show ?thesis
    using g assms(1) by (simp add: table_ok_def s')
qed

lemma add_token_ok:
  assumes "table_ok s" "i < length (macros s)" "place s False True (macro_end (macros s) i) orig"
    and "place s False True (macro_end (macros s) i) parm" "linemap_add_macro_token s i k orig parm = Some (loc, s')"
  shows "table_ok s' \<and> grows s s'"
proof -
  let ?m = "macros s ! i"
  let ?ls = "(macro_locations ?m)[2 * unat k := orig, 2 * unat k + 1 := parm]"
  have s': "s' = s\<lparr>macros := (macros s)[i := ?m\<lparr>macro_locations := ?ls\<rparr>]\<rparr>"
    using assms(2,5) by (simp add: linemap_add_macro_token_def linemap_assert_def split: if_splits)
  then have g: "grows s s'"
    by simp
  have vm: "vm_ok s"
    using assms(1) by (simp add: table_ok_def)
  have "set ?ls \<subseteq> insert parm (insert orig (set (macro_locations ?m)))"
    using set_update_subset_insert[of "(macro_locations ?m)[2 * unat k := orig]" "2 * unat k + 1" parm]
      set_update_subset_insert[of "macro_locations ?m" "2 * unat k" orig] by blast
  then have m: "macro_ok s (macro_end (macros s) i) (?m\<lparr>macro_locations := ?ls\<rparr>)"
    using vm assms(2-4) by (auto simp: vm_ok_def macro_ok_def)
  have st: "macro_start (macros s' ! j) = macro_start (macros s ! j)" for j
    using assms(2) by (auto simp: s' nth_list_update)
  then have e: "macro_end (macros s') j = macro_end (macros s) j" for j
    by (simp add: macro_end_def)
  have "macro_ok s' (macro_end (macros s') j) (macros s' ! j)" if j: "j < length (macros s')" for j
  proof -
    have "macro_ok s (macro_end (macros s) j) (macros s' ! j)"
      using j m vm assms(2) by (cases "j = i") (simp_all add: s' vm_ok_def)
    then show ?thesis
      unfolding e by (rule macro_ok_mono[OF _ g])
  qed
  then have "vm_ok s'"
    using vm by (simp add: vm_ok_def s')
  then show ?thesis
    using g assms(1) by (simp add: table_ok_def s')
qed

section \<open>Ranges\<close>

text \<open>Packing a number of columns into the low bits of a location.\<close>

lemma or_aligned:
  assumes "2 ^ k dvd unat q" "unat d < 2 ^ k"
  shows "unat (q OR d :: uint) = unat q + unat d"
proof -
  obtain t where t: "unat q = push_bit k t"
    using assms(1) by (auto simp: push_bit_eq_mult mult.commute elim: dvdE)
  have d: "unat d = take_bit k (unat d)"
    using assms(2) by (simp add: take_bit_nat_eq_self)
  have "push_bit k t AND take_bit k (unat d) = 0"
    by (rule bit_eqI) (auto simp: bit_simps)
  then have "push_bit k t OR take_bit k (unat d) = push_bit k t + take_bit k (unat d)"
    by (simp add: disjunctive_add_eq_or)
  then show ?thesis
    using t d by (simp add: unsigned_or_eq)
qed

lemma adhoc_number:
  assumes "i < 0x80000000"
  shows "IS_ADHOC_LOC (word_of_nat i OR 0x80000000)" "unat ((word_of_nat i OR 0x80000000) AND MAX_LOCATION_T) = i"
proof -
  have "(0x80000000 :: uint) \<le> word_of_nat i OR 0x80000000"
    by (rule le_word_or1)
  then show "IS_ADHOC_LOC (word_of_nat i OR 0x80000000)"
    by (simp add: IS_ADHOC_LOC_def MAX_LOCATION_T_def word_less_nat_alt word_le_nat_alt)
  have "(word_of_nat i OR 0x80000000) AND MAX_LOCATION_T = word_of_nat i AND (2 ^ 31 - 1 :: uint)"
    by (simp add: MAX_LOCATION_T_def bit.conj_disj_distrib2)
  then show "unat ((word_of_nat i OR 0x80000000) AND MAX_LOCATION_T) = i"
    using assms unat_and_size[of 31 "word_of_nat i"] by (simp add: unat_of_nat take_bit_nat_eq_self)
qed

lemma pure_place:
  assumes "table_ok s" "given_out s q"
  shows "\<exists>s'. pure_location_p s q = Some (2 ^ m_range_bits (ordinary s ! holder (ordinary s) q) dvd unat q, s') \<and> same_table s s'"
proof -
  let ?m = "ordinary s ! holder (ordinary s) q"
  have "lm_ok s"
    using assms(1) by (simp add: table_ok_def)
  note g = given_out_bounds[OF this assms(2)]
  have "q AND (2 ^ m_range_bits ?m - 1) = 0 \<longleftrightarrow> 2 ^ m_range_bits ?m dvd unat q"
    using file_map(2)[OF assms] by (simp add: word_unat_eq_iff unat_and_size dvd_eq_mod_eq_0)
  then show ?thesis
    using pure_ordinary[OF g] file_map(3)[OF assms] by auto
qed

text \<open>A location at the start of a column, and the range that fits into its low bits.\<close>

abbreviation bits_at :: "line_maps \<Rightarrow> location_t \<Rightarrow> nat" where
  "bits_at s q \<equiv> m_range_bits (ordinary s ! holder (ordinary s) q)"

definition aligned :: "line_maps \<Rightarrow> location_t \<Rightarrow> bool" where
  "aligned s q \<longleftrightarrow> (given_out s q \<longrightarrow> 2 ^ bits_at s q dvd unat q)"

definition packable :: "line_maps \<Rightarrow> location_t \<Rightarrow> source_range \<Rightarrow> nat \<Rightarrow> bool" where
  "packable s q rng data \<longleftrightarrow> can_be_stored_compactly_p s q rng data \<and>
     drop_bit (bits_at s q) (m_finish rng - m_start rng) < 2 ^ bits_at s q"

lemma packable_file:
  assumes "can_be_stored_compactly_p s q rng data" "valid_location s loc" "adhoc_locus s loc = Some q"
  shows "given_out s q"
  using assms by (auto simp: can_be_stored_compactly_p_def place_def RESERVED_LOCATION_COUNT_def Let_def macro_lowest word_le_nat_alt
      word_less_nat_alt)

lemma combined_result:
  assumes "table_ok s" "valid_location s loc" "adhoc_locus s loc = Some q" "aligned s q"
  shows "\<exists>s1. same_table s s1 \<and> get_combined_adhoc_loc s loc rng data = Some
    (if q = 0 \<and> data = 0 then (0, s1)
     else if packable s q rng data
       then (q OR drop_bit (bits_at s q) (m_finish rng - m_start rng), s1\<lparr>num_optimized_ranges := num_optimized_ranges s1 + 1\<rparr>)
     else if q = m_start rng \<and> q = m_finish rng \<and> data = 0 then (q, s1)
     else (let s2 = (if data = 0 then s1\<lparr>num_unoptimized_ranges := num_unoptimized_ranges s1 + 1\<rparr> else s1);
               (i, s3) = adhoc_slot s2 \<lparr>locus = q, src_range = rng, adhoc_data = data\<rparr>
           in (word_of_nat i OR 0x80000000, s3)))"
proof (cases "q = 0 \<and> data = 0")
  case True
  then show ?thesis
    using assms(3) same_table_refl[OF assms(1)] by (auto simp: get_combined_adhoc_loc_def)
next
  case False
  let ?skip = "q < RESERVED_LOCATION_COUNT \<or> q \<ge> LINE_MAP_MAX_LOCATION_WITH_PACKED_RANGES \<or> q \<ge> LINEMAPS_MACRO_LOWEST_LOCATION s"
  have "\<exists>s1. (if ?skip then Some (True, s) else pure_location_p s q) = Some (True, s1) \<and> same_table s s1"
  proof (cases ?skip)
    case no: False
    then have g: "given_out s q"
      using assms(2,3) by (auto simp: place_def RESERVED_LOCATION_COUNT_def macro_lowest word_le_nat_alt word_less_nat_alt)
    then show ?thesis
      using no pure_place[OF assms(1) g] assms(4) by (auto simp: aligned_def)
  qed (use same_table_refl[OF assms(1)] in auto)
  then obtain s1 where s1: "(if ?skip then Some (True, s) else pure_location_p s q) = Some (True, s1)" "same_table s s1"
    by blast
  note ok1 = same_table_ok[OF s1(2) assms(1)] and same1 = same_table_simps[OF s1(2)]
  have c: "can_be_stored_compactly_p s1 q rng data = can_be_stored_compactly_p s q rng data"
    using same1(7) by (simp add: can_be_stored_compactly_p_def)
  show ?thesis
  proof (cases "can_be_stored_compactly_p s q rng data")
    case True
    have g: "given_out s q"
      by (rule packable_file[OF True assms(2,3)])
    obtain s2 where s2: "pure_location_p s1 q = Some (True, s2)" "same_table s1 s2"
      using pure_place[OF ok1, of q] g same1(1,5) assms(4) by (auto simp: aligned_def)
    note ok2 = same_table_ok[OF s2(2) ok1] and same2 = same_table_simps[OF s2(2)]
    have g2: "given_out s2 q"
      using g same1(5) same2(5) by simp
    obtain s3 where s3: "linemap_lookup s2 q = Some (Some (Ordinary (holder (ordinary s) q)), s3)" "same_table s2 s3"
      and m: "check_ordinary s3 (Ordinary (holder (ordinary s) q)) = Some (ordinary s ! holder (ordinary s) q)"
      using file_lookup[OF ok2 g2] same1(1) same2(1) by auto
    have "same_table s s3"
      using same_table_trans[OF same_table_trans[OF s1(2) s2(2)] s3(2)] .
    moreover have "packable s q rng data \<longleftrightarrow> drop_bit (bits_at s q) (m_finish rng - m_start rng) < push_bit (bits_at s q) 1"
      using True by (simp add: packable_def)
    ultimately show ?thesis
      unfolding get_combined_adhoc_loc_def assms(3) Option.bind.bind_lunit if_not_P[OF False] s1(1) prod.case c if_P[OF True] s2(1) s3(1)
        linemap_assert_simps m Let_def
      by (intro exI[of _ s3]) (simp split: prod.split)
  next
    case no: False
    then have "\<not> packable s q rng data"
      by (simp add: packable_def)
    then show ?thesis
      unfolding get_combined_adhoc_loc_def assms(3) Option.bind.bind_lunit if_not_P[OF False] s1(1) prod.case c if_not_P[OF no]
        linemap_assert_simps Let_def
      using s1(2) by (intro exI[of _ s1]) (simp split: prod.split)
  qed
qed

lemma table_ok_frame:
  assumes "table_ok s" "ordinary s' = ordinary s" "ordinary_cache s' = ordinary_cache s" "macros s' = macros s" "macro_cache s' = macro_cache s"
    "highest_location s' = highest_location s" "highest_line s' = highest_line s" "max_column_hint s' = max_column_hint s"
    "default_range_bits s' = default_range_bits s" "prefix (adhoc s) (adhoc s')"
  shows "table_ok s'" "grows s s'"
proof -
  have "adhoc_locus s' l = Some q" if "adhoc_locus s l = Some q" for l q
    using that assms(10) by (auto simp: adhoc_locus_def elem_Some prefix_def nth_append split: if_splits)
  then show g: "grows s s'"
    using assms by (simp add: grows_def given_out_def)
  have "vm_ok s'"
    using assms(1,4,5) by (intro vm_ok_grows[OF _ g]) (auto simp: table_ok_def vm_ok_def)
  moreover have "lm_ok s'"
    using assms(1) unfolding table_ok_def lm_ok_def bits_ok_def line_ok_def assms(2-9) by simp
  ultimately show "table_ok s'"
    by (simp add: table_ok_def)
qed

lemma adhoc_slot_ok:
  assumes "adhoc_slot s lb = (i, s')"
  shows "i < length (adhoc s')" "i \<le> length (adhoc s)" "adhoc s' ! i = lb" "prefix (adhoc s) (adhoc s')" "s' = s\<lparr>adhoc := adhoc s'\<rparr>"
  using assms by (auto simp: adhoc_slot_def find_Some_iff split: option.splits)

lemma aligned_step: "(p :: nat) dvd a \<Longrightarrow> p dvd b \<Longrightarrow> a < b \<Longrightarrow> a + p \<le> b"
  by (metis dvd_diff_nat dvd_imp_le le_add_diff_inverse less_imp_le nat_add_left_cancel_le zero_less_diff)

text \<open>A location below the macro maps that is not reserved is one in a file.\<close>

lemma below_file:
  assumes "valid_location s l" "adhoc_locus s l = Some q" "\<not> q < 2" "q < LINEMAPS_MACRO_LOWEST_LOCATION s"
  shows "given_out s q"
  using assms by (auto simp: place_def macro_lowest word_less_nat_alt)

lemma locus_small: "table_ok s \<Longrightarrow> place s adh res e l \<Longrightarrow> adhoc_locus s l = Some q \<Longrightarrow> unat q < 0x80000000"
  using given_out_bounds(5)[of s q] by (auto simp: place_def table_ok_def word_less_nat_alt)

lemma low_bits:
  assumes "k \<le> 5" "2 ^ k dvd unat q" "unat d < 2 ^ k" "unat q + unat d < 2 ^ 32"
  shows "unat (q + d :: uint) = unat q + unat d" "(q + d) AND (2 ^ k - 1) = d" "(q + d) AND NOT (2 ^ k - 1) = q"
proof -
  have k: "k < 32"
    using assms(1) by simp
  show u: "unat (q + d) = unat q + unat d"
    using assms(4) by (simp add: unat_word_ariths)
  have "(unat q + unat d) mod 2 ^ k = unat d"
    using assms(2,3) by (auto elim: dvdE)
  then show "(q + d) AND (2 ^ k - 1) = d" "(q + d) AND NOT (2 ^ k - 1) = q"
    using u by (simp_all only: word_unat_eq_iff unat_and_size[OF k] unat_and_not_size[OF k])
qed

lemma get_pure_aligned:
  assumes "table_ok s" "valid_location s r" "adhoc_locus s r = Some q" "aligned s q"
  shows "\<exists>s'. get_pure_location s r = Some (q, s')"
proof (cases "q \<ge> LINEMAPS_MACRO_LOWEST_LOCATION s \<or> q < RESERVED_LOCATION_COUNT")
  case False
  then have g: "given_out s q"
    using assms(2,3) by (intro below_file) (auto simp: RESERVED_LOCATION_COUNT_def)
  have "q AND NOT (2 ^ bits_at s q - 1) = q"
    using low_bits(3)[of "bits_at s q" q 0] file_map(2)[OF assms(1) g] assms(4) g unat_less_32[of q] by (simp add: aligned_def)
  then show ?thesis
    using file_lookup[OF assms(1) g] False assms(3) by (auto simp: get_pure_location_def)
qed (use assms(3) in \<open>simp add: get_pure_location_def\<close>)

lemma get_range_aligned:
  assumes "table_ok s" "valid_location s q" "adhoc_locus s q = Some q" "aligned s q"
  shows "\<exists>s'. get_range_from_loc s q = Some (\<lparr>m_start = q, m_finish = q\<rparr>, s')"
proof (cases "q \<ge> RESERVED_LOCATION_COUNT \<and> q < LINEMAPS_MACRO_LOWEST_LOCATION s \<and> q \<le> LINE_MAP_MAX_LOCATION_WITH_PACKED_RANGES")
  case True
  then have g: "given_out s q"
    using assms(2,3) by (intro below_file) (auto simp: RESERVED_LOCATION_COUNT_def)
  have "q AND (2 ^ bits_at s q - 1) = 0"
    using low_bits(2)[of "bits_at s q" q 0] file_map(2)[OF assms(1) g] assms(4) g unat_less_32[of q] by (simp add: aligned_def)
  then show ?thesis
    using file_lookup[OF assms(1) g] True locus_small[OF assms(1-3)] by (auto simp: get_range_from_loc_def simp del: push_bit_and)
next
  case False
  then show ?thesis
    using locus_small[OF assms(1-3)] by (auto simp: get_range_from_loc_def)
qed

text \<open>The location with the columns of the range in its low bits has the map of the location without.\<close>

lemma packed_map:
  assumes "table_ok s" "given_out s q" "2 ^ bits_at s q dvd unat q" "unat q < 0x50000000" "unat d < 2 ^ bits_at s q"
  shows "holder (ordinary s) (q + d) = holder (ordinary s) q" "unat (q + d) = unat q + unat d" "unat q + unat d < 0x50000000"
proof -
  let ?h = "holder (ordinary s) q" and ?k = "bits_at s q"
  have lm: "lm_ok s"
    using assms(1) by (simp add: table_ok_def)
  note g = given_out_bounds[OF lm assms(2)] and f = file_map[OF assms(1,2)]
  have "(2::nat) ^ ?k dvd 2 ^ 5"
    by (rule le_imp_power_dvd[OF f(2)])
  moreover have "(2::nat) ^ 5 dvd 0x50000000"
    by simp
  ultimately have "2 ^ ?k dvd (0x50000000 :: nat)"
    by (rule dvd_trans)
  then show lt: "unat q + unat d < 0x50000000"
    using aligned_step[OF assms(3) _ assms(4)] assms(5) by simp
  then show u: "unat (q + d) = unat q + unat d"
    by (simp add: unat_word_ariths)
  have h: "start_location (ordinary s ! ?h) \<le> q"
    using holder_spec(2)[OF g(1) _ g(3)] g(2) by fastforce
  show "holder (ordinary s) (q + d) = ?h"
  proof (rule holder_eq[OF g(1) f(1)])
    show "start_location (ordinary s ! ?h) \<le> q + d"
      using h u by (simp add: word_le_nat_alt)
    assume n: "Suc ?h < length (ordinary s)"
    then have "unat q < unat (start_location (ordinary s ! Suc ?h))"
      using holder_spec(3)[OF g(1) _ g(3)] g(2) by (fastforce simp: word_less_nat_alt)
    moreover have "2 ^ ?k dvd unat (start_location (ordinary s ! Suc ?h)) \<or> 0x50000000 < unat (start_location (ordinary s ! Suc ?h))"
      using lm n by (simp add: lm_ok_def maps_ok_def)
    ultimately show "q + d < start_location (ordinary s ! Suc ?h)"
      using aligned_step[OF assms(3), of "unat (start_location (ordinary s ! Suc ?h))"] u lt assms(5) by (auto simp: word_less_nat_alt)
  qed
qed

text \<open>Reading back what was packed.\<close>

lemma packed_back:
  assumes "table_ok s" "given_out s q" "2 ^ bits_at s q dvd unat q" "unat q < 0x50000000" "q \<le> e"
    and "2 ^ bits_at s q dvd unat (e - q)" "unat (drop_bit (bits_at s q) (e - q)) < 2 ^ bits_at s q" "e \<le> highest_location s"
    and r: "r = q OR drop_bit (bits_at s q) (e - q)"
  shows "\<exists>s'. get_range_from_loc s r = Some (\<lparr>m_start = q, m_finish = e\<rparr>, s')" "\<exists>s'. get_pure_location s r = Some (q, s')" "given_out s r"
proof -
  let ?k = "bits_at s q" and ?d = "drop_bit (bits_at s q) (e - q)"
  have lm: "lm_ok s" and vm: "vm_ok s"
    using assms(1) by (auto simp: table_ok_def)
  have "unat r = unat (q + ?d)"
    using or_aligned[OF assms(3,7)] packed_map(2)[OF assms(1-4,7)] r by simp
  then have r': "r = q + ?d"
    by (simp only: word_unat_eq_iff)
  note p = packed_map[OF assms(1-4,7), folded r']
  have "unat ?d \<le> unat (e - q)" "unat (e - q) = unat e - unat q" "unat q \<le> unat e"
    using assms(5) by (simp_all add: unat_drop_bit unat_sub word_le_nat_alt)
  then have le: "unat r \<le> unat e" "unat q \<le> unat r"
    using p(2) by linarith+
  then show g: "given_out s r"
    using assms(2,8) by (auto simp: given_out_def word_le_nat_alt)
  note gb = given_out_bounds[OF lm g]
  have low: "r < LINEMAPS_MACRO_LOWEST_LOCATION s"
    using macro_bounds(1)[OF vm order_refl] gb(5) by (simp add: word_less_nat_alt macro_lowest)
  note lb = low_bits[OF file_map(2)[OF assms(1,2)] assms(3,7), folded r']
  have bits: "r AND (2 ^ ?k - 1) = ?d" "r AND NOT (2 ^ ?k - 1) = q"
    using lb p(3) by simp_all
  have "push_bit ?k ?d = e - q"
    using assms(6) unat_less_32[of "e - q"]
    by (simp only: word_unat_eq_iff unsigned_push_bit_eq unat_drop_bit) (simp add: push_bit_eq_mult take_bit_nat_eq_self)
  then have fin: "r - ?d = q" "q + push_bit ?k ?d = e"
    using r' by simp_all
  obtain s' where s': "linemap_lookup s r = Some (Some (Ordinary (holder (ordinary s) q)), s')"
      "check_ordinary s' (Ordinary (holder (ordinary s) q)) = Some (ordinary s ! holder (ordinary s) q)"
    using file_lookup[OF assms(1) g] p(1) by auto
  have "\<not> IS_ADHOC_LOC r" "RESERVED_LOCATION_COUNT \<le> r" "r \<le> LINE_MAP_MAX_LOCATION_WITH_PACKED_RANGES"
    using p(2,3) gb(4) by (simp_all add: RESERVED_LOCATION_COUNT_def LINE_MAP_MAX_LOCATION_WITH_PACKED_RANGES_def word_le_nat_alt)
  then show "\<exists>s'. get_range_from_loc s r = Some (\<lparr>m_start = q, m_finish = e\<rparr>, s')" "\<exists>s'. get_pure_location s r = Some (q, s')"
    using s' low bits fin gb(5) unfolding get_range_from_loc_def get_pure_location_def Let_def
    by (auto simp del: push_bit_and simp: not_le not_less)
qed

text \<open>The four outcomes; the table is in order after each.\<close>

lemma combined_cases:
  assumes "table_ok s" "valid_location s loc" "adhoc_locus s loc = Some q" "aligned s q"
  shows "\<exists>r s'. get_combined_adhoc_loc s loc rng data = Some (r, s') \<and> table_ok s' \<and> grows s s' \<and> ordinary s' = ordinary s \<and>
    macros s' = macros s \<and> highest_location s' = highest_location s \<and>
    (q = 0 \<and> data = 0 \<and> r = 0 \<or>
     packable s q rng data \<and> r = q OR drop_bit (bits_at s q) (m_finish rng - m_start rng) \<or>
     q = m_start rng \<and> q = m_finish rng \<and> data = 0 \<and> r = q \<or>
     (\<exists>i. r = word_of_nat i OR 0x80000000 \<and> i \<le> length (adhoc s) \<and> i < length (adhoc s') \<and>
        adhoc s' ! i = \<lparr>locus = q, src_range = rng, adhoc_data = data\<rparr>))"
proof -
  let ?lb = "\<lparr>locus = q, src_range = rng, adhoc_data = data\<rparr>"
  obtain s1 where s1: "same_table s s1" and r: "get_combined_adhoc_loc s loc rng data = Some
    (if q = 0 \<and> data = 0 then (0, s1)
     else if packable s q rng data
       then (q OR drop_bit (bits_at s q) (m_finish rng - m_start rng), s1\<lparr>num_optimized_ranges := num_optimized_ranges s1 + 1\<rparr>)
     else if q = m_start rng \<and> q = m_finish rng \<and> data = 0 then (q, s1)
     else (let s2 = (if data = 0 then s1\<lparr>num_unoptimized_ranges := num_unoptimized_ranges s1 + 1\<rparr> else s1);
               (i, s3) = adhoc_slot s2 ?lb
           in (word_of_nat i OR 0x80000000, s3)))"
    using combined_result[OF assms] by blast
  note ok = same_table_ok[OF s1 assms(1)] and same = same_table_simps[OF s1]
  have hi: "highest_location s1 = highest_location s"
    using s1 by (auto simp: same_table_def)
  have g: "grows s s'" if "grows s1 s'" for s'
    using that same_table_grows[OF s1] by (simp add: grows_def)
  consider (zero) "q = 0 \<and> data = 0" | (pack) "\<not> (q = 0 \<and> data = 0)" "packable s q rng data"
    | (plain) "\<not> (q = 0 \<and> data = 0)" "\<not> packable s q rng data" "q = m_start rng \<and> q = m_finish rng \<and> data = 0"
    | (entry) "\<not> (q = 0 \<and> data = 0)" "\<not> packable s q rng data" "\<not> (q = m_start rng \<and> q = m_finish rng \<and> data = 0)"
    by blast
  then show ?thesis
  proof cases
    case pack
    let ?s' = "s1\<lparr>num_optimized_ranges := num_optimized_ranges s1 + 1\<rparr>"
    have "table_ok ?s'" "grows s1 ?s'"
      by (rule table_ok_frame[OF ok]; simp)+
    then show ?thesis
      using r pack g same hi by simp
  next
    case entry
    let ?s2 = "if data = 0 then s1\<lparr>num_unoptimized_ranges := num_unoptimized_ranges s1 + 1\<rparr> else s1"
    obtain i s3 where sl: "adhoc_slot ?s2 ?lb = (i, s3)"
      by fastforce
    note a = adhoc_slot_ok[OF sl]
    have f: "ordinary s3 = ordinary s1" "ordinary_cache s3 = ordinary_cache s1" "macros s3 = macros s1" "macro_cache s3 = macro_cache s1"
      "highest_location s3 = highest_location s1" "highest_line s3 = highest_line s1" "max_column_hint s3 = max_column_hint s1"
      "default_range_bits s3 = default_range_bits s1" "adhoc ?s2 = adhoc s1"
      by (subst a(5), simp)+ simp
    have "table_ok s3" "grows s1 s3"
      using table_ok_frame[OF ok f(1-8)] a(4) f(9) by simp_all
    then show ?thesis
      using r entry g same hi sl a(1-3) f by (auto simp: Let_def)
  qed (use r ok g same hi in auto)
qed

lemma packable_back:
  assumes "table_ok s" "valid_location s loc" "adhoc_locus s loc = Some q" "aligned s q" "valid_location s (m_finish rng)"
    and "given_out s q \<Longrightarrow> m_start rng = q \<Longrightarrow> 2 ^ bits_at s q dvd unat (m_finish rng - q)"
    and pack: "packable s q rng data" "r = q OR drop_bit (bits_at s q) (m_finish rng - m_start rng)"
    and s': "table_ok s'" "ordinary s' = ordinary s" "highest_location s' = highest_location s"
  shows "valid_location s' r \<and> (\<exists>t. get_range_from_loc s' r = Some (rng, t)) \<and> (\<exists>t. get_pure_location s' r = Some (q, t)) \<and> data = 0"
proof -
  have compact: "can_be_stored_compactly_p s q rng data"
    using pack(1) by (simp add: packable_def)
  then have t: "data = 0" "m_start rng = q" "q \<le> m_finish rng" "unat q < 0x50000000" "m_finish rng < LINEMAPS_MACRO_LOWEST_LOCATION s" "\<not> q < 2"
    by (auto simp: can_be_stored_compactly_p_def Let_def LINE_MAP_MAX_LOCATION_WITH_PACKED_RANGES_def RESERVED_LOCATION_COUNT_def
        word_less_nat_alt word_le_nat_alt)
  have rng: "\<lparr>m_start = q, m_finish = m_finish rng\<rparr> = rng"
    using t(2) by (intro source_range.equality) auto
  have go: "given_out s' = given_out s"
    by (rule given_out_same[OF s'(2,3)])
  have g: "given_out s q"
    by (rule packable_file[OF compact assms(2,3)])
  have "unat (m_finish rng) < 0x80000000"
    using t(5) macro_bounds(2)[of s "length (macros s)"] assms(1) by (simp add: table_ok_def word_less_nat_alt macro_lowest)
  then have "adhoc_locus s (m_finish rng) = Some (m_finish rng)"
    by (simp add: adhoc_locus_def)
  then have "given_out s (m_finish rng)"
    using t(3,5,6) by (intro below_file[OF assms(5)]) auto
  then have "m_finish rng \<le> highest_location s'"
    using s'(3) by (simp add: given_out_def)
  moreover have "unat (drop_bit (bits_at s q) (m_finish rng - q)) < 2 ^ bits_at s q"
    using pack(1) t(2) file_map(2)[OF assms(1) g] by (simp add: packable_def word_less_nat_alt unat_exp)
  ultimately have "\<exists>t. get_range_from_loc s' r = Some (rng, t)" "\<exists>t. get_pure_location s' r = Some (q, t)" "given_out s' r"
    using packed_back[of s' q "m_finish rng" r] s'(1,2) go g t(2-4) assms(4) assms(6)[OF g t(2)] pack(2) rng
    by (simp_all add: aligned_def)
  moreover from this(3) have "adhoc_locus s' r = Some r"
    using s'(1) given_out_bounds(5)[of s' r] by (simp add: table_ok_def)
  ultimately show ?thesis
    using t(1) by (simp add: place_def)
qed

section \<open>Sequences of calls\<close>

text \<open>
  The calls that change the table. The maps of macros get locations that exist when the expansion
  begins; an entry of the lookaside table is not put on top of a virtual location there.
\<close>

inductive table_call :: "line_maps \<Rightarrow> line_maps \<Rightarrow> bool" where
  in_file: "call s s' \<Longrightarrow> table_call s s'"
| enter: "place s False False (macro_end (macros s) (length (macros s))) expn \<Longrightarrow> unat n \<le> unat (LINEMAPS_MACRO_LOWEST_LOCATION s) \<Longrightarrow>
    linemap_enter_macro s node expn n = (r, s') \<Longrightarrow> table_call s s'"
| macro_token: "i < length (macros s) \<Longrightarrow> place s False True (macro_end (macros s) i) orig \<Longrightarrow>
    place s False True (macro_end (macros s) i) parm \<Longrightarrow> linemap_add_macro_token s i k orig parm = Some (loc, s') \<Longrightarrow> table_call s s'"
| combine: "valid_location s loc \<Longrightarrow> adhoc_locus s loc = Some q \<Longrightarrow> aligned s q \<Longrightarrow>
    get_combined_adhoc_loc s loc rng data = Some (r, s') \<Longrightarrow> table_call s s'"
| resolve: "valid_location s loc \<Longrightarrow> linemap_resolve_location s loc kind = Some (l, r, s') \<Longrightarrow> table_call s s'"

lemma valid_locus: "valid_location s loc \<Longrightarrow> \<exists>q. adhoc_locus s loc = Some q"
  by (auto simp: place_def split: option.splits)

lemma table_call_ok: "table_call s s' \<Longrightarrow> table_ok s \<Longrightarrow> table_ok s'"
proof (induction rule: table_call.induct)
  case (in_file s s')
  then have ok: "lm_ok s'" and e: "extends s s'"
    using call_ok[of s s'] by (auto simp: table_ok_def)
  then have "grows s s'"
    using adhoc_locus_same[of s' s] by (simp add: grows_def extends_def)
  then have "vm_ok s'"
    using in_file.prems e by (intro vm_ok_grows[of s s']) (auto simp: table_ok_def vm_ok_def extends_def)
  then show ?case
    using ok by (simp add: table_ok_def)
next
  case (enter s expn n node r s')
  then show ?case
    using enter_macro_ok by blast
next
  case (macro_token i s orig parm k loc s')
  then show ?case
    using add_token_ok by blast
next
  case (combine s loc q rng data r s')
  then show ?case
    using combined_cases[OF combine.prems combine.hyps(1-3), of rng data] by auto
next
  case (resolve s loc kind l r s')
  then show ?case
    using valid_locus[OF resolve.hyps(1)] resolve_ok[OF resolve.prems resolve.hyps(1), of _ kind] same_table_ok by fastforce
qed

lemma table_calls_ok: "table_call\<^sup>*\<^sup>* s s' \<Longrightarrow> table_ok s \<Longrightarrow> table_ok s'"
  by (induction rule: rtranclp_induct) (use table_call_ok in blast)+

lemma main_file_table: "d \<le> 5 \<Longrightarrow> table_ok (main_file d sys n line)"
  using main_file_ok(2)[of d sys n line] by (simp add: table_ok_def vm_ok_def main_file_def push_map_def linemap_init_def)

lemma expansion_line_ok:
  assumes "table_ok s" "valid_location s loc"
  shows "\<exists>n t. linemap_get_expansion_line s loc = Some (n, t)" "\<exists>f t. linemap_get_expansion_filename s loc = Some (f, t)"
proof -
  obtain q where q: "adhoc_locus s loc = Some q"
    using valid_locus[OF assms(2)] by blast
  have "(\<exists>n t. linemap_get_expansion_line s loc = Some (n, t)) \<and> (\<exists>f t. linemap_get_expansion_filename s loc = Some (f, t))"
  proof (cases "q < 2")
    case True
    then show ?thesis
      using q by (simp add: linemap_get_expansion_line_def linemap_get_expansion_filename_def RESERVED_LOCATION_COUNT_def)
  next
    case False
    have "valid_location s q"
      using place_mono[OF locus_place(2)[OF assms q], of s] by simp
    then obtain l r s' where r: "linemap_macro_loc_to_exp_point s q = Some (l, Some r, s')" "same_table s s'" "resolved s False l (Some r)"
      using exp_point_ok[OF assms(1) _ locus_place(1)[OF assms q] False] by blast
    obtain p where p: "given_out s p" "r = Ordinary (holder (ordinary s) p)"
      using r(3) by (auto simp: resolved_def split: option.splits)
    have "check_ordinary s' r = Some (ordinary s ! holder (ordinary s) p)"
      using p(2) file_map(1)[OF assms(1) p(1)] same_table_simps(1)[OF r(2)] by (simp add: check_ordinary_def)
    then show ?thesis
      using q False r(1) by (simp add: linemap_get_expansion_line_def linemap_get_expansion_filename_def RESERVED_LOCATION_COUNT_def)
  qed
  then show "\<exists>n t. linemap_get_expansion_line s loc = Some (n, t)" "\<exists>f t. linemap_get_expansion_filename s loc = Some (f, t)"
    by blast+
qed

section \<open>Properties\<close>

text \<open>
  C7: Every virtual location is resolved. Whatever files were entered, lines started, macros expanded,
  tokens of expansions located and ranges combined since the main file was entered, the resolution of a location
  that was given out comes to an end, no assertion fails, and the result is a reserved location or one in
  a file that is expanded to its file, line and column. It is reached from the location by going
  from token to token in the way asked for: to the point of expansion, the spelling, or the
  definition of the macro. So does the test for a system header, which tells the kind of the file in which the token
  is spelled, or in which a built-in macro is expanded.
\<close>

theorem virtual_resolution:
  assumes "d \<le> 5" "linemap_add (linemap_init d) LC_ENTER sys (Some n) line = Some (i, s0)" "table_call\<^sup>*\<^sup>* s0 s"
    and "valid_location s loc" "adhoc_locus s loc = Some q"
  shows "(\<exists>l r s' p x. linemap_resolve_location s loc kind = Some (l, r, s') \<and>
      (follows s (origin_of kind))\<^sup>*\<^sup>* (if kind = LRK_MACRO_EXPANSION_POINT \<and> \<not> q < 2 then q else loc) l \<and>
      adhoc_locus s l = Some p \<and> linemap_expand_location s' r l = Some x \<and>
      (xfile x = None \<and> p < 2 \<or>
       given_out s p \<and> (\<exists>f n c y. decode s p = (f, n, c, y) \<and> xfile x = Some f \<and> xline x = n \<and> xcolumn x = c))) \<and>
    (\<exists>y s' l p. linemap_location_in_system_header_p s loc = Some (y, s') \<and> (follows s header_of)\<^sup>*\<^sup>* q l \<and>
      adhoc_locus s l = Some p \<and> (p < 2 \<and> y = 0 \<or> given_out s p \<and> (\<exists>f n c. decode s p = (f, n, c, y)))) \<and>
    (\<exists>n t. linemap_get_expansion_line s loc = Some (n, t)) \<and> (\<exists>f t. linemap_get_expansion_filename s loc = Some (f, t))"
proof (intro conjI)
  have ok: "table_ok s"
    using table_calls_ok[OF assms(3)] main_file_table[OF assms(1)] main_file_ok(1)[OF assms(1), of sys n line] assms(2) by simp
  obtain l r s' where r: "linemap_resolve_location s loc kind = Some (l, r, s')" "same_table s s'" "resolved s True l r"
      "(follows s (origin_of kind))\<^sup>*\<^sup>* (if kind = LRK_MACRO_EXPANSION_POINT \<and> \<not> q < 2 then q else loc) l"
    using resolve_ok[OF ok assms(4,5), of kind] by blast
  obtain p where "adhoc_locus s l = Some p"
    using r(3) by (auto simp: resolved_def split: option.splits)
  then show "\<exists>l r s' p x. linemap_resolve_location s loc kind = Some (l, r, s') \<and>
      (follows s (origin_of kind))\<^sup>*\<^sup>* (if kind = LRK_MACRO_EXPANSION_POINT \<and> \<not> q < 2 then q else loc) l \<and>
      adhoc_locus s l = Some p \<and> linemap_expand_location s' r l = Some x \<and>
      (xfile x = None \<and> p < 2 \<or>
       given_out s p \<and> (\<exists>f n c y. decode s p = (f, n, c, y) \<and> xfile x = Some f \<and> xline x = n \<and> xcolumn x = c))"
    using r expand_resolved[OF ok r(2,3)] by blast
  show "\<exists>y s' l p. linemap_location_in_system_header_p s loc = Some (y, s') \<and> (follows s header_of)\<^sup>*\<^sup>* q l \<and>
      adhoc_locus s l = Some p \<and> (p < 2 \<and> y = 0 \<or> given_out s p \<and> (\<exists>f n c. decode s p = (f, n, c, y)))"
    using system_header_ok[OF ok assms(4,5)] by blast
  show "\<exists>n t. linemap_get_expansion_line s loc = Some (n, t)" "\<exists>f t. linemap_get_expansion_filename s loc = Some (f, t)"
    using expansion_line_ok[OF ok assms(4)] by blast+
qed

text \<open>The token of a macro that is expanded at the start of the main file.\<close>

theorem virtual_resolution_witness:
  "\<exists>s l r s' x. table_call\<^sup>*\<^sup>* (main_file 5 0 ''a.c'' 1) s \<and> length (macros s) = 1 \<and>
     linemap_resolve_location s 0x7FFFFFFF LRK_SPELLING_LOCATION = Some (l, r, s') \<and> linemap_expand_location s' r l = Some x"
proof -
  let ?s0 = "main_file 5 0 ''a.c'' 1"
  let ?m = "\<lparr>macro_start = 0x7FFFFFFF, n_tokens = 1, macro_node = ''M'', macro_locations = [0, 0], expansion = 32\<rparr>"
  let ?s1 = "?s0\<lparr>macros := [?m], macro_cache := 0\<rparr>"
  let ?s2 = "?s0\<lparr>macros := [?m\<lparr>macro_locations := [32, 32]\<rparr>], macro_cache := 0\<rparr>"
  have s0: "macros ?s0 = []" "adhoc ?s0 = []" "highest_location ?s0 = 32" "start_location (hd (ordinary ?s0)) = 32"
    by (simp_all add: main_file_def push_map_def new_map_def next_start_def linemap_init_def location_limits RESERVED_LOCATION_COUNT_def)
  have a: "adhoc_locus s 32 = Some 32" for s
    by simp
  have two: "replicate 2 (0 :: uint) = [0, 0]"
    by (simp add: numeral_2_eq_2)
  have p: "place ?s0 False False e 32" "place ?s1 False True e 32" for e
    unfolding place_def a using s0 by (simp_all add: given_out_def)
  have "linemap_enter_macro ?s0 ''M'' 32 1 = (Some 0, ?s1)" "unat (1 :: uint) \<le> unat (LINEMAPS_MACRO_LOWEST_LOCATION ?s0)"
    using s0 by (simp_all add: two linemap_enter_macro_def LINEMAPS_MACRO_LOWEST_LOCATION_def MAX_LOCATION_T_def LINE_MAP_MAX_LOCATION_def)
  from table_call.enter[OF p(1) this(2,1)] have "table_call ?s0 ?s1" .
  moreover have "linemap_add_macro_token ?s1 0 0 32 32 = Some (0x7FFFFFFF, ?s2)"
    by (simp add: linemap_add_macro_token_def)
  from table_call.macro_token[OF _ p(2) p(2) this] have "table_call ?s1 ?s2"
    by simp
  ultimately have calls: "table_call\<^sup>*\<^sup>* ?s0 ?s2"
    by (rule rtranclp.rtrancl_into_rtrancl[OF r_into_rtranclp])
  have loc: "adhoc_locus ?s2 0x7FFFFFFF = Some 0x7FFFFFFF"
    by (simp add: adhoc_locus_def IS_ADHOC_LOC_def MAX_LOCATION_T_def)
  have "valid_location ?s2 0x7FFFFFFF"
    unfolding place_def loc by (simp add: macro_end_def)
  from virtual_resolution[of 5 0 "''a.c''" 1 "Some 0" ?s0 ?s2, OF _ _ calls this loc, of LRK_SPELLING_LOCATION]
  show ?thesis
    using calls main_file_ok(1)[of 5 0 "''a.c''" 1] by auto
qed

text \<open>
  C11: A location combined with a range and a pointer gives them back: the range, the location without it, and
  the pointer. This holds in every table that is in order, whether the range fits into the low bits of the
  location, is the location itself, or goes to the lookaside table. Asked: location and end of the range have been given out, a
  location in a file is at the start of a column, and the range covers whole columns when it begins at
  the location. The unknown location alone gives only its own range back.
\<close>

theorem range_roundtrip:
  assumes "table_ok s" "valid_location s loc" "adhoc_locus s loc = Some q" "aligned s q" "valid_location s (m_finish rng)"
    and "given_out s q \<Longrightarrow> m_start rng = q \<Longrightarrow> 2 ^ bits_at s q dvd unat (m_finish rng - q)"
    and "q = 0 \<Longrightarrow> data = 0 \<Longrightarrow> m_start rng = 0 \<and> m_finish rng = 0" "length (adhoc s) < 0x80000000"
  shows "\<exists>r s'. get_combined_adhoc_loc s loc rng data = Some (r, s') \<and> table_ok s' \<and> valid_location s' r \<and>
    (\<exists>t. get_range_from_loc s' r = Some (rng, t)) \<and> (\<exists>t. get_pure_location s' r = Some (q, t)) \<and>
    (data \<noteq> 0 \<longrightarrow> get_data_from_adhoc_loc s' r = Some data)"
proof -
  obtain r s' where c: "get_combined_adhoc_loc s loc rng data = Some (r, s')" "table_ok s'" "grows s s'" "ordinary s' = ordinary s"
      "macros s' = macros s" "highest_location s' = highest_location s"
    and r: "q = 0 \<and> data = 0 \<and> r = 0 \<or>
     packable s q rng data \<and> r = q OR drop_bit (bits_at s q) (m_finish rng - m_start rng) \<or>
     q = m_start rng \<and> q = m_finish rng \<and> data = 0 \<and> r = q \<or>
     (\<exists>i. r = word_of_nat i OR 0x80000000 \<and> i \<le> length (adhoc s) \<and> i < length (adhoc s') \<and>
        adhoc s' ! i = \<lparr>locus = q, src_range = rng, adhoc_data = data\<rparr>)"
    using combined_cases[OF assms(1-4), of rng data] by blast
  have go: "given_out s' = given_out s"
    using c(4,6) by (rule given_out_same)
  then have al: "aligned s' q"
    using assms(4) c(4) by (simp add: aligned_def)
  have q: "valid_location s' q" "adhoc_locus s' q = Some q"
    using place_mono[OF locus_place(2)[OF assms(1-3)] c(3) order_refl, of True True] locus_place(1)[OF assms(1-3)] c(3,5)
    by (simp_all add: grows_def)
  consider (plain) "q = m_start rng" "q = m_finish rng" "data = 0" "r = q"
    | (pack) "packable s q rng data" "r = q OR drop_bit (bits_at s q) (m_finish rng - m_start rng)"
    | (entry) i where "r = word_of_nat i OR 0x80000000" "i \<le> length (adhoc s)" "i < length (adhoc s')"
        "adhoc s' ! i = \<lparr>locus = q, src_range = rng, adhoc_data = data\<rparr>"
    using r assms(7) by auto
  then have "valid_location s' r \<and> (\<exists>t. get_range_from_loc s' r = Some (rng, t)) \<and> (\<exists>t. get_pure_location s' r = Some (q, t)) \<and>
    (data \<noteq> 0 \<longrightarrow> get_data_from_adhoc_loc s' r = Some data)"
  proof cases
    case plain
    then have "\<lparr>m_start = q, m_finish = q\<rparr> = rng"
      by (intro source_range.equality) auto
    then show ?thesis
      using get_range_aligned[OF c(2) q al] get_pure_aligned[OF c(2) q al] q(1) plain(3,4) by simp
  next
    case pack
    then show ?thesis
      using packable_back[OF assms(1-6) pack c(2,4,6)] by simp
  next
    case entry
    have n: "i < 0x80000000"
      using entry(2) assms(8) by simp
    note a = adhoc_number[OF n, folded entry(1)]
    have l: "adhoc_locus s' r = Some q"
      using a entry(3,4) by (simp add: adhoc_locus_def)
    then have v: "valid_location s' r"
      using q by (auto simp: place_def)
    show ?thesis
      using get_pure_aligned[OF c(2) v l al] v a entry(3,4) by (simp add: get_range_from_loc_def get_data_from_adhoc_loc_def)
  qed
  then show ?thesis
    using c(1,2) by blast
qed

theorem range_roundtrip_witness:
  "\<exists>r s' t. get_combined_adhoc_loc used_up 96 \<lparr>m_start = 96, m_finish = 160\<rparr> 0 = Some (r, s') \<and>
     get_range_from_loc s' r = Some (\<lparr>m_start = 96, m_finish = 160\<rparr>, t)"
proof -
  have "table_ok used_up"
    by (simp add: table_ok_def vm_ok_def used_up_def lm_ok_def maps_ok_def bits_ok_def line_ok_def)
  moreover have "given_out used_up 96" "given_out used_up 160" "bits_at used_up 96 = 5"
    by (simp_all add: used_up_def given_out_def holder_def)
  moreover have "adhoc_locus used_up 96 = Some 96" "adhoc_locus used_up 160 = Some 160" "length (adhoc used_up) = 0"
    by (simp_all add: used_up_def)
  ultimately show ?thesis
    using range_roundtrip[of used_up 96 96 "\<lparr>m_start = 96, m_finish = 160\<rparr>" 0] by (auto simp: place_def aligned_def)
qed

end
