(* ===== verification/Spec2Isabelle.thy ===== *)
theory Spec2Isabelle
  imports Cpp_Group Cpp_Literal Cpp_Symtab Cpp_Virtual
begin

text \<open>
  The preprocessor library of GCC for OS/2, \<^verbatim>\<open>src/libcpp\<close>.

  \<^bold>\<open>The program.\<close> The repository is GCC 9.2 with the changes for OS/2, a 32-bit host. Every
  translation unit goes through libcpp: a reader (\<^verbatim>\<open>struct cpp_reader\<close>) lexes and macro-expands tokens,
  handles the directives, evaluates the expressions of \<^verbatim>\<open>#if\<close> in an arithmetic of its own, and hands
  the lines that are not skipped on to the compiler. This development follows a file from its
  lines to the arithmetic of its conditions.

  \<^bold>\<open>Theories.\<close>
  \<^item> \<^verbatim>\<open>Prelude\<close>: characters, positions in strings, bounds and bits of words.
  \<^item> \<^verbatim>\<open>Cpp_Reader\<close> (\<^verbatim>\<open>cpplib.h\<close>, \<^verbatim>\<open>internal.h\<close>, \<^verbatim>\<open>init.c\<close>): token types, tokens, options and language defaults,
    identifiers, the reader, diagnostics, the delivery of tokens, creation and sanity checks. The
    tokens the lexer and macro expansion will deliver on the current line are a member of the
    reader, and so are, as functions, the file system and the interpretation of character constants.
  \<^item> \<^verbatim>\<open>Cpp_Num\<close>, \<^verbatim>\<open>Cpp_Arith\<close>, \<^verbatim>\<open>Cpp_Div\<close> (\<^verbatim>\<open>expr.c\<close>, \<^verbatim>\<open>num_*\<close>): the arithmetic on numbers of two 64-bit parts at
    any precision, that it is C's, and where it is not.
  \<^item> \<^verbatim>\<open>Cpp_Number\<close>, \<^verbatim>\<open>Cpp_Integer\<close>, \<^verbatim>\<open>Cpp_Classify\<close> (\<^verbatim>\<open>expr.c\<close>): classification and value of numeric constants.
  \<^item> \<^verbatim>\<open>Cpp_Assert\<close> (\<^verbatim>\<open>directives.c\<close>): \<^verbatim>\<open>#assert\<close> and \<^verbatim>\<open>#unassert\<close>; the locale \<^verbatim>\<open>answer_chain\<close> is what they
    rely on of a chain of answers.
  \<^item> \<^verbatim>\<open>Cpp_Expr\<close> (\<^verbatim>\<open>expr.c\<close>): operands, the operator table, reduction and the parser \<^verbatim>\<open>_cpp_parse_expr\<close>.
  \<^item> \<^verbatim>\<open>Cpp_Eval\<close>, \<^verbatim>\<open>Cpp_Parse\<close>: expressions as trees with an evaluator that walks them, and that the
    operator-precedence parser simulates it on the tokens of the tree.
  \<^item> \<^verbatim>\<open>Cpp_Meaning\<close>, \<^verbatim>\<open>Cpp_Operand\<close>: the value of a tree in the integers of C; the locale \<^verbatim>\<open>number_laws\<close>
    is what the evaluator relies on of the arithmetic.
  \<^item> \<^verbatim>\<open>Cpp_Safe\<close>: the parser on arbitrary tokens; the locale \<^verbatim>\<open>value_laws\<close> is what the shape of its
    stack relies on.
  \<^item> \<^verbatim>\<open>Cpp_Conditional\<close> (\<^verbatim>\<open>directives.c\<close>, \<^verbatim>\<open>files.c\<close>, \<^verbatim>\<open>lex.c\<close>): the table of directives, \<^verbatim>\<open>_cpp_handle_directive\<close>,
    the conditionals and their stack as a state machine, the lines of a file.
  \<^item> \<^verbatim>\<open>Cpp_Group\<close>: conditional groups as the C standard structures them.

  \<^item> \<^verbatim>\<open>Cpp_Utf\<close> (\<^verbatim>\<open>charset.c\<close>): one character between UTF-8, UTF-16 and UTF-32.
  \<^item> \<^verbatim>\<open>Cpp_Convert\<close>: the loop that converts a string into a buffer that grows; the locale
    \<^verbatim>\<open>one_conversion\<close> is what it relies on of a conversion of one character, \<^verbatim>\<open>read_write\<close> a conversion
    that reads a code point and writes it, and each of the four conversions is an interpretation.
  \<^item> \<^verbatim>\<open>Cpp_Ucnid\<close>, \<^verbatim>\<open>Cpp_Ucn\<close> (\<^verbatim>\<open>ucnid.h\<close>, \<^verbatim>\<open>charset.c\<close>): the tables of Unicode characters, the search in them, and
    the validity of universal character names.
  \<^item> \<^verbatim>\<open>Cpp_String\<close>, \<^verbatim>\<open>Cpp_Literal\<close> (\<^verbatim>\<open>charset.c\<close>, \<^verbatim>\<open>macro.c\<close>): the converters of a reader, escape sequences, string
    literals and character constants; the locale \<^verbatim>\<open>charset_converter\<close> is what the interpretation of a
    literal relies on of a conversion, for the conversions of libcpp proved and for \<^verbatim>\<open>iconv\<close> asked.

  \<^item> \<^verbatim>\<open>Cpp_Symtab\<close> (\<^verbatim>\<open>symtab.c\<close>, \<^verbatim>\<open>symtab.h\<close>, \<^verbatim>\<open>identifiers.c\<close>): the hash table of identifiers, with open addressing, deleted slots
    and growing. It refines a map from spellings to nodes; the locale \<^verbatim>\<open>interning\<close> is what a sequence of
    lookups relies on, and its interpretation shows that a node stands for its spelling, which is
    how the other theories treat identifiers.
  \<^item> \<^verbatim>\<open>Cpp_Linemap\<close> (\<^verbatim>\<open>line-map.c\<close>, \<^verbatim>\<open>line-map.h\<close>): the table of line maps, from which a location of 32 bits gets its file,
    line and column; the maps of macro expansions, and the lookaside table for ranges and other data.
  \<^item> \<^verbatim>\<open>Cpp_Location\<close>: locations in files. The calls of a reader are the steps of a state machine with an
    invariant; the meaning of a location given out stays.
  \<^item> \<^verbatim>\<open>Cpp_Virtual\<close>: locations in macro expansions and ranges; the locale \<^verbatim>\<open>unwinding\<close> is what the four loops that
    leave one expansion after the other have in common.

  \<^bold>\<open>Interaction.\<close> \<^verbatim>\<open>lex_lines\<close> reads the lines of a file; a line that is a directive goes to
  \<^verbatim>\<open>handle_directive\<close>, which calls a handler; \<^verbatim>\<open>do_if\<close> and \<^verbatim>\<open>do_elif\<close> call \<^verbatim>\<open>cpp_parse_expr\<close>, which calls
  \<^verbatim>\<open>eval_token\<close> (numbers, \<^verbatim>\<open>defined\<close>, assertions) and \<^verbatim>\<open>reduce\<close>, which calls the arithmetic.

  The lexer hands literals to \<^verbatim>\<open>cpp_interpret_string\<close> and \<^verbatim>\<open>cpp_interpret_charconst\<close>, which convert runs of
  characters with the converter of the literal's type and escapes one by one. The evaluator of
  \<^verbatim>\<open>#if\<close> takes the value of a character constant as a function of the token.

  The lexer makes a node of every identifier by \<^verbatim>\<open>cpp_lookup\<close> and a location of every token by
  \<^verbatim>\<open>linemap_line_start\<close>, \<^verbatim>\<open>linemap_position_for_column\<close> and \<^verbatim>\<open>get_combined_adhoc_loc\<close>; entering and leaving a file calls
  \<^verbatim>\<open>linemap_add\<close>, expanding a macro \<^verbatim>\<open>linemap_enter_macro\<close> and \<^verbatim>\<open>linemap_add_macro_token\<close>.

  \<^bold>\<open>Loops.\<close> The loops that could run forever are option-valued: the search for the high bit in
  \<^verbatim>\<open>num_div_op\<close>, where the outcome \<^verbatim>\<open>Diverges\<close> of the parser comes from, the loop that converts a string,
  the binary search in the Unicode table, the loop over a string literal, the searches in the hash table, and
  the loops that resolve a virtual location; all but the first are proved to return. All others are terminating functions, and no fuel is used. \<^verbatim>\<open>Undefined\<close> is a read of a
  value that was not stored, and \<^verbatim>\<open>None\<close> in the character sets also an access outside an array, in the line maps also an assertion that fails.

  \<^bold>\<open>Not modelled.\<close> The lexer and macro expansion, traditional mode, \<^verbatim>\<open>#include\<close> and the search for files,
  pragmas, precompiled headers, the output of diagnostics: what they deliver is an argument. The
  conversion by the system's \<^verbatim>\<open>iconv\<close> is an argument too; the source ranges of the characters of a
  string are not followed. Of the line maps the comparison of locations, their presentation in diagnostics
  (\<^verbatim>\<open>rich_location\<close>) and the dumps are left out, of the hash table the statistics. The compiler proper, its run-time libraries and the imported
  libraries are outside the library.
\<close>

end
